(* ===== verification/Hold.thy ===== *)
theory Hold
  imports Prelude
begin

text \<open>
  The \<open>for\<close> hold of a trigger, \<open>internal/rules/eval/hold.go\<close>: a bounded hold fires once its matched
  level has lasted for the declared span of monotonic time, a debounce hold once no further change
  has arrived for that span.  The clock is read as one monotonic millisecond value per step.  The
  reference definitions decide the same question from the whole history of steps.
\<close>

section \<open>Operations\<close>

datatype hold_kind = BoundedHold | DebounceHold

record hold =
  h_kind :: hold_kind
  h_for :: int
  h_armed :: bool
  h_start :: int
  h_fired :: bool
  h_last :: bool

definition NewHold :: "hold_kind \<Rightarrow> int \<Rightarrow> hold" where
  "NewHold k forSeconds =
     (let f = (if forSeconds < 0 then 0 else forSeconds)
      in \<lparr>h_kind = k, h_for = i64 (f * 1000), h_armed = False, h_start = 0, h_fired = False, h_last = False\<rparr>)"

definition Seed :: "hold \<Rightarrow> bool \<Rightarrow> hold" where
  "Seed h matched = h\<lparr>h_last := matched\<rparr>"

definition Reset :: "hold \<Rightarrow> hold" where
  "Reset h = h\<lparr>h_armed := False, h_start := 0, h_fired := False, h_last := False\<rparr>"

definition stepBounded :: "hold \<Rightarrow> int \<Rightarrow> bool \<Rightarrow> bool \<times> hold" where
  "stepBounded h now matched =
     (if \<not> matched then (False, h\<lparr>h_armed := False, h_fired := False, h_last := False\<rparr>)
      else (let rising = \<not> h_last h;
                h1 = h\<lparr>h_last := True\<rparr>;
                h2 = (if rising then h1\<lparr>h_armed := True, h_start := now, h_fired := False\<rparr> else h1)
            in if h_armed h2 \<and> \<not> h_fired h2 \<and> h_for h2 \<le> i64 (now - h_start h2)
               then (True, h2\<lparr>h_fired := True\<rparr>) else (False, h2)))"

definition stepDebounce :: "hold \<Rightarrow> int \<Rightarrow> bool \<Rightarrow> bool \<times> hold" where
  "stepDebounce h now changed =
     (if changed
      then (let h1 = h\<lparr>h_armed := True, h_start := now, h_fired := False\<rparr>
            in if h_for h1 = 0 then (True, h1\<lparr>h_fired := True, h_armed := False\<rparr>) else (False, h1))
      else if h_armed h \<and> \<not> h_fired h \<and> h_for h \<le> i64 (now - h_start h)
           then (True, h\<lparr>h_fired := True, h_armed := False\<rparr>) else (False, h))"

definition Step :: "hold \<Rightarrow> int \<Rightarrow> bool \<Rightarrow> bool \<times> hold" where
  "Step h now rawMatched =
     (if h_kind h = DebounceHold then stepDebounce h now rawMatched else stepBounded h now rawMatched)"

text \<open>A run over a list of steps, each a clock reading and a raw match: the fire signal of each step.\<close>

fun run_hold :: "hold \<Rightarrow> (int \<times> bool) list \<Rightarrow> bool list" where
  "run_hold h [] = []"
| "run_hold h ((now, m) # steps) = fst (Step h now m) # run_hold (snd (Step h now m)) steps"

section \<open>References over the whole history\<close>

text \<open>
  A history is the list of steps so far, the newest first.  A bounded hold fires at the newest step
  when its level is matched, the span since the unbroken run of matches began has elapsed, and it had
  not yet elapsed at an earlier step of that run.
\<close>

definition bounded_due :: "int \<Rightarrow> (int \<times> bool) list \<Rightarrow> bool" where
  "bounded_due f past =
     (let r = takeWhile snd past in r \<noteq> [] \<and> f \<le> i64 (fst (hd r) - fst (last r)))"

definition bounded_fires :: "int \<Rightarrow> (int \<times> bool) list \<Rightarrow> bool" where
  "bounded_fires f past \<longleftrightarrow>
     bounded_due f past \<and>
     (\<forall>k. 0 < k \<and> k < length (takeWhile snd past) \<longrightarrow> \<not> bounded_due f (drop k past))"

text \<open>
  A debounce hold fires at the newest step when that step is quiet, the span since the last change has
  elapsed and it had not elapsed at an earlier quiet step; with no span it fires at every change.
\<close>

definition debounce_due :: "int \<Rightarrow> (int \<times> bool) list \<Rightarrow> bool" where
  "debounce_due f past =
     (let q = takeWhile (\<lambda>s. \<not> snd s) past; rest = dropWhile (\<lambda>s. \<not> snd s) past
      in rest \<noteq> [] \<and> (if q = [] then f = 0 else f \<le> i64 (fst (hd q) - fst (hd rest))))"

definition debounce_fires :: "int \<Rightarrow> (int \<times> bool) list \<Rightarrow> bool" where
  "debounce_fires f past \<longleftrightarrow>
     debounce_due f past \<and>
     (\<forall>k. 0 < k \<and> k \<le> length (takeWhile (\<lambda>s. \<not> snd s) past) \<longrightarrow> \<not> debounce_due f (drop k past))"

definition history_fires :: "hold_kind \<Rightarrow> int \<Rightarrow> (int \<times> bool) list \<Rightarrow> bool" where
  "history_fires k f past = (if k = DebounceHold then debounce_fires f past else bounded_fires f past)"

section \<open>The step machine implements the references\<close>

definition bounded_inv :: "int \<Rightarrow> hold \<Rightarrow> (int \<times> bool) list \<Rightarrow> bool" where
  "bounded_inv f h past \<longleftrightarrow>
     (let r = takeWhile snd past in
      h_kind h = BoundedHold \<and> h_for h = f \<and> h_last h = (r \<noteq> []) \<and>
      (r \<noteq> [] \<longrightarrow> h_armed h \<and> h_start h = fst (last r) \<and>
         h_fired h = (\<exists>k < length r. bounded_due f (drop k past))))"

definition debounce_inv :: "int \<Rightarrow> hold \<Rightarrow> (int \<times> bool) list \<Rightarrow> bool" where
  "debounce_inv f h past \<longleftrightarrow>
     (let q = takeWhile (\<lambda>s. \<not> snd s) past; rest = dropWhile (\<lambda>s. \<not> snd s) past in
      h_kind h = DebounceHold \<and> h_for h = f \<and>
      (if rest = [] then \<not> h_armed h
       else h_start h = fst (hd rest) \<and> h_armed h = (\<not> h_fired h) \<and>
            h_fired h = (\<exists>k \<le> length q. debounce_due f (drop k past))))"

definition hold_inv :: "hold_kind \<Rightarrow> int \<Rightarrow> hold \<Rightarrow> (int \<times> bool) list \<Rightarrow> bool" where
  "hold_inv k f h past = (if k = DebounceHold then debounce_inv f h past else bounded_inv f h past)"

lemma ex_lt_Suc: "(\<exists>k < Suc n. P k) \<longleftrightarrow> P 0 \<or> (\<exists>k < n. P (Suc k))"
  using less_Suc_eq_0_disj by auto

lemma all_shift: "(\<forall>k. 0 < k \<and> k < Suc n \<longrightarrow> P k) \<longleftrightarrow> (\<forall>k < n. P (Suc k))"
  by (auto simp: gr0_conv_Suc)

lemma bounded_step:
  assumes "bounded_inv f h past"
  shows "fst (stepBounded h now m) = bounded_fires f ((now, m) # past) \<and>
         bounded_inv f (snd (stepBounded h now m)) ((now, m) # past)"
proof (cases m)
  case False
  with assms show ?thesis
    by (simp add: stepBounded_def bounded_inv_def bounded_fires_def bounded_due_def Let_def)
next
  case True
  let ?r = "takeWhile snd past"
  have due: "bounded_due f ((now, True) # past) \<longleftrightarrow> f \<le> i64 (now - (if ?r = [] then now else fst (last ?r)))"
    by (simp add: bounded_due_def Let_def)
  have "bounded_fires f ((now, True) # past) \<longleftrightarrow>
      bounded_due f ((now, True) # past) \<and> \<not> (\<exists>k < length ?r. bounded_due f (drop k past))"
    using all_shift [of "length ?r" "\<lambda>k. \<not> bounded_due f (drop k ((now, True) # past))"]
    by (simp add: bounded_fires_def)
  then show ?thesis
    using assms True due
    by (cases "?r = []") (auto simp: stepBounded_def bounded_inv_def Let_def ex_lt_Suc)
qed

lemma debounce_step:
  assumes "debounce_inv f h past"
  shows "fst (stepDebounce h now c) = debounce_fires f ((now, c) # past) \<and>
         debounce_inv f (snd (stepDebounce h now c)) ((now, c) # past)"
proof (cases c)
  case True
  with assms show ?thesis
    by (auto simp: stepDebounce_def debounce_inv_def debounce_fires_def debounce_due_def Let_def)
next
  case False
  let ?q = "takeWhile (\<lambda>s. \<not> snd s) past" and ?rest = "dropWhile (\<lambda>s. \<not> snd s) past"
  have due: "debounce_due f ((now, False) # past) \<longleftrightarrow> ?rest \<noteq> [] \<and> f \<le> i64 (now - fst (hd ?rest))"
    by (simp add: debounce_due_def Let_def)
  have none: "\<not> debounce_due f (drop k past)" if "?rest = []" for k
    using that by (auto simp: debounce_due_def Let_def dest: in_set_dropD)
  have "debounce_fires f ((now, False) # past) \<longleftrightarrow>
      debounce_due f ((now, False) # past) \<and> \<not> (\<exists>k \<le> length ?q. debounce_due f (drop k past))"
    using all_shift [of "Suc (length ?q)" "\<lambda>k. \<not> debounce_due f (drop k ((now, False) # past))"]
    by (auto simp: debounce_fires_def less_Suc_eq_le)
  moreover have "(\<exists>k \<le> Suc (length ?q). debounce_due f (drop k ((now, False) # past))) \<longleftrightarrow>
      debounce_due f ((now, False) # past) \<or> (\<exists>k \<le> length ?q. debounce_due f (drop k past))"
    using ex_lt_Suc [of "Suc (length ?q)" "\<lambda>k. debounce_due f (drop k ((now, False) # past))"]
    by (simp add: less_Suc_eq_le)
  ultimately show ?thesis
    using assms False due none
    by (cases "?rest = []") (auto simp: stepDebounce_def debounce_inv_def Let_def)
qed

lemma hold_step:
  assumes "hold_inv k f h past"
  shows "fst (Step h now m) = history_fires k f ((now, m) # past) \<and>
         hold_inv k f (snd (Step h now m)) ((now, m) # past)"
proof (cases "k = DebounceHold")
  case True
  then have "h_kind h = DebounceHold" using assms by (simp add: hold_inv_def debounce_inv_def Let_def)
  then show ?thesis using assms True debounce_step by (simp add: hold_inv_def Step_def history_fires_def)
next
  case False
  then have "h_kind h = BoundedHold" using assms by (simp add: hold_inv_def bounded_inv_def Let_def)
  then show ?thesis using assms False bounded_step by (simp add: hold_inv_def Step_def history_fires_def)
qed

lemma NewHold_inv: "hold_inv k (h_for (NewHold k s)) (NewHold k s) []"
  by (cases k) (simp_all add: hold_inv_def bounded_inv_def debounce_inv_def NewHold_def Let_def)

lemma run_hold_history:
  "hold_inv k f h past \<Longrightarrow>
   run_hold h steps = map (\<lambda>i. history_fires k f (rev (take (Suc i) steps) @ past)) [0..<length steps]"
proof (induction steps arbitrary: h past)
  case Nil
  then show ?case by simp
next
  case (Cons s steps)
  obtain now m where s: "s = (now, m)" by (cases s)
  have st: "fst (Step h now m) = history_fires k f ((now, m) # past)"
    "hold_inv k f (snd (Step h now m)) ((now, m) # past)"
    using hold_step [OF Cons.prems] by auto
  have "[0..<length (s # steps)] = 0 # map Suc [0..<length steps]"
    by (simp add: upt_conv_Cons map_Suc_upt del: upt_Suc)
  then show ?case
    using st(1) Cons.IH [OF st(2)] by (simp add: s o_def)
qed

lemma NewHold_for: "0 \<le> s \<Longrightarrow> s * 1000 < 2 ^ 63 \<Longrightarrow> h_for (NewHold k s) = s * 1000"
  by (simp add: NewHold_def Let_def i64_id in_i64_def)

section \<open>Properties\<close>

text \<open>The hold machine implements its contract on every sequence of steps: at each step a bounded hold
  fires exactly when the span since its unbroken run of matches began has elapsed for the first time
  in that run, a debounce hold exactly when the span since the last change has elapsed for the first
  time.\<close>

theorem run_hold_correct:
  "run_hold (NewHold k s) steps =
     map (\<lambda>i. history_fires k (h_for (NewHold k s)) (rev (take (Suc i) steps))) [0..<length steps]"
  using run_hold_history [OF NewHold_inv] by simp

text \<open>A seeded level that is already matched never fires until it has been broken.\<close>

lemma seeded_silent:
  "h_kind h = BoundedHold \<Longrightarrow> h_last h \<Longrightarrow> \<not> h_armed h \<Longrightarrow> (\<forall>s \<in> set steps. snd s) \<Longrightarrow>
   True \<notin> set (run_hold h steps)"
  by (induction steps arbitrary: h) (auto simp: Step_def stepBounded_def Let_def)

end
