(* ===== verification/GoValue.thy ===== *)
theory GoValue
  imports Prelude
begin

text \<open>
  What the Go sources use of the language's value model: finite \<open>float64\<close> values with
  round-to-nearest-even arithmetic, JSON texts as trees (\<open>json.RawMessage\<close>), the values
  \<open>json.Unmarshal\<close> stores into an \<open>any\<close>, and the rules by which it fills struct fields.
  A number literal is kept as its text, because the sources look at the text of a raw number;
  an object is kept as its list of members, because duplicates and key case matter to the
  decoder.  Key folding is modelled on ASCII letters.
\<close>

section \<open>Binary64 numbers\<close>

text \<open>
  A finite \<open>float64\<close> is the rational it denotes (the two zeros are one value); the
  infinities and NaN arise only from arithmetic.
\<close>

datatype f64 = Fin rat | PosInf | NegInf | NaN

fun bit_len :: "nat \<Rightarrow> nat" where
  "bit_len n = (if n = 0 then 0 else Suc (bit_len (n div 2)))"

declare bit_len.simps [simp del]

definition pow2 :: "int \<Rightarrow> rat" where
  "pow2 e = (if 0 \<le> e then 2 ^ nat e else 1 / 2 ^ nat (- e))"

text \<open>The exponent \<open>e\<close> with \<open>2 ^ e \<le> q < 2 ^ (e + 1)\<close>, for positive \<open>q\<close>.\<close>

definition ilog2 :: "rat \<Rightarrow> int" where
  "ilog2 q =
     (let (a, b) = quotient_of q;
          e = int (bit_len (nat a)) - int (bit_len (nat b))
      in if pow2 e \<le> q then e else e - 1)"

text \<open>Round to the nearest integer, ties to even.\<close>

definition round_even :: "rat \<Rightarrow> int" where
  "round_even q =
     (let f = \<lfloor>q\<rfloor>; d = q - of_int f
      in if d < 1 / 2 then f else if d > 1 / 2 then f + 1 else if even f then f else f + 1)"

text \<open>\<open>2 ^ 1024\<close>, the first magnitude that overflows, by repeated squaring.\<close>

definition max_f64 :: rat where
  "max_f64 =
     (let a = 4294967296; b = a * a; c = b * b; d = c * c; e = d * d in e * e)"

lemma max_f64_power: "max_f64 = 2 ^ 1024"
  unfolding max_f64_def Let_def by simp

text \<open>Rounding a rational to \<open>float64\<close>: 53-bit significand, gradual underflow, overflow.\<close>

definition rnd :: "rat \<Rightarrow> f64" where
  "rnd q =
     (if q = 0 then Fin 0
      else (let k = max (ilog2 \<bar>q\<bar> - 52) (- 1074);
                v = of_int (round_even (\<bar>q\<bar> / pow2 k)) * pow2 k
            in if max_f64 \<le> v then (if q < 0 then NegInf else PosInf)
               else Fin (if q < 0 then - v else v)))"

text \<open>Go's comparisons: NaN is unordered and unequal to itself.\<close>

fun f64_eq :: "f64 \<Rightarrow> f64 \<Rightarrow> bool" where
  "f64_eq (Fin a) (Fin b) = (a = b)"
| "f64_eq PosInf PosInf = True"
| "f64_eq NegInf NegInf = True"
| "f64_eq _ _ = False"

fun f64_less :: "f64 \<Rightarrow> f64 \<Rightarrow> bool" where
  "f64_less (Fin a) (Fin b) = (a < b)"
| "f64_less (Fin _) PosInf = True"
| "f64_less NegInf (Fin _) = True"
| "f64_less NegInf PosInf = True"
| "f64_less _ _ = False"

definition f64_le :: "f64 \<Rightarrow> f64 \<Rightarrow> bool" where
  "f64_le a b \<longleftrightarrow> f64_less a b \<or> f64_eq a b"

fun f64_neg :: "f64 \<Rightarrow> f64" where
  "f64_neg (Fin a) = Fin (- a)"
| "f64_neg PosInf = NegInf"
| "f64_neg NegInf = PosInf"
| "f64_neg NaN = NaN"

fun f64_add :: "f64 \<Rightarrow> f64 \<Rightarrow> f64" where
  "f64_add (Fin a) (Fin b) = rnd (a + b)"
| "f64_add NaN _ = NaN"
| "f64_add _ NaN = NaN"
| "f64_add PosInf NegInf = NaN"
| "f64_add NegInf PosInf = NaN"
| "f64_add PosInf _ = PosInf"
| "f64_add NegInf _ = NegInf"
| "f64_add _ y = y"

definition f64_sub :: "f64 \<Rightarrow> f64 \<Rightarrow> f64" where
  "f64_sub a b = f64_add a (f64_neg b)"

fun f64_sgn :: "f64 \<Rightarrow> int" where
  "f64_sgn (Fin a) = (if a < 0 then -1 else if a = 0 then 0 else 1)"
| "f64_sgn PosInf = 1"
| "f64_sgn NegInf = -1"
| "f64_sgn NaN = 0"

definition f64_inf :: "int \<Rightarrow> f64" where
  "f64_inf s = (if s = 0 then NaN else if s < 0 then NegInf else PosInf)"

fun f64_mul :: "f64 \<Rightarrow> f64 \<Rightarrow> f64" where
  "f64_mul (Fin a) (Fin b) = rnd (a * b)"
| "f64_mul NaN _ = NaN"
| "f64_mul _ NaN = NaN"
| "f64_mul x y = f64_inf (f64_sgn x * f64_sgn y)"

text \<open>Division; a zero divisor is the positive zero (the sources never divide by a negative one).\<close>

fun f64_div :: "f64 \<Rightarrow> f64 \<Rightarrow> f64" where
  "f64_div NaN _ = NaN"
| "f64_div _ NaN = NaN"
| "f64_div (Fin a) (Fin b) =
     (if b = 0 then f64_inf (f64_sgn (Fin a)) else rnd (a / b))"
| "f64_div (Fin a) _ = Fin 0"
| "f64_div x (Fin b) = f64_inf (f64_sgn x * (if b < 0 then -1 else 1))"
| "f64_div _ _ = NaN"

fun f64_floor :: "f64 \<Rightarrow> f64" where
  "f64_floor (Fin a) = Fin (of_int \<lfloor>a\<rfloor>)"
| "f64_floor x = x"

text \<open>\<open>math.Trunc\<close>, towards zero.\<close>

definition trunc_rat :: "rat \<Rightarrow> int" where
  "trunc_rat a = (if a < 0 then - \<lfloor>- a\<rfloor> else \<lfloor>a\<rfloor>)"

fun f64_trunc :: "f64 \<Rightarrow> f64" where
  "f64_trunc (Fin a) = Fin (of_int (trunc_rat a))"
| "f64_trunc x = x"

fun f64_abs :: "f64 \<Rightarrow> f64" where
  "f64_abs (Fin a) = Fin \<bar>a\<bar>"
| "f64_abs NegInf = PosInf"
| "f64_abs x = x"

text \<open>\<open>math.Round\<close>: nearest, ties away from zero.\<close>

fun f64_round :: "f64 \<Rightarrow> f64" where
  "f64_round (Fin a) =
     Fin (if a < 0 then - of_int \<lfloor>- a + 1 / 2\<rfloor> else of_int \<lfloor>a + 1 / 2\<rfloor>)"
| "f64_round x = x"

text \<open>\<open>math.Mod\<close>: the remainder has the sign of the first argument.  Exact on finite values.\<close>

fun f64_mod :: "f64 \<Rightarrow> f64 \<Rightarrow> f64" where
  "f64_mod (Fin a) (Fin b) =
     (if b = 0 then NaN else Fin (a - of_int (trunc_rat (a / b)) * b))"
| "f64_mod (Fin a) NaN = NaN"
| "f64_mod (Fin a) _ = Fin a"
| "f64_mod _ _ = NaN"

text \<open>Conversion of a float to \<open>int64\<close>; out of range it is the value amd64 stores.\<close>

fun f64_to_int :: "f64 \<Rightarrow> int" where
  "f64_to_int (Fin a) = (if in_i64 (trunc_rat a) then trunc_rat a else - (2 ^ 63))"
| "f64_to_int _ = - (2 ^ 63)"

lemma f64_less_irrefl [simp]: "\<not> f64_less x x"
  by (cases x) auto

lemma f64_less_trans: "f64_less x y \<Longrightarrow> f64_less y z \<Longrightarrow> f64_less x z"
  by (cases x; cases y; cases z) auto

lemma f64_less_asym: "f64_less x y \<Longrightarrow> \<not> f64_less y x"
  by (cases x; cases y) auto

lemma f64_eq_sym: "f64_eq x y = f64_eq y x"
  by (cases x; cases y) auto

lemma f64_eq_Fin [simp]: "f64_eq (Fin a) (Fin a)"
  by simp

section \<open>Exactness of small integers\<close>

lemma bit_len_bounds: "n < 2 ^ bit_len n \<and> (0 < n \<longrightarrow> 2 ^ (bit_len n - 1) \<le> n)"
proof (induction n rule: bit_len.induct)
  case (1 n)
  show ?case
  proof (cases "n = 0")
    case False
    then have IH: "n div 2 < 2 ^ bit_len (n div 2)" "0 < n div 2 \<longrightarrow> 2 ^ (bit_len (n div 2) - 1) \<le> n div 2"
      using 1 by auto
    have b: "bit_len n = Suc (bit_len (n div 2))" using False by (simp add: bit_len.simps [of n])
    have "n < 2 ^ Suc (bit_len (n div 2))" using IH(1) by simp
    moreover have "2 ^ bit_len (n div 2) \<le> n"
    proof (cases "n div 2 = 0")
      case True
      then show ?thesis using False by (simp add: bit_len.simps [of 0])
    next
      case F: False
      then have "0 < bit_len (n div 2)" by (simp add: bit_len.simps [of "n div 2"])
      then obtain k where "bit_len (n div 2) = Suc k" by (cases "bit_len (n div 2)") auto
      then show ?thesis using IH(2) F by simp
    qed
    ultimately show ?thesis by (simp add: b)
  qed (simp add: bit_len.simps [of 0])
qed

lemma bit_len_le: "0 < n \<Longrightarrow> n < 2 ^ k \<Longrightarrow> bit_len n \<le> k"
proof -
  assume n: "0 < n" "n < 2 ^ k"
  have "(2::nat) ^ (bit_len n - 1) < 2 ^ k" using bit_len_bounds [of n] n by linarith
  then show ?thesis by (simp add: power_strict_increasing_iff) 
qed

lemma round_even_of_int [simp]: "round_even (of_int i) = i"
  by (simp add: round_even_def)

lemma pow2_nonneg: "pow2 (int k) = 2 ^ k" "pow2 (- int k) = 1 / 2 ^ k"
  by (simp_all add: pow2_def)

text \<open>Integers below \<open>2 ^ 53\<close> in magnitude are their own \<open>float64\<close> value.\<close>

lemma rnd_int:
  assumes "\<bar>n\<bar> < 2 ^ 53"
  shows "rnd (of_int n) = Fin (of_int n)"
proof (cases "n = 0")
  case True
  then show ?thesis by (simp add: rnd_def)
next
  case False
  define m where "m = nat \<bar>n\<bar>"
  have m: "0 < m" "m < 2 ^ 53" "\<bar>of_int n\<bar> = (of_nat m :: rat)"
    using False assms by (auto simp: m_def)
  let ?b = "bit_len m"
  have b: "0 < ?b" "?b \<le> 53" using m bit_len_le [of m 53] by (auto simp: bit_len.simps [of m])
  have q: "quotient_of (of_nat m) = (int m, 1)"
    using quotient_of_int [of "int m"] by (simp add: Rat.of_int_def)
  have b1: "bit_len 1 = 1" by (simp add: bit_len.simps)
  have "ilog2 (of_nat m) = int ?b - 1"
  proof -
    have "pow2 (int ?b - 1) = 2 ^ (?b - 1)" using b pow2_nonneg(1) [of "?b - 1"] by (simp add: of_nat_diff)
    also have "\<dots> \<le> of_nat m" using bit_len_bounds [of m] m(1) by (metis of_nat_le_iff of_nat_numeral of_nat_power)
    finally show ?thesis using q b1 by (simp add: ilog2_def)
  qed
  then have k: "max (ilog2 (of_nat m) - 52) (- 1074) = - int (53 - ?b)"
    using b by (simp add: of_nat_diff)
  let ?j = "53 - ?b"
  have v: "of_nat m / pow2 (- int ?j) = (of_int (int m * 2 ^ ?j) :: rat)"
    by (simp add: pow2_nonneg(2))
  have r: "of_int (round_even (of_nat m / pow2 (- int ?j))) * pow2 (- int ?j) = (of_nat m :: rat)"
    unfolding v round_even_of_int by (simp add: pow2_nonneg(2))
  have "(of_nat m :: rat) < of_nat (2 ^ 53)" using m(2) of_nat_less_iff by blast
  also have "\<dots> \<le> max_f64" by (simp add: max_f64_power)
  finally have lt: "(of_nat m :: rat) < max_f64" .
  have "rnd (of_int n) = Fin (if of_int n < (0::rat) then - of_nat m else of_nat m)"
    using False lt k r m(3) by (simp add: rnd_def Let_def)
  then show ?thesis using m(3) by (auto simp: abs_if split: if_splits)
qed

text \<open>Rounding a positive rational whose binary exponent is known.\<close>

lemma pow2_powi: "pow2 e = 2 powi e"
  by (simp add: pow2_def power_int_def power_one_over inverse_eq_divide)

lemma pow2_less: "pow2 a < pow2 b \<longleftrightarrow> a < b"
proof
  have "b \<le> a \<Longrightarrow> pow2 b \<le> pow2 a" unfolding pow2_powi by (rule power_int_increasing) simp_all
  then show "pow2 a < pow2 b \<Longrightarrow> a < b" by linarith
  show "a < b \<Longrightarrow> pow2 a < pow2 b" unfolding pow2_powi by (rule power_int_strict_increasing) simp_all
qed

lemma ilog2_eq:
  assumes "0 < q" "pow2 e \<le> q" "q < pow2 (e + 1)"
  shows "ilog2 q = e"
proof -
  obtain a b where ab: "quotient_of q = (a, b)" by (cases "quotient_of q")
  have b: "0 < b" using quotient_of_denom_pos [OF ab] .
  have q: "q = of_int a / of_int b" using quotient_of_div [OF ab] .
  then have a: "0 < a" using assms(1) b by (simp add: zero_less_divide_iff)
  define m n where "m = nat a" and "n = nat b"
  have mn: "0 < m" "0 < n" "q = of_nat m / of_nat n" using a b q by (auto simp: m_def n_def)
  let ?A = "int (bit_len m)" and ?B = "int (bit_len n)"
  have bl: "pow2 (int (bit_len k) - 1) \<le> of_nat k \<and> of_nat k < pow2 (int (bit_len k))" if "0 < k" for k
  proof -
    have pos: "0 < bit_len k" using that by (simp add: bit_len.simps [of k])
    have "(2::rat) ^ (bit_len k - 1) \<le> of_nat k" "of_nat k < (2::rat) ^ bit_len k"
      using bit_len_bounds [of k] that by (metis of_nat_le_iff of_nat_less_iff of_nat_numeral of_nat_power)+
    then show ?thesis using pos pow2_nonneg(1) [of "bit_len k - 1"] pow2_nonneg(1) [of "bit_len k"]
      by (simp add: of_nat_diff)
  qed
  have pp: "0 < pow2 i" for i by (simp add: pow2_powi)
  have dv: "pow2 i / pow2 j = pow2 (i - j)" for i j by (simp add: pow2_powi power_int_diff)
  have "pow2 (?A - 1) / pow2 ?B < q"
    unfolding mn(3) using bl [OF mn(1)] bl [OF mn(2)] mn pp [of "?A - 1"] pp [of "?B"]
    by (intro frac_less2) auto
  moreover have "q < pow2 ?A / pow2 (?B - 1)"
    unfolding mn(3) using bl [OF mn(1)] bl [OF mn(2)] mn pp by (intro frac_less) auto
  ultimately have "pow2 (?A - ?B - 1) < q" "q < pow2 (?A - ?B + 1)"
    unfolding dv by (simp_all add: algebra_simps)
  then have "pow2 (?A - ?B - 1) < pow2 (e + 1)" "pow2 e < pow2 (?A - ?B + 1)"
    using assms by linarith+
  then have r: "?A - ?B \<le> e + 1" "e \<le> ?A - ?B" unfolding pow2_less by linarith+
  have "pow2 (?A - ?B) \<le> q \<longleftrightarrow> ?A - ?B = e"
  proof
    assume "pow2 (?A - ?B) \<le> q"
    then have "pow2 (?A - ?B) < pow2 (e + 1)" using assms(3) by linarith
    then show "?A - ?B = e" using r unfolding pow2_less by linarith
  next
    assume "?A - ?B = e"
    then show "pow2 (?A - ?B) \<le> q" using assms(2) by simp
  qed
  then show ?thesis using r ab by (auto simp: ilog2_def m_def n_def)
qed

lemma rnd_eval:
  assumes "0 < q" "pow2 e \<le> q" "q < pow2 (e + 1)" "- 1022 \<le> e"
    "of_int (round_even (q / pow2 (e - 52))) * pow2 (e - 52) < max_f64"
  shows "rnd q = Fin (of_int (round_even (q / pow2 (e - 52))) * pow2 (e - 52))"
  using assms ilog2_eq [OF assms(1,2,3)] by (simp add: rnd_def Let_def)

lemma floor_rat_div [simp]: "\<lfloor>(numeral a :: rat) / numeral b\<rfloor> = numeral a div numeral b"
  using floor_divide_of_int_eq [of "numeral a" "numeral b", where ?'a = rat] by simp

lemma rnd_numeral: "(numeral k :: int) < 2 ^ 53 \<Longrightarrow> rnd (numeral k) = Fin (numeral k)"
  using rnd_int [of "numeral k"] by simp

lemma rnd_one: "rnd 1 = Fin 1"
  using rnd_int [of 1] by simp

lemma rnd_zero [simp]: "rnd 0 = Fin 0"
  by (simp add: rnd_def)

lemmas rnd_eval_simps = pow2_def max_f64_def round_even_def Let_def

section \<open>Number literals\<close>

text \<open>
  The decimal value of an optionally signed literal with optional fraction and exponent, and
  the JSON grammar for such a literal.
\<close>

definition exp10 :: "int \<Rightarrow> rat" where
  "exp10 e = (if 0 \<le> e then 10 ^ nat e else 1 / 10 ^ nat (- e))"

definition lit_parts :: "string \<Rightarrow> bool \<times> string \<times> string option \<times> (bool \<times> string) option \<times> string" where
  "lit_parts s =
     (let neg = (s \<noteq> [] \<and> hd s = CHR ''-'');
          s1 = (if neg then tl s else s);
          ip = takeWhile is_digit s1; s2 = dropWhile is_digit s1;
          (fp, s3) = (case s2 of c # r \<Rightarrow> if c = CHR ''.'' then (Some (takeWhile is_digit r), dropWhile is_digit r) else (None, s2)
                      | [] \<Rightarrow> (None, s2));
          (ep, s4) = (case s3 of c # r \<Rightarrow>
                         if c = CHR ''e'' \<or> c = CHR ''E'' then
                           (let eneg = (r \<noteq> [] \<and> hd r = CHR ''-'');
                                r1 = (if r \<noteq> [] \<and> (hd r = CHR ''-'' \<or> hd r = CHR ''+'') then tl r else r)
                            in (Some (eneg, takeWhile is_digit r1), dropWhile is_digit r1))
                         else (None, s3)
                      | [] \<Rightarrow> (None, s3))
      in (neg, ip, fp, ep, s4))"

definition json_number :: "string \<Rightarrow> bool" where
  "json_number s =
     (case lit_parts s of (neg, ip, fp, ep, rest) \<Rightarrow>
        ip \<noteq> [] \<and> (length ip = 1 \<or> hd ip \<noteq> CHR ''0'') \<and>
        fp \<noteq> Some [] \<and> (case ep of None \<Rightarrow> True | Some (_, e) \<Rightarrow> e \<noteq> []) \<and> rest = [])"

definition lit_rat :: "string \<Rightarrow> rat" where
  "lit_rat s =
     (case lit_parts s of (neg, ip, fp, ep, rest) \<Rightarrow>
        let frac = (case fp of None \<Rightarrow> [] | Some f \<Rightarrow> f);
            m = of_nat (digits_val (ip @ frac));
            e = (case ep of None \<Rightarrow> 0 | Some (eneg, ed) \<Rightarrow> if eneg then - int (digits_val ed) else int (digits_val ed));
            v = m * exp10 (e - int (length frac))
        in if neg then - v else v)"

text \<open>\<open>strconv.ParseFloat\<close>: correctly rounded, an error where the value is out of range.\<close>

definition parse_float :: "string \<Rightarrow> f64 option" where
  "parse_float s = (case rnd (lit_rat s) of Fin q \<Rightarrow> Some (Fin q) | _ \<Rightarrow> None)"

lemma parse_float_finite: "parse_float s = Some x \<Longrightarrow> \<exists>q. x = Fin q"
  by (cases "rnd (lit_rat s)") (auto simp: parse_float_def)

section \<open>JSON texts and decoded values\<close>

datatype json =
    JNull
  | JBool bool
  | JNum string
  | JStr string
  | JArr "json list"
  | JObj "(string \<times> json) list"

text \<open>
  A Go value of type \<open>any\<close>.  \<open>GInt\<close> stands for every integer type, \<open>GStrs\<close> for a \<open>[]string\<close>;
  \<open>json.Unmarshal\<close> produces neither.  A \<open>map[string]any\<close> is the list of its entries in key
  order.
\<close>

datatype gval =
    GNil
  | GBool bool
  | GNum f64
  | GInt int
  | GStr string
  | GStrs "string list"
  | GArr "gval list"
  | GObj "(string \<times> gval) list"

text \<open>Insertion into an entry list kept in key order; a later entry replaces an earlier one.\<close>

fun kv_insert :: "string \<Rightarrow> 'v \<Rightarrow> (string \<times> 'v) list \<Rightarrow> (string \<times> 'v) list" where
  "kv_insert k v [] = [(k, v)]"
| "kv_insert k v ((k', v') # kvs) =
     (if k = k' then (k, v) # kvs
      else if k < k' then (k, v) # (k', v') # kvs
      else (k', v') # kv_insert k v kvs)"

definition kv_norm :: "(string \<times> 'v) list \<Rightarrow> (string \<times> 'v) list" where
  "kv_norm kvs = foldl (\<lambda>m (k, v). kv_insert k v m) [] kvs"

lemma map_of_kv_insert: "map_of (kv_insert k v kvs) = (map_of kvs)(k \<mapsto> v)"
  by (induction kvs rule: kv_insert.induct) (auto simp: fun_eq_iff)

lemma map_of_foldl_kv_insert:
  "map_of (foldl (\<lambda>m (k, v). kv_insert k v m) m0 kvs) = map_of m0 ++ map_of (rev kvs)"
  by (induction kvs arbitrary: m0) (auto simp: map_of_kv_insert map_add_assoc [symmetric] fun_eq_iff map_add_def split: option.splits)

lemma map_of_kv_norm: "map_of (kv_norm kvs) = map_of (rev kvs)"
  by (simp add: kv_norm_def map_of_foldl_kv_insert)

lemma json_size_elem: "x \<in> set xs \<Longrightarrow> size x < size (JArr xs)"
  by (simp add: size_list_estimation' le_imp_less_Suc)

lemma json_size_member: "(k, v) \<in> set kvs \<Longrightarrow> size v < size (JObj kvs)"
proof -
  assume "(k, v) \<in> set kvs"
  then have "size v \<le> size_list (size_prod (\<lambda>_. 0) size) kvs"
    by (rule size_list_estimation') simp
  then show ?thesis by simp
qed

text \<open>\<open>json.Unmarshal\<close> into an \<open>any\<close>; a number out of range is an error.\<close>

function jdecode :: "json \<Rightarrow> gval option" where
  "jdecode JNull = Some GNil"
| "jdecode (JBool b) = Some (GBool b)"
| "jdecode (JNum s) = map_option GNum (parse_float s)"
| "jdecode (JStr s) = Some (GStr s)"
| "jdecode (JArr xs) = map_option GArr (mapM_opt jdecode xs)"
| "jdecode (JObj kvs) =
     map_option (\<lambda>vs. GObj (kv_norm (zip (map fst kvs) vs))) (mapM_opt (\<lambda>kv. jdecode (snd kv)) kvs)"
  by pat_completeness auto
termination
  by (relation "measure size")
     (auto dest: json_size_elem json_size_member simp del: json.size)

text \<open>\<open>reflect.DeepEqual\<close>: structural, except that NaN differs from itself.\<close>

fun deep_equal :: "gval \<Rightarrow> gval \<Rightarrow> bool"
  and deep_equal_list :: "gval list \<Rightarrow> gval list \<Rightarrow> bool"
  and deep_equal_kvs :: "(string \<times> gval) list \<Rightarrow> (string \<times> gval) list \<Rightarrow> bool" where
  "deep_equal GNil GNil = True"
| "deep_equal (GBool a) (GBool b) = (a = b)"
| "deep_equal (GNum a) (GNum b) = f64_eq a b"
| "deep_equal (GInt a) (GInt b) = (a = b)"
| "deep_equal (GStr a) (GStr b) = (a = b)"
| "deep_equal (GStrs a) (GStrs b) = (a = b)"
| "deep_equal (GArr a) (GArr b) = deep_equal_list a b"
| "deep_equal (GObj a) (GObj b) = deep_equal_kvs a b"
| "deep_equal _ _ = False"
| "deep_equal_list [] [] = True"
| "deep_equal_list (x # xs) (y # ys) = (deep_equal x y \<and> deep_equal_list xs ys)"
| "deep_equal_list _ _ = False"
| "deep_equal_kvs [] [] = True"
| "deep_equal_kvs ((k, x) # xs) ((l, y) # ys) = (k = l \<and> deep_equal x y \<and> deep_equal_kvs xs ys)"
| "deep_equal_kvs _ _ = False"

section \<open>Decoding into structs and maps\<close>

text \<open>
  \<open>json.Unmarshal\<close> into a \<open>map[string]json.RawMessage\<close>: \<open>null\<close> is the nil map, anything but an
  object is an error, and the last of several members with one key wins.
\<close>

fun jmap :: "json \<Rightarrow> (string \<times> json) list option" where
  "jmap (JObj kvs) = Some kvs"
| "jmap JNull = Some []"
| "jmap _ = None"

definition jlookup :: "(string \<times> json) list \<Rightarrow> string \<Rightarrow> json option" where
  "jlookup kvs k = map_of (rev kvs) k"

lemma jlookup_in: "jlookup kvs k = Some v \<Longrightarrow> (k, v) \<in> set kvs"
  by (auto simp: jlookup_def dest: map_of_SomeD)

text \<open>
  Into a struct, every member whose key folds to the field's name is stored in turn.  \<open>jfield\<close>
  lists the values a field receives; the field decoders below process them in order and also
  report whether one had the wrong type, which fails the whole \<open>Unmarshal\<close> but does not stop it.
\<close>

definition jfield :: "json \<Rightarrow> string \<Rightarrow> json list" where
  "jfield j n = (case j of JObj kvs \<Rightarrow> map snd (filter (\<lambda>kv. map to_lower (fst kv) = n) kvs) | _ \<Rightarrow> [])"

definition jstruct_ok :: "json \<Rightarrow> bool" where
  "jstruct_ok j \<longleftrightarrow> (case j of JObj _ \<Rightarrow> True | JNull \<Rightarrow> True | _ \<Rightarrow> False)"

lemma jfield_in: "v \<in> set (jfield j n) \<Longrightarrow> size v < size j"
  by (auto simp: jfield_def dest: json_size_member split: json.splits simp del: json.size)

fun dstr :: "string \<Rightarrow> json list \<Rightarrow> string" where
  "dstr s [] = s"
| "dstr s (JStr t # vs) = dstr t vs"
| "dstr s (_ # vs) = dstr s vs"

fun str_ok :: "json \<Rightarrow> bool" where
  "str_ok (JStr _) = True"
| "str_ok JNull = True"
| "str_ok _ = False"

text \<open>A JSON number fits an \<open>int\<close> field when it has no fraction or exponent and is in range.\<close>

definition int_lit :: "string \<Rightarrow> int option" where
  "int_lit s = (if CHR ''.'' \<in> set s \<or> CHR ''e'' \<in> set s \<or> CHR ''E'' \<in> set s then None else atoi s)"

fun dint :: "int \<Rightarrow> json list \<Rightarrow> int" where
  "dint n [] = n"
| "dint n (JNum s # vs) = (case int_lit s of Some m \<Rightarrow> dint m vs | None \<Rightarrow> dint n vs)"
| "dint n (_ # vs) = dint n vs"

fun int_ok :: "json \<Rightarrow> bool" where
  "int_ok (JNum s) = (int_lit s \<noteq> None)"
| "int_ok JNull = True"
| "int_ok _ = False"

text \<open>A \<open>*int\<close> and a \<open>*string\<close> field: \<open>null\<close> resets the pointer.\<close>

fun dint_ptr :: "int option \<Rightarrow> json list \<Rightarrow> int option" where
  "dint_ptr p [] = p"
| "dint_ptr p (JNum s # vs) =
     (case int_lit s of Some m \<Rightarrow> dint_ptr (Some m) vs
      | None \<Rightarrow> dint_ptr (Some (case p of Some n \<Rightarrow> n | None \<Rightarrow> 0)) vs)"
| "dint_ptr p (JNull # vs) = dint_ptr None vs"
| "dint_ptr p (_ # vs) = dint_ptr (Some (case p of Some n \<Rightarrow> n | None \<Rightarrow> 0)) vs"

fun dstr_ptr :: "string option \<Rightarrow> json list \<Rightarrow> string option" where
  "dstr_ptr p [] = p"
| "dstr_ptr p (JStr t # vs) = dstr_ptr (Some t) vs"
| "dstr_ptr p (JNull # vs) = dstr_ptr None vs"
| "dstr_ptr p (_ # vs) = dstr_ptr (Some (case p of Some n \<Rightarrow> n | None \<Rightarrow> [])) vs"

text \<open>A \<open>json.RawMessage\<close> field keeps the last value, \<open>null\<close> included.\<close>

definition draw :: "json list \<Rightarrow> json option" where
  "draw vs = (if vs = [] then None else Some (last vs))"

text \<open>A \<open>[]json.RawMessage\<close> field.\<close>

fun darr :: "json list \<Rightarrow> json list \<Rightarrow> json list" where
  "darr a [] = a"
| "darr a (JArr xs # vs) = darr xs vs"
| "darr a (JNull # vs) = darr [] vs"
| "darr a (_ # vs) = darr a vs"

fun arr_ok :: "json \<Rightarrow> bool" where
  "arr_ok (JArr _) = True"
| "arr_ok JNull = True"
| "arr_ok _ = False"

text \<open>A \<open>map[string]json.RawMessage\<close> field: objects merge, in key order.\<close>

fun dmap :: "(string \<times> json) list \<Rightarrow> json list \<Rightarrow> (string \<times> json) list" where
  "dmap m [] = m"
| "dmap m (JObj kvs # vs) = dmap (foldl (\<lambda>m (k, v). kv_insert k v m) m kvs) vs"
| "dmap m (JNull # vs) = dmap [] vs"
| "dmap m (_ # vs) = dmap m vs"

fun map_ok :: "json \<Rightarrow> bool" where
  "map_ok (JObj _) = True"
| "map_ok JNull = True"
| "map_ok _ = False"

lemma draw_Some: "draw vs = Some v \<Longrightarrow> v \<in> set vs"
  by (auto simp: draw_def split: if_splits)

lemma darr_elem: "x \<in> set (darr a vs) \<Longrightarrow> x \<in> set a \<or> (\<exists>xs. JArr xs \<in> set vs \<and> x \<in> set xs)"
  by (induction a vs rule: darr.induct) auto

lemmas [decode_simps] = jfield_def jstruct_ok_def draw_def jlookup_def to_lower_def is_upper_def byte_of_def

end
