(* ===== verification/Schedule.thy ===== *)
theory Schedule
  imports GoValue "HOL-Library.Multiset"
begin

text \<open>
  Scheduled triggers, \<open>internal/rules/schedule\<close>: clock-time, time-pattern and sun triggers, the local
  calendar they resolve against and the misfire policies.  An instant is a number of Unix seconds or
  milliseconds, a calendar date its day number since 1970-01-01, a clock reading its second of the
  day.  A time zone is the offset before its first transition and the list of its transitions; the
  conversion from a local reading to an instant is the algorithm of \<open>time.Date\<close>.  The functions of
  package \<open>math\<close> the solar computation calls are the record \<open>mathlib\<close>.
\<close>

section \<open>Time zones\<close>

record zone =
  zn_base :: int
  zn_tx :: "(int \<times> int) list"

text \<open>\<open>Location.lookup\<close>: the offset in force and the interval of instants it is in force for.\<close>

fun lookup_tx :: "int option \<Rightarrow> int \<Rightarrow> (int \<times> int) list \<Rightarrow> int \<Rightarrow> int \<times> int option \<times> int option" where
  "lookup_tx start off [] sec = (off, start, None)"
| "lookup_tx start off ((w, off') # tx) sec =
     (if sec < w then (off, start, Some w) else lookup_tx (Some w) off' tx sec)"

definition zone_lookup :: "zone \<Rightarrow> int \<Rightarrow> int \<times> int option \<times> int option" where
  "zone_lookup z sec = lookup_tx None (zn_base z) (zn_tx z) sec"

definition zone_off :: "zone \<Rightarrow> int \<Rightarrow> int" where
  "zone_off z sec = fst (zone_lookup z sec)"

definition local_day :: "zone \<Rightarrow> int \<Rightarrow> int" where
  "local_day z sec = (sec + zone_off z sec) div 86400"

definition local_clock :: "zone \<Rightarrow> int \<Rightarrow> int" where
  "local_clock z sec = (sec + zone_off z sec) mod 86400"

text \<open>\<open>time.Date\<close> on a date and a second of the day.\<close>

definition go_date :: "zone \<Rightarrow> int \<Rightarrow> int \<Rightarrow> int" where
  "go_date z dn secs =
     (let unix = dn * 86400 + secs
      in case zone_lookup z unix of (off, start, en) \<Rightarrow>
           if off = 0 then unix
           else (let utc = unix - off
                 in if (case start of None \<Rightarrow> False | Some s \<Rightarrow> utc < s) \<or>
                       (case en of None \<Rightarrow> False | Some e \<Rightarrow> e \<le> utc)
                    then unix - zone_off z utc else unix - off))"

text \<open>\<open>AddDate(0, 0, n)\<close>: the same clock reading \<open>n\<close> dates later.\<close>

definition add_days :: "zone \<Rightarrow> int \<Rightarrow> int \<Rightarrow> int" where
  "add_days z sec n = go_date z (local_day z sec + n) (local_clock z sec)"

record location =
  loc_tz :: "zone option"
  loc_lat :: f64
  loc_lon :: f64

section \<open>Days and local instants\<close>

text \<open>
  The loop over the days of a window.  A zone in which stepping to the next date does not advance the
  instant would make the source loop for ever; the recursion stops there, and \<open>days_from_step\<close> below
  shows that in a regular zone it is the loop of the source.
\<close>

function days_from :: "zone \<Rightarrow> int \<Rightarrow> int \<Rightarrow> int list" where
  "days_from z day toIncl =
     (if toIncl < day * 1000 then []
      else day # (if add_days z day 1 \<le> day then [] else days_from z (add_days z day 1) toIncl))"
  by pat_completeness auto
termination
  by (relation "measure (\<lambda>(z, day, toIncl). nat (toIncl - day * 1000 + 1))") auto

declare days_from.simps [simp del]

definition daysInWindow :: "zone \<Rightarrow> int \<Rightarrow> int \<Rightarrow> int list" where
  "daysInWindow z fromExcl toIncl = days_from z (go_date z (local_day z (fromExcl div 1000)) 0) toIncl"

definition localInstant :: "zone \<Rightarrow> int \<Rightarrow> int \<Rightarrow> int \<Rightarrow> int \<Rightarrow> int option" where
  "localInstant z dn h m s =
     (let cand = go_date z dn (h * 3600 + m * 60 + s); c = local_clock z cand
      in if c div 3600 \<noteq> h \<or> c div 60 mod 60 \<noteq> m \<or> c mod 60 \<noteq> s then None else Some (cand * 1000))"

section \<open>Time triggers\<close>

record time_trigger =
  tt_hour :: int
  tt_min :: int
  tt_sec :: int

definition parseHMS :: "string \<Rightarrow> (int \<times> int \<times> int) option" where
  "parseHMS s =
     (case split_on CHR '':'' s of
        [a, b, c] \<Rightarrow>
          (case (atoi a, atoi b, atoi c) of
             (Some h, Some m, Some sec) \<Rightarrow>
               if length a \<noteq> 2 \<or> length b \<noteq> 2 \<or> length c \<noteq> 2 then None
               else if h < 0 \<or> 23 < h \<or> m < 0 \<or> 59 < m \<or> sec < 0 \<or> 59 < sec then None
               else Some (h, m, sec)
           | _ \<Rightarrow> None)
      | _ \<Rightarrow> None)"

definition NewTimeTrigger :: "string \<Rightarrow> time_trigger option" where
  "NewTimeTrigger at_text =
     (case parseHMS at_text of Some (h, m, s) \<Rightarrow> Some \<lparr>tt_hour = h, tt_min = m, tt_sec = s\<rparr> | None \<Rightarrow> None)"

text \<open>The instants of a list that fall in a window, exclusive at its start.\<close>

definition in_window :: "int \<Rightarrow> int \<Rightarrow> int list \<Rightarrow> int list" where
  "in_window fromExcl toIncl ms = filter (\<lambda>x. fromExcl < x \<and> x \<le> toIncl) ms"

definition opt_list :: "'a option \<Rightarrow> 'a list" where
  "opt_list x = (case x of None \<Rightarrow> [] | Some y \<Rightarrow> [y])"

text \<open>The occurrences of all days of a window, for a trigger given by its instants on one date.\<close>

definition day_occurrences :: "(zone \<Rightarrow> int \<Rightarrow> int list) \<Rightarrow> location \<Rightarrow> int \<Rightarrow> int \<Rightarrow> int list" where
  "day_occurrences cands loc fromExcl toIncl =
     (case loc_tz loc of
        None \<Rightarrow> []
      | Some z \<Rightarrow>
          if toIncl \<le> fromExcl then []
          else concat (map (\<lambda>day. in_window fromExcl toIncl (cands z (local_day z day)))
                 (daysInWindow z fromExcl toIncl)))"

definition time_cands :: "time_trigger \<Rightarrow> zone \<Rightarrow> int \<Rightarrow> int list" where
  "time_cands t z dn = opt_list (localInstant z dn (tt_hour t) (tt_min t) (tt_sec t))"

definition TimeOccurrences :: "time_trigger \<Rightarrow> location \<Rightarrow> int \<Rightarrow> int \<Rightarrow> int list" where
  "TimeOccurrences t = day_occurrences (time_cands t)"

lemma set_opt_list [simp]: "set (opt_list x) = {y. x = Some y}"
  by (auto simp: opt_list_def split: option.splits)

lemma distinct_opt_list [simp]: "distinct (opt_list x)"
  by (simp add: opt_list_def split: option.splits)

section \<open>Time patterns\<close>

record pattern_field =
  pf_all :: bool
  pf_exact :: int
  pf_div :: int

record pattern_trigger =
  pt_hours :: pattern_field
  pt_minutes :: pattern_field
  pt_seconds :: pattern_field

definition pf_match :: "pattern_field \<Rightarrow> int \<Rightarrow> bool" where
  "pf_match f v \<longleftrightarrow> (if pf_all f then True else if 0 < pf_div f then v mod pf_div f = 0 else v = pf_exact f)"

definition parsePatternField :: "string \<Rightarrow> int \<Rightarrow> pattern_field option" where
  "parsePatternField s mx =
     (if s = '''' then Some \<lparr>pf_all = True, pf_exact = 0, pf_div = 0\<rparr>
      else if hd s = CHR ''/'' then
        (case atoi (tl s) of
           None \<Rightarrow> None
         | Some n \<Rightarrow> if n \<le> 0 then None else Some \<lparr>pf_all = False, pf_exact = 0, pf_div = n\<rparr>)
      else
        (case atoi s of
           None \<Rightarrow> None
         | Some n \<Rightarrow> if n < 0 \<or> mx < n then None else Some \<lparr>pf_all = False, pf_exact = n, pf_div = 0\<rparr>))"

definition NewTimePatternTrigger :: "string \<Rightarrow> string \<Rightarrow> string \<Rightarrow> pattern_trigger option" where
  "NewTimePatternTrigger hours minutes seconds =
     (if hours = '''' \<and> minutes = '''' \<and> seconds = '''' then None
      else (case parsePatternField hours 23 of None \<Rightarrow> None
        | Some hf \<Rightarrow> (case parsePatternField minutes 59 of None \<Rightarrow> None
        | Some mf \<Rightarrow> (case parsePatternField seconds 59 of None \<Rightarrow> None
        | Some sf \<Rightarrow> Some \<lparr>pt_hours = hf, pt_minutes = mf, pt_seconds = sf\<rparr>))))"

definition matching :: "pattern_field \<Rightarrow> int \<Rightarrow> int list" where
  "matching f n = filter (pf_match f) [0..n]"

definition pattern_cands :: "pattern_trigger \<Rightarrow> zone \<Rightarrow> int \<Rightarrow> int list" where
  "pattern_cands p z dn =
     concat (map (\<lambda>h. concat (map (\<lambda>m. concat (map (\<lambda>s. opt_list (localInstant z dn h m s))
       (matching (pt_seconds p) 59))) (matching (pt_minutes p) 59))) (matching (pt_hours p) 23))"

definition PatternOccurrences :: "pattern_trigger \<Rightarrow> location \<Rightarrow> int \<Rightarrow> int \<Rightarrow> int list" where
  "PatternOccurrences p = day_occurrences (pattern_cands p)"

section \<open>Sun triggers\<close>

record mathlib =
  ml_sin :: "f64 \<Rightarrow> f64"
  ml_cos :: "f64 \<Rightarrow> f64"
  ml_asin :: "f64 \<Rightarrow> f64"
  ml_acos :: "f64 \<Rightarrow> f64"

record sun_trigger =
  su_event :: string
  su_offset :: int

definition NewSunTrigger :: "string \<Rightarrow> int \<Rightarrow> sun_trigger option" where
  "NewSunTrigger event offsetSec =
     (if event \<noteq> ''sunrise'' \<and> event \<noteq> ''sunset'' then None
      else Some \<lparr>su_event = event, su_offset = offsetSec\<rparr>)"

text \<open>Constant expressions are exact and rounded once, where they meet a \<open>float64\<close>.\<close>

definition math_pi :: rat where
  "math_pi = 314159265358979323846264338327950288419716939937510582097494459 / 10 ^ 62"

definition degToRad :: rat where
  "degToRad = math_pi / 180"

definition radToDeg :: rat where
  "radToDeg = 180 / math_pi"

definition sunAltitudeDeg :: rat where
  "sunAltitudeDeg = - 833 / 1000"

definition obliquityDeg :: rat where
  "obliquityDeg = 234397 / 10000"

definition sunEventUnixMillis :: "mathlib \<Rightarrow> int \<Rightarrow> f64 \<Rightarrow> f64 \<Rightarrow> bool \<Rightarrow> int option" where
  "sunEventUnixMillis ml dn lat lon rise =
     (let jd = f64_add (f64_div (rnd (of_int (dn * 86400))) (Fin 86400)) (Fin (24405875 / 10));
          n = f64_round (f64_add (f64_sub jd (Fin 2451545)) (rnd (8 / 10000)));
          jStar = f64_sub n (f64_div lon (Fin 360));
          m = f64_mod (f64_add (rnd (3575291 / 10000)) (f64_mul (rnd (98560028 / 100000000)) jStar)) (Fin 360);
          mRad = f64_mul m (rnd degToRad);
          c = f64_add (f64_add (f64_mul (rnd (19148 / 10000)) (ml_sin ml mRad))
                        (f64_mul (rnd (2 / 100)) (ml_sin ml (f64_mul (Fin 2) mRad))))
                (f64_mul (rnd (3 / 10000)) (ml_sin ml (f64_mul (Fin 3) mRad)));
          lambda = f64_mod (f64_add (f64_add (f64_add m c) (Fin 180)) (rnd (1029372 / 10000))) (Fin 360);
          lambdaRad = f64_mul lambda (rnd degToRad);
          jTransit = f64_sub (f64_add (f64_add (Fin 2451545) jStar) (f64_mul (rnd (53 / 10000)) (ml_sin ml mRad)))
                       (f64_mul (rnd (69 / 10000)) (ml_sin ml (f64_mul (Fin 2) lambdaRad)));
          sinDelta = f64_mul (ml_sin ml lambdaRad) (ml_sin ml (rnd (obliquityDeg * degToRad)));
          cosDelta = ml_cos ml (ml_asin ml sinDelta);
          phi = f64_mul lat (rnd degToRad);
          cosOmega = f64_div (f64_sub (ml_sin ml (rnd (sunAltitudeDeg * degToRad))) (f64_mul (ml_sin ml phi) sinDelta))
                       (f64_mul (ml_cos ml phi) cosDelta)
      in if f64_less (Fin 1) cosOmega \<or> f64_less cosOmega (Fin (- 1)) then None
         else (let omega = f64_mul (ml_acos ml cosOmega) (rnd radToDeg);
                   jEvent = (if rise then f64_sub jTransit (f64_div omega (Fin 360))
                             else f64_add jTransit (f64_div omega (Fin 360)));
                   unixSec = f64_mul (f64_sub jEvent (Fin (24405875 / 10))) (Fin 86400)
               in Some (f64_to_int (f64_round (f64_mul unixSec (Fin 1000))))))"

definition SunInstant :: "mathlib \<Rightarrow> location \<Rightarrow> int \<Rightarrow> string \<Rightarrow> int \<Rightarrow> int option" where
  "SunInstant ml loc dn event offsetSec =
     (if event \<noteq> ''sunrise'' \<and> event \<noteq> ''sunset'' then None
      else (case sunEventUnixMillis ml dn (loc_lat loc) (loc_lon loc) (event = ''sunrise'') of
              None \<Rightarrow> None
            | Some ms \<Rightarrow> Some (i64 (ms + i64 (offsetSec * 1000)))))"

definition SunOccurrences :: "mathlib \<Rightarrow> sun_trigger \<Rightarrow> location \<Rightarrow> int \<Rightarrow> int \<Rightarrow> int list" where
  "SunOccurrences ml s loc =
     day_occurrences (\<lambda>z dn. opt_list (SunInstant ml loc dn (su_event s) (su_offset s))) loc"

section \<open>Misfire policies\<close>

record fire =
  fi_wall :: int
  fi_caught :: bool

definition ValidMisfire :: "string \<Rightarrow> bool" where
  "ValidMisfire policy \<longleftrightarrow> policy = ''skip'' \<or> policy = ''catch_up_once'' \<or> policy = ''fire_each''"

definition ApplyMisfire :: "string \<Rightarrow> int list \<Rightarrow> fire list" where
  "ApplyMisfire policy missed =
     (case missed of
        [] \<Rightarrow> []
      | m # ms \<Rightarrow>
          if policy = ''catch_up_once''
          then [\<lparr>fi_wall = foldl (\<lambda>latest w. if latest < w then w else latest) m ms, fi_caught = True\<rparr>]
          else if policy = ''fire_each''
          then map (\<lambda>w. \<lparr>fi_wall = w, fi_caught = True\<rparr>) (sort missed)
          else [])"

section \<open>The trigger interface\<close>

datatype sched_trigger = SchedTime time_trigger | SchedPattern pattern_trigger | SchedSun sun_trigger

fun Occurrences :: "mathlib \<Rightarrow> sched_trigger \<Rightarrow> location \<Rightarrow> int \<Rightarrow> int \<Rightarrow> int list" where
  "Occurrences ml (SchedTime t) = TimeOccurrences t"
| "Occurrences ml (SchedPattern p) = PatternOccurrences p"
| "Occurrences ml (SchedSun s) = SunOccurrences ml s"

section \<open>The lookup of an offset\<close>

text \<open>\<open>sparse D z\<close>: offsets within \<open>D\<close> seconds of UTC, transitions in order and more than \<open>4 * D\<close> apart.\<close>

fun sparse_tx :: "int \<Rightarrow> int option \<Rightarrow> (int \<times> int) list \<Rightarrow> bool" where
  "sparse_tx D prev [] = True"
| "sparse_tx D prev ((w, off) # tx) \<longleftrightarrow>
     (case prev of None \<Rightarrow> True | Some p \<Rightarrow> p + 4 * D < w) \<and> \<bar>off\<bar> \<le> D \<and> sparse_tx D (Some w) tx"

definition sparse :: "int \<Rightarrow> zone \<Rightarrow> bool" where
  "sparse D z \<longleftrightarrow> 0 < D \<and> \<bar>zn_base z\<bar> \<le> D \<and> sparse_tx D None (zn_tx z)"

definition before :: "int \<Rightarrow> int option \<Rightarrow> bool" where
  "before t e = (case e of None \<Rightarrow> True | Some w \<Rightarrow> t < w)"

definition from_on :: "int option \<Rightarrow> int \<Rightarrow> bool" where
  "from_on s t = (case s of None \<Rightarrow> True | Some w \<Rightarrow> w \<le> t)"

lemma lookup_tx_bounds:
  "lookup_tx s0 off0 tx u = (off, s, e) \<Longrightarrow> from_on s0 u \<Longrightarrow> from_on s u \<and> before u e"
  by (induction s0 off0 tx u rule: lookup_tx.induct) (auto simp: from_on_def before_def split: if_splits option.splits)

text \<open>A lookup gives an interval on which the offset is constant; around it, the neighbouring intervals
  are long.\<close>

lemma lookup_tx_start_ge:
  "lookup_tx (Some w) off0 tx u = (off, s, e) \<Longrightarrow> w \<le> u \<Longrightarrow> sparse_tx D (Some w) tx \<Longrightarrow> 0 < D \<Longrightarrow>
     \<exists>s'. s = Some s' \<and> (s' = w \<or> w + 4 * D < s')"
proof (induction "Some w" off0 tx u arbitrary: w rule: lookup_tx.induct)
  case (2 off0 w1 o1 tx u)
  show ?case
  proof (cases "u < w1")
    case True
    then show ?thesis using 2 by auto
  next
    case False
    then have "\<exists>s'. s = Some s' \<and> (s' = w1 \<or> w1 + 4 * D < s')" using 2 by auto
    then show ?thesis using 2 by auto
  qed
qed auto

lemma lookup_tx_const:
  assumes "lookup_tx s0 off0 tx u = (off, s, e)" "from_on s0 u" "from_on s0 t" "from_on s t" "before t e"
    "sparse_tx D s0 tx" "0 < D"
  shows "fst (lookup_tx s0 off0 tx t) = off"
  using assms
proof (induction s0 off0 tx u rule: lookup_tx.induct)
  case (2 s0 off0 w1 o1 tx u)
  show ?case
  proof (cases "u < w1")
    case True
    then show ?thesis using 2 by (auto simp: before_def)
  next
    case False
    then have l: "lookup_tx (Some w1) o1 tx u = (off, s, e)" using 2 by simp
    then obtain s' where "s = Some s'" "s' = w1 \<or> w1 + 4 * D < s'"
      using lookup_tx_start_ge [OF l, of D] False 2 by auto
    then have "w1 \<le> t" using 2 by (auto simp: from_on_def)
    then show ?thesis using 2 False l by (simp add: from_on_def)
  qed
qed simp

lemma lookup_tx_next:
  "lookup_tx s0 off0 tx u = (off, s, Some e) \<Longrightarrow> from_on s0 u \<Longrightarrow> sparse_tx D s0 tx \<Longrightarrow> 0 < D \<Longrightarrow>
     (case s of None \<Rightarrow> True | Some s' \<Rightarrow> s' + 4 * D < e) \<and>
     (\<forall>t. e \<le> t \<and> t \<le> e + 4 * D \<longrightarrow> fst (lookup_tx s0 off0 tx t) = fst (lookup_tx s0 off0 tx e))"
proof (induction s0 off0 tx u rule: lookup_tx.induct)
  case (2 s0 off0 w1 o1 tx u)
  show ?case
  proof (cases "u < w1")
    case True
    then have e: "s = s0" "e = w1" and sp: "sparse_tx D (Some w1) tx"
      and g: "case s0 of None \<Rightarrow> True | Some p \<Rightarrow> p + 4 * D < w1"
      using "2.prems"(1,3) by auto
    have "fst (lookup_tx (Some w1) o1 tx t) = o1" if "w1 \<le> t" "t \<le> w1 + 4 * D" for t
      using sp that by (cases tx) auto
    then show ?thesis using e g "2.prems"(4) by auto
  next
    case False
    then have l: "lookup_tx (Some w1) o1 tx u = (off, s, Some e)" using 2 by simp
    have "u < e" using lookup_tx_bounds [OF l] False by (simp add: from_on_def before_def)
    then have e: "w1 < e" using False by simp
    have "sparse_tx D (Some w1) tx" "from_on (Some w1) u" using "2.prems"(3) False by (auto simp: from_on_def)
    note IH = "2.IH" [OF False l this(2) this(1) "2.prems"(4)]
    have eq: "lookup_tx s0 off0 ((w1, o1) # tx) t = lookup_tx (Some w1) o1 tx t" if "e \<le> t" for t
      using that e by simp
    show ?thesis using IH eq by (metis (no_types, lifting) order_refl)
  qed
qed simp

lemma lookup_tx_prev:
  "lookup_tx s0 off0 tx u = (off, Some s, e) \<Longrightarrow> s0 \<noteq> Some s \<Longrightarrow> sparse_tx D s0 tx \<Longrightarrow> 0 < D \<Longrightarrow>
     \<exists>p. (\<forall>t. from_on s0 t \<and> s - 4 * D \<le> t \<and> t < s \<longrightarrow> fst (lookup_tx s0 off0 tx t) = p)"
proof (induction s0 off0 tx u rule: lookup_tx.induct)
  case (2 s0 off0 w1 o1 tx u)
  show ?case
  proof (cases "u < w1")
    case True
    then show ?thesis using 2 by simp
  next
    case False
    then have l: "lookup_tx (Some w1) o1 tx u = (off, Some s, e)" using 2 by simp
    show ?thesis
    proof (cases "s = w1")
      case True
      then show ?thesis by auto
    next
      case F: False
      have sp: "sparse_tx D (Some w1) tx" using 2 by simp
      then have "w1 + 4 * D < s" using lookup_tx_start_ge [OF l _ sp] False F 2 by auto
      moreover have "\<exists>p. \<forall>t. from_on (Some w1) t \<and> s - 4 * D \<le> t \<and> t < s \<longrightarrow> fst (lookup_tx (Some w1) o1 tx t) = p"
        using "2.IH" [OF False l _ sp "2.prems"(4)] F by simp
      then obtain p where "\<forall>t. from_on (Some w1) t \<and> s - 4 * D \<le> t \<and> t < s \<longrightarrow> fst (lookup_tx (Some w1) o1 tx t) = p"
        by blast
      ultimately show ?thesis by (intro exI [of _ p]) (simp add: from_on_def)
    qed
  qed
qed simp

lemma lookup_tx_abs:
  "\<bar>off0\<bar> \<le> D \<Longrightarrow> sparse_tx D s0 tx \<Longrightarrow> \<bar>fst (lookup_tx s0 off0 tx t)\<bar> \<le> D"
  by (induction s0 off0 tx t rule: lookup_tx.induct) auto

lemmas zone_defs = zone_lookup_def zone_off_def sparse_def

lemma zone_off_lookup: "zone_lookup z u = (off, s, e) \<Longrightarrow> zone_off z u = off \<and> from_on s u \<and> before u e"
  using lookup_tx_bounds [of None "zn_base z" "zn_tx z" u off s e] by (simp add: zone_defs from_on_def)

lemma zone_off_const:
  "zone_lookup z u = (off, s, e) \<Longrightarrow> sparse D z \<Longrightarrow> from_on s t \<Longrightarrow> before t e \<Longrightarrow> zone_off z t = off"
  using lookup_tx_const [of None "zn_base z" "zn_tx z" u off s e t D] by (simp add: zone_defs from_on_def)

lemma zone_off_next:
  assumes "zone_lookup z u = (off, s, Some e)" "sparse D z"
  shows "(case s of None \<Rightarrow> True | Some s' \<Rightarrow> s' + 4 * D < e) \<and>
     (\<forall>t. e \<le> t \<and> t \<le> e + 4 * D \<longrightarrow> zone_off z t = zone_off z e)"
  using lookup_tx_next [of None "zn_base z" "zn_tx z" u off s e D] assms unfolding zone_defs from_on_def
  by (simp only: option.case) blast

lemma zone_off_prev:
  assumes "zone_lookup z u = (off, Some s, e)" "sparse D z"
  shows "\<exists>p. \<forall>t. s - 4 * D \<le> t \<and> t < s \<longrightarrow> zone_off z t = p"
  using lookup_tx_prev [of None "zn_base z" "zn_tx z" u off s e D] assms by (simp add: zone_defs from_on_def)

lemma zone_off_abs: "sparse D z \<Longrightarrow> \<bar>zone_off z t\<bar> \<le> D"
  using lookup_tx_abs by (simp add: zone_defs)

lemma sparse_pos: "sparse D z \<Longrightarrow> 0 < D"
  by (simp add: sparse_def)

lemma go_date_offset: "\<exists>u. go_date z dn secs = dn * 86400 + secs - zone_off z u"
proof -
  let ?u = "dn * 86400 + secs"
  obtain off s e where l: "zone_lookup z ?u = (off, s, e)" using prod_cases3 by blast
  have "zone_off z ?u = off" using zone_off_lookup [OF l] by simp
  then have "go_date z dn secs = ?u - zone_off z ?u \<or> go_date z dn secs = ?u - zone_off z (?u - off)"
    using l by (simp add: go_date_def Let_def)
  then show ?thesis by blast
qed

text \<open>A local reading that exists is resolved to an instant with that reading.\<close>

lemma go_date_exists:
  assumes sp: "sparse D z" and t: "t + zone_off z t = dn * 86400 + secs"
  shows "go_date z dn secs + zone_off z (go_date z dn secs) = dn * 86400 + secs"
proof -
  let ?U = "dn * 86400 + secs" and ?r = "go_date z dn secs"
  obtain off s e where l: "zone_lookup z ?U = (off, s, e)" using prod_cases3 by blast
  note b = zone_off_lookup [OF l]
  have D: "0 < D" using sp by (rule sparse_pos)
  have near: "\<bar>t - ?U\<bar> \<le> D" "\<bar>off\<bar> \<le> D" using zone_off_abs [OF sp, of t] zone_off_abs [OF sp, of ?U] b t by auto
  let ?v = "?U - off"
  consider "off = 0" | "off \<noteq> 0" "from_on s ?v" "before ?v e" | s' where "off \<noteq> 0" "s = Some s'" "?v < s'"
    | e' where "off \<noteq> 0" "from_on s ?v" "e = Some e'" "e' \<le> ?v"
    by (cases s; cases e; force simp: from_on_def before_def)
  then show ?thesis
  proof cases
    case 1
    then show ?thesis using l b by (simp add: go_date_def)
  next
    case 2
    then have "?r = ?v" using l by (auto simp: go_date_def from_on_def before_def Let_def split: option.splits)
    then show ?thesis using zone_off_const [OF l sp 2(2,3)] by simp
  next
    case (3 s')
    then obtain p where p: "\<And>x. s' - 4 * D \<le> x \<Longrightarrow> x < s' \<Longrightarrow> zone_off z x = p"
      using zone_off_prev [of z ?U off s' e D] l sp by auto
    have u: "s' \<le> ?U" using b 3 by (simp add: from_on_def)
    have "zone_off z ?v = p" using p [of ?v] 3 near u D by linarith
    then have r: "?r = ?U - p" using l 3 by (simp add: go_date_def Let_def)
    have "t < s'"
    proof (rule ccontr)
      assume "\<not> t < s'"
      moreover have "before t e"
      proof (cases e)
        case (Some e')
        then have "s' + 4 * D < e'" using zone_off_next [of z ?U off s e' D] l sp 3 by simp
        then show ?thesis using Some near u 3 D by (simp add: before_def)
      qed (simp add: before_def)
      ultimately have "zone_off z t = off" using zone_off_const [OF l sp, of t] 3 by (simp add: from_on_def)
      then show False using t 3 \<open>\<not> t < s'\<close> by simp
    qed
    then have "zone_off z t = p" using p [of t] near u D by linarith
    then have "?r = t" using r t by linarith
    then show ?thesis using t by simp
  next
    case (4 e')
    have "zone_lookup z ?U = (off, s, Some e')" using l 4 by simp
    note nn = zone_off_next [OF this sp]
    have n: "case s of None \<Rightarrow> True | Some s' \<Rightarrow> s' + 4 * D < e'"
      "\<And>x. e' \<le> x \<Longrightarrow> x \<le> e' + 4 * D \<Longrightarrow> zone_off z x = zone_off z e'"
      using nn by blast+
    have u: "?U < e'" using b 4 by (simp add: before_def)
    have "zone_off z ?v = zone_off z e'" using n(2) [of ?v] 4 near u D by linarith
    then have r: "?r = ?U - zone_off z e'" using l 4 by (simp add: go_date_def Let_def)
    have "e' \<le> t"
    proof (rule ccontr)
      assume "\<not> e' \<le> t"
      moreover have "from_on s t" using n(1) near u 4 D by (auto simp: from_on_def split: option.splits)
      ultimately have "zone_off z t = off" using zone_off_const [OF l sp, of t] 4 by (simp add: before_def)
      then show False using t 4 \<open>\<not> e' \<le> t\<close> by simp
    qed
    then have "zone_off z t = zone_off z e'" using n(2) [of t] near u D by linarith
    then have "?r = t" using r t by linarith
    then show ?thesis using t by simp
  qed
qed

lemma clock_parts:
  fixes h m s :: int
  assumes "0 \<le> m" "m < 60" "0 \<le> s" "s < 60"
  shows "c div 3600 = h \<and> c div 60 mod 60 = m \<and> c mod 60 = s \<longleftrightarrow> c = h * 3600 + m * 60 + s"
proof
  assume "c div 3600 = h \<and> c div 60 mod 60 = m \<and> c mod 60 = s"
  then have "c div 60 div 60 = h" "c div 60 mod 60 = m" "c mod 60 = s"
    by (simp_all add: zdiv_zmult2_eq [symmetric])
  then show "c = h * 3600 + m * 60 + s"
    using div_mult_mod_eq [of c 60] div_mult_mod_eq [of "c div 60" 60] by linarith
next
  assume "c = h * 3600 + m * 60 + s"
  then have c: "c = s + 60 * (h * 60 + m)" by simp
  have "c div 60 = h * 60 + m" "c mod 60 = s"
    unfolding c using assms by (simp_all only: div_mult_self2 mod_mult_self2) simp_all
  moreover have "(h * 60 + m) div 60 = h" "(h * 60 + m) mod 60 = m"
    using assms div_mult_self2 [of 60 m h] mod_mult_self2 [of m 60 h] by (simp_all add: algebra_simps)
  moreover have "c div 3600 = c div 60 div 60" by (simp add: zdiv_zmult2_eq [symmetric])
  ultimately show "c div 3600 = h \<and> c div 60 mod 60 = m \<and> c mod 60 = s" by simp
qed

definition clock_ok :: "int \<Rightarrow> int \<Rightarrow> int \<Rightarrow> bool" where
  "clock_ok h m s \<longleftrightarrow> 0 \<le> h \<and> h \<le> 23 \<and> 0 \<le> m \<and> m \<le> 59 \<and> 0 \<le> s \<and> s \<le> 59"

lemma localInstant_Some:
  assumes "localInstant z dn h m s = Some x"
  shows "x = go_date z dn (h * 3600 + m * 60 + s) * 1000 \<and>
    local_clock z (x div 1000) div 3600 = h \<and> local_clock z (x div 1000) div 60 mod 60 = m \<and>
    local_clock z (x div 1000) mod 60 = s"
  using assms by (auto simp: localInstant_def Let_def split: if_splits)

text \<open>With offsets less than a day apart, the resolved instant lies on the requested date.\<close>

lemma localInstant_day:
  assumes "\<And>s t. \<bar>zone_off z s - zone_off z t\<bar> < 86400" "localInstant z dn h m s = Some x" "clock_ok h m s"
  shows "local_day z (x div 1000) = dn \<and> local_clock z (x div 1000) = h * 3600 + m * 60 + s \<and> x mod 1000 = 0"
proof -
  let ?s = "h * 3600 + m * 60 + s" and ?t = "x div 1000"
  have x: "x = go_date z dn ?s * 1000" and c: "local_clock z ?t = ?s"
    using localInstant_Some [OF assms(2)] clock_parts [of m s "local_clock z ?t" h] assms(3)
    by (auto simp: clock_ok_def)
  obtain u where "go_date z dn ?s = dn * 86400 + ?s - zone_off z u" using go_date_offset by blast
  then have r: "?t + zone_off z ?t = dn * 86400 + (?s + (zone_off z ?t - zone_off z u))"
    using x by simp
  define d where "d = zone_off z ?t - zone_off z u"
  have "(dn * 86400 + (?s + d)) mod 86400 = ?s" using c r by (simp add: local_clock_def d_def)
  then have "(?s + d) mod 86400 = ?s mod 86400" using assms(3) by (simp add: clock_ok_def)
  then have "86400 dvd d" using mod_eq_dvd_iff [of "?s + d" 86400 ?s] by simp
  moreover have "\<bar>d\<bar> < 86400" using assms(1) by (simp add: d_def)
  ultimately have d0: "d = 0" using dvd_imp_le_int [of d 86400] by fastforce
  have "0 \<le> ?s" "?s < 86400" using assms(3) by (simp_all add: clock_ok_def)
  then have "(dn * 86400 + ?s) div 86400 = dn" by simp
  then have "local_day z ?t = dn" using r d0 by (simp add: local_day_def d_def)
  then show ?thesis using c x by simp
qed

lemma sparse_close: "sparse D z \<Longrightarrow> 2 * D < 86400 \<Longrightarrow> \<bar>zone_off z s - zone_off z t\<bar> < 86400"
  using zone_off_abs [of D z s] zone_off_abs [of D z t] by linarith

section \<open>Regular zones\<close>

text \<open>
  In a regular zone every date has a midnight, its first instant; local dates then never run
  backwards.  Zones whose transitions stay clear of local midnight are regular.
\<close>

definition midnight :: "zone \<Rightarrow> int \<Rightarrow> int" where
  "midnight z dn = go_date z dn 0"

definition regular :: "zone \<Rightarrow> bool" where
  "regular z \<longleftrightarrow>
     (\<forall>dn. local_day z (midnight z dn) = dn \<and> local_clock z (midnight z dn) = 0) \<and>
     (\<forall>dn t. midnight z dn \<le> t \<longleftrightarrow> dn \<le> local_day z t) \<and>
     (\<forall>s t. \<bar>zone_off z s - zone_off z t\<bar> < 86400)"

lemma regular_midnight: "regular z \<Longrightarrow> local_day z (midnight z dn) = dn \<and> local_clock z (midnight z dn) = 0"
  by (simp add: regular_def)

lemma regular_day: "regular z \<Longrightarrow> midnight z dn \<le> t \<longleftrightarrow> dn \<le> local_day z t"
  by (simp add: regular_def)

lemma regular_close: "regular z \<Longrightarrow> \<bar>zone_off z s - zone_off z t\<bar> < 86400"
  by (simp add: regular_def)

lemma regular_mono: "regular z \<Longrightarrow> s \<le> t \<Longrightarrow> local_day z s \<le> local_day z t"
  using regular_day by (meson order.refl order.trans)

lemma regular_next:
  assumes "regular z"
  shows "add_days z (midnight z dn) 1 = midnight z (dn + 1)" "midnight z dn < midnight z (dn + 1)"
proof -
  show "add_days z (midnight z dn) 1 = midnight z (dn + 1)"
    using regular_midnight [OF assms, of dn] by (simp add: add_days_def midnight_def)
  show "midnight z dn < midnight z (dn + 1)"
    using regular_day [OF assms, of "dn + 1" "midnight z dn"] regular_midnight [OF assms, of dn] by simp
qed

lemma days_from_step:
  "regular z \<Longrightarrow>
    days_from z (midnight z dn) hi =
      (if hi < midnight z dn * 1000 then [] else midnight z dn # days_from z (add_days z (midnight z dn) 1) hi)"
  using regular_next [of z dn] by (subst days_from.simps) simp

lemma days_from_regular:
  assumes "regular z"
  shows "days_from z (midnight z dn) hi = map (midnight z) [dn..local_day z (hi div 1000)]"
proof (induction "nat (local_day z (hi div 1000) + 1 - dn)" arbitrary: dn)
  case 0
  then have "\<not> midnight z dn \<le> hi div 1000" using regular_day [OF assms] by simp
  then have "hi < midnight z dn * 1000" by linarith
  then show ?case using 0 by (simp add: days_from.simps)
next
  case (Suc n)
  then have le: "dn \<le> local_day z (hi div 1000)" by simp
  then have "midnight z dn \<le> hi div 1000" using regular_day [OF assms] by simp
  then have nlt: "\<not> hi < midnight z dn * 1000" by linarith
  have "days_from z (midnight z (dn + 1)) hi = map (midnight z) [dn + 1..local_day z (hi div 1000)]"
    using Suc by auto
  then show ?case
    using days_from_step [OF assms, of dn hi] nlt regular_next(1) [OF assms, of dn] upto_rec1 [OF le] by simp
qed

lemma daysInWindow_regular:
  "regular z \<Longrightarrow>
    daysInWindow z a b = map (midnight z) [local_day z (a div 1000)..local_day z (b div 1000)]"
  using days_from_regular [of z "local_day z (a div 1000)" b] by (simp add: daysInWindow_def midnight_def)

section \<open>Occurrences in a regular zone\<close>

text \<open>A trigger is confined when its instants of a date lie on that local date, each once.\<close>

definition confined :: "zone \<Rightarrow> (zone \<Rightarrow> int \<Rightarrow> int list) \<Rightarrow> bool" where
  "confined z cands \<longleftrightarrow>
     (\<forall>dn. distinct (cands z dn) \<and> (\<forall>x \<in> set (cands z dn). local_day z (x div 1000) = dn))"

lemma day_occurrences_regular:
  assumes "regular z" "loc_tz loc = Some z"
  shows "day_occurrences cands loc a b =
     (if b \<le> a then [] else concat (map (\<lambda>dn. in_window a b (cands z dn))
        [local_day z (a div 1000)..local_day z (b div 1000)]))"
  using assms regular_midnight [OF assms(1)]
  by (simp add: day_occurrences_def daysInWindow_regular o_def)

lemma set_day_occurrences:
  assumes "regular z" "loc_tz loc = Some z" "confined z cands"
  shows "set (day_occurrences cands loc a b) =
           {x. a < x \<and> x \<le> b \<and> x \<in> set (cands z (local_day z (x div 1000)))}"
proof -
  have day: "local_day z (x div 1000) \<in> {local_day z (a div 1000)..local_day z (b div 1000)}"
    if "a < x" "x \<le> b" for x
    using that regular_mono [OF assms(1)] by (simp add: zdiv_mono1)
  have conf: "local_day z (x div 1000) = dn" if "x \<in> set (cands z dn)" for x dn
    using that assms(3) by (auto simp: confined_def)
  have "x \<in> set (day_occurrences cands loc a b) \<longleftrightarrow>
      a < x \<and> x \<le> b \<and> x \<in> set (cands z (local_day z (x div 1000)))" for x
  proof
    assume "x \<in> set (day_occurrences cands loc a b)"
    then show "a < x \<and> x \<le> b \<and> x \<in> set (cands z (local_day z (x div 1000)))"
      using conf by (auto simp: day_occurrences_regular [OF assms(1,2)] in_window_def split: if_splits)
  next
    assume "a < x \<and> x \<le> b \<and> x \<in> set (cands z (local_day z (x div 1000)))"
    then show "x \<in> set (day_occurrences cands loc a b)"
      using day [of x]
      by (auto simp: day_occurrences_regular [OF assms(1,2)] in_window_def intro!: bexI [of _ "local_day z (x div 1000)"])
  qed
  then show ?thesis by blast
qed

lemma distinct_concat_key:
  assumes "distinct xs" "\<And>x. x \<in> set xs \<Longrightarrow> distinct (f x)"
    "\<And>x y. x \<in> set xs \<Longrightarrow> y \<in> set (f x) \<Longrightarrow> k y = x"
  shows "distinct (concat (map f xs))"
  using assms
proof (induction xs)
  case (Cons x xs)
  have "y \<notin> set (f a)" if "y \<in> set (f x)" "a \<in> set xs" for y a
    using Cons.prems(1) Cons.prems(3) [of x y] Cons.prems(3) [of a y] that by auto
  then have "set (f x) \<inter> (\<Union>a \<in> set xs. set (f a)) = {}" by blast
  then show ?case using Cons by simp
qed simp

lemma distinct_day_occurrences:
  assumes "regular z" "loc_tz loc = Some z" "confined z cands"
  shows "distinct (day_occurrences cands loc a b)"
  unfolding day_occurrences_regular [OF assms(1,2)]
  using assms(3)
  by (auto simp: confined_def in_window_def intro!: distinct_concat_key [where k = "\<lambda>x. local_day z (x div 1000)"])

definition time_ok :: "time_trigger \<Rightarrow> bool" where
  "time_ok t \<longleftrightarrow> clock_ok (tt_hour t) (tt_min t) (tt_sec t)"

lemma parseHMS_ok: "parseHMS s = Some (h, m, sec) \<Longrightarrow> clock_ok h m sec"
  by (auto simp: parseHMS_def clock_ok_def split: list.splits option.splits if_splits)

lemma NewTimeTrigger_ok: "NewTimeTrigger s = Some t \<Longrightarrow> time_ok t"
  by (auto simp: NewTimeTrigger_def time_ok_def dest: parseHMS_ok split: option.splits)

lemma time_confined: "regular z \<Longrightarrow> time_ok t \<Longrightarrow> confined z (time_cands t)"
  using localInstant_day [OF regular_close]
  by (auto simp: confined_def time_cands_def time_ok_def)

lemma matching_bounds: "x \<in> set (matching f n) \<Longrightarrow> 0 \<le> x \<and> x \<le> n"
  by (simp add: matching_def)

lemma distinct_matching: "distinct (matching f n)"
  by (simp add: matching_def)

lemma pattern_cands_elem:
  "x \<in> set (pattern_cands p z dn) \<longleftrightarrow>
     (\<exists>h m s. h \<in> set (matching (pt_hours p) 23) \<and> m \<in> set (matching (pt_minutes p) 59) \<and>
        s \<in> set (matching (pt_seconds p) 59) \<and> localInstant z dn h m s = Some x)"
  by (auto simp: pattern_cands_def)

lemma distinct_pattern_cands: "distinct (pattern_cands p z dn)"
proof -
  let ?c = "\<lambda>x. local_clock z (x div 1000)"
  have s: "distinct (concat (map (\<lambda>s. opt_list (localInstant z dn h m s)) (matching (pt_seconds p) 59)))" for h m
    by (rule distinct_concat_key [where k = "\<lambda>x. ?c x mod 60"])
       (auto simp: distinct_matching dest: localInstant_Some)
  have m: "distinct (concat (map (\<lambda>m. concat (map (\<lambda>s. opt_list (localInstant z dn h m s))
      (matching (pt_seconds p) 59))) (matching (pt_minutes p) 59)))" for h
    by (rule distinct_concat_key [where k = "\<lambda>x. ?c x div 60 mod 60"])
       (auto simp: distinct_matching s dest: localInstant_Some)
  show ?thesis
    unfolding pattern_cands_def
    by (rule distinct_concat_key [where k = "\<lambda>x. ?c x div 3600"])
       (auto simp: distinct_matching m dest: localInstant_Some)
qed

lemma pattern_confined: "regular z \<Longrightarrow> confined z (pattern_cands p)"
  using localInstant_day [OF regular_close] matching_bounds
  by (fastforce simp: confined_def distinct_pattern_cands pattern_cands_elem clock_ok_def)

section \<open>The contract of a scheduled trigger\<close>

text \<open>
  What the engine relies on when it asks a trigger for the occurrences of consecutive windows: each
  lies in its window, none is reported twice, and cutting a window in two loses and adds nothing.
\<close>

locale schedule_laws =
  fixes occ :: "int \<Rightarrow> int \<Rightarrow> int list"
  assumes in_bounds: "x \<in> set (occ a b) \<Longrightarrow> a < x \<and> x \<le> b"
    and once: "distinct (occ a b)"
    and split_window: "a \<le> b \<Longrightarrow> b \<le> c \<Longrightarrow> set (occ a c) = set (occ a b) \<union> set (occ b c)"

text \<open>The occurrences reported over consecutive windows that end at the given instants.\<close>

fun over_ticks :: "(int \<Rightarrow> int \<Rightarrow> int list) \<Rightarrow> int \<Rightarrow> int list \<Rightarrow> int list" where
  "over_ticks occ a [] = []"
| "over_ticks occ a (t # ts) = occ a t @ over_ticks occ t ts"

context schedule_laws
begin

lemma empty_window: "b \<le> a \<Longrightarrow> occ a b = []"
  using in_bounds [of _ a b] by (cases "occ a b") force+

lemma over_ticks_after:
  "sorted (a # ts) \<Longrightarrow> x \<in> set (over_ticks occ a ts) \<Longrightarrow> a < x"
proof (induction ts arbitrary: a)
  case (Cons t ts)
  then show ?case using in_bounds [of x a t] by fastforce
qed simp

lemma set_over_ticks:
  "sorted (a # ts) \<Longrightarrow> set (over_ticks occ a ts) = set (occ a (last (a # ts)))"
proof (induction ts arbitrary: a)
  case Nil
  then show ?case by (simp add: empty_window)
next
  case (Cons t ts)
  have "t \<le> last (t # ts)" using Cons.prems by (cases ts) (auto simp: last_in_set)
  then show ?case using Cons split_window [of a t "last (t # ts)"] by simp
qed

lemma over_ticks_once: "sorted (a # ts) \<Longrightarrow> distinct (over_ticks occ a ts)"
proof (induction ts arbitrary: a)
  case (Cons t ts)
  have "x \<le> t" if "x \<in> set (occ a t)" for x using in_bounds that by blast
  moreover have "t < x" if "x \<in> set (over_ticks occ t ts)" for x
    using over_ticks_after [of t ts x] Cons.prems that by simp
  ultimately have "set (occ a t) \<inter> set (over_ticks occ t ts) = {}" by force
  then show ?case using Cons once by simp
qed simp

end

lemma confined_laws:
  assumes "regular z" "loc_tz loc = Some z" "confined z cands"
  shows "schedule_laws (day_occurrences cands loc)"
proof
  fix x a b c
  show "x \<in> set (day_occurrences cands loc a b) \<Longrightarrow> a < x \<and> x \<le> b"
    by (simp add: set_day_occurrences [OF assms])
  show "distinct (day_occurrences cands loc a b)" by (rule distinct_day_occurrences [OF assms])
  show "a \<le> b \<Longrightarrow> b \<le> c \<Longrightarrow>
      set (day_occurrences cands loc a c) = set (day_occurrences cands loc a b) \<union> set (day_occurrences cands loc b c)"
    by (auto simp: set_day_occurrences [OF assms])
qed

section \<open>Fixed-offset zones\<close>

definition fixed_zone :: "int \<Rightarrow> zone" where
  "fixed_zone off = \<lparr>zn_base = off, zn_tx = []\<rparr>"

lemma fixed_zone_off [simp]: "zone_off (fixed_zone off) t = off"
  by (simp add: zone_defs fixed_zone_def)

lemma fixed_zone_date [simp]: "go_date (fixed_zone off) dn s = dn * 86400 + s - off"
  by (simp add: go_date_def zone_lookup_def fixed_zone_def Let_def)

lemma fixed_zone_regular: "regular (fixed_zone off)"
  unfolding regular_def midnight_def local_day_def local_clock_def fixed_zone_off fixed_zone_date
  by (auto; linarith)

definition fixed_loc :: "int \<Rightarrow> f64 \<Rightarrow> f64 \<Rightarrow> location" where
  "fixed_loc off lat lon = \<lparr>loc_tz = Some (fixed_zone off), loc_lat = lat, loc_lon = lon\<rparr>"

text \<open>The trigger of a second of the day.\<close>

definition clock_trigger :: "int \<Rightarrow> time_trigger" where
  "clock_trigger n =
     (let s = n mod 86400 in \<lparr>tt_hour = s div 3600, tt_min = s div 60 mod 60, tt_sec = s mod 60\<rparr>)"

lemma clock_trigger_ok: "time_ok (clock_trigger n)"
proof -
  have s: "0 \<le> n mod 86400" "n mod 86400 < 86400" by simp_all
  then have "(n mod 86400) div 3600 < 24" by linarith
  moreover have "x mod 60 \<le> 59" for x :: int using pos_mod_bound [of 60 x] by linarith
  ultimately show ?thesis
    using s by (simp add: time_ok_def clock_ok_def clock_trigger_def Let_def pos_imp_zdiv_nonneg_iff)
qed

interpretation fixed_time: schedule_laws "TimeOccurrences (clock_trigger n) (fixed_loc off lat lon)"
  for n off lat lon
  unfolding TimeOccurrences_def
  by (rule confined_laws [OF fixed_zone_regular _ time_confined [OF fixed_zone_regular clock_trigger_ok]])
     (simp add: fixed_loc_def)

interpretation fixed_pattern: schedule_laws "PatternOccurrences p (fixed_loc off lat lon)" for p off lat lon
  unfolding PatternOccurrences_def
  by (rule confined_laws [OF fixed_zone_regular _ pattern_confined [OF fixed_zone_regular]])
     (simp add: fixed_loc_def)

section \<open>Zones with transitions\<close>

definition new_york :: zone where
  "new_york = \<lparr>zn_base = -18000, zn_tx = [(1710054000, -14400), (1730613600, -18000)]\<rparr>"

definition berlin :: zone where
  "berlin = \<lparr>zn_base = 3600, zn_tx = [(1711846800, 7200), (1729990800, 3600)]\<rparr>"

lemma new_york_off:
  "zone_off new_york t = (if 1710054000 \<le> t \<and> t < 1730613600 then -14400 else -18000)"
  by (simp add: zone_defs new_york_def)

lemma new_york_midnight:
  "midnight new_york dn = dn * 86400 + (if 1710054000 \<le> dn * 86400 + 14400 \<and> dn * 86400 + 14400 < 1730613600
     then 14400 else 18000)"
proof -
  consider "dn \<le> 19792" | "19793 \<le> dn" "dn \<le> 20030" | "20031 \<le> dn" by linarith
  then show ?thesis
    by cases (simp_all add: midnight_def go_date_def zone_lookup_def new_york_off new_york_def Let_def)
qed

lemma new_york_regular: "regular new_york"
proof -
  have "local_day new_york (midnight new_york dn) = dn \<and> local_clock new_york (midnight new_york dn) = 0" for dn
    unfolding local_day_def local_clock_def new_york_off new_york_midnight by auto
  moreover have "midnight new_york dn \<le> t \<longleftrightarrow> dn \<le> local_day new_york t" for dn t
  proof -
    have d: "dn \<le> x div 86400 \<longleftrightarrow> dn * 86400 \<le> x" for x :: int by linarith
    show ?thesis
      unfolding local_day_def new_york_off new_york_midnight d by (cases "dn \<le> 19792"; cases "dn \<le> 20030") auto
  qed
  moreover have "\<bar>zone_off new_york s - zone_off new_york t\<bar> < 86400" for s t
    by (simp add: new_york_off)
  ultimately show ?thesis by (simp add: regular_def)
qed

lemma berlin_sparse: "sparse 40000 berlin"
  by code_simp

text \<open>A local time that a transition repeats: here the later of the two instants is chosen.\<close>

lemma fall_back_takes_second:
  "localInstant berlin 20023 2 30 0 = Some 1729992600000 \<and>
   local_day berlin 1729989000 = 20023 \<and> local_clock berlin 1729989000 = 2 * 3600 + 30 * 60"
  by code_simp

section \<open>Sun triggers and misfires\<close>

lemma SunOccurrences_one_date:
  assumes "regular z" "loc_tz loc = Some z" "local_day z (a div 1000) = dn" "local_day z (b div 1000) = dn"
  shows "SunOccurrences ml s loc a b = in_window a b (opt_list (SunInstant ml loc dn (su_event s) (su_offset s)))"
  using assms by (auto simp: SunOccurrences_def day_occurrences_regular [OF assms(1,2)] in_window_def opt_list_def
      split: option.splits)

lemma foldl_max: "foldl (\<lambda>latest w. if latest < w then w else latest) m ms = Max (set (m # ms))" for m :: int
proof (induction ms arbitrary: m)
  case (Cons w ms)
  have "Max (set ((if m < w then w else m) # ms)) = Max (set (m # w # ms))"
    by (cases "ms = []") (auto simp: max_def)
  then show ?case using Cons by simp
qed simp

definition pad2 :: "int \<Rightarrow> string" where
  "pad2 n = [digit_char (nat n div 10), digit_char (nat n mod 10)]"

lemma atoi_pad2: "0 \<le> n \<Longrightarrow> n < 100 \<Longrightarrow> atoi (pad2 n) = Some n"
proof -
  assume n: "0 \<le> n" "n < 100"
  then have d: "nat n div 10 < 10" "nat n mod 10 < 10" by auto
  have s: "digit_char (nat n div 10) \<noteq> CHR ''-''" "digit_char (nat n div 10) \<noteq> CHR ''+''"
    using is_digit_digit_char [OF d(1)] digit_not_sign by auto
  have v: "digits_val (pad2 n) = nat n"
    using d by (simp add: pad2_def digits_val_def digit_val_digit_char)
  show ?thesis
    using n d s is_digit_digit_char v by (simp add: atoi_def pad2_def in_i64_def Let_def)
qed

lemma pad2_no_colon: "0 \<le> n \<Longrightarrow> n < 100 \<Longrightarrow> CHR '':'' \<notin> set (pad2 n)"
proof -
  assume n: "0 \<le> n" "n < 100"
  have "\<not> is_digit CHR '':''" by code_simp
  then show ?thesis using n is_digit_digit_char [of "nat n div 10"] is_digit_digit_char [of "nat n mod 10"]
    by (auto simp: pad2_def)
qed

definition show_hms :: "int \<Rightarrow> int \<Rightarrow> int \<Rightarrow> string" where
  "show_hms h m s = pad2 h @ '':'' @ pad2 m @ '':'' @ pad2 s"

section \<open>Properties\<close>

definition sched_cands :: "sched_trigger \<Rightarrow> zone \<Rightarrow> int \<Rightarrow> int list" where
  "sched_cands tr z dn =
     (case tr of SchedTime t \<Rightarrow> time_cands t z dn | SchedPattern p \<Rightarrow> pattern_cands p z dn | SchedSun s \<Rightarrow> [])"

lemma sched_confined:
  assumes "regular z" "(\<exists>t. tr = SchedTime t \<and> time_ok t) \<or> (\<exists>p. tr = SchedPattern p)"
  shows "Occurrences ml tr loc = day_occurrences (sched_cands tr) loc \<and> confined z (sched_cands tr)"
  using assms(2) time_confined [OF assms(1)] pattern_confined [OF assms(1)]
  by (auto simp: TimeOccurrences_def PatternOccurrences_def sched_cands_def [abs_def])

text \<open>C35. Over any sequence of ticks a time or time-pattern trigger reports every occurrence exactly once:
  in a zone whose midnights exist, the occurrences of the consecutive windows are those the trigger
  asks for on their own local dates, each once, whatever the instants of the ticks.\<close>

theorem occurrences_over_ticks:
  assumes "regular z" "loc_tz loc = Some z" "sorted (a # ticks)"
    and "(\<exists>t. tr = SchedTime t \<and> time_ok t) \<or> (\<exists>p. tr = SchedPattern p)"
  shows "distinct (over_ticks (Occurrences ml tr loc) a ticks) \<and>
         set (over_ticks (Occurrences ml tr loc) a ticks) =
           {x. a < x \<and> x \<le> last (a # ticks) \<and> x \<in> set (sched_cands tr z (local_day z (x div 1000)))}"
proof
  have o: "Occurrences ml tr loc = day_occurrences (sched_cands tr) loc" and c: "confined z (sched_cands tr)"
    using sched_confined [OF assms(1,4)] by simp_all
  note laws = confined_laws [OF assms(1,2) c]
  show "distinct (over_ticks (Occurrences ml tr loc) a ticks)"
    unfolding o by (rule schedule_laws.over_ticks_once [OF laws assms(3)])
  show "set (over_ticks (Occurrences ml tr loc) a ticks) =
      {x. a < x \<and> x \<le> last (a # ticks) \<and> x \<in> set (sched_cands tr z (local_day z (x div 1000)))}"
    unfolding o schedule_laws.set_over_ticks [OF laws assms(3)] by (rule set_day_occurrences [OF assms(1,2) c])
qed

text \<open>C36. A local time is resolved exactly when it exists: with transitions further apart than the offsets
  reach, no instant is reported only for a reading that a transition skips, and a reported instant
  shows the requested date and clock reading.\<close>

theorem localInstant_exact:
  assumes "sparse D z" "2 * D < 86400" "clock_ok h m s"
  shows "case localInstant z dn h m s of
           None \<Rightarrow> \<nexists>t. local_day z t = dn \<and> local_clock z t = h * 3600 + m * 60 + s
         | Some x \<Rightarrow> local_day z (x div 1000) = dn \<and> local_clock z (x div 1000) = h * 3600 + m * 60 + s"
proof (cases "localInstant z dn h m s")
  case (Some x)
  then show ?thesis using localInstant_day [OF sparse_close [OF assms(1,2)] Some assms(3)] by simp
next
  case None
  let ?s = "h * 3600 + m * 60 + s" and ?r = "go_date z dn (h * 3600 + m * 60 + s)"
  have s: "0 \<le> ?s" "?s < 86400" using assms(3) by (simp_all add: clock_ok_def)
  have "\<not> (local_day z t = dn \<and> local_clock z t = ?s)" for t
  proof
    assume "local_day z t = dn \<and> local_clock z t = ?s"
    then have "t + zone_off z t = dn * 86400 + ?s"
      using div_mult_mod_eq [of "t + zone_off z t" 86400] by (simp add: local_day_def local_clock_def)
    then have "?r + zone_off z ?r = dn * 86400 + ?s" by (rule go_date_exists [OF assms(1)])
    then have "local_clock z ?r = ?s" using s by (simp only: local_clock_def) simp
    then have "localInstant z dn h m s \<noteq> None"
      using clock_parts [of m s ?s h] assms(3) by (auto simp: localInstant_def clock_ok_def Let_def)
    then show False using None by simp
  qed
  then show ?thesis using None by simp
qed

text \<open>The misfire policies: \<open>fire_each\<close> fires every missed occurrence once, in ascending order,
  \<open>catch_up_once\<close> fires the latest alone, every other policy fires nothing, and every such fire is
  marked as caught.\<close>

theorem ApplyMisfire_policies:
  "(let walls = map fi_wall (ApplyMisfire policy missed) in
      if policy = ''fire_each'' then sorted walls \<and> mset walls = mset missed
      else if policy = ''catch_up_once'' \<and> missed \<noteq> [] then walls = [Max (set missed)]
      else walls = []) \<and>
   list_all fi_caught (ApplyMisfire policy missed)"
proof -
  have e: "map fi_wall (ApplyMisfire ''fire_each'' missed) = sort missed"
    by (simp add: ApplyMisfire_def o_def split: list.split)
  have c: "map fi_wall (ApplyMisfire ''catch_up_once'' missed) = (if missed = [] then [] else [Max (set missed)])"
    using foldl_max by (simp add: ApplyMisfire_def split: list.split)
  have s: "policy \<noteq> ''fire_each'' \<Longrightarrow> policy \<noteq> ''catch_up_once'' \<Longrightarrow> ApplyMisfire policy missed = []"
    by (simp add: ApplyMisfire_def split: list.split)
  have "list_all fi_caught (ApplyMisfire policy missed)"
    by (auto simp: ApplyMisfire_def list_all_iff split: list.split)
  moreover have "missed = [] \<Longrightarrow> ApplyMisfire policy missed = []"
    by (simp add: ApplyMisfire_def)
  ultimately show ?thesis using e c s by (auto simp: Let_def simp del: map_is_Nil_conv)
qed

text \<open>The clock reading of a time trigger survives printing and parsing: every reading printed as
  \<open>HH:MM:SS\<close> parses to itself.\<close>

theorem parseHMS_show:
  assumes "clock_ok h m s"
  shows "NewTimeTrigger (show_hms h m s) = Some \<lparr>tt_hour = h, tt_min = m, tt_sec = s\<rparr>"
proof -
  have b: "0 \<le> h" "h < 100" "0 \<le> m" "m < 100" "0 \<le> s" "s < 100" using assms by (auto simp: clock_ok_def)
  have "split_on CHR '':'' (show_hms h m s) = [pad2 h, pad2 m, pad2 s]"
    using b pad2_no_colon by (simp add: show_hms_def split_on_append_sep split_on_no_sep)
  moreover have "length (pad2 n) = 2" for n by (simp add: pad2_def)
  ultimately have "parseHMS (show_hms h m s) = Some (h, m, s)"
    using assms b atoi_pad2 by (simp add: parseHMS_def clock_ok_def)
  then show ?thesis by (simp add: NewTimeTrigger_def)
qed

text \<open>In a window inside one local date a sun trigger reports at most the instant computed for that
  date: an offset that carries the instant of a date past local midnight takes it out of every such
  window, so it is reported only by a window that spans the midnight.\<close>

theorem sun_offset_past_midnight:
  assumes "regular z" "loc_tz loc = Some z"
    and "SunInstant ml loc dn (su_event s) (su_offset s) = Some x"
    and "local_day z (a div 1000) = local_day z (b div 1000)" "local_day z (b div 1000) \<noteq> dn"
    and "SunInstant ml loc (local_day z (b div 1000)) (su_event s) (su_offset s) \<noteq> Some x"
  shows "x \<notin> set (SunOccurrences ml s loc a b)"
  using assms SunOccurrences_one_date [OF assms(1,2,4) refl] by (simp add: in_window_def)

text \<open>Constant stand-ins for the functions of \<open>math\<close>, for which the sun stands at the horizon only at noon.\<close>

definition flat_sun :: mathlib where
  "flat_sun = \<lparr>ml_sin = (\<lambda>_. Fin 0), ml_cos = (\<lambda>_. Fin 1), ml_asin = (\<lambda>_. Fin 0), ml_acos = (\<lambda>_. Fin 0)\<rparr>"

definition ny_loc :: location where
  "ny_loc = \<lparr>loc_tz = Some new_york, loc_lat = Fin 40, loc_lon = Fin (- 74)\<rparr>"

text \<open>Two ticks around 12:00 local time on 2024-07-01.\<close>

theorem occurrences_over_ticks_witness:
  "over_ticks (Occurrences flat_sun (SchedTime (clock_trigger 43200)) ny_loc) 1719849599000 [1719849599500, 1719849600000]
     = [1719849600000] \<and>
   distinct (over_ticks (Occurrences flat_sun (SchedTime (clock_trigger 43200)) ny_loc) 1719849599000 [1719849599500, 1719849600000])"
proof
  show "over_ticks (Occurrences flat_sun (SchedTime (clock_trigger 43200)) ny_loc) 1719849599000 [1719849599500, 1719849600000]
     = [1719849600000]"
    by code_simp
  show "distinct (over_ticks (Occurrences flat_sun (SchedTime (clock_trigger 43200)) ny_loc) 1719849599000
      [1719849599500, 1719849600000])"
    by (rule occurrences_over_ticks [OF new_york_regular, THEN conjunct1])
       (use clock_trigger_ok in \<open>auto simp: ny_loc_def\<close>)
qed

theorem localInstant_exact_witness:
  "localInstant berlin 19813 2 30 0 = None \<and>
   (\<nexists>t. local_day berlin t = 19813 \<and> local_clock berlin t = 2 * 3600 + 30 * 60 + 0)"
proof -
  have n: "localInstant berlin 19813 2 30 0 = None" by code_simp
  then show ?thesis
    using localInstant_exact [OF berlin_sparse, of 2 30 0 19813] by (simp add: clock_ok_def)
qed

theorem ApplyMisfire_policies_witness:
  "sorted (map fi_wall (ApplyMisfire ''fire_each'' [5, 3])) \<and> map fi_wall (ApplyMisfire ''catch_up_once'' [5, 3]) = [5]"
  using ApplyMisfire_policies [of "''fire_each''" "[5, 3]"] ApplyMisfire_policies [of "''catch_up_once''" "[5, 3]"]
  by (simp add: Let_def)

theorem parseHMS_show_witness: "NewTimeTrigger ''07:05:59'' = Some \<lparr>tt_hour = 7, tt_min = 5, tt_sec = 59\<rparr>"
proof -
  have "show_hms 7 5 59 = ''07:05:59''" by code_simp
  then show ?thesis using parseHMS_show [of 7 5 59] by (simp add: clock_ok_def)
qed

lemma flat_epoch: "rnd (1 / 1250) = Fin (7378697629483821 / 9223372036854775808)"
  by (subst rnd_eval [where e = "-11"]) (simp_all add: rnd_eval_simps)

lemma flat_noon:
  "f64_round (f64_add (Fin (17531 / 2)) (rnd (1 / 1250))) = Fin 8766"
  "f64_round (f64_add (Fin (17533 / 2)) (rnd (1 / 1250))) = Fin 8767"
  unfolding flat_epoch f64_add.simps
  subgoal by (subst rnd_eval [where e = "13"]) (simp_all add: rnd_eval_simps)
  subgoal by (subst rnd_eval [where e = "13"]) (simp_all add: rnd_eval_simps)
  done

lemma flat_finite: "\<exists>x. rnd (53 / 10000) = Fin x" "\<exists>x. rnd (69 / 10000) = Fin x" "\<exists>x. rnd radToDeg = Fin x"
  subgoal by (rule exI, rule rnd_eval [where e = "-8"]) (simp_all add: rnd_eval_simps)
  subgoal by (rule exI, rule rnd_eval [where e = "-8"]) (simp_all add: rnd_eval_simps)
  subgoal by (rule exI, rule rnd_eval [where e = "5"]) (simp_all add: rnd_eval_simps radToDeg_def math_pi_def)
  done

lemma flat_halves:
  "rnd (4920621 / 2) = Fin (4920621 / 2)" "rnd (17531 / 2) = Fin (17531 / 2)" "rnd (39447 / 2) = Fin (39447 / 2)"
  "rnd (4920623 / 2) = Fin (4920623 / 2)" "rnd (17533 / 2) = Fin (17533 / 2)" "rnd (39449 / 2) = Fin (39449 / 2)"
  subgoal by (subst rnd_eval [where e = "21"]) (simp_all add: rnd_eval_simps)
  subgoal by (subst rnd_eval [where e = "13"]) (simp_all add: rnd_eval_simps)
  subgoal by (subst rnd_eval [where e = "14"]) (simp_all add: rnd_eval_simps)
  subgoal by (subst rnd_eval [where e = "21"]) (simp_all add: rnd_eval_simps)
  subgoal by (subst rnd_eval [where e = "13"]) (simp_all add: rnd_eval_simps)
  subgoal by (subst rnd_eval [where e = "14"]) (simp_all add: rnd_eval_simps)
  done

lemma flat_sun_noon:
  "sunEventUnixMillis flat_sun 19723 lat (Fin 0) rise = Some 1704110400000"
  "sunEventUnixMillis flat_sun 19724 lat (Fin 0) rise = Some 1704196800000"
proof -
  obtain a b c where f: "rnd (53 / 10000) = Fin a" "rnd (69 / 10000) = Fin b" "rnd radToDeg = Fin c"
    using flat_finite by blast
  show "sunEventUnixMillis flat_sun 19723 lat (Fin 0) rise = Some 1704110400000"
    "sunEventUnixMillis flat_sun 19724 lat (Fin 0) rise = Some 1704196800000"
    unfolding sunEventUnixMillis_def Let_def flat_sun_def
    by (simp_all add: f f64_sub_def rnd_numeral rnd_one flat_halves flat_noon trunc_rat_def in_i64_def)
qed
definition greenwich :: location where
  "greenwich = fixed_loc 0 (Fin 51) (Fin 0)"

text \<open>A sunset offset of thirteen hours: the instant of 2024-01-01 is at 01:00 on 2024-01-02, and no
  window inside that day reports it.\<close>

theorem sun_offset_past_midnight_witness:
  "SunInstant flat_sun greenwich 19723 ''sunset'' 46800 = Some 1704157200000 \<and>
   1704157200000 \<notin> set (SunOccurrences flat_sun \<lparr>su_event = ''sunset'', su_offset = 46800\<rparr> greenwich
      1704157199000 1704157201000)"
proof
  have i: "SunInstant flat_sun greenwich 19723 ''sunset'' 46800 = Some 1704157200000"
    "SunInstant flat_sun greenwich 19724 ''sunset'' 46800 = Some 1704243600000"
    by (simp_all add: SunInstant_def greenwich_def fixed_loc_def flat_sun_noon i64_def)
  show "SunInstant flat_sun greenwich 19723 ''sunset'' 46800 = Some 1704157200000" by (rule i)
  have d: "local_day (fixed_zone 0) (1704157199000 div 1000) = 19724" "local_day (fixed_zone 0) (1704157201000 div 1000) = 19724"
    by (simp_all add: local_day_def)
  show "1704157200000 \<notin> set (SunOccurrences flat_sun \<lparr>su_event = ''sunset'', su_offset = 46800\<rparr> greenwich
      1704157199000 1704157201000)"
    by (rule sun_offset_past_midnight [where dn = 19723 and z = "fixed_zone 0"])
       (use fixed_zone_regular i d in \<open>simp_all add: greenwich_def fixed_loc_def\<close>)
qed

end
