(* ===== verification/DeviceClass.thy ===== *)
theory DeviceClass
  imports GoValue
begin

text \<open>
  The device-class registry of \<open>internal/deviceclass\<close>: class entries, their structural
  validation (\<open>validate.go\<close>), the lookups every consumer reads through (\<open>registry.go\<close>), live
  registration of classes and semantic groups (\<open>register.go\<close>) and the built-in class
  (\<open>builtin.go\<close>).  A Go map is the list of its entries in key order.  An error keeps its code and
  path; the message text is left out.
\<close>

section \<open>Identifiers\<close>

definition IsSnakeIdent :: "string \<Rightarrow> bool" where
  "IsSnakeIdent s =
     (case s of [] \<Rightarrow> False
      | c # cs \<Rightarrow> is_lower c \<and> list_all (\<lambda>d. is_lower d \<or> is_digit d \<or> d = CHR ''_'') cs)"

definition IsClassIdent :: "string \<Rightarrow> bool" where
  "IsClassIdent s =
     (case s of [] \<Rightarrow> False
      | c # cs \<Rightarrow> is_lower c \<and> list_all (\<lambda>d. is_lower d \<or> is_digit d \<or> d = CHR ''-'') cs)"

section \<open>Entries\<close>

record dc_param =
  pr_name :: string
  pr_type :: string
  pr_required :: bool
  pr_values :: "string list"

record dc_command =
  cmd_name :: string
  cmd_params :: "dc_param list"

record dc_attribute =
  at_name :: string
  at_type :: string
  at_unit :: "string option"
  at_nullable :: bool
  at_change_emission :: string
  at_values :: "string list"

record class_entry =
  ce_origin :: string
  ce_states :: "string list"
  ce_unknown_state_fallback :: string
  ce_semantic_groups :: "(string \<times> string list) list"
  ce_attributes :: "dc_attribute list"
  ce_commands :: "dc_command list"

type_synonym class_map = "(string \<times> class_entry) list"

record dc_error =
  dce_code :: string
  dce_path :: string

definition dc_err :: "string \<Rightarrow> string \<Rightarrow> dc_error" where
  "dc_err c p = \<lparr>dce_code = c, dce_path = p\<rparr>"

text \<open>A check that appends one error when its condition holds.\<close>

definition err_if :: "bool \<Rightarrow> string \<Rightarrow> string \<Rightarrow> dc_error list" where
  "err_if b c p = (if b then [dc_err c p] else [])"

lemma err_if_Nil [simp]: "err_if b c p = [] \<longleftrightarrow> \<not> b"
  by (simp add: err_if_def)

section \<open>Validation\<close>

definition validType :: "string \<Rightarrow> bool" where
  "validType t \<longleftrightarrow> t \<in> set [''string'', ''number'', ''boolean'', ''enum'']"

definition validateTypeShape :: "string \<Rightarrow> string list \<Rightarrow> string \<Rightarrow> string \<Rightarrow> dc_error list" where
  "validateTypeShape typ values path code =
     err_if (\<not> validType typ) code (path @ ''.type'') @
     (if typ = ''enum'' then
        (if values = [] then [dc_err code (path @ ''.values'')]
         else err_if (\<not> distinct values) code (path @ ''.values''))
      else err_if (values \<noteq> []) code (path @ ''.values''))"

fun validateParams :: "string \<Rightarrow> nat \<Rightarrow> dc_param list \<Rightarrow> dc_error list" where
  "validateParams cp j [] = []"
| "validateParams cp j (p # ps) =
     (let pp = idx (cp @ ''.params'') j
      in err_if (\<not> IsSnakeIdent (pr_name p)) ''SNAKE_IDENTIFIER_INVALID'' (pp @ ''.name'') @
         validateTypeShape (pr_type p) (pr_values p) pp ''COMMAND_PARAM_TYPE_INVALID'' @
         validateParams cp (Suc j) ps)"

fun validateCommands :: "string \<Rightarrow> nat \<Rightarrow> string list \<Rightarrow> dc_command list \<Rightarrow> dc_error list" where
  "validateCommands base i seen [] = []"
| "validateCommands base i seen (c # cs) =
     (let cp = idx (base @ ''.commands'') i
      in err_if (\<not> IsSnakeIdent (cmd_name c)) ''SNAKE_IDENTIFIER_INVALID'' (cp @ ''.name'') @
         err_if (cmd_name c \<in> set seen) ''COMMAND_NAME_COLLISION'' (cp @ ''.name'') @
         validateParams cp 0 (cmd_params c) @
         validateCommands base (Suc i) (cmd_name c # seen) cs)"

fun validateAttributes :: "string \<Rightarrow> nat \<Rightarrow> string list \<Rightarrow> dc_attribute list \<Rightarrow> dc_error list" where
  "validateAttributes base i seen [] = []"
| "validateAttributes base i seen (a # as) =
     (let ap = idx (base @ ''.attributes'') i
      in err_if (\<not> IsSnakeIdent (at_name a)) ''SNAKE_IDENTIFIER_INVALID'' (ap @ ''.name'') @
         err_if (at_name a \<in> set seen) ''ATTRIBUTE_NAME_COLLISION'' (ap @ ''.name'') @
         validateTypeShape (at_type a) (at_values a) ap ''ATTRIBUTE_TYPE_INVALID'' @
         err_if (at_unit a \<noteq> None \<and> at_type a \<noteq> ''number'') ''ATTRIBUTE_UNIT_NOT_APPLICABLE'' (ap @ ''.unit'') @
         err_if (at_change_emission a \<noteq> ''significant'' \<and> at_change_emission a \<noteq> ''cosmetic'')
           ''CHANGE_EMISSION_INVALID'' (ap @ ''.change_emission'') @
         validateAttributes base (Suc i) (at_name a # seen) as)"

fun validateStates :: "string \<Rightarrow> nat \<Rightarrow> string list \<Rightarrow> dc_error list" where
  "validateStates base i [] = []"
| "validateStates base i (s # ss) =
     err_if (\<not> IsSnakeIdent s) ''SNAKE_IDENTIFIER_INVALID'' (idx (base @ ''.states'') i) @
     validateStates base (Suc i) ss"

fun validateMembers :: "string list \<Rightarrow> string \<Rightarrow> nat \<Rightarrow> string list \<Rightarrow> dc_error list" where
  "validateMembers states gpath i [] = []"
| "validateMembers states gpath i (m # ms) =
     err_if (m \<notin> set states) ''GROUP_MEMBER_NOT_IN_VOCABULARY'' (idx gpath i) @
     validateMembers states gpath (Suc i) ms"

definition validateGroup :: "string list \<Rightarrow> string \<Rightarrow> string \<times> string list \<Rightarrow> dc_error list" where
  "validateGroup states base g =
     (let gpath = base @ ''.semantic_groups.'' @ fst g
      in err_if (\<not> IsSnakeIdent (fst g)) ''SNAKE_IDENTIFIER_INVALID'' gpath @
         validateMembers states gpath 0 (snd g))"

definition validateClass :: "string \<Rightarrow> class_entry \<Rightarrow> dc_error list" where
  "validateClass cid e =
     (let base = ''device_classes.'' @ cid
      in err_if (\<not> IsClassIdent cid) ''CLASS_IDENTIFIER_INVALID'' base @
         err_if (ce_origin e \<noteq> ''built-in'' \<and> ce_origin e \<noteq> ''extension-registered'') ''ORIGIN_INVALID'' (base @ ''.origin'') @
         err_if (ce_states e = []) ''STATE_LIST_EMPTY'' (base @ ''.states'') @
         validateStates base 0 (ce_states e) @
         err_if (ce_unknown_state_fallback e \<notin> set (ce_states e)) ''UNKNOWN_STATE_FALLBACK_INVALID'' (base @ ''.unknown_state_fallback'') @
         concat (map (validateGroup (ce_states e) base) (ce_semantic_groups e)) @
         validateAttributes base 0 [] (ce_attributes e) @
         validateCommands base 0 [] (ce_commands e))"

definition Validate :: "class_map \<Rightarrow> dc_error list" where
  "Validate reg = concat (map (\<lambda>(cid, e). validateClass cid e) reg)"

section \<open>Lookups\<close>

definition New :: "class_map \<Rightarrow> dc_error list + class_map" where
  "New reg = (if Validate reg \<noteq> [] then Inl (Validate reg) else Inr reg)"

definition ClassNames :: "class_map \<Rightarrow> string list" where
  "ClassNames r = map fst r"

definition ResolveCommand :: "class_map \<Rightarrow> string \<Rightarrow> string \<Rightarrow> dc_command option" where
  "ResolveCommand r deviceClass command =
     (case map_of r deviceClass of None \<Rightarrow> None
      | Some e \<Rightarrow> find (\<lambda>c. cmd_name c = command) (ce_commands e))"

definition CommandExists :: "class_map \<Rightarrow> string \<Rightarrow> string \<Rightarrow> bool" where
  "CommandExists r deviceClass command \<longleftrightarrow> ResolveCommand r deviceClass command \<noteq> None"

definition Classify :: "class_map \<Rightarrow> string \<Rightarrow> string \<Rightarrow> string" where
  "Classify r deviceClass rawValue =
     (case map_of r deviceClass of None \<Rightarrow> []
      | Some e \<Rightarrow> (if rawValue \<in> set (ce_states e) then rawValue else ce_unknown_state_fallback e))"

definition SemanticGroups :: "class_map \<Rightarrow> string \<Rightarrow> string \<Rightarrow> string list" where
  "SemanticGroups r deviceClass state =
     (case map_of r deviceClass of None \<Rightarrow> []
      | Some e \<Rightarrow> map fst (filter (\<lambda>g. state \<in> set (snd g)) (ce_semantic_groups e)))"

definition attribute :: "class_map \<Rightarrow> string \<Rightarrow> string \<Rightarrow> dc_attribute option" where
  "attribute r deviceClass attr =
     (case map_of r deviceClass of None \<Rightarrow> None
      | Some e \<Rightarrow> find (\<lambda>a. at_name a = attr) (ce_attributes e))"

definition AttributeKind :: "class_map \<Rightarrow> string \<Rightarrow> string \<Rightarrow> string" where
  "AttributeKind r deviceClass attr =
     (case attribute r deviceClass attr of None \<Rightarrow> [] | Some a \<Rightarrow> at_type a)"

definition ChangeEmission :: "class_map \<Rightarrow> string \<Rightarrow> string \<Rightarrow> string" where
  "ChangeEmission r deviceClass attr =
     (case attribute r deviceClass attr of None \<Rightarrow> [] | Some a \<Rightarrow> at_change_emission a)"

section \<open>Registration\<close>

text \<open>Both operations return the registry next to the errors: unchanged when there are any.\<close>

definition RegisterClass :: "class_map \<Rightarrow> string \<Rightarrow> class_entry \<Rightarrow> class_map \<times> dc_error list" where
  "RegisterClass r cid e =
     (if map_of r cid \<noteq> None then (r, [dc_err ''CLASS_IDENTIFIER_COLLISION'' (''device_classes.'' @ cid)])
      else if Validate [(cid, e)] \<noteq> [] then (r, Validate [(cid, e)])
      else (kv_insert cid e r, []))"

definition RegisterGroup :: "class_map \<Rightarrow> string \<Rightarrow> string \<Rightarrow> string list \<Rightarrow> class_map \<times> dc_error list" where
  "RegisterGroup r deviceClass groupName members =
     (case map_of r deviceClass of
        None \<Rightarrow> (r, [dc_err ''DEVICE_CLASS_UNKNOWN'' (''device_classes.'' @ deviceClass)])
      | Some entry \<Rightarrow>
          if map_of (ce_semantic_groups entry) groupName \<noteq> None
          then (r, [dc_err ''GROUP_NAME_COLLISION'' (''device_classes.'' @ deviceClass @ ''.semantic_groups.'' @ groupName)])
          else (let candidate = entry\<lparr>ce_semantic_groups := kv_insert groupName members (ce_semantic_groups entry)\<rparr>
                in if Validate [(deviceClass, candidate)] \<noteq> [] then (r, Validate [(deviceClass, candidate)])
                   else (kv_insert deviceClass candidate r, [])))"

section \<open>The built-in class\<close>

definition mk_attr :: "string \<Rightarrow> string \<Rightarrow> string list \<Rightarrow> bool \<Rightarrow> string \<Rightarrow> dc_attribute" where
  "mk_attr n t vs nl ce = \<lparr>at_name = n, at_type = t, at_unit = None, at_nullable = nl, at_change_emission = ce, at_values = vs\<rparr>"

definition builtinMediaPlayer :: class_entry where
  "builtinMediaPlayer =
     \<lparr>ce_origin = ''built-in'',
      ce_states = [''on'', ''playing'', ''paused'', ''buffering'', ''idle'', ''off'', ''standby'', ''unavailable''],
      ce_unknown_state_fallback = ''off'',
      ce_semantic_groups =
        [(''off'', [''off'', ''standby'', ''unavailable'']),
         (''on'', [''on'', ''playing'', ''idle'', ''paused'', ''buffering''])],
      ce_attributes =
        [mk_attr ''active_app'' ''string'' [] True ''significant'',
         mk_attr ''active_app_id'' ''string'' [] True ''significant'',
         mk_attr ''app_type'' ''enum'' [''app'', ''screensaver'', ''home'', ''menu''] True ''significant'',
         mk_attr ''power_mode'' ''string'' [] True ''significant'',
         mk_attr ''is_screensaver'' ''boolean'' [] False ''significant'',
         mk_attr ''app_version'' ''string'' [] True ''cosmetic''],
      ce_commands =
        [\<lparr>cmd_name = ''launch'', cmd_params = [\<lparr>pr_name = ''channel'', pr_type = ''string'', pr_required = True, pr_values = []\<rparr>]\<rparr>,
         \<lparr>cmd_name = ''home'', cmd_params = []\<rparr>,
         \<lparr>cmd_name = ''keypress'', cmd_params = [\<lparr>pr_name = ''key'', pr_type = ''string'', pr_required = True, pr_values = []\<rparr>]\<rparr>,
         \<lparr>cmd_name = ''power'', cmd_params = [\<lparr>pr_name = ''state'', pr_type = ''enum'', pr_required = True, pr_values = [''on'', ''off'']\<rparr>]\<rparr>]\<rparr>"

definition Builtin :: class_map where
  "Builtin = [(''media-player'', builtinMediaPlayer)]"

section \<open>The registry invariant\<close>

definition reg_ok :: "class_map \<Rightarrow> bool" where
  "reg_ok r \<longleftrightarrow> Validate r = []"

lemma reg_ok_lookup: "reg_ok r \<Longrightarrow> map_of r cid = Some e \<Longrightarrow> validateClass cid e = []"
  by (auto simp: reg_ok_def Validate_def dest: map_of_SomeD)

lemma set_kv_insert: "set (kv_insert k v kvs) \<subseteq> insert (k, v) (set kvs)"
  by (induction k v kvs rule: kv_insert.induct) auto

lemma reg_ok_insert: "reg_ok r \<Longrightarrow> validateClass cid e = [] \<Longrightarrow> reg_ok (kv_insert cid e r)"
  using set_kv_insert [of cid e r] by (fastforce simp: reg_ok_def Validate_def)

lemma validateClass_fallback:
  "validateClass cid e = [] \<Longrightarrow> ce_unknown_state_fallback e \<in> set (ce_states e)"
  by (simp add: validateClass_def Let_def)

lemma builtin_ok: "reg_ok Builtin"
  by code_simp

text \<open>Registration keeps the registry valid, never touches another class, and either reports errors and
  changes nothing or reports none.\<close>

theorem RegisterClass_spec:
  assumes "reg_ok r" "RegisterClass r cid e = (r', errs)"
  shows "reg_ok r' \<and> (errs = [] \<longleftrightarrow> map_of r cid = None \<and> validateClass cid e = []) \<and>
    map_of r' = (if errs = [] then (map_of r)(cid \<mapsto> e) else map_of r)"
  using assms
  by (auto simp: RegisterClass_def Validate_def map_of_kv_insert reg_ok_insert split: if_splits)

theorem RegisterClass_spec_witness:
  "reg_ok (fst (RegisterClass Builtin ''media-player-x'' builtinMediaPlayer))"
proof -
  have e: "RegisterClass Builtin ''media-player-x'' builtinMediaPlayer =
      ([(''media-player'', builtinMediaPlayer), (''media-player-x'', builtinMediaPlayer)], [])"
    by code_simp
  show ?thesis using RegisterClass_spec [OF builtin_ok e] e by simp
qed

lemma SemanticGroups_iff:
  "g \<in> set (SemanticGroups r c s) \<longleftrightarrow>
    (\<exists>e ms. map_of r c = Some e \<and> (g, ms) \<in> set (ce_semantic_groups e) \<and> s \<in> set ms)"
  by (force simp: SemanticGroups_def split: option.splits)

lemma set_kv_insert_fresh: "map_of kvs k = None \<Longrightarrow> set (kv_insert k v kvs) = insert (k, v) (set kvs)"
  by (induction k v kvs rule: kv_insert.induct) (auto split: if_splits)

text \<open>Registering a semantic group onto a class adds exactly that group: memberships under every existing
  group name stay, the new name answers for exactly the declared members, and a name already taken
  or a member outside the class's states changes nothing.\<close>

theorem RegisterGroup_spec:
  assumes "reg_ok r" "RegisterGroup r c g ms = (r', errs)"
  shows "reg_ok r' \<and> (errs \<noteq> [] \<longrightarrow> r' = r) \<and>
    (errs = [] \<longrightarrow> (\<forall>s. set (SemanticGroups r' c s) = set (SemanticGroups r c s) \<union> (if s \<in> set ms then {g} else {})) \<and>
      (\<forall>c' s. c' \<noteq> c \<longrightarrow> SemanticGroups r' c' s = SemanticGroups r c' s))"
proof (cases "errs = []")
  case False
  with assms show ?thesis
    by (auto simp: RegisterGroup_def Let_def split: option.splits if_splits)
next
  case True
  then obtain e where e: "map_of r c = Some e" and fresh: "map_of (ce_semantic_groups e) g = None"
    and v: "validateClass c (e\<lparr>ce_semantic_groups := kv_insert g ms (ce_semantic_groups e)\<rparr>) = []"
    and r': "r' = kv_insert c (e\<lparr>ce_semantic_groups := kv_insert g ms (ce_semantic_groups e)\<rparr>) r"
    using assms(2) by (auto simp: RegisterGroup_def Let_def Validate_def split: option.splits if_splits)
  have "set (SemanticGroups r' c s) = set (SemanticGroups r c s) \<union> (if s \<in> set ms then {g} else {})" for s
    unfolding set_eq_iff Un_iff SemanticGroups_iff
    using e by (auto simp: r' map_of_kv_insert set_kv_insert_fresh [OF fresh])
  moreover have "SemanticGroups r' c' s = SemanticGroups r c' s" if "c' \<noteq> c" for c' s
    using that by (simp add: SemanticGroups_def r' map_of_kv_insert)
  ultimately show ?thesis
    using True reg_ok_insert [OF assms(1) v] by (simp add: r')
qed

theorem RegisterGroup_spec_witness:
  "set (SemanticGroups (fst (RegisterGroup Builtin ''media-player'' ''active'' [''playing''])) ''media-player'' ''playing'') =
    {''on'', ''active''}"
proof -
  have e: "snd (RegisterGroup Builtin ''media-player'' ''active'' [''playing'']) = []"
    and o: "SemanticGroups Builtin ''media-player'' ''playing'' = [''on'']"
    by code_simp+
  show ?thesis
    using RegisterGroup_spec [OF builtin_ok prod.collapse [symmetric], of "''media-player''" "''active''" "[''playing'']"] e o
    by auto
qed

text \<open>Classifying a raw value against a valid registry always gives a state of the class's vocabulary: the value
  itself when it is one, the class's declared fallback otherwise.\<close>

theorem Classify_in_vocabulary:
  assumes "reg_ok r" "map_of r c = Some e"
  shows "Classify r c v \<in> set (ce_states e) \<and> (v \<in> set (ce_states e) \<longrightarrow> Classify r c v = v)"
  using assms validateClass_fallback [OF reg_ok_lookup [OF assms]] by (simp add: Classify_def)

theorem Classify_in_vocabulary_witness:
  "Classify Builtin ''media-player'' ''rebooting'' \<in> set (ce_states builtinMediaPlayer)"
proof -
  have "map_of Builtin ''media-player'' = Some builtinMediaPlayer" by (simp add: Builtin_def)
  from Classify_in_vocabulary [OF builtin_ok this] show ?thesis by blast
qed

end
