(* ===== verification/RuleRegistry.thy ===== *)
theory RuleRegistry
  imports DeviceClass
begin

text \<open>
  What the rules engine reads of the device-class registry (\<open>internal/rules/registry\<close>) and the
  entity snapshots it evaluates against (\<open>internal/rules/state\<close>).  The interface \<open>Registry\<close> is a
  record of its four operations; \<open>FromDeviceClass\<close> builds it from a device-class registry and an
  overlay of extra typed attributes.
\<close>

datatype value_type = TUnknown | TString | TNumber | TBoolean

fun value_type_string :: "value_type \<Rightarrow> string" where
  "value_type_string TString = ''string''"
| "value_type_string TNumber = ''number''"
| "value_type_string TBoolean = ''boolean''"
| "value_type_string TUnknown = ''unknown''"

record registry =
  rg_groups :: "string \<Rightarrow> string \<Rightarrow> string list"
  rg_type :: "string \<Rightarrow> string \<Rightarrow> value_type"
  rg_emission :: "string \<Rightarrow> string \<Rightarrow> string"
  rg_command :: "string \<Rightarrow> string \<Rightarrow> bool"

section \<open>The adapter\<close>

definition valueTypeForKind :: "string \<Rightarrow> value_type" where
  "valueTypeForKind k =
     (if k = ''string'' \<or> k = ''enum'' then TString
      else if k = ''number'' then TNumber
      else if k = ''boolean'' then TBoolean
      else TUnknown)"

record overlay_attr =
  ov_type :: value_type
  ov_change_emission :: string

type_synonym overlay = "string \<rightharpoonup> (string \<rightharpoonup> overlay_attr)"

definition overlay_attribute :: "overlay \<Rightarrow> string \<Rightarrow> string \<Rightarrow> overlay_attr option" where
  "overlay_attribute ov deviceClass attr = Option.bind (ov deviceClass) (\<lambda>m. m attr)"

definition fdc_AttributeType :: "class_map \<Rightarrow> overlay \<Rightarrow> string \<Rightarrow> string \<Rightarrow> value_type" where
  "fdc_AttributeType dc ov deviceClass attr =
     (let kind = AttributeKind dc deviceClass attr
      in if kind \<noteq> '''' then valueTypeForKind kind
         else (case overlay_attribute ov deviceClass attr of Some a \<Rightarrow> ov_type a | None \<Rightarrow> TUnknown))"

definition fdc_ChangeEmission :: "class_map \<Rightarrow> overlay \<Rightarrow> string \<Rightarrow> string \<Rightarrow> string" where
  "fdc_ChangeEmission dc ov deviceClass attr =
     (let ce = ChangeEmission dc deviceClass attr
      in if ce \<noteq> '''' then ce
         else (case overlay_attribute ov deviceClass attr of Some a \<Rightarrow> ov_change_emission a | None \<Rightarrow> ''''))"

definition FromDeviceClass :: "class_map \<Rightarrow> overlay \<Rightarrow> registry" where
  "FromDeviceClass dc ov =
     \<lparr>rg_groups = SemanticGroups dc, rg_type = fdc_AttributeType dc ov,
      rg_emission = fdc_ChangeEmission dc ov, rg_command = CommandExists dc\<rparr>"

definition corpusOverlay :: overlay where
  "corpusOverlay =
     [''media-player'' \<mapsto>
        [''volume'' \<mapsto> \<lparr>ov_type = TNumber, ov_change_emission = ''significant''\<rparr>,
         ''media_title'' \<mapsto> \<lparr>ov_type = TString, ov_change_emission = ''cosmetic''\<rparr>,
         ''powered_on'' \<mapsto> \<lparr>ov_type = TBoolean, ov_change_emission = ''significant''\<rparr>]]"

definition FixtureRegistry :: registry where
  "FixtureRegistry = FromDeviceClass Builtin corpusOverlay"

section \<open>Entity snapshots and observations\<close>

text \<open>Attributes are the entries of a Go map, in key order.\<close>

record entity =
  en_id :: string
  en_class :: string
  en_state :: string
  en_attrs :: "(string \<times> gval) list"

record observation =
  ob_entity :: entity
  ob_state_changed :: bool
  ob_changed_attrs :: "string list"

type_synonym snapshot = "string \<rightharpoonup> entity"

definition NewObservation :: "registry \<Rightarrow> entity \<Rightarrow> entity \<Rightarrow> observation" where
  "NewObservation reg prev cur =
     \<lparr>ob_entity = cur,
      ob_state_changed = (en_state prev \<noteq> en_state cur),
      ob_changed_attrs =
        sort (map fst (filter (\<lambda>(name, cv).
          \<not> (case map_of (en_attrs prev) name of Some pv \<Rightarrow> deep_equal pv cv | None \<Rightarrow> False) \<and>
          rg_emission reg (en_class cur) name = ''significant'') (en_attrs cur)))\<rparr>"

section \<open>The interface\<close>

text \<open>
  The laws a registry promises its readers: an attribute has a change-emission class exactly
  when it has a comparable type, and no other class than the two the registry contract knows.
\<close>

locale registry_laws =
  fixes type_of :: "string \<Rightarrow> string \<Rightarrow> value_type"
    and emission :: "string \<Rightarrow> string \<Rightarrow> string"
  assumes typed_iff_emitting: "type_of c a = TUnknown \<longleftrightarrow> emission c a = ''''"
    and emission_cases: "emission c a = '''' \<or> emission c a = ''significant'' \<or> emission c a = ''cosmetic''"
begin

lemma significant_typed: "emission c a = ''significant'' \<Longrightarrow> type_of c a \<noteq> TUnknown"
  by (simp add: typed_iff_emitting)

lemma cosmetic_iff: "emission c a \<noteq> ''significant'' \<longleftrightarrow> type_of c a = TUnknown \<or> emission c a = ''cosmetic''"
  using emission_cases [of c a] by (auto simp: typed_iff_emitting)

end

definition overlay_ok :: "overlay \<Rightarrow> bool" where
  "overlay_ok ov \<longleftrightarrow> (\<forall>c a x. overlay_attribute ov c a = Some x \<longrightarrow>
     ov_type x \<noteq> TUnknown \<and> (ov_change_emission x = ''significant'' \<or> ov_change_emission x = ''cosmetic''))"

lemma overlay_okD:
  "overlay_ok ov \<Longrightarrow> overlay_attribute ov c a = Some x \<Longrightarrow>
    ov_type x \<noteq> TUnknown \<and> (ov_change_emission x = ''significant'' \<or> ov_change_emission x = ''cosmetic'')"
  unfolding overlay_ok_def by blast

lemma validateAttributes_elem:
  "validateAttributes b i seen as = [] \<Longrightarrow> a \<in> set as \<Longrightarrow>
    validType (at_type a) \<and> (at_change_emission a = ''significant'' \<or> at_change_emission a = ''cosmetic'')"
  by (induction b i seen as rule: validateAttributes.induct)
     (auto simp: Let_def validateTypeShape_def)

lemma attribute_ok:
  assumes "reg_ok r" "attribute r c a = Some x"
  shows "validType (at_type x) \<and> (at_change_emission x = ''significant'' \<or> at_change_emission x = ''cosmetic'')"
proof -
  obtain e where e: "map_of r c = Some e" "find (\<lambda>y. at_name y = a) (ce_attributes e) = Some x"
    using assms(2) by (auto simp: attribute_def split: option.splits)
  have "validateClass c e = []" using assms(1) e(1) by (rule reg_ok_lookup)
  then have "validateAttributes (''device_classes.'' @ c) 0 [] (ce_attributes e) = []"
    by (simp add: validateClass_def Let_def)
  moreover have "x \<in> set (ce_attributes e)" using e(2) by (auto simp: find_Some_iff)
  ultimately show ?thesis by (rule validateAttributes_elem)
qed

lemma FromDeviceClass_laws:
  assumes "reg_ok dc" "overlay_ok ov"
  shows "registry_laws (rg_type (FromDeviceClass dc ov)) (rg_emission (FromDeviceClass dc ov))"
proof
  fix c a
  let ?t = "rg_type (FromDeviceClass dc ov) c a" and ?e = "rg_emission (FromDeviceClass dc ov) c a"
  show "?t = TUnknown \<longleftrightarrow> ?e = ''''" "?e = '''' \<or> ?e = ''significant'' \<or> ?e = ''cosmetic''"
    using attribute_ok [OF assms(1), of c a] overlay_okD [OF assms(2), of c a]
    by (cases "overlay_attribute ov c a";
        auto simp: FromDeviceClass_def fdc_AttributeType_def fdc_ChangeEmission_def AttributeKind_def
          ChangeEmission_def validType_def valueTypeForKind_def Let_def split: option.splits)+
qed

lemma corpusOverlay_ok: "overlay_ok corpusOverlay"
  by (auto simp: overlay_ok_def overlay_attribute_def corpusOverlay_def split: if_splits)

interpretation fixture: registry_laws "rg_type FixtureRegistry" "rg_emission FixtureRegistry"
  unfolding FixtureRegistry_def by (rule FromDeviceClass_laws [OF builtin_ok corpusOverlay_ok])

text \<open>The registry of a valid set of classes and overlay reports a change as significant only for an attribute
  it can compare, so the aggregate change signal never comes from an attribute without a type.\<close>

theorem changed_attrs_typed:
  assumes "reg_ok dc" "overlay_ok ov" "a \<in> set (ob_changed_attrs (NewObservation (FromDeviceClass dc ov) prev cur))"
  shows "rg_type (FromDeviceClass dc ov) (en_class cur) a \<noteq> TUnknown \<and> a \<in> fst ` set (en_attrs cur)"
  using assms(3) registry_laws.significant_typed [OF FromDeviceClass_laws [OF assms(1,2)]]
  by (force simp: NewObservation_def)

theorem changed_attrs_typed_witness:
  "rg_type FixtureRegistry ''media-player'' ''volume'' \<noteq> TUnknown"
proof -
  let ?e = "\<lparr>en_id = ''t'', en_class = ''media-player'', en_state = ''on'', en_attrs = []\<rparr>"
  let ?f = "?e\<lparr>en_attrs := [(''volume'', GNum (Fin 3))]\<rparr>"
  have "''volume'' \<in> set (ob_changed_attrs (NewObservation FixtureRegistry ?e ?f))" by code_simp
  then show ?thesis
    using changed_attrs_typed [OF builtin_ok corpusOverlay_ok, of _ ?e ?f] by (simp add: FixtureRegistry_def)
qed

end
