(* ===== verification/EvalMatch.thy ===== *)
theory EvalMatch
  imports RuleRegistry
begin

text \<open>
  The comparisons of the rules evaluator: \<open>internal/rules/eval/number.go\<close> (the numeric grammar),
  \<open>compare.go\<close> (typed equality) and \<open>match.go\<close> (matching a state against an authored bound).
  Operands are decoded values of type \<open>any\<close>; an operand of the wrong type never compares equal.
\<close>

section \<open>Operations\<close>

text \<open>The grammar \<open>^-?[0-9]+(\.[0-9]+)?$\<close>.\<close>

definition numberGrammar :: "string \<Rightarrow> bool" where
  "numberGrammar s =
     (case lit_parts s of (neg, ip, fp, ep, rest) \<Rightarrow> ip \<noteq> [] \<and> fp \<noteq> Some [] \<and> ep = None \<and> rest = [])"

definition ParseNumber :: "gval \<Rightarrow> f64 option" where
  "ParseNumber v =
     (case v of
        GNum f \<Rightarrow> Some f
      | GInt n \<Rightarrow> Some (rnd (of_int n))
      | GStr s \<Rightarrow> if numberGrammar s then parse_float s else None
      | _ \<Rightarrow> None)"

definition TypedEqual :: "gval \<Rightarrow> gval \<Rightarrow> value_type \<Rightarrow> bool" where
  "TypedEqual a b t =
     (case t of
        TString \<Rightarrow> (case (a, b) of (GStr x, GStr y) \<Rightarrow> x = y | _ \<Rightarrow> False)
      | TNumber \<Rightarrow> (case (ParseNumber a, ParseNumber b) of (Some x, Some y) \<Rightarrow> f64_eq x y | _ \<Rightarrow> False)
      | TBoolean \<Rightarrow> (case (a, b) of (GBool x, GBool y) \<Rightarrow> x = y | _ \<Rightarrow> False)
      | TUnknown \<Rightarrow> False)"

definition matchScalar :: "registry \<Rightarrow> string \<Rightarrow> string \<Rightarrow> string \<Rightarrow> bool" where
  "matchScalar reg deviceClass actual expected \<longleftrightarrow>
     actual = expected \<or> list_ex (\<lambda>group. group = expected) (rg_groups reg deviceClass actual)"

definition matchArrayExact :: "string \<Rightarrow> string list \<Rightarrow> bool" where
  "matchArrayExact actual expected \<longleftrightarrow> list_ex (\<lambda>s. s = actual) expected"

definition matchArrayExactAny :: "string \<Rightarrow> gval list \<Rightarrow> bool" where
  "matchArrayExactAny actual expected \<longleftrightarrow>
     list_ex (\<lambda>e. case e of GStr s \<Rightarrow> s = actual | _ \<Rightarrow> False) expected"

definition MatchState :: "registry \<Rightarrow> string \<Rightarrow> string \<Rightarrow> gval \<Rightarrow> bool" where
  "MatchState reg deviceClass actual expected =
     (case expected of
        GStr v \<Rightarrow> matchScalar reg deviceClass actual v
      | GStrs v \<Rightarrow> matchArrayExact actual v
      | GArr v \<Rightarrow> matchArrayExactAny actual v
      | _ \<Rightarrow> False)"

section \<open>Lemmas\<close>

lemma dropWhile_digits: "list_all is_digit s \<Longrightarrow> dropWhile is_digit s = [] \<and> takeWhile is_digit s = s"
  by (induction s) auto

lemma lit_parts_digits:
  assumes "list_all is_digit s"
  shows "lit_parts s = (False, s, None, None, [])"
proof -
  have n: "(s \<noteq> [] \<and> hd s = CHR ''-'') = False"
    using assms digit_not_sign by (cases s) auto
  have d: "dropWhile is_digit s = []" "takeWhile is_digit s = s" using dropWhile_digits [OF assms] by auto
  show ?thesis by (simp add: lit_parts_def Let_def n d)
qed

lemma show_nat_grammar: "numberGrammar (show_nat n)" "lit_rat (show_nat n) = of_nat n"
  using lit_parts_digits [of "show_nat n"] show_nat_digits [of n]
  by (auto simp: numberGrammar_def lit_rat_def list_all_iff digits_val_show_nat exp10_def)

lemma f64_eq_trans: "f64_eq x y \<Longrightarrow> f64_eq y z \<Longrightarrow> f64_eq x z"
  by (cases x; cases y; cases z) auto

lemma TypedEqual_Unknown [simp]: "\<not> TypedEqual a b TUnknown"
  by (simp add: TypedEqual_def)

lemma TypedEqual_String: "TypedEqual a b TString \<longleftrightarrow> (\<exists>x. a = GStr x \<and> b = GStr x)"
  by (cases a; cases b) (auto simp: TypedEqual_def)

lemma TypedEqual_Boolean: "TypedEqual a b TBoolean \<longleftrightarrow> (\<exists>x. a = GBool x \<and> b = GBool x)"
  by (cases a; cases b) (auto simp: TypedEqual_def)

lemma TypedEqual_Number:
  "TypedEqual a b TNumber \<longleftrightarrow> (\<exists>x y. ParseNumber a = Some x \<and> ParseNumber b = Some y \<and> f64_eq x y)"
  by (auto simp: TypedEqual_def split: option.splits)

lemmas TypedEqual_cases = TypedEqual_String TypedEqual_Boolean TypedEqual_Number

lemma TypedEqual_sym: "TypedEqual a b t = TypedEqual b a t"
  by (cases t) (auto simp: TypedEqual_cases f64_eq_sym)

lemma TypedEqual_trans: "TypedEqual a b t \<Longrightarrow> TypedEqual b c t \<Longrightarrow> TypedEqual a c t"
  by (cases t) (auto simp: TypedEqual_cases dest: f64_eq_trans)

lemma MatchState_scalar: "MatchState reg c s (GStr s)"
  by (simp add: MatchState_def matchScalar_def)

lemma MatchState_list: "MatchState reg c s (GArr es) \<longleftrightarrow> GStr s \<in> set es"
proof -
  have "(case e of GStr t \<Rightarrow> t = s | _ \<Rightarrow> False) \<longleftrightarrow> e = GStr s" for e by (cases e) auto
  then show ?thesis by (auto simp: MatchState_def matchArrayExactAny_def list_ex_iff)
qed

section \<open>Properties\<close>

text \<open>Typed equality compares a number with its decimal text: a number, its integer value and its
  printed form are all equal at type number for every natural number below \<open>2 ^ 53\<close>, and no
  number equals a different one.\<close>

theorem TypedEqual_number_text:
  assumes "m < 2 ^ 53" "n < 2 ^ 53"
  shows "(TypedEqual (GStr (show_nat m)) (GNum (Fin (of_nat n))) TNumber \<longleftrightarrow> m = n) \<and>
         (TypedEqual (GStr (show_nat m)) (GInt (int n)) TNumber \<longleftrightarrow> m = n) \<and>
         (TypedEqual (GStr (show_nat m)) (GStr (show_nat n)) TNumber \<longleftrightarrow> m = n)"
proof -
  have r: "rnd (of_nat k) = Fin (of_nat k)" if "k < 2 ^ 53" for k :: nat
  proof -
    have "\<bar>int k\<bar> < 2 ^ 53" using that by (metis abs_of_nat of_nat_less_numeral_power_cancel_iff)
    then show ?thesis using rnd_int [of "int k"] by simp
  qed
  have p: "ParseNumber (GStr (show_nat k)) = Some (Fin (of_nat k))" if "k < 2 ^ 53" for k
    using r [OF that] show_nat_grammar [of k] by (simp add: ParseNumber_def parse_float_def)
  have i: "ParseNumber (GInt (int k)) = Some (Fin (of_nat k))" if "k < 2 ^ 53" for k
    using r [OF that] by (simp add: ParseNumber_def)
  have g: "ParseNumber (GNum f) = Some f" for f by (simp add: ParseNumber_def)
  show ?thesis
    using p [OF assms(1)] p [OF assms(2)] i [OF assms(2)] g [of "Fin (of_nat n)"]
    by (simp_all add: TypedEqual_def)
qed

theorem TypedEqual_number_text_witness:
  "TypedEqual (GStr (show_nat 42)) (GNum (Fin (of_nat 42))) TNumber \<and>
   \<not> TypedEqual (GStr (show_nat 42)) (GStr (show_nat 43)) TNumber"
  using TypedEqual_number_text [of 42 42] TypedEqual_number_text [of 42 43] by simp

end
