(* ===== verification/RuleModel.thy ===== *)
theory RuleModel
  imports GoValue
begin

text \<open>
  The authored rule and its decoder, \<open>internal/rules/model\<close>.  A member is a leaf with a type, a
  composition of conditions or a choose action with branches; it keeps its own JSON.  Decoding
  returns \<open>None\<close> where the source returns an error.  The signage decoder of \<open>signage.go\<close> reads a
  signage action's own members and names the first one written at the wrong type.
\<close>

section \<open>The authored rule\<close>

record entity_ref =
  er_entity_id :: string
  er_selector :: string
  er_device_class :: string

definition Present :: "entity_ref \<Rightarrow> nat" where
  "Present e = (if er_entity_id e \<noteq> '''' then 1 else 0) + (if er_selector e \<noteq> '''' then 1 else 0) +
     (if er_device_class e \<noteq> '''' then 1 else 0)"

datatype member =
    Member (m_type: string) (m_comp: string) (m_ref: "entity_ref option") (m_children: "member list")
      (m_branches: "branch list") (m_default: "member list") (m_raw: "json option")
and branch =
    Branch (b_cond: member) (b_actions: "member list")

record rule =
  r_id :: string
  r_mode :: string
  r_max :: "int option"
  r_triggers :: "member list"
  r_conditions :: "member list"
  r_actions :: "member list"

section \<open>Decoding\<close>

text \<open>The composition key of an object and its value: \<open>and\<close>, \<open>or\<close>, \<open>not\<close>, in this order.\<close>

fun comp_key :: "string list \<Rightarrow> (string \<times> json) list \<Rightarrow> (string \<times> json) option" where
  "comp_key [] probe = None"
| "comp_key (c # cs) probe =
     (case jlookup probe c of Some inner \<Rightarrow> Some (c, inner) | None \<Rightarrow> comp_key cs probe)"

definition raw_list :: "json \<Rightarrow> json list option" where
  "raw_list j = (case j of JArr xs \<Rightarrow> Some xs | JNull \<Rightarrow> Some [] | _ \<Rightarrow> None)"

definition leaf_ok :: "json \<Rightarrow> bool" where
  "leaf_ok raw \<longleftrightarrow> jstruct_ok raw \<and>
     list_all str_ok (jfield raw ''type'' @ jfield raw ''entity_id'' @ jfield raw ''selector'' @ jfield raw ''device_class'') \<and>
     list_all arr_ok (jfield raw ''default'')"

definition leaf_type :: "json \<Rightarrow> string" where
  "leaf_type raw = dstr '''' (jfield raw ''type'')"

definition leaf_ref :: "json \<Rightarrow> entity_ref option" where
  "leaf_ref raw =
     (let e = dstr '''' (jfield raw ''entity_id''); s = dstr '''' (jfield raw ''selector'');
          d = dstr '''' (jfield raw ''device_class'')
      in if e \<noteq> '''' \<or> s \<noteq> '''' \<or> d \<noteq> ''''
         then Some \<lparr>er_entity_id = e, er_selector = s, er_device_class = d\<rparr> else None)"

definition raw_branch :: "json \<Rightarrow> (json option \<times> json list) option" where
  "raw_branch j =
     (if jstruct_ok j \<and> list_all arr_ok (jfield j ''actions'')
      then Some (draw (jfield j ''condition''), darr [] (jfield j ''actions'')) else None)"

definition raw_branches :: "json \<Rightarrow> (json option \<times> json list) list option" where
  "raw_branches raw =
     (case draw (jfield raw ''branches'') of
        None \<Rightarrow> Some []
      | Some b \<Rightarrow> Option.bind (raw_list b) (mapM_opt raw_branch))"

lemma comp_key_size:
  "comp_key cs probe = Some (c, inner) \<Longrightarrow> jmap raw = Some probe \<Longrightarrow> size inner < size raw"
proof (induction cs probe rule: comp_key.induct)
  case (2 c' cs probe)
  then show ?case
    by (cases raw) (auto dest!: jlookup_in intro: json_size_member split: option.splits if_splits simp del: json.size)
qed simp

lemma raw_list_size: "raw_list j = Some xs \<Longrightarrow> x \<in> set xs \<Longrightarrow> size x < size j"
  by (auto simp: raw_list_def dest: json_size_elem split: json.splits simp del: json.size)

lemma darr_field_size: "x \<in> set (darr [] (jfield j n)) \<Longrightarrow> size x < size j"
proof -
  assume "x \<in> set (darr [] (jfield j n))"
  then obtain xs where "JArr xs \<in> set (jfield j n)" "x \<in> set xs"
    using darr_elem [of x "[]" "jfield j n"] by auto
  then show ?thesis using json_size_elem [of x xs] jfield_in [of "JArr xs" j n] by linarith
qed

lemma raw_branches_size:
  assumes "raw_branches raw = Some bs" "(c, as) \<in> set bs"
  shows "(c = Some x \<longrightarrow> size x < size raw) \<and> (x \<in> set as \<longrightarrow> size x < size raw)"
proof (cases "draw (jfield raw ''branches'')")
  case None
  with assms show ?thesis by (simp add: raw_branches_def)
next
  case (Some b)
  with assms obtain xs where xs: "raw_list b = Some xs" "mapM_opt raw_branch xs = Some bs"
    by (auto simp: raw_branches_def bind_eq_Some_conv)
  then obtain y where y: "y \<in> set xs" "raw_branch y = Some (c, as)"
    using mapM_opt_in assms(2) by metis
  have "size b < size raw" using draw_Some [OF Some] by (rule jfield_in)
  moreover have "size y < size b" using xs(1) y(1) by (rule raw_list_size)
  moreover have "c = Some x \<longrightarrow> size x < size y" "x \<in> set as \<longrightarrow> size x < size y"
    using y(2) by (auto simp: raw_branch_def dest!: draw_Some dest: jfield_in darr_field_size split: if_splits)
  ultimately show ?thesis by auto
qed

lemma composed_size:
  "jmap raw = Some probe \<Longrightarrow> comp_key cs probe = Some (c, inner) \<Longrightarrow> raw_list inner = Some xs \<Longrightarrow>
   x \<in> set xs \<Longrightarrow> size x < size raw"
  using comp_key_size raw_list_size less_trans by blast

lemmas member_sizes = composed_size
  raw_branches_size [THEN conjunct1, rule_format] raw_branches_size [THEN conjunct2, rule_format]
  comp_key_size darr_field_size

function decode_member :: "json \<Rightarrow> member option" where
  "decode_member raw =
     (case jmap raw of
        None \<Rightarrow> None
      | Some probe \<Rightarrow>
         (case comp_key [''and'', ''or'', ''not''] probe of
            Some (ck, inner) \<Rightarrow>
              if ck = ''not''
              then map_option (\<lambda>child. Member '''' ck None [child] [] [] (Some raw)) (decode_member inner)
              else (case raw_list inner of
                      None \<Rightarrow> None
                    | Some arr \<Rightarrow>
                        map_option (\<lambda>cs. Member '''' ck None cs [] [] (Some raw)) (mapM_opt decode_member arr))
          | None \<Rightarrow>
              if \<not> leaf_ok raw then None
              else if leaf_type raw \<noteq> ''choose''
              then Some (Member (leaf_type raw) '''' (leaf_ref raw) [] [] [] (Some raw))
              else (case raw_branches raw of
                      None \<Rightarrow> None
                    | Some bs \<Rightarrow>
                       (case mapM_opt (\<lambda>(c, as).
                               case c of None \<Rightarrow> None
                               | Some cj \<Rightarrow> (case decode_member cj of None \<Rightarrow> None
                                  | Some cond \<Rightarrow> map_option (Branch cond) (mapM_opt decode_member as))) bs of
                          None \<Rightarrow> None
                        | Some branches \<Rightarrow>
                            map_option (\<lambda>def. Member (leaf_type raw) '''' (leaf_ref raw) [] branches def (Some raw))
                              (mapM_opt decode_member (darr [] (jfield raw ''default'')))))))"
  by pat_completeness auto
termination
proof (relation "measure size", simp_all only: in_measure)
qed (auto simp only: prod.inject option.inject HOL.simp_thms wf_measure dest: member_sizes)

declare decode_member.simps [simp del]

definition decode_members :: "json list \<Rightarrow> member list option" where
  "decode_members raws = mapM_opt decode_member raws"

definition ParseRule :: "json \<Rightarrow> rule option" where
  "ParseRule j =
     (if \<not> (jstruct_ok j \<and> list_all str_ok (jfield j ''id'' @ jfield j ''mode'') \<and> list_all int_ok (jfield j ''max'') \<and>
            list_all arr_ok (jfield j ''triggers'' @ jfield j ''conditions'' @ jfield j ''actions''))
      then None
      else (case decode_members (darr [] (jfield j ''triggers'')) of None \<Rightarrow> None
        | Some ts \<Rightarrow> (case decode_members (darr [] (jfield j ''conditions'')) of None \<Rightarrow> None
        | Some cs \<Rightarrow> (case decode_members (darr [] (jfield j ''actions'')) of None \<Rightarrow> None
        | Some as \<Rightarrow> Some \<lparr>r_id = dstr '''' (jfield j ''id''), r_mode = dstr '''' (jfield j ''mode''),
             r_max = dint_ptr None (jfield j ''max''), r_triggers = ts, r_conditions = cs, r_actions = as\<rparr>))))"

section \<open>Members at every depth\<close>

fun members_all :: "(member \<Rightarrow> bool) \<Rightarrow> member \<Rightarrow> bool"
  and branch_all :: "(member \<Rightarrow> bool) \<Rightarrow> branch \<Rightarrow> bool" where
  "members_all P (Member ty ck ref cs bs ds raw) \<longleftrightarrow>
     P (Member ty ck ref cs bs ds raw) \<and> list_all (members_all P) cs \<and> list_all (branch_all P) bs \<and>
     list_all (members_all P) ds"
| "branch_all P (Branch c as) \<longleftrightarrow> members_all P c \<and> list_all (members_all P) as"

definition rule_members :: "rule \<Rightarrow> member list" where
  "rule_members r = r_triggers r @ r_conditions r @ r_actions r"

text \<open>One shape per member: a leaf, a composition of conditions or a choose action.\<close>

definition well_shaped :: "member \<Rightarrow> bool" where
  "well_shaped m \<longleftrightarrow>
     (if m_comp m = '''' then m_children m = [] else
        m_comp m \<in> {''and'', ''or'', ''not''} \<and> m_type m = '''' \<and> m_ref m = None) \<and>
     (m_comp m = ''not'' \<longrightarrow> length (m_children m) = 1) \<and>
     (m_type m \<noteq> ''choose'' \<longrightarrow> m_branches m = [] \<and> m_default m = []) \<and>
     (\<forall>e. m_ref m = Some e \<longrightarrow> 1 \<le> Present e)"

text \<open>The member is what decoding the JSON it keeps gives.\<close>

definition self_decoding :: "member \<Rightarrow> bool" where
  "self_decoding m \<longleftrightarrow> (\<exists>j. m_raw m = Some j \<and> decode_member j = Some m)"

lemma comp_key_in: "comp_key cs probe = Some (c, inner) \<Longrightarrow> c \<in> set cs"
  by (induction cs probe rule: comp_key.induct) (auto split: option.splits)

lemma leaf_ref_Present: "leaf_ref raw = Some e \<Longrightarrow> 1 \<le> Present e"
  by (auto simp: leaf_ref_def Present_def Let_def split: if_splits)

lemma mapM_opt_all:
  assumes "mapM_opt f xs = Some ys" "\<And>x y. x \<in> set xs \<Longrightarrow> f x = Some y \<Longrightarrow> P y"
  shows "list_all P ys"
  unfolding list_all_iff using mapM_opt_in [OF assms(1)] assms(2) by blast

text \<open>
  An induction over the decoder: a property of every node that holds of what is decoded at the
  top of some JSON text holds at every depth.
\<close>

lemma decode_member_all:
  assumes top: "\<And>j m. decode_member j = Some m \<Longrightarrow> P m"
  shows "decode_member j = Some m \<Longrightarrow> members_all P m"
proof (induction j arbitrary: m rule: measure_induct_rule [of size])
  case (less raw)
  note dec = less.prems
  have IH: "list_all (members_all P) ms"
    if "mapM_opt decode_member js = Some ms" "\<And>j. j \<in> set js \<Longrightarrow> size j < size raw" for js ms
    using that by (auto intro: mapM_opt_all less.IH)
  have P: "P m" using dec by (rule top)
  obtain probe where probe: "jmap raw = Some probe"
    using dec by (auto simp: decode_member.simps split: option.splits)
  show ?case
  proof (cases "comp_key [''and'', ''or'', ''not''] probe")
    case (Some ci)
    then obtain ck inner where ci: "comp_key [''and'', ''or'', ''not''] probe = Some (ck, inner)" by (cases ci) auto
    note s = comp_key_size [OF ci probe] composed_size [OF probe ci]
    show ?thesis
    proof (cases "ck = ''not''")
      case True
      then obtain child where "decode_member inner = Some child" "m = Member '''' ck None [child] [] [] (Some raw)"
        using dec probe ci by (auto simp: decode_member.simps [of raw] simp del: comp_key.simps)
      then show ?thesis using less.IH s P by simp
    next
      case False
      then obtain arr cs where "raw_list inner = Some arr" "mapM_opt decode_member arr = Some cs"
          "m = Member '''' ck None cs [] [] (Some raw)"
        using dec probe ci by (auto simp: decode_member.simps [of raw] split: option.splits simp del: comp_key.simps)
      then show ?thesis using IH s P by simp
    qed
  next
    case None
    show ?thesis
    proof (cases "leaf_type raw \<noteq> ''choose''")
      case True
      then show ?thesis using dec probe None P
        by (auto simp: decode_member.simps [of raw] split: if_splits simp del: comp_key.simps)
    next
      case False
      then obtain bs branches def' where bs: "raw_branches raw = Some bs"
        and br: "mapM_opt (\<lambda>(c, as). case c of None \<Rightarrow> None | Some cj \<Rightarrow> (case decode_member cj of None \<Rightarrow> None
             | Some cond \<Rightarrow> map_option (Branch cond) (mapM_opt decode_member as))) bs = Some branches"
        and df: "mapM_opt decode_member (darr [] (jfield raw ''default'')) = Some def'"
        and m: "m = Member (leaf_type raw) '''' (leaf_ref raw) [] branches def' (Some raw)"
        using dec probe None
        by (auto simp: decode_member.simps [of raw] split: if_splits option.splits simp del: comp_key.simps)
      have "list_all (branch_all P) branches"
        using br
      proof (rule mapM_opt_all)
        fix x y
        assume x: "x \<in> set bs" and y: "(case x of (c, as) \<Rightarrow> case c of None \<Rightarrow> None | Some cj \<Rightarrow>
           (case decode_member cj of None \<Rightarrow> None
             | Some cond \<Rightarrow> map_option (Branch cond) (mapM_opt decode_member as))) = Some y"
        then obtain cj as cond acts where "x = (Some cj, as)" "decode_member cj = Some cond"
          "mapM_opt decode_member as = Some acts" "y = Branch cond acts"
          by (auto split: option.splits prod.splits)
        then show "branch_all P y"
          using raw_branches_size [OF bs, of "Some cj" as] x less.IH IH by auto
      qed
      moreover have "list_all (members_all P) def'"
        using df IH darr_field_size by blast
      ultimately show ?thesis using m P by simp
    qed
  qed
qed

lemma decode_member_top:
  assumes "decode_member raw = Some m"
  shows "well_shaped m \<and> m_raw m = Some raw"
proof -
  obtain probe where probe: "jmap raw = Some probe"
    using assms by (auto simp: decode_member.simps split: option.splits)
  show ?thesis
  proof (cases "comp_key [''and'', ''or'', ''not''] probe")
    case (Some ci)
    then obtain ck inner where ci: "comp_key [''and'', ''or'', ''not''] probe = Some (ck, inner)" by (cases ci) auto
    then show ?thesis using assms probe comp_key_in [OF ci]
      by (auto simp: decode_member.simps [of raw] well_shaped_def simp del: comp_key.simps split: option.splits if_splits)
  next
    case None
    then show ?thesis using assms probe leaf_ref_Present [of raw]
      by (auto simp: decode_member.simps [of raw] well_shaped_def simp del: comp_key.simps split: option.splits if_splits)
  qed
qed

lemma ParseRule_members:
  assumes "ParseRule j = Some r" "m \<in> set (rule_members r)"
  shows "\<exists>raw. decode_member raw = Some m"
  using assms
  by (auto simp: ParseRule_def decode_members_def rule_members_def split: option.splits if_splits
      dest: mapM_opt_in)

section \<open>Signage members\<close>

record signage_members =
  sg_screen_id :: string
  sg_selector :: string
  sg_cast_id :: string
  sg_message :: string
  sg_ttl_seconds :: int

text \<open>The member's name, the declared type and what was written instead.\<close>

datatype member_type_error = MemberTypeError (te_member: string) (te_want: string) (te_got: string)

fun jsonKind :: "json \<Rightarrow> string" where
  "jsonKind (JStr _) = ''a string''"
| "jsonKind (JObj _) = ''an object''"
| "jsonKind (JArr _) = ''an array''"
| "jsonKind (JBool _) = ''a boolean''"
| "jsonKind JNull = ''null''"
| "jsonKind (JNum _) = ''a number''"

definition stringMember :: "(string \<times> json) list \<Rightarrow> string \<Rightarrow> member_type_error + string" where
  "stringMember obj name =
     (case jlookup obj name of
        None \<Rightarrow> Inr ''''
      | Some raw \<Rightarrow>
          if jsonKind raw = ''null'' then Inr ''''
          else (case raw of JStr s \<Rightarrow> Inr s | _ \<Rightarrow> Inl (MemberTypeError name ''a string'' (jsonKind raw))))"

definition intMember :: "(string \<times> json) list \<Rightarrow> string \<Rightarrow> member_type_error + int" where
  "intMember obj name =
     (case jlookup obj name of
        None \<Rightarrow> Inr 0
      | Some raw \<Rightarrow>
          if jsonKind raw = ''null'' then Inr 0
          else (case raw of
                  JNum s \<Rightarrow> (case int_lit s of Some n \<Rightarrow> Inr n
                     | None \<Rightarrow> Inl (MemberTypeError name ''a whole number of seconds'' (jsonKind raw)))
                | _ \<Rightarrow> Inl (MemberTypeError name ''a whole number of seconds'' (jsonKind raw))))"

definition no_signage :: signage_members where
  "no_signage = \<lparr>sg_screen_id = '''', sg_selector = '''', sg_cast_id = '''', sg_message = '''', sg_ttl_seconds = 0\<rparr>"

definition DecodeSignage :: "json \<Rightarrow> member_type_error + signage_members" where
  "DecodeSignage raw =
     (case jmap raw of
        None \<Rightarrow> Inr no_signage
      | Some obj \<Rightarrow>
         (case stringMember obj ''screen_id'' of Inl e \<Rightarrow> Inl e
        | Inr sc \<Rightarrow> (case stringMember obj ''selector'' of Inl e \<Rightarrow> Inl e
        | Inr sel \<Rightarrow> (case stringMember obj ''cast_id'' of Inl e \<Rightarrow> Inl e
        | Inr cast \<Rightarrow> (case stringMember obj ''message'' of Inl e \<Rightarrow> Inl e
        | Inr msg \<Rightarrow> (case intMember obj ''ttl_seconds'' of Inl e \<Rightarrow> Inl e
        | Inr ttl \<Rightarrow> Inr \<lparr>sg_screen_id = sc, sg_selector = sel, sg_cast_id = cast, sg_message = msg,
                          sg_ttl_seconds = ttl\<rparr>))))))"

lemma stringMember_Inr:
  "stringMember obj n = Inr s \<longleftrightarrow>
     (case jlookup obj n of None \<Rightarrow> s = '''' | Some JNull \<Rightarrow> s = '''' | Some j \<Rightarrow> j = JStr s)"
  by (auto simp: stringMember_def split: option.splits json.splits)

lemma intMember_Inr:
  "intMember obj n = Inr i \<longleftrightarrow>
     (case jlookup obj n of None \<Rightarrow> i = 0 | Some JNull \<Rightarrow> i = 0
      | Some j \<Rightarrow> \<exists>s. j = JNum s \<and> int_lit s = Some i)"
  by (auto simp: intMember_def split: option.splits json.splits)

lemma stringMember_Inl:
  "stringMember obj n = Inl e \<Longrightarrow>
     \<exists>raw. jlookup obj n = Some raw \<and> e = MemberTypeError n ''a string'' (jsonKind raw) \<and>
       jsonKind raw \<notin> {''null'', ''a string''}"
  by (auto simp: stringMember_def split: option.splits json.splits if_splits)

lemma intMember_Inl:
  "intMember obj n = Inl e \<Longrightarrow>
     \<exists>raw. jlookup obj n = Some raw \<and> e = MemberTypeError n ''a whole number of seconds'' (jsonKind raw) \<and>
       jsonKind raw \<noteq> ''null''"
  by (auto simp: intMember_def split: option.splits json.splits if_splits)

lemmas DecodeSignage_simps = DecodeSignage_def stringMember_def intMember_def no_signage_def

section \<open>Properties\<close>

text \<open>Decoding a rule gives members of exactly one shape each, at every depth: a composition is
  one of \<open>and\<close>, \<open>or\<close>, \<open>not\<close> with no leaf type and no reference, a \<open>not\<close> has one child, only a
  \<open>choose\<close> action has branches or a default, and a reference names at least one thing.\<close>

theorem ParseRule_well_shaped:
  assumes "ParseRule j = Some r" "m \<in> set (rule_members r)"
  shows "members_all well_shaped m"
proof -
  obtain raw where "decode_member raw = Some m" using ParseRule_members [OF assms] by blast
  then show ?thesis using decode_member_all [of well_shaped raw m] decode_member_top by blast
qed

text \<open>Every member of a decoded rule, at every depth, keeps the JSON it was decoded from: decoding
  that JSON again gives the same member.\<close>

theorem ParseRule_self_decoding:
  assumes "ParseRule j = Some r" "m \<in> set (rule_members r)"
  shows "members_all self_decoding m"
proof -
  obtain raw where "decode_member raw = Some m" using ParseRule_members [OF assms] by blast
  then show ?thesis
    using decode_member_all [of self_decoding raw m] decode_member_top by (auto simp: self_decoding_def)
qed

text \<open>The signage decoder never reads a written member as absent.  When it succeeds on an object,
  each member it reports is the one written there, and an empty value means the member is absent,
  null or written empty; when it fails, the error names a member that is present, not null and of
  the kind it reports.\<close>

theorem DecodeSignage_spec:
  "case DecodeSignage (JObj kvs) of
     Inr s \<Rightarrow>
       (\<forall>(n, v) \<in> set [(''screen_id'', sg_screen_id s), (''selector'', sg_selector s),
                        (''cast_id'', sg_cast_id s), (''message'', sg_message s)].
          case jlookup kvs n of None \<Rightarrow> v = '''' | Some JNull \<Rightarrow> v = '''' | Some j \<Rightarrow> j = JStr v) \<and>
       (case jlookup kvs ''ttl_seconds'' of None \<Rightarrow> sg_ttl_seconds s = 0 | Some JNull \<Rightarrow> sg_ttl_seconds s = 0
        | Some j \<Rightarrow> \<exists>t. j = JNum t \<and> int_lit t = Some (sg_ttl_seconds s))
   | Inl e \<Rightarrow> te_member e \<in> {''screen_id'', ''selector'', ''cast_id'', ''message'', ''ttl_seconds''} \<and>
       (\<exists>raw. jlookup kvs (te_member e) = Some raw \<and> raw \<noteq> JNull \<and> jsonKind raw = te_got e \<and>
          (te_member e \<noteq> ''ttl_seconds'' \<longrightarrow> te_got e \<noteq> ''a string''))"
proof (cases "DecodeSignage (JObj kvs)")
  case (Inl e)
  then show ?thesis
    by (auto simp: DecodeSignage_def split: sum.splits dest!: stringMember_Inl intMember_Inl)
next
  case (Inr s)
  then show ?thesis
    by (auto simp: DecodeSignage_def stringMember_Inr [symmetric] intMember_Inr [symmetric] split: sum.splits)
qed

definition demo_rule :: json where
  "demo_rule = JObj
     [(''id'', JStr ''R''),
      (''triggers'', JArr [JObj [(''type'', JStr ''state''), (''entity_id'', JStr ''E'')]]),
      (''conditions'', JArr [JObj [(''not'', JObj [(''or'', JArr [JObj [(''type'', JStr ''state'')]])])]]),
      (''actions'', JArr [JObj [(''type'', JStr ''choose''),
         (''branches'', JArr [JObj [(''condition'', JObj [(''type'', JStr ''sun'')]), (''actions'', JArr [])]])]])]"

definition demo_members :: "member list" where
  "demo_members = (case ParseRule demo_rule of Some r \<Rightarrow> rule_members r | None \<Rightarrow> [])"

theorem ParseRule_well_shaped_witness:
  "length demo_members = 3 \<and> members_all well_shaped (demo_members ! 1)"
proof -
  have n: "ParseRule demo_rule \<noteq> None" "length demo_members = 3" by code_simp+
  then obtain r where r: "ParseRule demo_rule = Some r" by blast
  then have "demo_members ! 1 \<in> set (rule_members r)"
    using n by (simp add: demo_members_def)
  then show ?thesis using ParseRule_well_shaped [OF r] n by blast
qed

theorem ParseRule_self_decoding_witness:
  "length demo_members = 3 \<and> members_all self_decoding (demo_members ! 2)"
proof -
  have n: "ParseRule demo_rule \<noteq> None" "length demo_members = 3" by code_simp+
  then obtain r where r: "ParseRule demo_rule = Some r" by blast
  then have "demo_members ! 2 \<in> set (rule_members r)"
    using n by (simp add: demo_members_def)
  then show ?thesis using ParseRule_self_decoding [OF r] n by blast
qed

theorem DecodeSignage_spec_witness:
  "DecodeSignage (JObj [(''cast_id'', JNum ''5'')]) = Inl (MemberTypeError ''cast_id'' ''a string'' ''a number'') \<and>
   (\<exists>raw. jlookup [(''cast_id'', JNum ''5'')] ''cast_id'' = Some raw \<and> jsonKind raw = ''a number'')"
proof -
  have d: "DecodeSignage (JObj [(''cast_id'', JNum ''5'')]) = Inl (MemberTypeError ''cast_id'' ''a string'' ''a number'')"
    by code_simp
  then show ?thesis using DecodeSignage_spec [of "[(''cast_id'', JNum ''5'')]"] by auto
qed

end
