(* ===== verification/Triggers.thy ===== *)
theory Triggers
  imports EvalMatch RuleModel
begin

text \<open>
  The state and numeric triggers of \<open>internal/rules/eval\<close> (\<open>trigger_state.go\<close>,
  \<open>trigger_numeric.go\<close>): construction from a decoded member and the transition rule that decides,
  from the baseline of the previous observation, whether an observation is a match.
\<close>

section \<open>State triggers\<close>

text \<open>\<open>From\<close>/\<open>HasFrom\<close> and \<open>To\<close>/\<open>HasTo\<close> are one option each, as are \<open>Attr\<close>/\<open>AttrKnown\<close>.\<close>

record state_trigger =
  st_entity :: string
  st_attribute :: string
  st_from :: "gval option"
  st_to :: "gval option"

record trigger_baseline =
  tb_known :: bool
  tb_state :: string
  tb_attr :: "gval option"

definition no_baseline :: trigger_baseline where
  "no_baseline = \<lparr>tb_known = False, tb_state = '''', tb_attr = None\<rparr>"

definition decodeBound :: "json option \<Rightarrow> gval option" where
  "decodeBound raw = (case raw of None \<Rightarrow> None | Some JNull \<Rightarrow> None | Some j \<Rightarrow> jdecode j)"

definition ref_entity :: "member \<Rightarrow> string" where
  "ref_entity m = (case m_ref m of Some e \<Rightarrow> er_entity_id e | None \<Rightarrow> '''')"

definition raw_field :: "member \<Rightarrow> string \<Rightarrow> json list" where
  "raw_field m n = (case m_raw m of Some j \<Rightarrow> jfield j n | None \<Rightarrow> [])"

definition raw_struct_ok :: "member \<Rightarrow> bool" where
  "raw_struct_ok m = (case m_raw m of Some j \<Rightarrow> jstruct_ok j | None \<Rightarrow> True)"

definition NewStateTrigger :: "member \<Rightarrow> state_trigger option" where
  "NewStateTrigger m =
     (if \<not> (raw_struct_ok m \<and> list_all str_ok (raw_field m ''attribute'')) then None
      else Some \<lparr>st_entity = ref_entity m,
                 st_attribute = dstr '''' (raw_field m ''attribute''),
                 st_from = decodeBound (draw (raw_field m ''from'')),
                 st_to = decodeBound (draw (raw_field m ''to''))\<rparr>)"

definition typedBoundMatch :: "gval \<Rightarrow> gval \<Rightarrow> value_type \<Rightarrow> bool" where
  "typedBoundMatch v bound vt =
     (case bound of
        GArr b \<Rightarrow> list_ex (\<lambda>e. TypedEqual v e vt) b
      | GStrs b \<Rightarrow> list_ex (\<lambda>e. TypedEqual v (GStr e) vt) b
      | _ \<Rightarrow> TypedEqual v bound vt)"

definition attrEqual :: "registry \<Rightarrow> string \<Rightarrow> string \<Rightarrow> gval \<Rightarrow> gval \<Rightarrow> bool" where
  "attrEqual reg deviceClass attr a b =
     (let vt = rg_type reg deviceClass attr in if vt = TUnknown then deep_equal a b else TypedEqual a b vt)"

definition matchStateBounds :: "state_trigger \<Rightarrow> registry \<Rightarrow> string \<Rightarrow> string \<Rightarrow> string \<Rightarrow> bool" where
  "matchStateBounds t reg deviceClass oldState newState \<longleftrightarrow>
     (case st_from t of Some f \<Rightarrow> MatchState reg deviceClass oldState f | None \<Rightarrow> True) \<and>
     (case st_to t of Some f \<Rightarrow> MatchState reg deviceClass newState f | None \<Rightarrow> True)"

definition matchAttrBounds :: "state_trigger \<Rightarrow> registry \<Rightarrow> string \<Rightarrow> gval \<Rightarrow> gval \<Rightarrow> bool" where
  "matchAttrBounds t reg deviceClass oldVal newVal \<longleftrightarrow>
     (let vt = rg_type reg deviceClass (st_attribute t) in
      (case st_from t of Some f \<Rightarrow> typedBoundMatch oldVal f vt | None \<Rightarrow> True) \<and>
      (case st_to t of Some f \<Rightarrow> typedBoundMatch newVal f vt | None \<Rightarrow> True))"

definition StateObserve :: "state_trigger \<Rightarrow> registry \<Rightarrow> trigger_baseline \<Rightarrow> observation \<Rightarrow> bool \<times> trigger_baseline" where
  "StateObserve t reg prev obs =
     (let cur = ob_entity obs;
          attrScoped = (st_attribute t \<noteq> '''');
          bounded = (st_from t \<noteq> None \<or> st_to t \<noteq> None);
          curAttr = (if attrScoped then map_of (en_attrs cur) (st_attribute t) else None);
          next = \<lparr>tb_known = True, tb_state = en_state cur, tb_attr = curAttr\<rparr>
      in if \<not> tb_known prev then (False, next)
         else if \<not> attrScoped \<and> \<not> bounded then (ob_state_changed obs \<or> ob_changed_attrs obs \<noteq> [], next)
         else if \<not> attrScoped \<and> bounded then
           (if \<not> ob_state_changed obs then (False, next)
            else (matchStateBounds t reg (en_class cur) (tb_state prev) (en_state cur), next))
         else if attrScoped \<and> bounded then
           (case curAttr of None \<Rightarrow> (False, next)
            | Some c \<Rightarrow>
               (case tb_attr prev of None \<Rightarrow> (False, next)
                | Some p \<Rightarrow> if attrEqual reg (en_class cur) (st_attribute t) p c then (False, next)
                            else (matchAttrBounds t reg (en_class cur) p c, next)))
         else
           (case curAttr of None \<Rightarrow> (False, next)
            | Some c \<Rightarrow>
               (case tb_attr prev of None \<Rightarrow> (True, next)
                | Some p \<Rightarrow> (\<not> attrEqual reg (en_class cur) (st_attribute t) p c, next))))"

section \<open>Numeric triggers\<close>

record numeric_trigger =
  nt_entity :: string
  nt_attribute :: string
  nt_above :: "f64 option"
  nt_below :: "f64 option"

definition NewNumericTrigger :: "member \<Rightarrow> numeric_trigger option" where
  "NewNumericTrigger m =
     (if \<not> (raw_struct_ok m \<and> list_all str_ok (raw_field m ''attribute'')) then None
      else Some \<lparr>nt_entity = ref_entity m,
                 nt_attribute = dstr '''' (raw_field m ''attribute''),
                 nt_above = Option.bind (decodeBound (draw (raw_field m ''above''))) ParseNumber,
                 nt_below = Option.bind (decodeBound (draw (raw_field m ''below''))) ParseNumber\<rparr>)"

text \<open>An absent attribute reads as the nil value.\<close>

definition nt_value :: "numeric_trigger \<Rightarrow> entity \<Rightarrow> gval" where
  "nt_value t e =
     (if nt_attribute t \<noteq> '''' then (case map_of (en_attrs e) (nt_attribute t) of Some v \<Rightarrow> v | None \<Rightarrow> GNil)
      else GStr (en_state e))"

definition satisfies :: "numeric_trigger \<Rightarrow> f64 \<Rightarrow> bool" where
  "satisfies t v \<longleftrightarrow>
     (case nt_above t of Some a \<Rightarrow> f64_less a v | None \<Rightarrow> True) \<and>
     (case nt_below t of Some b \<Rightarrow> f64_less v b | None \<Rightarrow> True)"

definition NumericObserve :: "numeric_trigger \<Rightarrow> f64 option \<Rightarrow> observation \<Rightarrow> bool \<times> f64 option" where
  "NumericObserve t prevParsed obs =
     (case ParseNumber (nt_value t (ob_entity obs)) of
        None \<Rightarrow> (False, None)
      | Some parsed \<Rightarrow>
         (case prevParsed of
            None \<Rightarrow> (satisfies t parsed, Some parsed)
          | Some p \<Rightarrow> (\<not> satisfies t p \<and> satisfies t parsed, Some parsed)))"

section \<open>Lemmas\<close>

definition baseline_of :: "state_trigger \<Rightarrow> entity \<Rightarrow> trigger_baseline" where
  "baseline_of t e =
     \<lparr>tb_known = True, tb_state = en_state e,
      tb_attr = (if st_attribute t \<noteq> '''' then map_of (en_attrs e) (st_attribute t) else None)\<rparr>"

lemma StateObserve_baseline: "snd (StateObserve t reg prev obs) = baseline_of t (ob_entity obs)"
  by (auto simp: StateObserve_def baseline_of_def Let_def split: option.splits)

lemma StateObserve_unknown: "\<not> tb_known prev \<Longrightarrow> \<not> fst (StateObserve t reg prev obs)"
  by (simp add: StateObserve_def Let_def)

lemma NumericObserve_baseline:
  "snd (NumericObserve t prev obs) = ParseNumber (nt_value t (ob_entity obs))"
  by (auto simp: NumericObserve_def split: option.splits)

text \<open>The value of a numeric trigger is inside its region.\<close>

definition in_region :: "numeric_trigger \<Rightarrow> entity \<Rightarrow> bool" where
  "in_region t e \<longleftrightarrow> (case ParseNumber (nt_value t e) of Some v \<Rightarrow> satisfies t v | None \<Rightarrow> False)"

text \<open>Runs over a list of observations of one entity.\<close>

fun run_state :: "state_trigger \<Rightarrow> registry \<Rightarrow> trigger_baseline \<Rightarrow> observation list \<Rightarrow> bool list" where
  "run_state t reg b [] = []"
| "run_state t reg b (o1 # os) = (case StateObserve t reg b o1 of (f, b') \<Rightarrow> f # run_state t reg b' os)"

fun run_numeric :: "numeric_trigger \<Rightarrow> f64 option \<Rightarrow> observation list \<Rightarrow> bool list" where
  "run_numeric t p [] = []"
| "run_numeric t p (o1 # os) = (case NumericObserve t p o1 of (f, p') \<Rightarrow> f # run_numeric t p' os)"

lemma run_state_length [simp]: "length (run_state t reg b os) = length os"
  by (induction t reg b os rule: run_state.induct) (auto split: prod.splits)

lemma run_numeric_length [simp]: "length (run_numeric t p os) = length os"
  by (induction t p os rule: run_numeric.induct) (auto split: prod.splits)

lemma run_state_Suc:
  "Suc i < length os \<Longrightarrow>
    run_state t reg b os ! Suc i = fst (StateObserve t reg (baseline_of t (ob_entity (os ! i))) (os ! Suc i))"
proof (induction os arbitrary: b i)
  case (Cons o1 os)
  obtain f b' where s: "StateObserve t reg b o1 = (f, b')" by (cases "StateObserve t reg b o1")
  have b': "b' = baseline_of t (ob_entity o1)" using StateObserve_baseline [of t reg b o1] s by simp
  show ?case
  proof (cases i)
    case 0
    then show ?thesis using Cons.prems s b' by (cases os) (auto split: prod.splits)
  next
    case (Suc j)
    then show ?thesis using Cons.IH [of j b'] Cons.prems s by simp
  qed
qed simp

lemma run_numeric_nth:
  "i < length os \<Longrightarrow>
    run_numeric t p os ! i =
      fst (NumericObserve t (if i = 0 then p else ParseNumber (nt_value t (ob_entity (os ! (i - 1))))) (os ! i))"
proof (induction os arbitrary: p i)
  case (Cons o1 os)
  obtain f p' where s: "NumericObserve t p o1 = (f, p')" by (cases "NumericObserve t p o1")
  have p': "p' = ParseNumber (nt_value t (ob_entity o1))" using NumericObserve_baseline [of t p o1] s by simp
  show ?case
  proof (cases i)
    case 0
    then show ?thesis using s by simp
  next
    case (Suc j)
    then show ?thesis using Cons.IH [of j p'] Cons.prems s p' by (cases j) auto
  qed
qed simp

lemma NumericObserve_region:
  "fst (NumericObserve t p obs) \<longleftrightarrow>
     in_region t (ob_entity obs) \<and> \<not> (case p of Some v \<Rightarrow> satisfies t v | None \<Rightarrow> False)"
  by (auto simp: NumericObserve_def in_region_def split: option.splits)

lemma satisfies_mono:
  assumes "nt_above t = Some a" "nt_below t = None" "satisfies t v" "f64_less v w"
  shows "satisfies t w"
  using assms f64_less_trans [of a v w] by (simp add: satisfies_def)

text \<open>What a match after a known observation means, case by case.\<close>

definition transition_matches :: "state_trigger \<Rightarrow> registry \<Rightarrow> entity \<Rightarrow> observation \<Rightarrow> bool" where
  "transition_matches t reg old obs \<longleftrightarrow>
    (let new = ob_entity obs; c = en_class new; a = st_attribute t in
     if a = '''' then
       (if st_from t = None \<and> st_to t = None then ob_state_changed obs \<or> ob_changed_attrs obs \<noteq> []
        else ob_state_changed obs \<and> matchStateBounds t reg c (en_state old) (en_state new))
     else (\<exists>y. map_of (en_attrs new) a = Some y \<and>
       (case map_of (en_attrs old) a of
          None \<Rightarrow> st_from t = None \<and> st_to t = None
        | Some x \<Rightarrow> \<not> attrEqual reg c a x y \<and> matchAttrBounds t reg c x y)))"

lemma matchAttrBounds_unbounded: "st_from t = None \<Longrightarrow> st_to t = None \<Longrightarrow> matchAttrBounds t reg c x y"
  by (simp add: matchAttrBounds_def Let_def)

lemma StateObserve_later:
  "fst (StateObserve t reg (baseline_of t old) obs) = transition_matches t reg old obs"
proof (cases "st_attribute t = ''''")
  case True
  then show ?thesis by (auto simp: StateObserve_def baseline_of_def transition_matches_def Let_def)
next
  case False
  let ?a = "st_attribute t"
  show ?thesis
  proof (cases "map_of (en_attrs (ob_entity obs)) ?a")
    case None
    then show ?thesis using False by (simp add: StateObserve_def baseline_of_def transition_matches_def Let_def)
  next
    case (Some y)
    then show ?thesis using False matchAttrBounds_unbounded [of t]
      by (cases "map_of (en_attrs old) ?a"; cases "st_from t"; cases "st_to t")
         (simp_all add: StateObserve_def baseline_of_def transition_matches_def Let_def)
  qed
qed

section \<open>Properties\<close>

text \<open>A numeric trigger matches exactly on entry into its region: over any sequence of observations it
  matches at a step when the value read there is a number inside the bounds and the value of the step
  before was outside them or no number at all; nothing needs to be known before the first step.\<close>

theorem run_numeric_crossing:
  assumes "i < length os"
  shows "run_numeric t None os ! i \<longleftrightarrow>
           in_region t (ob_entity (os ! i)) \<and> (i = 0 \<or> \<not> in_region t (ob_entity (os ! (i - 1))))"
  using run_numeric_nth [OF assms, of t None] NumericObserve_region
  by (simp add: in_region_def)

text \<open>A state trigger never matches the first observation of its entity, and it matches a later one
  exactly on a transition from the observation before: a change of the state or of an attribute reported
  as significant when it is unscoped, a change of the state between the authored bounds when it is
  bounded, a change of its own attribute, by the registry's comparison, when it names one.\<close>

theorem run_state_transition:
  assumes "i < length os"
  shows "run_state t reg no_baseline os ! i \<longleftrightarrow>
           0 < i \<and> transition_matches t reg (ob_entity (os ! (i - 1))) (os ! i)"
proof (cases i)
  case 0
  then show ?thesis using assms StateObserve_unknown [of no_baseline t reg "os ! 0"]
    by (cases os) (auto simp: no_baseline_def split: prod.splits)
next
  case (Suc j)
  have "run_state t reg no_baseline os ! i = fst (StateObserve t reg (baseline_of t (ob_entity (os ! j))) (os ! Suc j))"
    using assms run_state_Suc [of j os t reg no_baseline] Suc by simp
  then show ?thesis using StateObserve_later [of t reg "ob_entity (os ! j)" "os ! Suc j"] Suc by simp
qed

definition demo_obs :: "string \<Rightarrow> bool \<Rightarrow> observation" where
  "demo_obs s ch = \<lparr>ob_entity = \<lparr>en_id = ''E'', en_class = ''media-player'', en_state = s, en_attrs = []\<rparr>,
                    ob_state_changed = ch, ob_changed_attrs = []\<rparr>"

definition demo_numeric :: numeric_trigger where
  "demo_numeric = \<lparr>nt_entity = ''E'', nt_attribute = '''', nt_above = Some (Fin 5), nt_below = None\<rparr>"

definition demo_state :: state_trigger where
  "demo_state = \<lparr>st_entity = ''E'', st_attribute = '''', st_from = Some (GStr ''off''), st_to = None\<rparr>"

theorem run_numeric_crossing_witness:
  "run_numeric demo_numeric None [demo_obs ''3'' True, demo_obs ''7'' True] ! 1 \<and>
   in_region demo_numeric (ob_entity (demo_obs ''7'' True)) \<and> \<not> in_region demo_numeric (ob_entity (demo_obs ''3'' True))"
proof -
  let ?os = "[demo_obs ''3'' True, demo_obs ''7'' True]"
  have "run_numeric demo_numeric None ?os ! 1" by code_simp
  then show ?thesis using run_numeric_crossing [of 1 ?os demo_numeric] by simp
qed

theorem run_state_transition_witness:
  "matchStateBounds demo_state (FromDeviceClass [] Map.empty) ''media-player'' ''off'' ''on''"
proof -
  let ?os = "[demo_obs ''off'' False, demo_obs ''on'' True]"
  have "run_state demo_state (FromDeviceClass [] Map.empty) no_baseline ?os ! 1" by code_simp
  then show ?thesis
    using run_state_transition [of 1 ?os demo_state "FromDeviceClass [] Map.empty"]
    by (simp add: transition_matches_def demo_obs_def demo_state_def Let_def)
qed

end
