(* ===== verification/Condition.thy ===== *)
theory Condition
  imports Triggers Schedule
begin

text \<open>
  Conditions, \<open>internal/rules/eval/condition.go\<close>: the boolean evaluation of a condition member
  against a snapshot, the wall clock, a location and the variables of the rule's scope.  Anything
  missing, malformed or of the wrong type makes its leaf false.
\<close>

section \<open>Operations\<close>

text \<open>What \<open>EvalConditionAt\<close> is given beside the member; \<open>ce_now\<close> is the clock's \<open>WallMillis\<close>.\<close>

record cond_env =
  ce_reg :: registry
  ce_snap :: snapshot
  ce_now :: int
  ce_loc :: location
  ce_vars :: "string \<rightharpoonup> gval"
  ce_math :: mathlib

definition evalStateCondition :: "registry \<Rightarrow> snapshot \<Rightarrow> member \<Rightarrow> bool" where
  "evalStateCondition reg snap m =
     (if ref_entity m = '''' then False
      else (case snap (ref_entity m) of
         None \<Rightarrow> False
       | Some ent \<Rightarrow>
           if \<not> (raw_struct_ok m \<and> list_all str_ok (raw_field m ''attribute'')) then False
           else (case decodeBound (draw (raw_field m ''state'')) of
              None \<Rightarrow> False
            | Some expected \<Rightarrow>
                let attr = dstr '''' (raw_field m ''attribute'')
                in if attr = '''' then MatchState reg (en_class ent) (en_state ent) expected
                   else (case map_of (en_attrs ent) attr of
                           None \<Rightarrow> False
                         | Some v \<Rightarrow> typedBoundMatch v expected (rg_type reg (en_class ent) attr)))))"

definition evalNumericCondition :: "snapshot \<Rightarrow> member \<Rightarrow> bool" where
  "evalNumericCondition snap m =
     (case NewNumericTrigger m of
        None \<Rightarrow> False
      | Some nt \<Rightarrow>
          if nt_entity nt = '''' then False
          else (case snap (nt_entity nt) of
             None \<Rightarrow> False
           | Some ent \<Rightarrow> (case ParseNumber (nt_value nt ent) of None \<Rightarrow> False | Some v \<Rightarrow> satisfies nt v)))"

text \<open>
  \<open>time.Parse\<close> with layout \<open>15:04:05\<close>: one or two digits of hour, exactly two of minute and second,
  and an optional fraction of a second, which is dropped.
\<close>

definition getnum :: "bool \<Rightarrow> string \<Rightarrow> (int \<times> string) option" where
  "getnum fixed s =
     (case s of
        [] \<Rightarrow> None
      | c # r \<Rightarrow>
          if \<not> is_digit c then None
          else if r \<noteq> [] \<and> is_digit (hd r) then Some (int (10 * digit_val c + digit_val (hd r)), tl r)
          else if fixed then None else Some (int (digit_val c), r))"

definition skip_colon :: "string \<Rightarrow> string option" where
  "skip_colon s = (case s of c # r \<Rightarrow> if c = CHR '':'' then Some r else None | [] \<Rightarrow> None)"

definition skip_fraction :: "string \<Rightarrow> string" where
  "skip_fraction s =
     (case s of c # d # r \<Rightarrow>
        if (c = CHR ''.'' \<or> c = CHR '','') \<and> is_digit d then dropWhile is_digit r else s
      | _ \<Rightarrow> s)"

definition secondsOfDayFromString :: "string \<Rightarrow> int option" where
  "secondsOfDayFromString s =
     (case getnum False s of None \<Rightarrow> None | Some (h, s1) \<Rightarrow>
      if 24 \<le> h then None else
      (case Option.bind (skip_colon s1) (getnum True) of None \<Rightarrow> None | Some (m, s2) \<Rightarrow>
       if 60 \<le> m then None else
       (case Option.bind (skip_colon s2) (getnum True) of None \<Rightarrow> None | Some (sec, s3) \<Rightarrow>
        if 60 \<le> sec then None else
        if skip_fraction s3 \<noteq> [] then None else Some (h * 3600 + m * 60 + sec))))"

definition secondsOfDayFromMillis :: "int \<Rightarrow> int" where
  "secondsOfDayFromMillis wall = (wall div 1000) mod 86400"

definition evalTimeCondition :: "int \<Rightarrow> member \<Rightarrow> bool" where
  "evalTimeCondition now m =
     (if \<not> (raw_struct_ok m \<and> list_all str_ok (raw_field m ''after'' @ raw_field m ''before'')) then False
      else (let sa = dstr '''' (raw_field m ''after''); sb = dstr '''' (raw_field m ''before'');
                nowSec = secondsOfDayFromMillis now
            in if sa = '''' \<and> sb = '''' then False
               else if sa \<noteq> '''' \<and> secondsOfDayFromString sa = None then False
               else if sb \<noteq> '''' \<and> secondsOfDayFromString sb = None then False
               else (let afterSec = the (secondsOfDayFromString sa); beforeSec = the (secondsOfDayFromString sb)
                     in if sa \<noteq> '''' \<and> sb \<noteq> '''' then
                          (if afterSec \<le> beforeSec then afterSec \<le> nowSec \<and> nowSec \<le> beforeSec
                           else afterSec \<le> nowSec \<or> nowSec \<le> beforeSec)
                        else if sa \<noteq> '''' then afterSec \<le> nowSec
                        else nowSec \<le> beforeSec)))"

text \<open>A bound of a sun condition, decoded through a pointer: \<open>null\<close> resets it.\<close>

record sun_bound =
  sb_event :: string
  sb_offset :: int

fun sun_bound_ok :: "json \<Rightarrow> bool" where
  "sun_bound_ok j \<longleftrightarrow> jstruct_ok j \<and> list_all str_ok (jfield j ''event'') \<and> list_all int_ok (jfield j ''offset'')"

fun dsun_bound :: "sun_bound option \<Rightarrow> json list \<Rightarrow> sun_bound option" where
  "dsun_bound p [] = p"
| "dsun_bound p (JNull # vs) = dsun_bound None vs"
| "dsun_bound p (v # vs) =
     (let b = (case p of Some b \<Rightarrow> b | None \<Rightarrow> \<lparr>sb_event = '''', sb_offset = 0\<rparr>)
      in dsun_bound (Some \<lparr>sb_event = dstr (sb_event b) (jfield v ''event''),
                           sb_offset = dint (sb_offset b) (jfield v ''offset'')\<rparr>) vs)"

definition absInt64 :: "int \<Rightarrow> int" where
  "absInt64 v = (if v < 0 then i64 (- v) else v)"

text \<open>The nearer of the best instant so far and a further candidate, the earlier found one on a tie.\<close>

definition nearer :: "int \<Rightarrow> int option \<Rightarrow> int option \<Rightarrow> int option" where
  "nearer now best cand =
     (case cand of
        None \<Rightarrow> best
      | Some ms \<Rightarrow>
         (case best of
            None \<Rightarrow> Some ms
          | Some b \<Rightarrow> if absInt64 (i64 (ms - now)) < absInt64 (i64 (b - now)) then Some ms else best))"

fun sun_search :: "(int \<Rightarrow> int option) \<Rightarrow> int \<Rightarrow> int \<Rightarrow> nat \<Rightarrow> int option" where
  "sun_search f now delta 0 = None"
| "sun_search f now delta (Suc n) =
     (case nearer now (nearer now None (f (- delta))) (f delta) of
        Some best \<Rightarrow> Some best
      | None \<Rightarrow> sun_search f now (delta + 1) n)"

definition sunBoundInstant :: "mathlib \<Rightarrow> location \<Rightarrow> zone \<Rightarrow> int \<Rightarrow> sun_bound \<Rightarrow> int option" where
  "sunBoundInstant ml loc z now b =
     (let dn = local_day z (now div 1000)
      in case SunInstant ml loc dn (sb_event b) (sb_offset b) of
           Some ms \<Rightarrow> Some ms
         | None \<Rightarrow>
            (let base = go_date z dn 0
             in sun_search (\<lambda>k. SunInstant ml loc (local_day z (add_days z base k)) (sb_event b) (sb_offset b)) now 1 200))"

definition evalSunCondition :: "mathlib \<Rightarrow> location \<Rightarrow> int \<Rightarrow> member \<Rightarrow> bool" where
  "evalSunCondition ml loc now m =
     (if \<not> (raw_struct_ok m \<and> list_all sun_bound_ok (raw_field m ''after'' @ raw_field m ''before'')) then False
      else (let sa = dsun_bound None (raw_field m ''after''); sb = dsun_bound None (raw_field m ''before'')
            in if sa = None \<and> sb = None then False
               else (case loc_tz loc of
                  None \<Rightarrow> False
                | Some z \<Rightarrow>
                   (case (sa, sb) of
                      (Some a, Some b) \<Rightarrow>
                        (case sunBoundInstant ml loc z now a of None \<Rightarrow> False
                         | Some ai \<Rightarrow> (case sunBoundInstant ml loc z now b of None \<Rightarrow> False
                           | Some bi \<Rightarrow> if ai \<le> bi then ai \<le> now \<and> now \<le> bi else ai \<le> now \<or> now \<le> bi))
                    | (Some a, None) \<Rightarrow>
                        (case sunBoundInstant ml loc z now a of None \<Rightarrow> False | Some ai \<Rightarrow> ai \<le> now)
                    | (None, Some b) \<Rightarrow>
                        (case sunBoundInstant ml loc z now b of None \<Rightarrow> False | Some bi \<Rightarrow> now \<le> bi)
                    | (None, None) \<Rightarrow> False))))"

definition variableEquals :: "gval \<Rightarrow> gval \<Rightarrow> bool" where
  "variableEquals a b =
     (case a of
        GBool av \<Rightarrow> (case b of GBool bv \<Rightarrow> av = bv | _ \<Rightarrow> False)
      | GStr av \<Rightarrow> (case b of GStr bv \<Rightarrow> av = bv | _ \<Rightarrow> False)
      | _ \<Rightarrow> (case (ParseNumber a, ParseNumber b) of (Some x, Some y) \<Rightarrow> f64_eq x y | _ \<Rightarrow> False))"

definition number_cmp :: "(f64 \<Rightarrow> f64 \<Rightarrow> bool) \<Rightarrow> gval \<Rightarrow> gval \<Rightarrow> bool" where
  "number_cmp r v e = (case (ParseNumber v, ParseNumber e) of (Some x, Some y) \<Rightarrow> r x y | _ \<Rightarrow> False)"

definition evalVariableCondition :: "(string \<rightharpoonup> gval) \<Rightarrow> member \<Rightarrow> bool" where
  "evalVariableCondition vars m =
     (if \<not> (raw_struct_ok m \<and> list_all str_ok (raw_field m ''variable'')) then False
      else (let name = dstr '''' (raw_field m ''variable'')
            in if name = '''' then False
               else (case vars name of
                  None \<Rightarrow> False
                | Some v \<Rightarrow>
                   (case decodeBound (draw (raw_field m ''equals'')) of Some e \<Rightarrow> variableEquals v e
                  | None \<Rightarrow> (case decodeBound (draw (raw_field m ''above'')) of Some e \<Rightarrow> number_cmp (\<lambda>x y. f64_less y x) v e
                  | None \<Rightarrow> (case decodeBound (draw (raw_field m ''below'')) of Some e \<Rightarrow> number_cmp f64_less v e
                  | None \<Rightarrow> False))))))"

definition eval_leaf :: "cond_env \<Rightarrow> member \<Rightarrow> bool" where
  "eval_leaf env m =
     (if m_type m = ''state'' then evalStateCondition (ce_reg env) (ce_snap env) m
      else if m_type m = ''numeric'' then evalNumericCondition (ce_snap env) m
      else if m_type m = ''time'' then evalTimeCondition (ce_now env) m
      else if m_type m = ''sun'' then evalSunCondition (ce_math env) (ce_loc env) (ce_now env) m
      else if m_type m = ''variable'' then evalVariableCondition (ce_vars env) m
      else False)"

fun EvalConditionAt :: "cond_env \<Rightarrow> member \<Rightarrow> bool" where
  "EvalConditionAt env (Member ty ck ref cs bs ds raw) =
     (if ck = ''and'' then list_all (EvalConditionAt env) cs
      else if ck = ''or'' then list_ex (EvalConditionAt env) cs
      else if ck = ''not'' then (case cs of [c] \<Rightarrow> \<not> EvalConditionAt env c | _ \<Rightarrow> False)
      else eval_leaf env (Member ty ck ref cs bs ds raw))"

text \<open>\<open>EvalCondition\<close>: without a location.\<close>

definition EvalCondition :: "cond_env \<Rightarrow> member \<Rightarrow> bool" where
  "EvalCondition env = EvalConditionAt (env\<lparr>ce_loc := \<lparr>loc_tz = None, loc_lat = Fin 0, loc_lon = Fin 0\<rparr>\<rparr>)"

section \<open>Lemmas\<close>

lemma nearer_None [simp]: "nearer now b c = None \<longleftrightarrow> b = None \<and> c = None"
  by (auto simp: nearer_def split: option.splits)

lemma nearer_simps [simp]: "nearer now b None = b" "nearer now None c = c"
  by (simp_all add: nearer_def split: option.split)

lemma nearer_in: "nearer now b c = Some x \<Longrightarrow> b = Some x \<or> c = Some x"
  by (auto simp: nearer_def split: option.splits if_splits)

lemma sun_search_Some:
  "sun_search f now d n = Some x \<Longrightarrow>
     \<exists>k. d \<le> k \<and> k < d + int n \<and> nearer now (nearer now None (f (- k))) (f k) = Some x \<and>
         (\<forall>j. d \<le> j \<and> j < k \<longrightarrow> f j = None \<and> f (- j) = None)"
proof (induction f now d n rule: sun_search.induct)
  case (2 f now d n)
  show ?case
  proof (cases "nearer now (nearer now None (f (- d))) (f d)")
    case (Some y)
    then show ?thesis using 2 by (intro exI [of _ d]) auto
  next
    case None
    then obtain k where k: "d + 1 \<le> k" "k < d + 1 + int n" "nearer now (nearer now None (f (- k))) (f k) = Some x"
      "\<forall>j. d + 1 \<le> j \<and> j < k \<longrightarrow> f j = None \<and> f (- j) = None"
      using "2.IH" [OF None] "2.prems" None by (auto simp del: nearer_None)
    have "f j = None \<and> f (- j) = None" if "d \<le> j" "j < k" for j
      using k(4) that None by (cases "j = d") auto
    then show ?thesis using k by (intro exI [of _ k]) auto
  qed
qed simp

lemma sun_search_None:
  "sun_search f now d n = None \<longleftrightarrow> (\<forall>j. d \<le> j \<and> j < d + int n \<longrightarrow> f j = None \<and> f (- j) = None)"
proof (induction f now d n rule: sun_search.induct)
  case (2 f now d n)
  have "(\<forall>j. d \<le> j \<and> j < d + int (Suc n) \<longrightarrow> P j) \<longleftrightarrow> P d \<and> (\<forall>j. d + 1 \<le> j \<and> j < d + 1 + int n \<longrightarrow> P j)" for P
  proof
    assume "P d \<and> (\<forall>j. d + 1 \<le> j \<and> j < d + 1 + int n \<longrightarrow> P j)"
    then show "\<forall>j. d \<le> j \<and> j < d + int (Suc n) \<longrightarrow> P j"
      by (metis add.assoc add.commute int_ops(4) le_less zless_imp_add1_zle)
  qed auto
  note shift = this [of "\<lambda>j. f j = None \<and> f (- j) = None"]
  show ?case
    unfolding shift using 2 by (cases "f d"; cases "f (- d)") (auto split: option.split)
qed auto

lemma getnum_bound: "getnum fixed s = Some (n, r) \<Longrightarrow> 0 \<le> n"
  by (auto simp: getnum_def split: list.splits if_splits)

lemma secondsOfDayFromString_bounds:
  "secondsOfDayFromString s = Some n \<Longrightarrow> 0 \<le> n \<and> n < 86400"
  by (auto simp: secondsOfDayFromString_def bind_eq_Some_conv split: option.splits prod.splits if_splits
      dest!: getnum_bound)

lemma secondsOfDayFromString_empty [simp]: "secondsOfDayFromString '''' = None"
  by (simp add: secondsOfDayFromString_def getnum_def)

lemma cyclic_interval:
  fixes a b n :: int
  assumes "0 \<le> a" "a < 86400" "0 \<le> b" "b < 86400" "0 \<le> n" "n < 86400"
  shows "(if a \<le> b then a \<le> n \<and> n \<le> b else a \<le> n \<or> n \<le> b) \<longleftrightarrow> (n - a) mod 86400 \<le> (b - a) mod 86400"
proof -
  have m: "(x - a) mod 86400 = (if a \<le> x then x - a else x - a + 86400)" if "0 \<le> x" "x < 86400" for x
  proof (cases "a \<le> x")
    case False
    then have "(x - a + 86400) mod 86400 = x - a + 86400" using that assms by (intro mod_pos_pos_trivial) auto
    then show ?thesis using False by simp
  qed (use that assms in simp)
  show ?thesis using assms m [of n] m [of b] by auto
qed

text \<open>The entities and the variables a condition names, at every depth.\<close>

fun cond_entities :: "member \<Rightarrow> string list" where
  "cond_entities (Member ty ck ref cs bs ds raw) =
     (case ref of Some e \<Rightarrow> [er_entity_id e] | None \<Rightarrow> []) @ concat (map cond_entities cs)"

lemma eval_leaf_entities:
  assumes "\<And>e. m_ref m = Some e \<Longrightarrow> snap' (er_entity_id e) = ce_snap env (er_entity_id e)"
  shows "eval_leaf (env\<lparr>ce_snap := snap'\<rparr>) m = eval_leaf env m"
proof -
  have "snap' (ref_entity m) = ce_snap env (ref_entity m) \<or> ref_entity m = ''''"
    using assms by (auto simp: ref_entity_def split: option.splits)
  moreover have "nt_entity nt = ref_entity m" if "NewNumericTrigger m = Some nt" for nt
    using that by (auto simp: NewNumericTrigger_def split: if_splits)
  ultimately show ?thesis
    by (auto simp: eval_leaf_def evalStateCondition_def evalNumericCondition_def split: option.splits)
qed

section \<open>Properties\<close>

text \<open>A condition depends only on the entities it names: two snapshots that agree on the entities
  named anywhere in it give it the same value, whatever else they hold.\<close>

theorem condition_locality:
  assumes "\<forall>e \<in> set (cond_entities m). snap' e = ce_snap env e"
  shows "EvalConditionAt (env\<lparr>ce_snap := snap'\<rparr>) m = EvalConditionAt env m"
  using assms
proof (induction env m rule: EvalConditionAt.induct)
  case (1 env ty ck ref cs bs ds raw)
  let ?e = "env\<lparr>ce_snap := snap'\<rparr>"
  have leaf: "eval_leaf ?e (Member ty ck ref cs bs ds raw) = eval_leaf env (Member ty ck ref cs bs ds raw)"
    using "1.prems" by (intro eval_leaf_entities) auto
  have sub: "\<forall>e \<in> set (cond_entities c). snap' e = ce_snap env e" if "c \<in> set cs" for c
    using "1.prems" that by auto
  consider "ck = ''and''" | "ck = ''or''" | "ck = ''not''" | "ck \<notin> {''and'', ''or'', ''not''}" by auto
  then show ?case
  proof cases
    case 1
    then show ?thesis using "1.IH"(1) sub by (auto simp: list_all_iff)
  next
    case 2
    then show ?thesis using "1.IH"(2) sub by (auto simp: list_ex_iff)
  next
    case 3
    then show ?thesis using "1.IH"(3) sub by (auto split: list.splits)
  next
    case 4
    then show ?thesis using leaf by simp
  qed
qed

text \<open>A leaf that is true has its data: its type is one of the five edge conditions, the entity of a
  state or numeric leaf is in the snapshot, the variable of a variable leaf is set, and a sun leaf has
  a time zone; everything else is false.\<close>

theorem leaf_fail_closed:
  assumes "m_comp m \<notin> {''and'', ''or'', ''not''}" "EvalConditionAt env m"
  shows "m_type m \<in> {''state'', ''numeric'', ''time'', ''sun'', ''variable''} \<and>
    (m_type m \<in> {''state'', ''numeric''} \<longrightarrow> ref_entity m \<noteq> '''' \<and> ce_snap env (ref_entity m) \<noteq> None) \<and>
    (m_type m = ''variable'' \<longrightarrow> ce_vars env (dstr '''' (raw_field m ''variable'')) \<noteq> None) \<and>
    (m_type m = ''sun'' \<longrightarrow> loc_tz (ce_loc env) \<noteq> None)"
proof -
  have l: "eval_leaf env m" using assms by (cases m) auto
  then have "m_type m \<in> {''state'', ''numeric'', ''time'', ''sun'', ''variable''}"
    by (auto simp: eval_leaf_def split: if_splits)
  moreover have "m_type m = ''state'' \<Longrightarrow> ref_entity m \<noteq> '''' \<and> ce_snap env (ref_entity m) \<noteq> None"
    using l by (auto simp: eval_leaf_def evalStateCondition_def split: if_splits option.splits)
  moreover have "m_type m = ''numeric'' \<Longrightarrow> ref_entity m \<noteq> '''' \<and> ce_snap env (ref_entity m) \<noteq> None"
    using l by (auto simp: eval_leaf_def evalNumericCondition_def NewNumericTrigger_def split: if_splits option.splits)
  moreover have "m_type m = ''variable'' \<Longrightarrow> ce_vars env (dstr '''' (raw_field m ''variable'')) \<noteq> None"
    using l by (auto simp: eval_leaf_def evalVariableCondition_def Let_def split: if_splits option.splits)
  moreover have "m_type m = ''sun'' \<Longrightarrow> loc_tz (ce_loc env) \<noteq> None"
    using l by (auto simp: eval_leaf_def evalSunCondition_def Let_def split: if_splits option.splits)
  ultimately show ?thesis by blast
qed

text \<open>A time condition with both bounds is a cyclic interval of the day: it passes exactly when the
  time since \<open>after\<close>, modulo a day, is at most the span from \<open>after\<close> to \<open>before\<close>, so a range over
  midnight wraps.\<close>

theorem time_condition_cyclic:
  assumes "raw_struct_ok m" "list_all str_ok (raw_field m ''after'' @ raw_field m ''before'')"
    and a: "secondsOfDayFromString (dstr '''' (raw_field m ''after'')) = Some a"
    and b: "secondsOfDayFromString (dstr '''' (raw_field m ''before'')) = Some b"
  shows "evalTimeCondition now m \<longleftrightarrow> (secondsOfDayFromMillis now - a) mod 86400 \<le> (b - a) mod 86400"
proof -
  have ne: "dstr '''' (raw_field m ''after'') \<noteq> ''''" "dstr '''' (raw_field m ''before'') \<noteq> ''''"
    using a b by auto
  have "0 \<le> secondsOfDayFromMillis now" "secondsOfDayFromMillis now < 86400"
    by (simp_all add: secondsOfDayFromMillis_def)
  then show ?thesis
    using cyclic_interval [of a b "secondsOfDayFromMillis now"] secondsOfDayFromString_bounds [OF a]
      secondsOfDayFromString_bounds [OF b] ne assms
    by (simp add: evalTimeCondition_def Let_def)
qed

text \<open>A bound of a sun condition on a date without its event is the event of the nearest date that has
  one, within 200 days either way: every date closer to now has none, and of two equally distant
  dates the instant closer to now is taken.  It is undefined only when none of those dates has one.\<close>

theorem sun_bound_nearest:
  assumes "SunInstant ml loc (local_day z (now div 1000)) (sb_event b) (sb_offset b) = None"
  defines "f \<equiv> \<lambda>k. SunInstant ml loc (local_day z (add_days z (go_date z (local_day z (now div 1000)) 0) k))
                      (sb_event b) (sb_offset b)"
  shows "case sunBoundInstant ml loc z now b of
           None \<Rightarrow> \<forall>k. 1 \<le> \<bar>k\<bar> \<and> \<bar>k\<bar> \<le> 200 \<longrightarrow> f k = None
         | Some x \<Rightarrow> \<exists>k. 1 \<le> k \<and> k \<le> 200 \<and> (f k = Some x \<or> f (- k) = Some x) \<and>
             (\<forall>j. 1 \<le> \<bar>j\<bar> \<and> \<bar>j\<bar> < k \<longrightarrow> f j = None)"
proof -
  have s: "sunBoundInstant ml loc z now b = sun_search f now 1 200"
    using assms(1) by (simp add: sunBoundInstant_def f_def Let_def)
  show ?thesis
  proof (cases "sun_search f now 1 200")
    case None
    then have n: "f j = None \<and> f (- j) = None" if "1 \<le> j" "j \<le> 200" for j
      using that by (auto simp: sun_search_None)
    have "f k = None" if "1 \<le> \<bar>k\<bar>" "\<bar>k\<bar> \<le> 200" for k
      using n [of "\<bar>k\<bar>"] that by (cases "0 \<le> k") auto
    then show ?thesis using s None by simp
  next
    case (Some x)
    then obtain k where k: "1 \<le> k" "k < 201" "nearer now (nearer now None (f (- k))) (f k) = Some x"
      "\<forall>j. 1 \<le> j \<and> j < k \<longrightarrow> f j = None \<and> f (- j) = None"
      using sun_search_Some [OF Some] by auto
    have "f j = None" if "1 \<le> \<bar>j\<bar>" "\<bar>j\<bar> < k" for j
      using k(4) that by (cases "0 \<le> j") (auto dest: spec [of _ "\<bar>j\<bar>"])
    moreover have "f k = Some x \<or> f (- k) = Some x"
      using nearer_in [OF k(3)] by auto
    ultimately have "\<exists>k. 1 \<le> k \<and> k \<le> 200 \<and> (f k = Some x \<or> f (- k) = Some x) \<and>
        (\<forall>j. 1 \<le> \<bar>j\<bar> \<and> \<bar>j\<bar> < k \<longrightarrow> f j = None)"
      using k(1,2) by (intro exI [of _ k]) simp
    then show ?thesis unfolding s Some by simp
  qed
qed

definition demo_env :: cond_env where
  "demo_env = \<lparr>ce_reg = FromDeviceClass [] Map.empty, ce_snap = Map.empty, ce_now = 0,
     ce_loc = fixed_loc 0 (Fin 0) (Fin 0), ce_vars = [''v'' \<mapsto> GStr ''on''], ce_math = flat_sun\<rparr>"

definition leaf_of :: "json \<Rightarrow> member" where
  "leaf_of j = (case decode_member j of Some m \<Rightarrow> m | None \<Rightarrow> Member '''' '''' None [] [] [] None)"

definition demo_condition :: member where
  "demo_condition = leaf_of (JObj [(''not'', JObj [(''type'', JStr ''state''), (''entity_id'', JStr ''E''), (''state'', JStr ''on'')])])"

definition demo_variable :: member where
  "demo_variable = leaf_of (JObj [(''type'', JStr ''variable''), (''variable'', JStr ''v''), (''equals'', JStr ''on'')])"

definition demo_time :: member where
  "demo_time = leaf_of (JObj [(''type'', JStr ''time''), (''after'', JStr ''22:00:00''), (''before'', JStr ''6:00:00'')])"

definition other_entity :: entity where
  "other_entity = \<lparr>en_id = ''X'', en_class = '''', en_state = ''on'', en_attrs = []\<rparr>"

theorem condition_locality_witness:
  "cond_entities demo_condition = [''E''] \<and>
   EvalConditionAt (demo_env\<lparr>ce_snap := [''X'' \<mapsto> other_entity]\<rparr>) demo_condition = EvalConditionAt demo_env demo_condition"
proof
  show e: "cond_entities demo_condition = [''E'']" by code_simp
  show "EvalConditionAt (demo_env\<lparr>ce_snap := [''X'' \<mapsto> other_entity]\<rparr>) demo_condition = EvalConditionAt demo_env demo_condition"
    by (rule condition_locality) (simp add: e demo_env_def)
qed

theorem leaf_fail_closed_witness:
  "EvalConditionAt demo_env demo_variable \<and> ce_vars demo_env (dstr '''' (raw_field demo_variable ''variable'')) \<noteq> None"
proof -
  have e: "EvalConditionAt demo_env demo_variable" "m_comp demo_variable = ''''" "m_type demo_variable = ''variable''"
    by code_simp+
  then show ?thesis using leaf_fail_closed [of demo_variable demo_env] by simp
qed

theorem time_condition_cyclic_witness:
  "evalTimeCondition 82800000 demo_time \<and> (82800 - 79200) mod 86400 \<le> (21600 - 79200) mod (86400 :: int)"
proof -
  have c: "raw_struct_ok demo_time" "list_all str_ok (raw_field demo_time ''after'' @ raw_field demo_time ''before'')"
    "secondsOfDayFromString (dstr '''' (raw_field demo_time ''after'')) = Some 79200"
    "secondsOfDayFromString (dstr '''' (raw_field demo_time ''before'')) = Some 21600"
    by code_simp+
  show ?thesis using time_condition_cyclic [OF c, of 82800000] by (simp add: secondsOfDayFromMillis_def)
qed

theorem sun_bound_nearest_witness:
  "sunBoundInstant flat_sun greenwich (fixed_zone 0) 0 \<lparr>sb_event = ''noon'', sb_offset = 0\<rparr> = None"
proof -
  have n: "SunInstant flat_sun greenwich dn ''noon'' 0 = None" for dn by (simp add: SunInstant_def)
  show ?thesis
  proof (cases "sunBoundInstant flat_sun greenwich (fixed_zone 0) 0 \<lparr>sb_event = ''noon'', sb_offset = 0\<rparr>")
    case (Some x)
    then show ?thesis using sun_bound_nearest [of flat_sun greenwich "fixed_zone 0" 0 "\<lparr>sb_event = ''noon'', sb_offset = 0\<rparr>"] n by auto
  qed simp
qed

end
