(* ===== verification/Expr.thy ===== *)
theory Expr
  imports EvalMatch
begin

text \<open>
  Expressions, \<open>internal/rules/expr\<close>: the lexer and the recursive-descent parser of the pipeline
  grammar, the syntax tree, and the evaluator with its fail-closed filters.  A parse error is its
  code; the position of the parser is the list of tokens not yet consumed, which always ends in the
  end-of-input token.
\<close>

section \<open>Syntax trees\<close>

text \<open>\<open>Literal *any\<close> is an option: a pointer to nil is \<open>Some GNil\<close>.\<close>

record call =
  c_name :: string
  c_args :: "gval list"

record source =
  so_literal :: "gval option"
  so_call :: "call option"

record pipeline =
  pl_source :: source
  pl_filters :: "call list"

record expr =
  ex_literal :: "gval option"
  ex_pipeline :: "pipeline option"

section \<open>Lexer\<close>

datatype token =
    TEOF | TIdent string | TString string | TNumber f64 | TLParen | TRParen | TComma | TPipe

definition CodeUnknownFilter :: string where "CodeUnknownFilter = ''UNKNOWN_FILTER''"
definition CodeInvalidSource :: string where "CodeInvalidSource = ''INVALID_SOURCE''"
definition CodeMalformedExpr :: string where "CodeMalformedExpr = ''MALFORMED_EXPRESSION''"

definition isIdentStart :: "char \<Rightarrow> bool" where
  "isIdentStart c \<longleftrightarrow> c = CHR ''_'' \<or> is_lower c \<or> is_upper c"

definition isIdentPart :: "char \<Rightarrow> bool" where
  "isIdentPart c \<longleftrightarrow> isIdentStart c \<or> is_digit c"

definition isNumPart :: "char \<Rightarrow> bool" where
  "isNumPart c \<longleftrightarrow> is_digit c \<or> c = CHR ''.'' \<or> c = CHR ''e'' \<or> c = CHR ''E'' \<or> c = CHR ''+'' \<or> c = CHR ''-''"

definition is_blank :: "char \<Rightarrow> bool" where
  "is_blank c \<longleftrightarrow> byte_of c = 32 \<or> byte_of c = 9 \<or> byte_of c = 10 \<or> byte_of c = 13"

definition number_token :: "string \<Rightarrow> token option" where
  "number_token s = (if json_number s then map_option TNumber (parse_float s) else None)"

text \<open>One round of the lexer's loop: nothing for a blank, otherwise a token, and what is left.\<close>

definition lex_step :: "char \<Rightarrow> string \<Rightarrow> string + token option \<times> string" where
  "lex_step c s =
     (if is_blank c then Inr (None, s)
      else if c = CHR ''|'' then Inr (Some TPipe, s)
      else if c = CHR ''('' then Inr (Some TLParen, s)
      else if c = CHR '')'' then Inr (Some TRParen, s)
      else if c = CHR '','' then Inr (Some TComma, s)
      else if byte_of c = 39 \<or> byte_of c = 34 then
        (let body = takeWhile (\<lambda>d. d \<noteq> c) s; rest = dropWhile (\<lambda>d. d \<noteq> c) s
         in if rest = [] then Inl CodeMalformedExpr else Inr (Some (TString body), tl rest))
      else if isIdentStart c then Inr (Some (TIdent (c # takeWhile isIdentPart s)), dropWhile isIdentPart s)
      else if c = CHR ''-'' \<or> is_digit c then
        (case number_token (c # takeWhile isNumPart s) of
           None \<Rightarrow> Inl CodeMalformedExpr
         | Some t \<Rightarrow> Inr (Some t, dropWhile isNumPart s))
      else Inl CodeMalformedExpr)"

lemma lex_step_length: "lex_step c s = Inr (t, rest) \<Longrightarrow> length rest \<le> length s"
  using length_dropWhile_le [of "\<lambda>d. d \<noteq> c" s] length_dropWhile_le [of isIdentPart s] length_dropWhile_le [of isNumPart s]
  by (auto simp: lex_step_def Let_def split: if_splits option.splits)

function lex :: "string \<Rightarrow> string + token list" where
  "lex [] = Inr [TEOF]"
| "lex (c # s) =
     (case lex_step c s of
        Inl e \<Rightarrow> Inl e
      | Inr (t, rest) \<Rightarrow>
         (case lex rest of
            Inl e \<Rightarrow> Inl e
          | Inr ts \<Rightarrow> Inr (case t of None \<Rightarrow> ts | Some tok \<Rightarrow> tok # ts)))"
  by pat_completeness auto
termination
  by (relation "measure length") (auto dest: lex_step_length simp: le_imp_less_Suc)

section \<open>Parser\<close>

definition sourceNames :: "string list" where
  "sourceNames = [''state'', ''attr'', ''now'']"

definition filterNames :: "string list" where
  "filterNames = [''default'', ''upper'', ''lower'', ''trim'', ''round'', ''abs'', ''int'', ''float'',
     ''elapsed'', ''duration'', ''convert'']"

definition isLiteralKeyword :: "string \<Rightarrow> bool" where
  "isLiteralKeyword s \<longleftrightarrow> s = ''true'' \<or> s = ''false'' \<or> s = ''null''"

definition keyword_value :: "string \<Rightarrow> gval" where
  "keyword_value s = (if s = ''true'' then GBool True else if s = ''false'' then GBool False else GNil)"

text \<open>\<open>parser.peek\<close> and the position after \<open>parser.next\<close>, which stays at the last token.\<close>

definition peek :: "token list \<Rightarrow> token" where
  "peek ts = hd ts"

definition advance :: "token list \<Rightarrow> token list" where
  "advance ts = (if 1 < length ts then tl ts else ts)"

definition parseArg :: "token list \<Rightarrow> string + gval \<times> token list" where
  "parseArg ts =
     (case peek ts of
        TString s \<Rightarrow> Inr (GStr s, advance ts)
      | TNumber f \<Rightarrow> Inr (GNum f, advance ts)
      | TIdent s \<Rightarrow> if isLiteralKeyword s then Inr (keyword_value s, advance ts) else Inl CodeMalformedExpr
      | _ \<Rightarrow> Inl CodeMalformedExpr)"

lemma advance_length: "length (advance ts) \<le> length ts"
  by (simp add: advance_def)

lemma parseArg_progress:
  "parseArg ts = Inr (a, ts') \<Longrightarrow> peek ts' = TComma \<Longrightarrow> length (advance ts') < length ts"
  by (cases ts) (auto simp: parseArg_def peek_def advance_def split: token.splits if_splits)

function parse_args :: "token list \<Rightarrow> string + gval list \<times> token list" where
  "parse_args ts =
     (case parseArg ts of
        Inl e \<Rightarrow> Inl e
      | Inr (a, ts') \<Rightarrow>
          if peek ts' = TComma
          then (case parse_args (advance ts') of Inl e \<Rightarrow> Inl e | Inr (as, ts'') \<Rightarrow> Inr (a # as, ts''))
          else Inr ([a], ts'))"
  by pat_completeness auto
termination
  by (relation "measure length") (auto dest: parseArg_progress)

declare parse_args.simps [simp del]

definition parseStage :: "token list \<Rightarrow> string + call \<times> token list" where
  "parseStage ts =
     (case peek ts of
        TIdent name \<Rightarrow>
          if isLiteralKeyword name then Inl CodeMalformedExpr
          else (let ts1 = advance ts in
            if peek ts1 \<noteq> TLParen then Inr (\<lparr>c_name = name, c_args = []\<rparr>, ts1)
            else (let ts2 = advance ts1 in
              (case (if peek ts2 \<noteq> TRParen then parse_args ts2 else Inr ([], ts2)) of
                 Inl e \<Rightarrow> Inl e
               | Inr (args, ts3) \<Rightarrow>
                   if peek ts3 \<noteq> TRParen then Inl CodeMalformedExpr
                   else Inr (\<lparr>c_name = name, c_args = args\<rparr>, advance ts3))))
      | _ \<Rightarrow> Inl CodeMalformedExpr)"

definition parseSource :: "token list \<Rightarrow> string + source \<times> token list" where
  "parseSource ts =
     (case peek ts of
        TString s \<Rightarrow> Inr (\<lparr>so_literal = Some (GStr s), so_call = None\<rparr>, advance ts)
      | TNumber f \<Rightarrow> Inr (\<lparr>so_literal = Some (GNum f), so_call = None\<rparr>, advance ts)
      | TIdent name \<Rightarrow>
          if isLiteralKeyword name
          then Inr (\<lparr>so_literal = Some (keyword_value name), so_call = None\<rparr>, advance ts)
          else (case parseStage ts of
                  Inl e \<Rightarrow> Inl e
                | Inr (cl, ts') \<Rightarrow>
                    if c_name cl \<notin> set sourceNames then Inl CodeInvalidSource
                    else Inr (\<lparr>so_literal = None, so_call = Some cl\<rparr>, ts'))
      | _ \<Rightarrow> Inl CodeMalformedExpr)"

lemma parse_args_length: "parse_args ts = Inr (as, ts') \<Longrightarrow> length ts' \<le> length ts"
proof (induction ts arbitrary: as ts' rule: parse_args.induct)
  case (1 ts)
  have a: "length t1 \<le> length ts" if "parseArg ts = Inr (x, t1)" for x t1
    using that advance_length by (auto simp: parseArg_def split: token.splits if_splits)
  show ?case
  proof (cases "parseArg ts")
    case (Inr r)
    then obtain x t1 where r: "parseArg ts = Inr (x, t1)" by (cases r) auto
    show ?thesis
    proof (cases "peek t1 = TComma")
      case True
      then obtain as2 where "parse_args (advance t1) = Inr (as2, ts')"
        using "1.prems" r by (subst (asm) parse_args.simps) (auto split: sum.splits)
      then have "length ts' \<le> length (advance t1)" using "1.IH" [of "(x, t1)" x t1] r True by simp
      then show ?thesis using a [OF r] advance_length [of t1] by simp
    next
      case False
      then show ?thesis using "1.prems" r a by (subst (asm) parse_args.simps) auto
    qed
  next
    case (Inl e)
    then show ?thesis using "1.prems" by (subst (asm) parse_args.simps) simp
  qed
qed

lemma parseStage_length:
  assumes "parseStage ts = Inr (cl, ts')"
  shows "length ts' \<le> length ts \<and> (\<exists>n. peek ts = TIdent n)"
proof -
  obtain n where n: "peek ts = TIdent n" using assms by (auto simp: parseStage_def split: token.splits)
  have "length ts' \<le> length (advance ts)"
    using assms n advance_length parse_args_length
    by (auto simp: parseStage_def Let_def split: if_splits sum.splits) (meson advance_length le_trans parse_args_length)+
  then show ?thesis using n advance_length [of ts] by auto
qed

lemma parseStage_progress:
  assumes "peek ts = TPipe" "parseStage (advance ts) = Inr (cl, ts')"
  shows "length ts' < length ts"
proof (cases "1 < length ts")
  case True
  then have "length (advance ts) < length ts" by (simp add: advance_def)
  then show ?thesis using parseStage_length [OF assms(2)] by simp
next
  case False
  then have "advance ts = ts" by (simp add: advance_def)
  then show ?thesis using parseStage_length [OF assms(2)] assms(1) by simp
qed

function parse_filters :: "token list \<Rightarrow> string + call list \<times> token list" where
  "parse_filters ts =
     (if peek ts \<noteq> TPipe then Inr ([], ts)
      else (case parseStage (advance ts) of
              Inl e \<Rightarrow> Inl e
            | Inr (st, ts') \<Rightarrow>
                if c_name st \<in> set sourceNames then Inl CodeInvalidSource
                else if c_name st \<notin> set filterNames then Inl CodeUnknownFilter
                else (case parse_filters ts' of Inl e \<Rightarrow> Inl e | Inr (fs, ts'') \<Rightarrow> Inr (st # fs, ts''))))"
  by pat_completeness auto
termination
  by (relation "measure length") (auto dest: parseStage_progress)

declare parse_filters.simps [simp del]

definition parse_tokens :: "token list \<Rightarrow> string + pipeline" where
  "parse_tokens toks =
     (case parseSource toks of
        Inl e \<Rightarrow> Inl e
      | Inr (src, ts) \<Rightarrow>
         (case parse_filters ts of
            Inl e \<Rightarrow> Inl e
          | Inr (fs, ts') \<Rightarrow>
              if peek ts' \<noteq> TEOF then Inl CodeMalformedExpr
              else Inr \<lparr>pl_source = src, pl_filters = fs\<rparr>))"

definition parsePipeline :: "string \<Rightarrow> string + pipeline" where
  "parsePipeline s = (case lex s of Inl e \<Rightarrow> Inl e | Inr toks \<Rightarrow> parse_tokens toks)"

definition parseObject :: "(string \<times> json) list \<Rightarrow> string + expr" where
  "parseObject kvs =
     (case jlookup kvs ''expr'' of
        None \<Rightarrow> Inl CodeMalformedExpr
      | Some rawExpr \<Rightarrow>
          if \<not> list_all (\<lambda>kv. fst kv = ''expr'') kvs then Inl CodeMalformedExpr
          else if \<not> str_ok rawExpr then Inl CodeMalformedExpr
          else (case parsePipeline (dstr '''' [rawExpr]) of
                  Inl e \<Rightarrow> Inl e
                | Inr pl \<Rightarrow> Inr \<lparr>ex_literal = None, ex_pipeline = Some pl\<rparr>))"

definition Parse :: "json \<Rightarrow> string + expr" where
  "Parse raw =
     (case raw of
        JObj kvs \<Rightarrow> parseObject kvs
      | JArr _ \<Rightarrow> Inl CodeMalformedExpr
      | _ \<Rightarrow> (case jdecode raw of
                None \<Rightarrow> Inl CodeMalformedExpr
              | Some v \<Rightarrow> Inr \<lparr>ex_literal = Some v, ex_pipeline = None\<rparr>))"

section \<open>Evaluation\<close>

text \<open>\<open>xe_now\<close> is the clock's \<open>WallMillis\<close>.\<close>

record xenv =
  xe_snap :: snapshot
  xe_now :: int
  xe_floor :: int
  xe_untrusted :: bool
  xe_edge :: bool
  xe_scope :: string

definition inScope :: "xenv \<Rightarrow> string \<Rightarrow> bool" where
  "inScope env i \<longleftrightarrow> \<not> xe_edge env \<or> i = xe_scope env"

definition nowMillis :: "xenv \<Rightarrow> int" where
  "nowMillis env = (if xe_untrusted env then xe_floor env else xe_now env)"

text \<open>A result is \<open>None\<close> when the evaluation failed.\<close>

definition evalSource :: "source \<Rightarrow> xenv \<Rightarrow> gval option" where
  "evalSource s env =
     (case so_literal s of
        Some v \<Rightarrow> Some v
      | None \<Rightarrow>
         (case so_call s of
            None \<Rightarrow> None
          | Some c \<Rightarrow>
              if c_name c = ''state'' then
                (case c_args c of
                   [GStr i] \<Rightarrow>
                     if \<not> inScope env i then None
                     else (case xe_snap env i of None \<Rightarrow> None | Some ent \<Rightarrow> Some (GStr (en_state ent)))
                 | _ \<Rightarrow> None)
              else if c_name c = ''attr'' then
                (case c_args c of
                   [GStr i, GStr name] \<Rightarrow>
                     if \<not> inScope env i then None
                     else (case xe_snap env i of None \<Rightarrow> None | Some ent \<Rightarrow> map_of (en_attrs ent) name)
                 | _ \<Rightarrow> None)
              else if c_name c = ''now'' then
                (if c_args c \<noteq> [] then None else Some (GNum (rnd (of_int (nowMillis env)))))
              else None))"

definition durationUnitSeconds :: "string \<Rightarrow> f64 option" where
  "durationUnitSeconds u =
     map_of [(''ms'', rnd (1 / 1000)), (''s'', Fin 1), (''min'', Fin 60), (''h'', Fin 3600)] u"

text \<open>\<open>math.Pow(10, n)\<close> for an integer \<open>n\<close>.\<close>

definition pow10 :: "int \<Rightarrow> f64" where
  "pow10 n = rnd (exp10 n)"

definition roundHalfUp :: "f64 \<Rightarrow> int \<Rightarrow> f64" where
  "roundHalfUp n prec =
     (let scale = pow10 prec
      in f64_div (f64_floor (f64_add (f64_mul n scale) (Fin (1 / 2)))) scale)"

definition as_str :: "gval \<Rightarrow> string option" where
  "as_str v = (case v of GStr s \<Rightarrow> Some s | _ \<Rightarrow> None)"

definition runFilter :: "call \<Rightarrow> gval \<Rightarrow> xenv \<Rightarrow> gval option" where
  "runFilter f v env =
     (let name = c_name f; args = c_args f in
      if name \<in> {''upper'', ''lower'', ''trim''} then
        (case v of
           GStr s \<Rightarrow>
             if args \<noteq> [] then None
             else Some (GStr (if name = ''upper'' then map to_upper s
                              else if name = ''lower'' then map to_lower s else trim_space s))
         | _ \<Rightarrow> None)
      else if name = ''round'' then
        (case ParseNumber v of None \<Rightarrow> None | Some n \<Rightarrow>
           (case args of
              [] \<Rightarrow> Some (GNum (roundHalfUp n 0))
            | [a] \<Rightarrow>
                (case ParseNumber a of None \<Rightarrow> None | Some p \<Rightarrow>
                   if \<not> f64_eq p (f64_trunc p) \<or> f64_less p (Fin 0) then None
                   else Some (GNum (roundHalfUp n (f64_to_int p))))
            | _ \<Rightarrow> None))
      else if name = ''abs'' then
        (case ParseNumber v of None \<Rightarrow> None | Some n \<Rightarrow> if args \<noteq> [] then None else Some (GNum (f64_abs n)))
      else if name = ''int'' then
        (case ParseNumber v of None \<Rightarrow> None | Some n \<Rightarrow> if args \<noteq> [] then None else Some (GNum (f64_trunc n)))
      else if name = ''float'' then
        (case ParseNumber v of None \<Rightarrow> None | Some n \<Rightarrow> if args \<noteq> [] then None else Some (GNum n))
      else if name = ''elapsed'' then
        (case ParseNumber v of None \<Rightarrow> None | Some ts \<Rightarrow>
           if args \<noteq> [] then None
           else Some (GNum (f64_div (f64_sub (rnd (of_int (nowMillis env))) ts) (Fin 1000))))
      else if name = ''duration'' then
        (case ParseNumber v of None \<Rightarrow> None | Some n \<Rightarrow>
           (case args of
              [a] \<Rightarrow> (case Option.bind (as_str a) durationUnitSeconds of
                        None \<Rightarrow> None | Some secs \<Rightarrow> Some (GNum (f64_mul n secs)))
            | _ \<Rightarrow> None))
      else if name = ''convert'' then
        (case ParseNumber v of None \<Rightarrow> None | Some n \<Rightarrow>
           (case args of
              [a, b] \<Rightarrow>
                (case (Option.bind (as_str a) durationUnitSeconds, Option.bind (as_str b) durationUnitSeconds) of
                   (Some fromSecs, Some toSecs) \<Rightarrow> Some (GNum (f64_div (f64_mul n fromSecs) toSecs))
                 | _ \<Rightarrow> None)
            | _ \<Rightarrow> None))
      else None)"

definition applyFilter :: "call \<Rightarrow> gval option \<Rightarrow> xenv \<Rightarrow> gval option" where
  "applyFilter f v env =
     (if c_name f = ''default'' then
        (case c_args f of
           [d] \<Rightarrow> (case v of None \<Rightarrow> Some d | Some x \<Rightarrow> if x = GNil then Some d else Some x)
         | _ \<Rightarrow> None)
      else (case v of None \<Rightarrow> None | Some x \<Rightarrow> runFilter f x env))"

definition Evaluate :: "expr \<Rightarrow> xenv \<Rightarrow> gval option" where
  "Evaluate e env =
     (case ex_literal e of
        Some v \<Rightarrow> Some v
      | None \<Rightarrow>
         (case ex_pipeline e of
            None \<Rightarrow> None
          | Some pl \<Rightarrow> foldl (\<lambda>v f. applyFilter f v env) (evalSource (pl_source pl) env) (pl_filters pl)))"

definition SourceEntities :: "expr \<Rightarrow> string list" where
  "SourceEntities e =
     (case ex_pipeline e of
        None \<Rightarrow> []
      | Some pl \<Rightarrow>
         (case so_call (pl_source pl) of
            None \<Rightarrow> []
          | Some c \<Rightarrow>
              if c_name c \<noteq> ''state'' \<and> c_name c \<noteq> ''attr'' then []
              else (case c_args c of GStr i # _ \<Rightarrow> [i] | _ \<Rightarrow> [])))"

section \<open>The parser's output\<close>

text \<open>A parsed pipeline stays inside the closed lists of sources and filters.\<close>

definition closed_source :: "source \<Rightarrow> bool" where
  "closed_source s \<longleftrightarrow>
     (case so_call s of None \<Rightarrow> so_literal s \<noteq> None | Some c \<Rightarrow> so_literal s = None \<and> c_name c \<in> set sourceNames)"

definition closed_expr :: "expr \<Rightarrow> bool" where
  "closed_expr e \<longleftrightarrow>
     (case ex_pipeline e of
        None \<Rightarrow> ex_literal e \<noteq> None
      | Some pl \<Rightarrow> ex_literal e = None \<and> closed_source (pl_source pl) \<and>
          (\<forall>f \<in> set (pl_filters pl). c_name f \<in> set filterNames))"

definition expr_codes :: "string set" where
  "expr_codes = {CodeUnknownFilter, CodeInvalidSource, CodeMalformedExpr}"

lemma parseSource_closed: "parseSource ts = Inr (s, ts') \<Longrightarrow> closed_source s"
  by (auto simp: parseSource_def closed_source_def split: token.splits if_splits sum.splits)

lemma parse_filters_closed:
  "parse_filters ts = Inr (fs, ts') \<Longrightarrow> f \<in> set fs \<Longrightarrow> c_name f \<in> set filterNames"
proof (induction ts arbitrary: fs ts' rule: parse_filters.induct)
  case (1 ts)
  show ?case
  proof (cases "peek ts = TPipe")
    case False
    then show ?thesis using "1.prems" by (subst (asm) parse_filters.simps) auto
  next
    case True
    then obtain st t1 gs where st: "parseStage (advance ts) = Inr (st, t1)"
      "c_name st \<notin> set sourceNames" "c_name st \<in> set filterNames"
      and gs: "parse_filters t1 = Inr (gs, ts')" "fs = st # gs"
      using "1.prems"(1) by (subst (asm) parse_filters.simps) (auto split: sum.splits if_splits)
    show ?thesis
    proof (cases "f = st")
      case F: False
      then show ?thesis using "1.IH" [of "(st, t1)" st t1 gs ts'] True st gs "1.prems"(2) by auto
    qed (use st in simp)
  qed
qed

lemma parseArg_code: "parseArg ts = Inl e \<Longrightarrow> e = CodeMalformedExpr"
  by (auto simp: parseArg_def split: token.splits if_splits)

lemma parse_args_code: "parse_args ts = Inl e \<Longrightarrow> e = CodeMalformedExpr"
proof (induction ts arbitrary: e rule: parse_args.induct)
  case (1 ts)
  then show ?case
    by (subst (asm) (2) parse_args.simps) (auto split: sum.splits if_splits dest: parseArg_code)
qed

lemma parseStage_code: "parseStage ts = Inl e \<Longrightarrow> e = CodeMalformedExpr"
  by (auto simp: parseStage_def Let_def split: token.splits if_splits sum.splits dest: parse_args_code)

lemma parseSource_code: "parseSource ts = Inl e \<Longrightarrow> e \<in> expr_codes"
  by (auto simp: parseSource_def expr_codes_def split: token.splits if_splits sum.splits dest: parseStage_code)

lemma parse_filters_code: "parse_filters ts = Inl e \<Longrightarrow> e \<in> expr_codes"
proof (induction ts arbitrary: e rule: parse_filters.induct)
  case (1 ts)
  show ?case
  proof (cases "\<exists>st t1. peek ts = TPipe \<and> parseStage (advance ts) = Inr (st, t1) \<and>
      c_name st \<notin> set sourceNames \<and> c_name st \<in> set filterNames")
    case True
    then obtain st t1 where s: "peek ts = TPipe" "parseStage (advance ts) = Inr (st, t1)"
      "c_name st \<notin> set sourceNames" "c_name st \<in> set filterNames" by blast
    then have "parse_filters t1 = Inl e"
      using "1.prems" by (subst (asm) parse_filters.simps) (auto split: sum.splits)
    then show ?thesis using "1.IH" [of "(st, t1)" st t1 e] s by simp
  next
    case False
    then show ?thesis using "1.prems"
      by (subst (asm) parse_filters.simps) (auto simp: expr_codes_def split: sum.splits if_splits dest: parseStage_code)
  qed
qed

lemma lex_step_code: "lex_step c s = Inl e \<Longrightarrow> e = CodeMalformedExpr"
  by (auto simp: lex_step_def Let_def split: if_splits option.splits)

lemma lex_code: "lex s = Inl e \<Longrightarrow> e = CodeMalformedExpr"
proof (induction s arbitrary: e rule: lex.induct)
  case (2 c s)
  then show ?case by (cases "lex_step c s") (auto split: sum.splits dest: lex_step_code)
qed simp

lemma parsePipeline_cases:
  "case parsePipeline s of Inl e \<Rightarrow> e \<in> expr_codes
   | Inr pl \<Rightarrow> closed_source (pl_source pl) \<and> (\<forall>f \<in> set (pl_filters pl). c_name f \<in> set filterNames)"
  by (auto simp: parsePipeline_def parse_tokens_def split: sum.splits if_splits
      dest: parseSource_code parse_filters_code parseSource_closed parse_filters_closed)
     (auto simp: expr_codes_def dest: lex_code)

section \<open>Printing\<close>

definition dquote :: char where
  "dquote = CHR 0x22"

fun val_token :: "gval \<Rightarrow> token" where
  "val_token (GStr s) = TString s"
| "val_token (GNum f) = TNumber f"
| "val_token (GBool b) = TIdent (if b then ''true'' else ''false'')"
| "val_token _ = TIdent ''null''"

definition printable_val :: "gval \<Rightarrow> bool" where
  "printable_val v \<longleftrightarrow>
     (case v of GStr s \<Rightarrow> dquote \<notin> set s | GNum f \<Rightarrow> (\<exists>n :: nat. n < 2 ^ 53 \<and> f = Fin (of_nat n))
      | GBool b \<Rightarrow> True | GNil \<Rightarrow> True | _ \<Rightarrow> False)"

definition printable_name :: "string \<Rightarrow> bool" where
  "printable_name s \<longleftrightarrow> s \<noteq> [] \<and> isIdentStart (hd s) \<and> list_all isIdentPart s"

definition printable_call :: "call \<Rightarrow> bool" where
  "printable_call c \<longleftrightarrow> list_all printable_val (c_args c)"

fun sep_by :: "'a \<Rightarrow> 'a list \<Rightarrow> 'a list" where
  "sep_by d [] = []"
| "sep_by d [x] = [x]"
| "sep_by d (x # y # xs) = x # d # sep_by d (y # xs)"

definition call_tokens :: "call \<Rightarrow> token list" where
  "call_tokens c = TIdent (c_name c) # TLParen # sep_by TComma (map val_token (c_args c)) @ [TRParen]"

definition source_tokens :: "source \<Rightarrow> token list" where
  "source_tokens s =
     (case so_literal s of Some v \<Rightarrow> [val_token v]
      | None \<Rightarrow> (case so_call s of Some c \<Rightarrow> call_tokens c | None \<Rightarrow> []))"

definition pipeline_tokens :: "pipeline \<Rightarrow> token list" where
  "pipeline_tokens p = source_tokens (pl_source p) @ concat (map (\<lambda>f. TPipe # call_tokens f) (pl_filters p))"

fun tok_text :: "token \<Rightarrow> string" where
  "tok_text TEOF = ''''"
| "tok_text (TIdent s) = s"
| "tok_text (TString s) = dquote # s @ [dquote]"
| "tok_text (TNumber f) = (case f of Fin q \<Rightarrow> show_nat (nat \<lfloor>q\<rfloor>) | _ \<Rightarrow> ''0'')"
| "tok_text TLParen = ''(''"
| "tok_text TRParen = '')''"
| "tok_text TComma = '',''"
| "tok_text TPipe = ''|''"

definition show_pipeline :: "pipeline \<Rightarrow> string" where
  "show_pipeline p = concat (map (\<lambda>t. tok_text t @ '' '') (pipeline_tokens p))"

definition printable :: "pipeline \<Rightarrow> bool" where
  "printable p \<longleftrightarrow>
     (case (so_literal (pl_source p), so_call (pl_source p)) of
        (Some v, None) \<Rightarrow> printable_val v
      | (None, Some c) \<Rightarrow> printable_call c \<and> c_name c \<in> set sourceNames
      | _ \<Rightarrow> False) \<and>
     list_all (\<lambda>f. printable_call f \<and> c_name f \<in> set filterNames) (pl_filters p)"

fun printable_tok :: "token \<Rightarrow> bool" where
  "printable_tok (TIdent s) = printable_name s"
| "printable_tok (TString s) = (dquote \<notin> set s)"
| "printable_tok (TNumber f) = (\<exists>n :: nat. n < 2 ^ 53 \<and> f = Fin (of_nat n))"
| "printable_tok TEOF = False"
| "printable_tok _ = True"

lemma closed_names:
  "list_all (\<lambda>s. printable_name s \<and> \<not> isLiteralKeyword s) (sourceNames @ filterNames)"
  "list_all printable_name [''true'', ''false'', ''null'']"
  "list_all (\<lambda>s. s \<notin> set sourceNames) filterNames"
  by code_simp+

lemma val_token_printable: "printable_val v \<Longrightarrow> printable_tok (val_token v)"
  using closed_names(2) by (cases v) (auto simp: printable_val_def)

lemma is_digit_char_cases:
  assumes "is_digit c"
  shows "\<not> is_blank c" "c \<noteq> CHR ''|''" "c \<noteq> CHR ''(''" "c \<noteq> CHR '')''" "c \<noteq> CHR '',''"
    "byte_of c \<noteq> 39" "byte_of c \<noteq> 34" "\<not> isIdentStart c"
  using assms by (auto simp: is_digit_def is_blank_def isIdentStart_def is_lower_def is_upper_def byte_of_def)

lemma ident_char_cases:
  assumes "isIdentStart c"
  shows "\<not> is_blank c" "c \<noteq> CHR ''|''" "c \<noteq> CHR ''(''" "c \<noteq> CHR '')''" "c \<noteq> CHR '',''"
    "byte_of c \<noteq> 39" "byte_of c \<noteq> 34"
  using assms by (auto simp: is_blank_def isIdentStart_def is_lower_def is_upper_def byte_of_def)

lemma takeWhile_stop: "list_all P s \<Longrightarrow> \<not> P d \<Longrightarrow> takeWhile P (s @ d # r) = s \<and> dropWhile P (s @ d # r) = d # r"
  by (induction s) auto

lemma show_nat_lead: "length (show_nat n) = 1 \<or> hd (show_nat n) \<noteq> CHR ''0''"
proof -
  have "n \<noteq> 0 \<Longrightarrow> hd (show_nat n) \<noteq> CHR ''0''"
  proof (induction n rule: show_nat.induct)
    case (1 n)
    show ?case
    proof (cases "n < 10")
      case True
      have "digit_val CHR ''0'' = 0" by code_simp
      then have "digit_char n \<noteq> CHR ''0''" using digit_val_digit_char [OF True] 1(2) by auto
      then show ?thesis using True by (simp add: show_nat.simps [of n])
    qed (use 1 in \<open>simp add: show_nat.simps [of n]\<close>)
  qed
  then show ?thesis by (cases "n = 0") (simp_all add: show_nat.simps [of 0])
qed

lemma number_token_nat: "n < 2 ^ 53 \<Longrightarrow> number_token (show_nat n) = Some (TNumber (Fin (of_nat n)))"
proof -
  assume n: "n < 2 ^ 53"
  have "\<bar>int n\<bar> < 2 ^ 53" using n by (metis abs_of_nat of_nat_less_numeral_power_cancel_iff)
  then have r: "rnd (of_nat n) = Fin (of_nat n)" using rnd_int [of "int n"] by simp
  have d: "list_all is_digit (show_nat n)" using show_nat_digits by (simp add: list_all_iff)
  have z: "length (show_nat n) = 1 \<or> hd (show_nat n) \<noteq> CHR ''0''"
    by (rule show_nat_lead)
  show ?thesis
    using r z lit_parts_digits [OF d] show_nat_grammar(2) [of n]
    by (simp add: number_token_def json_number_def parse_float_def)
qed

lemma lex_step_token:
  assumes "printable_tok t"
  shows "\<exists>c s. tok_text t = c # s \<and> lex_step c (s @ CHR '' '' # r) = Inr (Some t, CHR '' '' # r)"
proof (cases t)
  case (TIdent s)
  then obtain c w where w: "s = c # w" "isIdentStart c" "list_all isIdentPart w"
    using assms by (cases s) (auto simp: printable_name_def)
  have "\<not> isIdentPart CHR '' ''" by code_simp
  then show ?thesis
    using TIdent w ident_char_cases [OF w(2)] takeWhile_stop [OF w(3)] by (simp add: lex_step_def)
next
  case (TString s)
  have q: "\<not> is_blank dquote" "dquote \<noteq> CHR ''|''" "dquote \<noteq> CHR ''(''" "dquote \<noteq> CHR '')''" "dquote \<noteq> CHR '',''"
    "byte_of dquote = 34" by code_simp+
  have "list_all (\<lambda>d. d \<noteq> dquote) s" using assms TString by (auto simp: list_all_iff)
  from takeWhile_stop [OF this, of dquote "CHR '' '' # r"] q TString show ?thesis
    by (simp add: lex_step_def Let_def)
next
  case (TNumber f)
  then obtain n :: nat where n: "n < 2 ^ 53" "f = Fin (of_nat n)" using assms by auto
  obtain c w where w: "show_nat n = c # w" by (cases "show_nat n") auto
  have d: "is_digit c" "list_all isNumPart w"
    using show_nat_digits [of n] w by (auto simp: list_all_iff isNumPart_def)
  have "\<not> isNumPart CHR '' ''" by code_simp
  then show ?thesis
    using TNumber n w d(1) is_digit_char_cases [OF d(1)] takeWhile_stop [OF d(2)] number_token_nat [OF n(1)]
    by (simp add: lex_step_def)
qed (use assms in \<open>auto simp: lex_step_def is_blank_def byte_of_def\<close>)

lemma lex_render:
  "list_all printable_tok ts \<Longrightarrow> lex (concat (map (\<lambda>t. tok_text t @ '' '') ts)) = Inr (ts @ [TEOF])"
proof (induction ts)
  case (Cons t ts)
  let ?r = "concat (map (\<lambda>t. tok_text t @ '' '') ts)"
  obtain c s where c: "tok_text t = c # s" "lex_step c (s @ CHR '' '' # ?r) = Inr (Some t, CHR '' '' # ?r)"
    using lex_step_token [of t ?r] Cons.prems by auto
  have "lex_step CHR '' '' ?r = Inr (None, ?r)" by (simp add: lex_step_def is_blank_def byte_of_def)
  then show ?case using Cons c by simp
qed simp

section \<open>Parsing what was printed\<close>

lemma parseArg_val:
  assumes "printable_val v" "r \<noteq> []"
  shows "parseArg (val_token v # r) = Inr (v, r)"
  using assms
  by (cases v) (auto simp: parseArg_def peek_def advance_def printable_val_def isLiteralKeyword_def keyword_value_def)

lemma parse_args_vals:
  "list_all printable_val vs \<Longrightarrow> vs \<noteq> [] \<Longrightarrow> r \<noteq> [] \<Longrightarrow>
    parse_args (sep_by TComma (map val_token vs) @ TRParen # r) = Inr (vs, TRParen # r)"
proof (induction vs)
  case (Cons v vs)
  show ?case
  proof (cases vs)
    case Nil
    then show ?thesis using Cons.prems parseArg_val [of v "TRParen # r"]
      by (subst parse_args.simps) (simp add: peek_def)
  next
    case (Cons w ws)
    then show ?thesis using Cons.prems Cons.IH parseArg_val
      by (subst parse_args.simps) (simp add: peek_def advance_def)
  qed
qed simp

lemma val_token_not_paren: "val_token v \<noteq> TRParen"
  by (cases v) auto

lemma parseStage_call:
  assumes "printable_call c" "\<not> isLiteralKeyword (c_name c)" "r \<noteq> []"
  shows "parseStage (call_tokens c @ r) = Inr (c, r)"
proof (cases "c_args c")
  case Nil
  then show ?thesis using assms by (simp add: parseStage_def call_tokens_def peek_def advance_def)
next
  case (Cons v vs)
  let ?args = "sep_by TComma (map val_token (c_args c))"
  have "parse_args (?args @ TRParen # r) = Inr (c_args c, TRParen # r)"
    using assms(1,3) Cons by (intro parse_args_vals) (auto simp: printable_call_def)
  moreover have "peek (?args @ TRParen # r) \<noteq> TRParen"
    using Cons val_token_not_paren by (cases vs) (simp_all add: peek_def)
  ultimately show ?thesis
    using assms by (simp add: parseStage_def call_tokens_def peek_def [of "_ # _"] advance_def [of "_ # _"] Let_def)
qed

lemma filter_name: "n \<in> set filterNames \<Longrightarrow> printable_name n \<and> \<not> isLiteralKeyword n \<and> n \<notin> set sourceNames"
  using closed_names by (auto simp: list_all_iff simp del: set_simps)

lemma source_name: "n \<in> set sourceNames \<Longrightarrow> printable_name n \<and> \<not> isLiteralKeyword n"
  using closed_names(1) by (auto simp: list_all_iff simp del: set_simps)

lemma parse_filters_calls:
  "list_all (\<lambda>f. printable_call f \<and> c_name f \<in> set filterNames) fs \<Longrightarrow>
    parse_filters (concat (map (\<lambda>f. TPipe # call_tokens f) fs) @ [TEOF]) = Inr (fs, [TEOF])"
proof (induction fs)
  case Nil
  then show ?case by (subst parse_filters.simps) (simp add: peek_def)
next
  case (Cons f fs)
  let ?r = "concat (map (\<lambda>f. TPipe # call_tokens f) fs) @ [TEOF]"
  have "parseStage (call_tokens f @ ?r) = Inr (f, ?r)"
    using Cons.prems filter_name by (intro parseStage_call) auto
  then show ?case
    using Cons filter_name [of "c_name f"]
    by (subst parse_filters.simps) (simp add: peek_def advance_def call_tokens_def del: set_simps)
qed

section \<open>What an evaluation reads\<close>

text \<open>Two environments agree on what an expression can read: the same time, the same scope, and the
  same entities where the expression names one that is in scope.\<close>

definition agree :: "expr \<Rightarrow> xenv \<Rightarrow> xenv \<Rightarrow> bool" where
  "agree e env env' \<longleftrightarrow>
     nowMillis env = nowMillis env' \<and> xe_edge env = xe_edge env' \<and> xe_scope env = xe_scope env' \<and>
     (\<forall>i \<in> set (SourceEntities e). inScope env i \<longrightarrow> xe_snap env i = xe_snap env' i)"

lemma evalSource_agree:
  assumes "agree e env env'" "ex_pipeline e = Some pl"
  shows "evalSource (pl_source pl) env = evalSource (pl_source pl) env'"
proof (cases "so_literal (pl_source pl)")
  case None
  show ?thesis
  proof (cases "so_call (pl_source pl)")
    case (Some c)
    have t: "nowMillis env = nowMillis env'" and sc: "inScope env i = inScope env' i" for i
      using assms(1) by (auto simp: agree_def inScope_def)
    have sn: "xe_snap env i = xe_snap env' i"
      if "inScope env i" "c_args c = GStr i # r" "c_name c = ''state'' \<or> c_name c = ''attr''" for i r
      using that assms None Some by (auto simp: agree_def SourceEntities_def)
    show ?thesis
      using None Some t sc sn by (auto simp: evalSource_def split: list.splits gval.splits)
  qed (use None in \<open>simp add: evalSource_def\<close>)
qed (simp add: evalSource_def)

lemma runFilter_agree:
  assumes "nowMillis env = nowMillis env'"
  shows "runFilter f x env = runFilter f x env'"
  unfolding runFilter_def assms by (rule refl)

lemma applyFilter_agree: "nowMillis env = nowMillis env' \<Longrightarrow> applyFilter f v env = applyFilter f v env'"
  using runFilter_agree [of env env' f] by (cases v) (simp_all add: applyFilter_def)

lemma SourceEntities_elem:
  assumes "ex_pipeline e = Some pl" "i \<in> set (SourceEntities e)"
  shows "\<exists>c r. so_call (pl_source pl) = Some c \<and> c_args c = GStr i # r \<and> (c_name c = ''state'' \<or> c_name c = ''attr'')"
proof (cases "so_call (pl_source pl)")
  case (Some c)
  show ?thesis
  proof (cases "c_args c")
    case (Cons a r)
    then show ?thesis using assms Some
      by (cases a) (simp_all add: SourceEntities_def split: if_splits)
  qed (use assms Some in \<open>simp add: SourceEntities_def split: if_splits\<close>)
qed (use assms in \<open>simp add: SourceEntities_def\<close>)

lemma evalSource_out_of_scope:
  assumes "so_literal s = None" "so_call s = Some c" "c_args c = GStr i # r" "c_name c = ''state'' \<or> c_name c = ''attr''"
    "\<not> inScope env i"
  shows "evalSource s env = None"
  using assms by (cases r) (auto simp: evalSource_def split: list.splits gval.splits)

lemma sep_by_all: "list_all P xs \<Longrightarrow> P d \<Longrightarrow> list_all P (sep_by d xs)"
  by (induction d xs rule: sep_by.induct) auto

lemma foldl_filters_None:
  "(\<forall>f \<in> set fs. c_name f \<noteq> ''default'') \<Longrightarrow> foldl (\<lambda>v f. applyFilter f v env) None fs = None"
  by (induction fs) (auto simp: applyFilter_def)

lemma Evaluate_agree:
  assumes "agree e env env'"
  shows "Evaluate e env = Evaluate e env'"
proof -
  have "nowMillis env = nowMillis env'" using assms by (simp add: agree_def)
  then have "applyFilter f v env = applyFilter f v env'" for f v by (rule applyFilter_agree)
  then show ?thesis
    using evalSource_agree [OF assms] by (simp add: Evaluate_def split: option.splits)
qed

section \<open>Properties\<close>

text \<open>Parsing inverts printing: the pipeline string of a tree over the closed lists of sources and
  filters, with literals that have a spelling, parses back to that tree.\<close>

theorem parse_show_pipeline:
  assumes "printable p"
  shows "Parse (JObj [(''expr'', JStr (show_pipeline p))]) =
           Inr \<lparr>ex_literal = None, ex_pipeline = Some p\<rparr>"
proof -
  let ?fs = "concat (map (\<lambda>f. TPipe # call_tokens f) (pl_filters p))"
  have fs: "list_all (\<lambda>f. printable_call f \<and> c_name f \<in> set filterNames) (pl_filters p)"
    using assms by (simp add: printable_def)
  have ct: "list_all printable_tok (call_tokens c)" if "printable_call c" "printable_name (c_name c)" for c
  proof -
    have "list_all printable_tok (sep_by TComma (map val_token vs))" if "list_all printable_val vs" for vs
      using that val_token_printable by (intro sep_by_all) (auto simp: list_all_iff)
    then show ?thesis using that by (simp add: call_tokens_def printable_call_def)
  qed
  have ne: "?fs @ [TEOF] \<noteq> []" by simp
  have src: "list_all printable_tok (source_tokens (pl_source p)) \<and>
      parseSource (source_tokens (pl_source p) @ ?fs @ [TEOF]) = Inr (pl_source p, ?fs @ [TEOF])"
  proof (cases "so_literal (pl_source p)")
    case (Some v)
    then have v: "printable_val v" "so_call (pl_source p) = None"
      using assms by (auto simp: printable_def split: option.splits)
    have s: "pl_source p = \<lparr>so_literal = Some v, so_call = None\<rparr>" using Some v(2) by simp
    show ?thesis using v(1) val_token_printable [OF v(1)]
      by (cases v) (auto simp: s source_tokens_def parseSource_def peek_def advance_def printable_val_def
          isLiteralKeyword_def keyword_value_def)
  next
    case None
    then obtain c where c: "so_call (pl_source p) = Some c" "printable_call c" "c_name c \<in> set sourceNames"
      using assms by (auto simp: printable_def split: option.splits)
    have s: "pl_source p = \<lparr>so_literal = None, so_call = Some c\<rparr>" using None c(1) by simp
    have n: "printable_name (c_name c)" "\<not> isLiteralKeyword (c_name c)" using source_name [OF c(3)] by auto
    have pk: "peek (call_tokens c @ r) = TIdent (c_name c)" for r by (simp add: call_tokens_def peek_def)
    show ?thesis
      using ct [OF c(2) n(1)] parseStage_call [OF c(2) n(2) ne] n(2) c(3) pk
      by (simp add: s source_tokens_def parseSource_def)
  qed
  have "list_all printable_tok ?fs"
    using fs ct filter_name by (auto simp: list_all_iff)
  then have "lex (show_pipeline p) = Inr (source_tokens (pl_source p) @ ?fs @ [TEOF])"
    using lex_render [of "pipeline_tokens p"] src by (simp add: show_pipeline_def pipeline_tokens_def)
  then have "parsePipeline (show_pipeline p) = Inr p"
    using src parse_filters_calls [OF fs] by (simp add: parsePipeline_def parse_tokens_def peek_def)
  then show ?thesis by (simp add: Parse_def parseObject_def jlookup_def)
qed

text \<open>Parsing either reports one of its three codes or gives a tree inside the closed grammar: a literal
  or a pipeline whose source is a literal or one of \<open>state\<close>, \<open>attr\<close>, \<open>now\<close> and whose stages are all
  in the closed list of filters.\<close>

theorem Parse_closed: "case Parse raw of Inl e \<Rightarrow> e \<in> expr_codes | Inr e \<Rightarrow> closed_expr e"
proof (cases raw)
  case (JObj kvs)
  show ?thesis
  proof (cases "jlookup kvs ''expr''")
    case None
    then show ?thesis using JObj by (simp add: Parse_def parseObject_def expr_codes_def)
  next
    case (Some r)
    then show ?thesis
      using JObj parsePipeline_cases [of "dstr '''' [r]"]
      by (cases "parsePipeline (dstr '''' [r])")
         (simp_all add: Parse_def parseObject_def expr_codes_def closed_expr_def)
  qed
qed (auto simp: Parse_def expr_codes_def closed_expr_def split: option.splits)

text \<open>An expression reads nothing but the entity its source names, and in an edge rule only when that
  is the rule's own entity: environments that agree on it and on the time give the same result,
  whatever else their snapshots hold.\<close>

theorem Evaluate_noninterference:
  assumes "agree e env env'"
  shows "Evaluate e env = Evaluate e env'"
  using assms by (rule Evaluate_agree)

text \<open>Failure is closed: in an edge rule an expression that names another entity fails unless a stage
  is \<open>default\<close>, and an expression whose last stage is \<open>default\<close> with a value never fails.\<close>

theorem Evaluate_fail_closed:
  assumes "ex_literal e = None" "ex_pipeline e = Some pl"
  shows "(xe_edge env \<and> (\<exists>i \<in> set (SourceEntities e). i \<noteq> xe_scope env) \<and> so_literal (pl_source pl) = None \<and>
            (\<forall>f \<in> set (pl_filters pl). c_name f \<noteq> ''default'') \<longrightarrow> Evaluate e env = None) \<and>
         ((\<exists>fs d. pl_filters pl = fs @ [\<lparr>c_name = ''default'', c_args = [d]\<rparr>]) \<longrightarrow> Evaluate e env \<noteq> None)"
proof (intro conjI impI)
  assume a: "xe_edge env \<and> (\<exists>i \<in> set (SourceEntities e). i \<noteq> xe_scope env) \<and> so_literal (pl_source pl) = None \<and>
            (\<forall>f \<in> set (pl_filters pl). c_name f \<noteq> ''default'')"
  then obtain i where i: "i \<in> set (SourceEntities e)" "\<not> inScope env i" by (auto simp: inScope_def)
  have "evalSource (pl_source pl) env = None"
    using SourceEntities_elem [OF assms(2) i(1)] evalSource_out_of_scope i(2) a by blast
  then show "Evaluate e env = None" using assms a foldl_filters_None by (simp add: Evaluate_def)
next
  assume "\<exists>fs d. pl_filters pl = fs @ [\<lparr>c_name = ''default'', c_args = [d]\<rparr>]"
  then show "Evaluate e env \<noteq> None"
    using assms by (auto simp: Evaluate_def applyFilter_def split: option.splits)
qed

definition demo_pipeline :: pipeline where
  "demo_pipeline =
     \<lparr>pl_source = \<lparr>so_literal = None, so_call = Some \<lparr>c_name = ''attr'', c_args = [GStr ''E'', GStr ''volume'']\<rparr>\<rparr>,
      pl_filters = [\<lparr>c_name = ''upper'', c_args = []\<rparr>, \<lparr>c_name = ''default'', c_args = [GStr ''none'']\<rparr>]\<rparr>"

definition demo_expr :: expr where
  "demo_expr = \<lparr>ex_literal = None, ex_pipeline = Some (demo_pipeline\<lparr>pl_filters := []\<rparr>)\<rparr>"

definition demo_xenv :: "string \<Rightarrow> xenv" where
  "demo_xenv scope = \<lparr>xe_snap = [''E'' \<mapsto> \<lparr>en_id = ''E'', en_class = '''', en_state = ''on'', en_attrs = []\<rparr>],
     xe_now = 0, xe_floor = 0, xe_untrusted = False, xe_edge = True, xe_scope = scope\<rparr>"

theorem parse_show_pipeline_witness:
  "Parse (JObj [(''expr'', JStr (show_pipeline demo_pipeline))]) =
     Inr \<lparr>ex_literal = None, ex_pipeline = Some demo_pipeline\<rparr>"
proof (rule parse_show_pipeline)
  show "printable demo_pipeline"
    by (simp add: printable_def demo_pipeline_def printable_call_def printable_val_def dquote_def sourceNames_def
        filterNames_def)
qed

theorem Evaluate_noninterference_witness:
  "Evaluate demo_expr (demo_xenv ''A'') = Evaluate demo_expr ((demo_xenv ''A'')\<lparr>xe_snap := Map.empty\<rparr>)"
  by (rule Evaluate_noninterference)
     (simp add: agree_def demo_expr_def demo_pipeline_def demo_xenv_def SourceEntities_def inScope_def nowMillis_def)

theorem Evaluate_fail_closed_witness: "Evaluate demo_expr (demo_xenv ''A'') = None"
  using Evaluate_fail_closed [of demo_expr "demo_pipeline\<lparr>pl_filters := []\<rparr>" "demo_xenv ''A''"]
  by (simp add: demo_expr_def demo_pipeline_def demo_xenv_def SourceEntities_def)

theorem Parse_closed_witness:
  "Parse (JObj [(''expr'', JStr ''state(1) | wat'')]) = Inl CodeUnknownFilter \<and> CodeUnknownFilter \<in> expr_codes"
proof -
  have p: "Parse (JObj [(''expr'', JStr ''state(1) | wat'')]) = Inl CodeUnknownFilter" by code_simp
  then show ?thesis using Parse_closed [of "JObj [(''expr'', JStr ''state(1) | wat'')]"] by simp
qed

end
