(* ===== verification/Vocab.thy ===== *)
theory Vocab
  imports Prelude
begin

text \<open>
  The closed rule vocabulary of \<open>internal/rules/vocab/vocab.go\<close>: the execution class of every
  trigger, condition and action type and of every mode.  The class tables are association
  lists; a type outside them is \<open>Unknown\<close>.
\<close>

datatype vclass = VUnknown | Edge | App

datatype kind = TriggerKind | ConditionKind | ActionKind

fun class_string :: "vclass \<Rightarrow> string" where
  "class_string Edge = ''edge''"
| "class_string App = ''app''"
| "class_string VUnknown = ''unknown''"

definition ActionPlayCast :: string where "ActionPlayCast = ''play_cast''"
definition ActionShowAlert :: string where "ActionShowAlert = ''show_alert''"
definition ActionDismissAlert :: string where "ActionDismissAlert = ''dismiss_alert''"
definition ActionVariableWrite :: string where "ActionVariableWrite = ''variable_write''"
definition ActionPackAction :: string where "ActionPackAction = ''pack_action''"

definition triggers_table :: "(string \<times> vclass) list" where
  "triggers_table =
     [(''state'', Edge), (''numeric'', Edge), (''time'', Edge), (''time_pattern'', Edge), (''sun'', Edge),
      (''template'', App), (''event'', App), (''webhook'', App)]"

definition conditions_table :: "(string \<times> vclass) list" where
  "conditions_table =
     [(''state'', Edge), (''numeric'', Edge), (''time'', Edge), (''sun'', Edge), (''variable'', Edge),
      (''template'', App)]"

definition actions_table :: "(string \<times> vclass) list" where
  "actions_table =
     [(''device_command'', Edge), (''preset_batch'', Edge), (''choose'', Edge), (''delay'', Edge), (''log'', Edge),
      (''notify'', App), (ActionVariableWrite, App), (''workflow_start'', App), (ActionPackAction, App),
      (''play_cast'', App), (''show_alert'', App), (''dismiss_alert'', App)]"

definition ClassOf :: "kind \<Rightarrow> string \<Rightarrow> vclass" where
  "ClassOf k typ =
     (let table = (case k of TriggerKind \<Rightarrow> triggers_table | ConditionKind \<Rightarrow> conditions_table
                   | ActionKind \<Rightarrow> actions_table)
      in case map_of table typ of Some c \<Rightarrow> c | None \<Rightarrow> VUnknown)"

definition IsSignageAction :: "string \<Rightarrow> bool" where
  "IsSignageAction typ \<longleftrightarrow> typ = ActionPlayCast \<or> typ = ActionShowAlert \<or> typ = ActionDismissAlert"

definition ModeClass :: "string \<Rightarrow> vclass" where
  "ModeClass mode =
     (if mode = '''' \<or> mode = ''single'' \<or> mode = ''restart'' then Edge
      else if mode = ''queued'' \<or> mode = ''parallel'' then App
      else VUnknown)"

lemmas action_names = ActionPlayCast_def ActionShowAlert_def ActionDismissAlert_def
  ActionVariableWrite_def ActionPackAction_def

lemma signage_is_app: "IsSignageAction t \<Longrightarrow> ClassOf ActionKind t = App"
  by (auto simp: IsSignageAction_def ClassOf_def actions_table_def action_names)

lemma edge_action_cases:
  "ClassOf ActionKind t = Edge \<Longrightarrow>
    t = ''device_command'' \<or> t = ''preset_batch'' \<or> t = ''choose'' \<or> t = ''delay'' \<or> t = ''log''"
  by (auto simp: ClassOf_def actions_table_def action_names split: if_splits)

lemma ModeClass_Edge: "ModeClass m = Edge \<longleftrightarrow> m = '''' \<or> m = ''single'' \<or> m = ''restart''"
  by (simp add: ModeClass_def)

end
