(* ===== verification/Ulid.thy ===== *)
theory Ulid
  imports Prelude
begin

text \<open>
  The ULID codec and generator of \<open>internal/shared/ulid/ulid.go\<close>.  A 128-bit value is 16 bytes;
  its canonical text is 26 Crockford base-32 characters.  The bit buffer of both loops is the
  source's \<open>uint32\<close>, with the shift's wrap-around written out; both loops are one regrouping
  loop at different widths.  The lemmas read a digit list as the number it denotes: the loops
  keep that number, which gives the round trips, the order of the texts and the strict growth
  of the generator's output.
\<close>

section \<open>Digit lists as numbers\<close>

definition radix_val :: "nat \<Rightarrow> nat list \<Rightarrow> nat" where
  "radix_val r ds = foldl (\<lambda>a d. a * r + d) 0 ds"

lemma radix_val_Nil [simp]: "radix_val r [] = 0"
  by (simp add: radix_val_def)

lemma radix_val_snoc [simp]: "radix_val r (ds @ [d]) = radix_val r ds * r + d"
  by (simp add: radix_val_def)

lemma radix_val_append: "radix_val r (ds @ es) = radix_val r ds * r ^ length es + radix_val r es"
  by (induction es rule: rev_induct) (simp_all add: append_assoc [symmetric] algebra_simps del: append_assoc)

lemma radix_val_Cons: "radix_val r (d # ds) = d * r ^ length ds + radix_val r ds"
  using radix_val_append [of r "[d]" ds] by (simp add: radix_val_def)

lemma radix_val_less: "\<forall>d \<in> set ds. d < r \<Longrightarrow> radix_val r ds < r ^ length ds"
proof (induction ds rule: rev_induct)
  case Nil
  then show ?case by simp
next
  case (snoc d ds)
  then have "radix_val r ds + 1 \<le> r ^ length ds" "d < r" by auto
  then have "(radix_val r ds + 1) * r \<le> r ^ length ds * r" by (intro mult_le_mono1)
  then show ?case using \<open>d < r\<close> by (simp add: algebra_simps)
qed

lemma radix_val_lex:
  assumes "length ds = length es" "\<forall>d \<in> set ds. d < r" "\<forall>e \<in> set es. e < r"
  shows "radix_val r ds < radix_val r es \<longleftrightarrow> ds < es"
  using assms
proof (induction ds es rule: list_induct2)
  case Nil
  then show ?case by simp
next
  case (Cons d ds e es)
  have b: "radix_val r ds < r ^ length ds" "radix_val r es < r ^ length ds"
    using Cons.prems Cons.hyps by (auto intro: radix_val_less [THEN order_less_le_trans])
  show ?case
  proof (cases d e rule: linorder_cases)
    case less
    then have "(d + 1) * r ^ length ds \<le> e * r ^ length ds" by (intro mult_le_mono1) simp
    with b have "radix_val r (d # ds) < radix_val r (e # es)"
      using Cons.hyps by (simp add: radix_val_Cons)
    with less show ?thesis by simp
  next
    case equal
    with Cons show ?thesis by (simp add: radix_val_Cons)
  next
    case greater
    then have "(e + 1) * r ^ length ds \<le> d * r ^ length ds" by (intro mult_le_mono1) simp
    with b have "radix_val r (e # es) < radix_val r (d # ds)"
      using Cons.hyps by (simp add: radix_val_Cons)
    with greater show ?thesis by auto
  qed
qed

lemma radix_val_inj:
  assumes "length ds = length es" "\<forall>d \<in> set ds. d < r" "\<forall>e \<in> set es. e < r"
    and "radix_val r ds = radix_val r es"
  shows "ds = es"
  using radix_val_lex [OF assms(1-3)] radix_val_lex [OF assms(1)[symmetric] assms(3,2)] assms(4)
  by (metis less_irrefl linorder_less_linear)

section \<open>The regrouping loop\<close>

text \<open>
  \<open>for bitCount >= w { bitCount -= w; emit the w bits at bitCount }\<close> and the outer loop that
  shifts \<open>v\<close> fresh bits into the 32-bit buffer.
\<close>

fun emit_groups :: "nat \<Rightarrow> nat \<Rightarrow> nat \<Rightarrow> nat list \<Rightarrow> nat \<times> nat list" where
  "emit_groups w buf bc out =
     (if 0 < w \<and> w \<le> bc
      then emit_groups w buf (bc - w) (out @ [(buf div 2 ^ (bc - w)) mod 2 ^ w])
      else (bc, out))"

declare emit_groups.simps [simp del]

fun regroup :: "nat \<Rightarrow> nat \<Rightarrow> nat list \<Rightarrow> nat \<Rightarrow> nat \<Rightarrow> nat list \<Rightarrow> nat list" where
  "regroup v w [] buf bc out = out"
| "regroup v w (b # bs) buf bc out =
     (let buf' = (buf * 2 ^ v) mod 2 ^ 32 + b;
          (bc', out') = emit_groups w buf' (bc + v) out
      in regroup v w bs buf' bc' out')"

lemma emit_groups_spec:
  assumes "0 < w" "emit_groups w buf bc out = (bc', out')" "\<forall>d \<in> set out. d < 2 ^ w"
  shows "bc' = bc mod w \<and> length out' = length out + bc div w \<and> (\<forall>d \<in> set out'. d < 2 ^ w) \<and>
    radix_val (2 ^ w) out' * 2 ^ bc' + buf mod 2 ^ bc' = radix_val (2 ^ w) out * 2 ^ bc + buf mod 2 ^ bc"
  using assms
proof (induction w buf bc out rule: emit_groups.induct)
  case (1 w buf bc out)
  show ?case
  proof (cases "w \<le> bc")
    case False
    with "1.prems" show ?thesis by (simp add: emit_groups.simps [of w buf bc out])
  next
    case True
    let ?d = "(buf div 2 ^ (bc - w)) mod 2 ^ w"
    have "(2::nat) ^ bc = 2 ^ (bc - w) * 2 ^ w"
      using True by (simp flip: power_add)
    then have split: "buf mod 2 ^ bc = 2 ^ (bc - w) * ?d + buf mod 2 ^ (bc - w)"
      and pw: "(2::nat) ^ bc = 2 ^ w * 2 ^ (bc - w)"
      by (simp_all add: mod_mult2_eq)
    have em: "emit_groups w buf (bc - w) (out @ [?d]) = (bc', out')"
      using True "1.prems" by (simp add: emit_groups.simps [of w buf bc out])
    have dg: "\<forall>d \<in> set (out @ [?d]). d < 2 ^ w" using "1.prems"(3) by simp
    note IH = "1.IH" [OF conjI [OF "1.prems"(1) True] "1.prems"(1) em dg]
    have key: "radix_val (2 ^ w) (out @ [?d]) * 2 ^ (bc - w) + buf mod 2 ^ (bc - w) =
        radix_val (2 ^ w) out * 2 ^ bc + buf mod 2 ^ bc"
      unfolding split by (simp add: pw algebra_simps)
    have "bc mod w = (bc - w) mod w" "bc div w = Suc ((bc - w) div w)"
      using True "1.prems"(1) by (simp_all add: le_mod_geq le_div_geq)
    with IH show ?thesis by (simp only: key) auto
  qed
qed

lemma shift_in:
  assumes "b < 2 ^ v" "bc + v \<le> 32"
  shows "((buf * 2 ^ v) mod 2 ^ 32 + b) mod 2 ^ (bc + v) = (buf mod 2 ^ bc) * 2 ^ v + (b::nat)"
proof -
  have "(2::nat) ^ (bc + v) dvd 2 ^ 32" using assms(2) by (rule le_imp_power_dvd)
  then have "((buf * 2 ^ v) mod 2 ^ 32 + b) mod 2 ^ (bc + v) = (buf * 2 ^ v + b) mod 2 ^ (bc + v)"
    by (metis mod_add_left_eq mod_mod_cancel)
  also have "\<dots> = (buf mod 2 ^ bc) * 2 ^ v + b"
    using assms(1) by (simp add: power_add mult.commute [of "2 ^ bc"] mod_mult2_eq)
  finally show ?thesis .
qed

text \<open>The loop keeps the number read so far: emitted digits, then the low bits of the buffer.\<close>

lemma regroup_spec:
  assumes "0 < w" "v + w \<le> 32" "\<forall>b \<in> set bs. b < 2 ^ v" "bc < w" "\<forall>d \<in> set out. d < 2 ^ w"
    and "w dvd bc + v * length bs"
  shows "(\<forall>d \<in> set (regroup v w bs buf bc out). d < 2 ^ w) \<and>
    length (regroup v w bs buf bc out) = length out + (bc + v * length bs) div w \<and>
    radix_val (2 ^ w) (regroup v w bs buf bc out) =
      (radix_val (2 ^ w) out * 2 ^ bc + buf mod 2 ^ bc) * 2 ^ (v * length bs) + radix_val (2 ^ v) bs"
  using assms(3-)
proof (induction bs arbitrary: buf bc out)
  case Nil
  then have "bc = 0" using nat_dvd_not_less by fastforce
  with Nil show ?case by simp
next
  case (Cons b bs)
  let ?buf = "(buf * 2 ^ v) mod 2 ^ 32 + b"
  obtain bc' out' where e: "emit_groups w ?buf (bc + v) out = (bc', out')"
    by (cases "emit_groups w ?buf (bc + v) out")
  from emit_groups_spec [OF assms(1) e] Cons.prems
  have s: "bc' = (bc + v) mod w" "length out' = length out + (bc + v) div w"
    "\<forall>d \<in> set out'. d < 2 ^ w"
    "radix_val (2 ^ w) out' * 2 ^ bc' + ?buf mod 2 ^ bc' =
      radix_val (2 ^ w) out * 2 ^ (bc + v) + ?buf mod 2 ^ (bc + v)"
    by auto
  have "w dvd bc' + v * length bs"
    using Cons.prems(4) unfolding s(1) by (simp add: dvd_eq_mod_eq_0 mod_simps algebra_simps)
  from Cons.IH [OF _ _ s(3) this, of ?buf] Cons.prems s(1) assms(1)
  have IH: "(\<forall>d \<in> set (regroup v w bs ?buf bc' out'). d < 2 ^ w)"
    "length (regroup v w bs ?buf bc' out') = length out' + (bc' + v * length bs) div w"
    "radix_val (2 ^ w) (regroup v w bs ?buf bc' out') =
      (radix_val (2 ^ w) out' * 2 ^ bc' + ?buf mod 2 ^ bc') * 2 ^ (v * length bs) + radix_val (2 ^ v) bs"
    by simp_all
  have sh: "?buf mod 2 ^ (bc + v) = (buf mod 2 ^ bc) * 2 ^ v + b"
    using Cons.prems assms(2) by (intro shift_in) auto
  have "(bc + v * length (b # bs)) div w = (bc + v) div w + (bc' + v * length bs) div w"
  proof -
    have "bc + v * length (b # bs) = w * ((bc + v) div w) + (bc' + v * length bs)"
      unfolding s(1) by (simp add: algebra_simps)
    then have "(bc + v * length (b # bs)) div w = (w * ((bc + v) div w) + (bc' + v * length bs)) div w"
      by (simp only:)
    also have "\<dots> = (bc + v) div w + (bc' + v * length bs) div w"
      using assms(1) by (simp only: div_mult_self4 [OF less_imp_neq [symmetric]])
    finally show ?thesis .
  qed
  moreover have step: "regroup v w (b # bs) buf bc out = regroup v w bs ?buf bc' out'"
    by (simp only: regroup.simps Let_def e prod.case)
  moreover have "radix_val (2 ^ w) (regroup v w (b # bs) buf bc out) =
      (radix_val (2 ^ w) out * 2 ^ bc + buf mod 2 ^ bc) * 2 ^ (v * length (b # bs)) + radix_val (2 ^ v) (b # bs)"
    unfolding step IH(3) s(4) sh radix_val_Cons by (simp add: power_add power_mult algebra_simps)
  ultimately show ?case using IH(1,2) s(2) by simp
qed

section \<open>The codec\<close>

definition crockfordAlphabet :: string where
  "crockfordAlphabet = ''0123456789ABCDEFGHJKMNPQRSTVWXYZ''"

text \<open>\<open>strings.IndexByte\<close>.\<close>

fun index_byte :: "string \<Rightarrow> char \<Rightarrow> nat option" where
  "index_byte [] c = None"
| "index_byte (x # xs) c = (if x = c then Some 0 else map_option Suc (index_byte xs c))"

definition digit_of :: "char \<Rightarrow> nat" where
  "digit_of c = (case index_byte crockfordAlphabet c of Some i \<Rightarrow> i | None \<Rightarrow> 0)"

definition char_at :: "nat \<Rightarrow> char" where
  "char_at i = crockfordAlphabet ! i"

definition encode :: "nat list \<Rightarrow> string" where
  "encode data = map char_at (regroup 8 5 data 0 2 [])"

definition Valid :: "string \<Rightarrow> bool" where
  "Valid s \<longleftrightarrow> length s = 26 \<and> \<not> (hd s < CHR ''0'' \<or> hd s > CHR ''7'') \<and>
     list_all (\<lambda>c. index_byte crockfordAlphabet c \<noteq> None) s"

definition decode :: "string \<Rightarrow> nat list option" where
  "decode s =
     (if \<not> Valid s then None
      else Some (regroup 5 8 (map digit_of (tl s)) (digit_of (hd s) mod 8) 3 []))"

lemma index_byte_nth: "distinct xs \<Longrightarrow> i < length xs \<Longrightarrow> index_byte xs (xs ! i) = Some i"
  by (induction xs arbitrary: i) (auto simp: nth_Cons split: nat.splits)

lemma index_byte_Some: "index_byte xs c = Some i \<Longrightarrow> i < length xs \<and> xs ! i = c"
  by (induction xs arbitrary: i) (auto split: if_splits)

lemma index_crockford: "i < 32 \<Longrightarrow> index_byte crockfordAlphabet (char_at i) = Some i"
  unfolding char_at_def by (rule index_byte_nth) (auto simp: crockfordAlphabet_def)

lemma digit_of_char_at [simp]: "i < 32 \<Longrightarrow> digit_of (char_at i) = i"
  by (simp add: digit_of_def index_crockford)

lemma crockford_index_less: "index_byte crockfordAlphabet c = Some i \<Longrightarrow> i < 32 \<and> char_at i = c"
  using index_byte_Some [of crockfordAlphabet c i] by (simp add: char_at_def crockfordAlphabet_def)

text \<open>The alphabet is in byte order, so texts compare as the digit lists they spell.\<close>

lemma alphabet_sorted: "sorted_wrt (<) crockfordAlphabet"
  by code_simp

lemma char_at_less: "i < 32 \<Longrightarrow> j < 32 \<Longrightarrow> char_at i < char_at j \<longleftrightarrow> i < j"
  using sorted_wrt_nth_less [OF alphabet_sorted, of i j] sorted_wrt_nth_less [OF alphabet_sorted, of j i]
  by (cases i j rule: linorder_cases) (auto simp: char_at_def crockfordAlphabet_def)

lemma char_at_inj: "i < 32 \<Longrightarrow> j < 32 \<Longrightarrow> char_at i = char_at j \<longleftrightarrow> i = j"
  by (metis digit_of_char_at)

lemma map_char_at_less:
  assumes "length ds = length es" "\<forall>d \<in> set ds. d < 32" "\<forall>e \<in> set es. e < 32"
  shows "map char_at ds < map char_at es \<longleftrightarrow> ds < es"
  using assms
proof (induction ds es rule: list_induct2)
  case (Cons d ds e es)
  then show ?case
    by (cases d e rule: linorder_cases) (auto simp: char_at_less char_at_inj)
qed simp

text \<open>A 128-bit value: 16 bytes.\<close>

definition data16 :: "nat list \<Rightarrow> bool" where
  "data16 d \<longleftrightarrow> length d = 16 \<and> (\<forall>b \<in> set d. b < 256)"

lemma encode_digits:
  assumes "data16 d"
  obtains ds where "encode d = map char_at ds" "length ds = 26" "\<forall>x \<in> set ds. x < 32"
    "radix_val 32 ds = radix_val 256 d"
proof -
  have "(5::nat) dvd 2 + 8 * length d" using assms by (simp add: data16_def)
  from regroup_spec [of 5 8 d 2 "[]" 0, OF _ _ _ _ _ this] assms show ?thesis
    by (intro that [of "regroup 8 5 d 0 2 []"]) (auto simp: encode_def data16_def)
qed

lemma decode_data:
  assumes "length ds = 26" "\<forall>x \<in> set ds. x < 32" "hd ds < 8"
  shows "data16 (regroup 5 8 (tl ds) (hd ds mod 8) 3 []) \<and>
    radix_val 256 (regroup 5 8 (tl ds) (hd ds mod 8) 3 []) = radix_val 32 ds"
proof -
  obtain x xs where ds: "ds = x # xs" using assms(1) by (cases ds) auto
  have "(8::nat) dvd 3 + 5 * length xs" using assms ds by simp
  from regroup_spec [of 8 5 xs 3 "[]" x, OF _ _ _ _ _ this] assms ds show ?thesis
    by (auto simp: data16_def radix_val_Cons)
qed

lemma hd_digit_bound:
  assumes "length ds = 26" "\<forall>x \<in> set ds. x < 32" "radix_val 32 ds < 2 ^ 128"
  shows "hd ds < 8"
proof (rule ccontr)
  obtain x xs where ds: "ds = x # xs" using assms(1) by (cases ds) auto
  assume "\<not> hd ds < 8"
  then have "8 * 32 ^ 25 \<le> x * 32 ^ length xs" using assms(1) ds by simp
  also have "\<dots> \<le> radix_val 32 ds" by (simp add: ds radix_val_Cons)
  finally show False using assms(3) by simp
qed

lemma char_le_7: "i < 32 \<Longrightarrow> \<not> (char_at i < CHR ''0'' \<or> char_at i > CHR ''7'') \<longleftrightarrow> i < 8"
  using char_at_less [of i 0] char_at_less [of 7 i]
  by (auto simp: char_at_def crockfordAlphabet_def)

lemma valid_map_char_at:
  assumes "length ds = 26" "\<forall>x \<in> set ds. x < 32"
  shows "Valid (map char_at ds) \<longleftrightarrow> hd ds < 8"
proof -
  have "ds \<noteq> []" using assms(1) by auto
  then have "hd (map char_at ds) = char_at (hd ds)" "hd ds < 32"
    using assms(2) by (simp_all add: hd_map)
  then show ?thesis
    using assms char_le_7 [of "hd ds"]
    by (auto simp: Valid_def list_all_iff index_crockford)
qed

lemma valid_digits:
  assumes "Valid s"
  obtains ds where "s = map char_at ds" "length ds = 26" "\<forall>x \<in> set ds. x < 32" "hd ds < 8"
proof -
  let ?ds = "map digit_of s"
  have ok: "\<forall>c \<in> set s. digit_of c < 32 \<and> char_at (digit_of c) = c"
    using assms by (auto simp: Valid_def list_all_iff digit_of_def split: option.splits dest: crockford_index_less)
  then have s: "s = map char_at ?ds" by (simp add: map_idI)
  have l: "length ?ds = 26" "\<forall>x \<in> set ?ds. x < 32" using assms ok by (auto simp: Valid_def)
  have "hd ?ds < 8" using assms s valid_map_char_at [OF l] by simp
  with s l show ?thesis by (rule that)
qed

lemma decode_map_char_at:
  assumes "length ds = 26" "\<forall>x \<in> set ds. x < 32" "hd ds < 8"
  shows "decode (map char_at ds) = Some (regroup 5 8 (tl ds) (hd ds mod 8) 3 [])"
proof -
  obtain x xs where ds: "ds = x # xs" using assms(1) by (cases ds) auto
  have "map (digit_of \<circ> char_at) xs = xs" using assms(2) ds by (intro map_idI) auto
  then show ?thesis
    using assms valid_map_char_at [OF assms(1,2)] ds by (simp add: decode_def)
qed

lemma data16_radix_less: "data16 d \<Longrightarrow> radix_val 256 d < 2 ^ 128"
  using radix_val_less [of d 256] by (simp add: data16_def)

lemma data16_inj: "data16 d \<Longrightarrow> data16 e \<Longrightarrow> radix_val 256 d = radix_val 256 e \<Longrightarrow> d = e"
  by (rule radix_val_inj [of _ _ 256]) (simp_all add: data16_def)

lemma encode_valid: "data16 d \<Longrightarrow> Valid (encode d)"
  by (metis data16_radix_less encode_digits hd_digit_bound valid_map_char_at)

lemma encode_less:
  assumes "data16 d" "data16 e"
  shows "encode d < encode e \<longleftrightarrow> radix_val 256 d < radix_val 256 e"
proof -
  obtain ds where ds: "encode d = map char_at ds" "length ds = 26" "\<forall>x \<in> set ds. x < 32"
    "radix_val 32 ds = radix_val 256 d"
    using assms(1) by (rule encode_digits)
  obtain es where es: "encode e = map char_at es" "length es = 26" "\<forall>x \<in> set es. x < 32"
    "radix_val 32 es = radix_val 256 e"
    using assms(2) by (rule encode_digits)
  show ?thesis
    using map_char_at_less [of ds es] radix_val_lex [of ds es 32] ds es by simp
qed

text \<open>Decoding the text of a 128-bit value gives the value back.\<close>

theorem decode_encode: "data16 d \<Longrightarrow> decode (encode d) = Some d"
proof -
  assume d: "data16 d"
  obtain ds where ds: "encode d = map char_at ds" "length ds = 26" "\<forall>x \<in> set ds. x < 32"
    "radix_val 32 ds = radix_val 256 d"
    using d by (rule encode_digits)
  have "hd ds < 8"
    using ds data16_radix_less [OF d] by (intro hd_digit_bound) auto
  with ds d show ?thesis
    using decode_data [of ds] by (auto simp: decode_map_char_at intro: data16_inj)
qed

theorem decode_encode_witness:
  "decode (encode [1, 2, 3, 4, 5, 6, 7, 8, 9, 10, 11, 12, 13, 14, 15, 255]) =
    Some [1, 2, 3, 4, 5, 6, 7, 8, 9, 10, 11, 12, 13, 14, 15, 255]"
  by (rule decode_encode) (simp add: data16_def)

lemma valid_decodes: "Valid s \<Longrightarrow> \<exists>d. decode s = Some d \<and> data16 d \<and> encode d = s"
proof -
  assume "Valid s"
  then obtain ds where ds: "s = map char_at ds" "length ds = 26" "\<forall>x \<in> set ds. x < 32" "hd ds < 8"
    by (rule valid_digits)
  let ?d = "regroup 5 8 (tl ds) (hd ds mod 8) 3 []"
  have d: "data16 ?d" "radix_val 256 ?d = radix_val 32 ds" using decode_data [OF ds(2-4)] by auto
  obtain es where es: "encode ?d = map char_at es" "length es = 26" "\<forall>x \<in> set es. x < 32"
    "radix_val 32 es = radix_val 256 ?d"
    using d(1) by (rule encode_digits)
  have "es = ds" using es ds d(2) by (intro radix_val_inj [of _ _ 32]) auto
  then show ?thesis using d ds es decode_map_char_at [OF ds(2-4)] by auto
qed

text \<open>A canonical text decodes to a 128-bit value whose text it is, so no two texts name one value.\<close>

theorem encode_decode: "Valid s \<Longrightarrow> \<exists>d. decode s = Some d \<and> data16 d \<and> encode d = s"
  by (rule valid_decodes)

theorem encode_decode_witness:
  "\<exists>d. decode ''01ARZ3NDEKTSV4RRFFQ69G5FAV'' = Some d \<and> data16 d \<and> encode d = ''01ARZ3NDEKTSV4RRFFQ69G5FAV''"
  by (rule encode_decode) code_simp

section \<open>The monotonic generator\<close>

record ulid_gen =
  lastMS :: nat
  lastRand :: "nat list"
  seeded :: bool

text \<open>The six big-endian bytes of a millisecond timestamp.\<close>

definition ms_bytes :: "nat \<Rightarrow> nat list" where
  "ms_bytes ms = map (\<lambda>k. ms div 2 ^ k mod 256) [40, 32, 24, 16, 8, 0]"

fun incr_rev :: "nat list \<Rightarrow> bool \<times> nat list" where
  "incr_rev [] = (True, [])"
| "incr_rev (b # bs) =
     (let b' = (b + 1) mod 256
      in if b' \<noteq> 0 then (False, b' # bs)
         else (let (carry, bs') = incr_rev bs in (carry, b' # bs')))"

definition incr80 :: "nat list \<Rightarrow> bool \<times> nat list" where
  "incr80 b = (let (carry, r) = incr_rev (rev b) in (carry, rev r))"

definition monotonic :: "string \<Rightarrow> ulid_gen" where
  "monotonic flr =
     (case decode flr of
        Some d \<Rightarrow> \<lparr>lastMS = radix_val 256 (take 6 d), lastRand = drop 6 d, seeded = True\<rparr>
      | None \<Rightarrow> \<lparr>lastMS = 0, lastRand = replicate 10 0, seeded = False\<rparr>)"

text \<open>
  One call of the generator: \<open>now\<close> is the clock's reading and \<open>fresh\<close> the ten bytes the system's
  random source would supply.
\<close>

definition mint :: "nat \<Rightarrow> nat list \<Rightarrow> ulid_gen \<Rightarrow> string \<times> ulid_gen" where
  "mint now fresh g =
     (let g' = (if \<not> seeded g \<or> lastMS g < now
                then \<lparr>lastMS = now, lastRand = fresh, seeded = True\<rparr>
                else (let (carry, r) = incr80 (lastRand g)
                      in if carry then g\<lparr>lastRand := r, lastMS := (lastMS g + 1) mod 2 ^ 64\<rparr>
                         else g\<lparr>lastRand := r\<rparr>))
      in (encode (ms_bytes (lastMS g') @ lastRand g'), g'))"

fun mint_all :: "(nat \<times> nat list) list \<Rightarrow> ulid_gen \<Rightarrow> string list \<times> ulid_gen" where
  "mint_all [] g = ([], g)"
| "mint_all ((now, fresh) # xs) g =
     (let (s, g') = mint now fresh g; (ss, g'') = mint_all xs g' in (s # ss, g''))"

definition gen_ok :: "ulid_gen \<Rightarrow> bool" where
  "gen_ok g \<longleftrightarrow> length (lastRand g) = 10 \<and> (\<forall>b \<in> set (lastRand g). b < 256)"

definition input_ok :: "nat \<times> nat list \<Rightarrow> bool" where
  "input_ok x \<longleftrightarrow> length (snd x) = 10 \<and> (\<forall>b \<in> set (snd x). b < 256)"

definition gen_data :: "ulid_gen \<Rightarrow> nat list" where
  "gen_data g = ms_bytes (lastMS g) @ lastRand g"

definition gen_val :: "ulid_gen \<Rightarrow> nat" where
  "gen_val g = lastMS g * 2 ^ 80 + radix_val 256 (lastRand g)"

lemma div_step: "m div (a * 256) * 256 + m div a mod 256 = m div (a::nat)"
  by (simp add: div_mult2_eq)

lemma radix_ms_bytes: "ms < 2 ^ 48 \<Longrightarrow> radix_val 256 (ms_bytes ms) = ms"
proof -
  assume "ms < 2 ^ 48"
  then have "ms div 2 ^ 40 mod 256 = ms div 2 ^ 40" by simp
  then show ?thesis
    using div_step [of ms "2 ^ 32"] div_step [of ms "2 ^ 24"] div_step [of ms "2 ^ 16"]
      div_step [of ms "2 ^ 8"] div_step [of ms 1]
    by (simp add: ms_bytes_def radix_val_def)
qed

lemma ms_bytes_bytes: "length (ms_bytes ms) = 6" "\<forall>b \<in> set (ms_bytes ms). b < 256"
  by (simp_all add: ms_bytes_def)

lemma gen_data_val:
  assumes "gen_ok g" "lastMS g < 2 ^ 48"
  shows "data16 (gen_data g)" "radix_val 256 (gen_data g) = gen_val g"
  using assms radix_ms_bytes [of "lastMS g"] ms_bytes_bytes [of "lastMS g"]
  by (auto simp: gen_data_def gen_val_def gen_ok_def data16_def radix_val_append)

lemma incr_rev_spec:
  assumes "\<forall>b \<in> set bs. b < 256" "incr_rev bs = (c, r)"
  shows "length r = length bs \<and> (\<forall>b \<in> set r. b < 256) \<and>
    radix_val 256 (rev r) + (if c then 256 ^ length bs else 0) = radix_val 256 (rev bs) + 1"
  using assms
proof (induction bs arbitrary: c r)
  case Nil
  then show ?case by auto
next
  case (Cons b bs)
  show ?case
  proof (cases "b = 255")
    case True
    then obtain r' where "incr_rev bs = (c, r')" "r = 0 # r'"
      using Cons.prems by (auto split: prod.splits)
    with Cons.IH [of c r'] Cons.prems True show ?thesis by auto
  next
    case False
    with Cons.prems have "(b + 1) mod 256 = b + 1" "b + 1 < 256" by auto
    with Cons.prems show ?thesis by auto
  qed
qed

lemma incr80_spec:
  assumes "\<forall>b \<in> set bs. b < 256" "incr80 bs = (c, r)"
  shows "length r = length bs \<and> (\<forall>b \<in> set r. b < 256) \<and>
    radix_val 256 r + (if c then 256 ^ length bs else 0) = radix_val 256 bs + 1"
  using incr_rev_spec [of "rev bs" c "rev r"] assms
  by (auto simp: incr80_def split: prod.splits)

lemma gen_val_bounds:
  "gen_ok g \<Longrightarrow> lastMS g * 2 ^ 80 \<le> gen_val g \<and> gen_val g < (lastMS g + 1) * 2 ^ 80"
  using radix_val_less [of "lastRand g" 256] by (auto simp: gen_val_def gen_ok_def)

text \<open>One call keeps the generator well formed and moves its value strictly up, or fails to only
  when the timestamp leaves its 48 bits.\<close>

lemma mint_step:
  assumes "gen_ok g" "input_ok (now, fresh)" "mint now fresh g = (s, g')" "lastMS g < 2 ^ 48"
  shows "gen_ok g'" "seeded g'" "s = encode (gen_data g')" "lastMS g \<le> lastMS g' \<or> \<not> seeded g"
    "seeded g \<Longrightarrow> gen_val g < gen_val g'"
proof -
  obtain c r where cr: "incr80 (lastRand g) = (c, r)" by (cases "incr80 (lastRand g)")
  have sp: "length r = 10" "\<forall>b \<in> set r. b < 256"
    "radix_val 256 r + (if c then 256 ^ 10 else 0) = radix_val 256 (lastRand g) + 1"
    using incr80_spec [OF _ cr] assms(1) by (auto simp: gen_ok_def)
  have small: "(lastMS g + 1) mod 2 ^ 64 = lastMS g + 1" using assms(4) by simp
  show "gen_ok g'" "seeded g'" "s = encode (gen_data g')" "lastMS g \<le> lastMS g' \<or> \<not> seeded g"
    using assms sp small
    by (auto simp: mint_def cr gen_ok_def input_ok_def gen_data_def Let_def split: if_splits)
  show "gen_val g < gen_val g'" if sd: "seeded g"
  proof (cases "lastMS g < now")
    case True
    then have "(lastMS g + 1) * 2 ^ 80 \<le> now * 2 ^ 80" by (intro mult_le_mono1) simp
    with True assms sd show ?thesis
      using gen_val_bounds [OF assms(1)] by (auto simp: mint_def gen_val_def Let_def)
  next
    case False
    with assms(3) sd sp(3) small show ?thesis
      by (auto simp: mint_def cr gen_val_def Let_def split: if_splits)
  qed
qed

lemma mint_lastMS_bound:
  "mint now fresh g = (s, g') \<Longrightarrow> lastMS g \<le> b \<Longrightarrow> now \<le> b \<Longrightarrow> lastMS g' \<le> b + 1"
  by (auto simp: mint_def Let_def split: if_splits prod.splits intro: order_trans [OF mod_less_eq_dividend])

lemma mint_all_sorted:
  assumes "gen_ok g" "seeded g" "\<forall>x \<in> set xs. input_ok x \<and> fst x \<le> b" "lastMS g \<le> b"
    and "b + length xs < 2 ^ 48" "mint_all xs g = (ss, g')"
  shows "sorted_wrt (<) (encode (gen_data g) # ss) \<and> (\<forall>s \<in> set ss. Valid s)"
  using assms
proof (induction xs arbitrary: g ss b)
  case Nil
  then show ?case by simp
next
  case (Cons x xs)
  obtain now fresh where x: "x = (now, fresh)" by (cases x)
  obtain s g1 where m: "mint now fresh g = (s, g1)" by (cases "mint now fresh g")
  obtain ss1 where ms: "mint_all xs g1 = (ss1, g')" "ss = s # ss1"
    using Cons.prems(6) x m by (auto split: prod.splits)
  have lt: "lastMS g < 2 ^ 48" and inp: "input_ok (now, fresh)" "now \<le> b"
    using Cons.prems x by auto
  note st = mint_step [OF Cons.prems(1) inp(1) m lt]
  have lm: "lastMS g1 \<le> b + 1" using m Cons.prems(4) inp(2) by (rule mint_lastMS_bound)
  then have lt1: "lastMS g1 < 2 ^ 48" using Cons.prems(5) by simp
  have "\<forall>x \<in> set xs. input_ok x \<and> fst x \<le> b + 1" using Cons.prems(3) by auto
  from Cons.IH [OF st(1,2) this lm _ ms(1)] Cons.prems(5)
  have IH: "sorted_wrt (<) (encode (gen_data g1) # ss1)" "\<forall>s \<in> set ss1. Valid s" by auto
  have "encode (gen_data g) < s"
    using st(5) Cons.prems(1,2) gen_data_val [OF Cons.prems(1) lt] gen_data_val [OF st(1) lt1]
    unfolding st(3) by (simp add: encode_less)
  then show ?case
    using IH st(3) ms(2) encode_valid [OF gen_data_val(1) [OF st(1) lt1]]
    by (auto intro: order_less_trans)
qed

lemma monotonic_ok: "gen_ok (monotonic flr)"
  using valid_decodes [of flr]
  by (cases "Valid flr")
     (auto simp: monotonic_def gen_ok_def decode_def data16_def dest: in_set_dropD)

lemma monotonic_floor:
  assumes "Valid flr"
  shows "seeded (monotonic flr) \<and> encode (gen_data (monotonic flr)) = flr"
proof -
  obtain d where d: "decode flr = Some d" "data16 d" "encode d = flr"
    using valid_decodes [OF assms] by auto
  let ?t = "take 6 d"
  have t: "length ?t = 6" "\<forall>b \<in> set ?t. b < 256"
    using d(2) by (auto simp: data16_def dest: in_set_takeD)
  then have "radix_val 256 ?t < 2 ^ 48" using radix_val_less [of ?t 256] by simp
  then have "ms_bytes (radix_val 256 ?t) = ?t"
    using t ms_bytes_bytes by (intro radix_val_inj [of _ _ 256]) (simp_all add: radix_ms_bytes)
  then show ?thesis using d by (simp add: monotonic_def gen_data_def)
qed

lemma mint_unseeded_first:
  assumes "\<not> seeded g" "input_ok (now, fresh)" "mint now fresh g = (s, g')" "now < 2 ^ 48"
  shows "gen_ok g' \<and> seeded g' \<and> s = encode (gen_data g') \<and> Valid s \<and> lastMS g' = now"
proof -
  have g': "g' = \<lparr>lastMS = now, lastRand = fresh, seeded = True\<rparr>" and s: "s = encode (gen_data g')"
    using assms by (auto simp: mint_def gen_data_def Let_def)
  then have "gen_ok g'" using assms(2) by (simp add: gen_ok_def input_ok_def)
  then show ?thesis using g' s assms(4) encode_valid [OF gen_data_val(1)] by auto
qed

text \<open>C39. A generator hands out valid, strictly increasing identifiers whatever the clock does, and every one of
  them sorts after a valid floor it was started from.\<close>

theorem mint_all_increasing:
  assumes "\<forall>x \<in> set xs. input_ok x \<and> fst x \<le> b" "lastMS (monotonic flr) \<le> b" "b + length xs < 2 ^ 48"
  shows "sorted_wrt (<) (fst (mint_all xs (monotonic flr))) \<and>
    (\<forall>s \<in> set (fst (mint_all xs (monotonic flr))). Valid s \<and> (Valid flr \<longrightarrow> flr < s))"
proof (cases "Valid flr")
  case True
  then show ?thesis
    using mint_all_sorted [OF monotonic_ok _ assms, of "fst (mint_all xs (monotonic flr))"]
      monotonic_floor [OF True]
    by (cases "mint_all xs (monotonic flr)") auto
next
  case False
  then have ns: "\<not> seeded (monotonic flr)" by (simp add: monotonic_def decode_def)
  show ?thesis
  proof (cases xs)
    case Nil
    then show ?thesis by simp
  next
    case (Cons x ys)
    obtain now fresh where x: "x = (now, fresh)" by (cases x)
    obtain s g1 where m: "mint now fresh (monotonic flr) = (s, g1)"
      by (cases "mint now fresh (monotonic flr)")
    obtain ss g2 where ms: "mint_all ys g1 = (ss, g2)" by (cases "mint_all ys g1")
    from mint_unseeded_first [OF ns _ m] assms Cons x
    have g1: "gen_ok g1" "seeded g1" "s = encode (gen_data g1)" "Valid s" "lastMS g1 \<le> b" by auto
    from mint_all_sorted [OF g1(1,2) _ g1(5) _ ms] assms Cons g1 False x m ms
    show ?thesis by (auto split: prod.splits)
  qed
qed

theorem mint_all_increasing_witness:
  "sorted_wrt (<) (fst (mint_all [(5, replicate 10 255), (3, replicate 10 7)] (monotonic ''U'')))"
  by (rule mint_all_increasing [of _ 5, THEN conjunct1])
     (simp_all add: input_ok_def monotonic_def decode_def Valid_def)

end
