(* ===== verification/Compile.thy ===== *)
theory Compile
  imports Condition Schedule Expr Vocab Ulid
begin

text \<open>
  The rule compiler, \<open>internal/rules/compile\<close>: validation of an authored rule against the closed
  vocabulary, its classification into edge and app, and the checks of the expressions in its
  actions.  Errors carry their code and field; message texts are omitted.  A path is the string the
  source formats.
\<close>

section \<open>Errors and entries\<close>

record compile_error =
  ce_code :: string
  ce_field :: string

record app_reason =
  ar_field :: string
  ar_type :: string
  ar_value :: string

record compiled_entry =
  en_rule :: string
  en_class_of :: string
  en_reasons :: "app_reason list"

definition codeUnknownVocabularyMember :: string where "codeUnknownVocabularyMember = ''UNKNOWN_VOCABULARY_MEMBER''"
definition codeUnknownFilter :: string where "codeUnknownFilter = ''UNKNOWN_FILTER''"
definition codeEdgeExpressionCrossEntity :: string where
  "codeEdgeExpressionCrossEntity = ''EDGE_EXPRESSION_CROSS_ENTITY_REFERENCE''"
definition codeEntityRefAmbiguous :: string where "codeEntityRefAmbiguous = ''ENTITY_REF_AMBIGUOUS''"
definition codeScreenRefAmbiguous :: string where "codeScreenRefAmbiguous = ''SCREEN_REF_AMBIGUOUS''"
definition codeSignageContentAmbiguous :: string where
  "codeSignageContentAmbiguous = ''SIGNAGE_CONTENT_AMBIGUOUS''"
definition codeMemberTypeInvalid :: string where "codeMemberTypeInvalid = ''MEMBER_TYPE_INVALID''"
definition codeModeMaxMissing :: string where "codeModeMaxMissing = ''MODE_MAX_MISSING''"
definition codeModeMaxNotApplicable :: string where "codeModeMaxNotApplicable = ''MODE_MAX_NOT_APPLICABLE''"
definition codeMisfireInvalid :: string where "codeMisfireInvalid = ''MISFIRE_INVALID''"

definition compile_err :: "string \<Rightarrow> string \<Rightarrow> compile_error option" where
  "compile_err code field = Some \<lparr>ce_code = code, ce_field = field\<rparr>"

text \<open>Loops that stop at the first error, and the paths of indexed elements.\<close>

fun first_err :: "('a \<Rightarrow> 'e option) \<Rightarrow> 'a list \<Rightarrow> 'e option" where
  "first_err f [] = None"
| "first_err f (x # xs) = (case f x of Some e \<Rightarrow> Some e | None \<Rightarrow> first_err f xs)"

lemma first_err_cong [fundef_cong]:
  "xs = ys \<Longrightarrow> (\<And>x. x \<in> set ys \<Longrightarrow> f x = g x) \<Longrightarrow> first_err f xs = first_err g ys"
  by (induction xs arbitrary: ys) (auto split: option.split)

lemma first_err_None [simp]: "first_err f xs = None \<longleftrightarrow> list_all (\<lambda>x. f x = None) xs"
  by (induction xs) (auto split: option.split)

definition indexed :: "'a list \<Rightarrow> (nat \<times> 'a) list" where
  "indexed xs = enumerate 0 xs"

lemma indexed_in: "(i, x) \<in> set (indexed xs) \<Longrightarrow> x \<in> set xs"
  by (auto simp: indexed_def in_set_enumerate_eq)

lemma indexed_all: "list_all (\<lambda>(i, x). P x) (indexed xs) = list_all P xs"
proof -
  have "list_all (\<lambda>(i, x). P x) (enumerate n xs) = list_all P xs" for n
    by (induction xs arbitrary: n) auto
  then show ?thesis by (simp add: indexed_def)
qed

lemma indexed_size [termination_simp]: "(i, x) \<in> set (indexed xs) \<Longrightarrow> size x \<le> size_list size xs"
  by (drule indexed_in) (simp add: size_list_estimation')

lemma indexed_size_less [termination_simp]:
  "(i, x) \<in> set (indexed xs) \<Longrightarrow> size x < Suc (size_list size xs + n)"
  "(i, x) \<in> set (indexed xs) \<Longrightarrow> size x < Suc (n + size_list size xs)"
  "(i, x) \<in> set (indexed xs) \<Longrightarrow> size x < Suc (n + size_list size xs + m)"
  by (auto dest: indexed_size)

definition idx_path :: "string \<Rightarrow> nat \<Rightarrow> string" where
  "idx_path s i = s @ ''['' @ show_nat i @ '']''"

definition child_path :: "string \<Rightarrow> string \<Rightarrow> nat \<Rightarrow> string" where
  "child_path path ck i = (if ck = ''not'' then path @ ''.not'' else idx_path (path @ ''.'' @ ck) i)"

section \<open>Classification\<close>

fun classifyMember :: "kind \<Rightarrow> string \<Rightarrow> member \<Rightarrow> app_reason list"
  and classify_branch :: "string \<Rightarrow> branch \<Rightarrow> app_reason list" where
  "classifyMember k path (Member ty ck ref cs bs ds raw) =
     (if ck \<noteq> '''' then concat (map (\<lambda>(i, c). classifyMember ConditionKind (child_path path ck i) c) (indexed cs))
      else (if ClassOf k ty = App then [\<lparr>ar_field = path, ar_type = ty, ar_value = ''''\<rparr>] else []) @
        (if k = ActionKind \<and> ty = ''choose''
         then concat (map (\<lambda>(j, b). classify_branch (idx_path (path @ ''.branches'') j) b) (indexed bs)) @
              concat (map (\<lambda>(i, a). classifyMember ActionKind (idx_path (path @ ''.default'') i) a) (indexed ds))
         else []))"
| "classify_branch path (Branch c as) =
     classifyMember ConditionKind (path @ ''.condition'') c @
     concat (map (\<lambda>(i, a). classifyMember ActionKind (idx_path (path @ ''.actions'') i) a) (indexed as))"

definition ClassifyRule :: "rule \<Rightarrow> compiled_entry" where
  "ClassifyRule r =
     (let reasons =
        concat (map (\<lambda>(i, m). classifyMember TriggerKind (idx_path ''triggers'' i) m) (indexed (r_triggers r))) @
        concat (map (\<lambda>(i, m). classifyMember ConditionKind (idx_path ''conditions'' i) m) (indexed (r_conditions r))) @
        concat (map (\<lambda>(i, m). classifyMember ActionKind (idx_path ''actions'' i) m) (indexed (r_actions r))) @
        (if ModeClass (r_mode r) = App then [\<lparr>ar_field = ''mode'', ar_type = '''', ar_value = r_mode r\<rparr>] else [])
      in \<lparr>en_rule = r_id r, en_class_of = (if reasons = [] then ''edge'' else ''app''), en_reasons = reasons\<rparr>)"

section \<open>Validation\<close>

definition validateScreenRef :: "signage_members \<Rightarrow> string \<Rightarrow> compile_error option" where
  "validateScreenRef s path =
     (if (if sg_screen_id s \<noteq> '''' then 1 else 0) + (if sg_selector s \<noteq> '''' then 1 else 0) = (1 :: nat) then None
      else compile_err codeScreenRefAmbiguous path)"

definition validateSignageContent :: "string \<Rightarrow> signage_members \<Rightarrow> string \<Rightarrow> compile_error option" where
  "validateSignageContent typ s path =
     (if typ = ActionPlayCast then
        (if sg_cast_id s = '''' then compile_err codeSignageContentAmbiguous (path @ ''.cast_id'') else None)
      else if typ = ActionShowAlert then
        (if (sg_cast_id s = '''') = (sg_message s = '''')
         then compile_err codeSignageContentAmbiguous (path @ ''.cast_id'') else None)
      else None)"

definition validateMisfire :: "member \<Rightarrow> string \<Rightarrow> compile_error option" where
  "validateMisfire m path =
     (if \<not> (m_raw m \<noteq> None \<and> raw_struct_ok m \<and> list_all str_ok (raw_field m ''misfire'')) then None
      else (case dstr_ptr None (raw_field m ''misfire'') of
              None \<Rightarrow> None
            | Some p \<Rightarrow> if ValidMisfire p then None else compile_err codeMisfireInvalid (path @ ''.misfire'')))"

definition validateModeMax :: "rule \<Rightarrow> compile_error option" where
  "validateModeMax r =
     (if r_mode r = ''parallel'' then
        (if r_max r = None then compile_err codeModeMaxMissing ''max'' else None)
      else if r_max r \<noteq> None then compile_err codeModeMaxNotApplicable ''max''
      else None)"

text \<open>The members a signage action is read from; absent JSON decodes to none.\<close>

definition signage_of :: "member \<Rightarrow> member_type_error + signage_members" where
  "signage_of m = (case m_raw m of Some j \<Rightarrow> DecodeSignage j | None \<Rightarrow> Inr no_signage)"

text \<open>The checks of one member itself, before those of the members nested in it.\<close>

definition validate_ref :: "entity_ref option \<Rightarrow> string \<Rightarrow> compile_error option" where
  "validate_ref ref path =
     (case ref of
        None \<Rightarrow> None
      | Some e \<Rightarrow>
          if Present e \<noteq> 1 then compile_err codeEntityRefAmbiguous path
          else if er_entity_id e \<noteq> '''' \<and> \<not> Valid (er_entity_id e)
          then compile_err codeMemberTypeInvalid (path @ ''.entity_id'')
          else None)"

definition validate_signage :: "member \<Rightarrow> string \<Rightarrow> compile_error option" where
  "validate_signage m path =
     (case signage_of m of
        Inl terr \<Rightarrow> compile_err codeMemberTypeInvalid (path @ ''.'' @ te_member terr)
      | Inr s \<Rightarrow> (case validateScreenRef s path of
           Some e \<Rightarrow> Some e
         | None \<Rightarrow> validateSignageContent (m_type m) s path))"

definition validate_leaf :: "kind \<Rightarrow> string \<Rightarrow> member \<Rightarrow> compile_error option" where
  "validate_leaf k path m =
     (if ClassOf k (m_type m) = VUnknown then compile_err codeUnknownVocabularyMember (path @ ''.type'')
      else (case validate_ref (m_ref m) path of
         Some e \<Rightarrow> Some e
       | None \<Rightarrow>
          (case (if k = ActionKind \<and> IsSignageAction (m_type m) then validate_signage m path else None) of
             Some e \<Rightarrow> Some e
           | None \<Rightarrow>
              if k = TriggerKind \<and> (m_type m = ''time'' \<or> m_type m = ''time_pattern'' \<or> m_type m = ''sun'')
              then validateMisfire m path else None)))"

fun validateMember :: "kind \<Rightarrow> string \<Rightarrow> member \<Rightarrow> compile_error option"
  and validate_branch :: "string \<Rightarrow> branch \<Rightarrow> compile_error option" where
  "validateMember k path (Member ty ck ref cs bs ds raw) =
     (if ck \<noteq> '''' then first_err (\<lambda>(i, c). validateMember ConditionKind (child_path path ck i) c) (indexed cs)
      else (case validate_leaf k path (Member ty ck ref cs bs ds raw) of
         Some e \<Rightarrow> Some e
       | None \<Rightarrow>
          if k = ActionKind \<and> ty = ''choose'' then
            (case first_err (\<lambda>(j, b). validate_branch (idx_path (path @ ''.branches'') j) b) (indexed bs) of
               Some e \<Rightarrow> Some e
             | None \<Rightarrow> first_err (\<lambda>(i, a). validateMember ActionKind (idx_path (path @ ''.default'') i) a) (indexed ds))
          else None))"
| "validate_branch path (Branch c as) =
     (case validateMember ConditionKind (path @ ''.condition'') c of
        Some e \<Rightarrow> Some e
      | None \<Rightarrow> first_err (\<lambda>(i, a). validateMember ActionKind (idx_path (path @ ''.actions'') i) a) (indexed as))"

section \<open>Expressions\<close>

text \<open>\<open>collectExprSites\<close>: the values an action may compute, with their paths.\<close>

fun collectExprSites :: "string \<Rightarrow> member \<Rightarrow> (string \<times> json) list"
  and branch_sites :: "string \<Rightarrow> branch \<Rightarrow> (string \<times> json) list" where
  "collectExprSites path (Member ty ck ref cs bs ds raw) =
     (let m = Member ty ck ref cs bs ds raw in
      (if ty = ''log'' then (case draw (raw_field m ''message'') of Some j \<Rightarrow> [(path @ ''.message'', j)] | None \<Rightarrow> []) else []) @
      map (\<lambda>(k, j). (path @ ''.params.'' @ k, j)) (dmap [] (raw_field m ''params'')) @
      (if ty = ''choose''
       then concat (map (\<lambda>(j, b). branch_sites (idx_path (path @ ''.branches'') j) b) (indexed bs)) @
            concat (map (\<lambda>(i, a). collectExprSites (idx_path (path @ ''.default'') i) a) (indexed ds))
       else []))"
| "branch_sites path (Branch c as) =
     concat (map (\<lambda>(i, a). collectExprSites (idx_path (path @ ''.actions'') i) a) (indexed as))"

definition triggerSubjects :: "rule \<Rightarrow> string list \<times> bool" where
  "triggerSubjects r =
     (filter (\<lambda>e. e \<noteq> '''') (map ref_entity (r_triggers r)), list_ex (\<lambda>t. ref_entity t = '''') (r_triggers r))"

definition rule_sites :: "rule \<Rightarrow> (string \<times> json) list" where
  "rule_sites r = concat (map (\<lambda>(i, a). collectExprSites (idx_path ''actions'' i) a) (indexed (r_actions r)))"

definition site_err :: "bool \<Rightarrow> string list \<Rightarrow> bool \<Rightarrow> string \<times> json \<Rightarrow> compile_error option" where
  "site_err is_edge allowed dynamic = (\<lambda>(path, raw).
     case Parse raw of
       Inl code \<Rightarrow> if code = CodeUnknownFilter then compile_err codeUnknownFilter path else None
     | Inr e \<Rightarrow>
         if \<not> is_edge \<or> dynamic then None
         else first_err (\<lambda>i. if i \<notin> set allowed then compile_err codeEdgeExpressionCrossEntity path else None)
                (SourceEntities e))"

definition validateExpressions :: "rule \<Rightarrow> compile_error option" where
  "validateExpressions r =
     (case triggerSubjects r of (allowed, dynamic) \<Rightarrow>
        first_err (site_err (en_class_of (ClassifyRule r) = ''edge'') allowed dynamic) (rule_sites r))"

definition validate_list :: "kind \<Rightarrow> string \<Rightarrow> member list \<Rightarrow> compile_error option" where
  "validate_list k path ms = first_err (\<lambda>(i, m). validateMember k (idx_path path i) m) (indexed ms)"

definition ValidateRule :: "rule \<Rightarrow> compile_error option" where
  "ValidateRule r =
     first_err (\<lambda>check. check)
       [validate_list TriggerKind ''triggers'' (r_triggers r),
        validate_list ConditionKind ''conditions'' (r_conditions r),
        validate_list ActionKind ''actions'' (r_actions r),
        if ModeClass (r_mode r) = VUnknown then compile_err codeUnknownVocabularyMember ''mode'' else None,
        validateModeMax r,
        validateExpressions r]"

definition Compile :: "json \<Rightarrow> compile_error + compiled_entry" where
  "Compile raw =
     (case ParseRule raw of
        None \<Rightarrow> Inl \<lparr>ce_code = codeUnknownVocabularyMember, ce_field = ''''\<rparr>
      | Some r \<Rightarrow> (case ValidateRule r of Some e \<Rightarrow> Inl e | None \<Rightarrow> Inr (ClassifyRule r)))"

section \<open>Members with their kinds\<close>

text \<open>Every member that is not a composition, at every depth, with the kind of its place.\<close>

fun kinded :: "kind \<Rightarrow> member \<Rightarrow> (kind \<times> member) list"
  and branch_kinded :: "branch \<Rightarrow> (kind \<times> member) list" where
  "kinded k (Member ty ck ref cs bs ds raw) =
     (if ck \<noteq> '''' then concat (map (kinded ConditionKind) cs)
      else (k, Member ty ck ref cs bs ds raw) #
        (if k = ActionKind \<and> ty = ''choose''
         then concat (map branch_kinded bs) @ concat (map (kinded ActionKind) ds) else []))"
| "branch_kinded (Branch c as) = kinded ConditionKind c @ concat (map (kinded ActionKind) as)"

definition rule_kinded :: "rule \<Rightarrow> (kind \<times> member) list" where
  "rule_kinded r =
     concat (map (kinded TriggerKind) (r_triggers r)) @ concat (map (kinded ConditionKind) (r_conditions r)) @
     concat (map (kinded ActionKind) (r_actions r))"

definition app_types :: "(kind \<times> member) list \<Rightarrow> string list" where
  "app_types kms = map (\<lambda>(k, m). m_type m) (filter (\<lambda>(k, m). ClassOf k (m_type m) = App) kms)"

lemma app_types_simps [simp]:
  "app_types [] = []" "app_types (a @ b) = app_types a @ app_types b"
  "app_types (km # kms) = (if ClassOf (fst km) (m_type (snd km)) = App then [m_type (snd km)] else []) @ app_types kms"
  by (auto simp: app_types_def split_def)

lemma app_types_concat [simp]: "app_types (concat kmss) = concat (map app_types kmss)"
  by (induction kmss) auto

lemma indexed_concat:
  assumes "\<And>i x. x \<in> set xs \<Longrightarrow> map h (f i x) = g x"
  shows "map h (concat (map (\<lambda>(i, x). f i x) (indexed xs))) = concat (map g xs)"
proof -
  have "map h (concat (map (\<lambda>(i, x). f i x) (enumerate n xs))) = concat (map g xs)" for n
    using assms by (induction xs arbitrary: n) auto
  then show ?thesis by (simp add: indexed_def)
qed

lemma classify_types:
  "map ar_type (classifyMember k path m) = app_types (kinded k m)"
  "map ar_type (classify_branch path b) = app_types (branch_kinded b)"
proof (induction m and b arbitrary: k path and path)
  case (Member ty ck ref cs bs ds raw)
  then show ?case
    by (auto simp: comp_def indexed_concat [where g = "\<lambda>x. app_types (kinded ConditionKind x)"]
        indexed_concat [where g = "\<lambda>x. app_types (kinded ActionKind x)"]
        indexed_concat [where g = "\<lambda>x. app_types (branch_kinded x)"] simp del: map_concat)
next
  case (Branch c as)
  then show ?case
    by (simp add: comp_def indexed_concat [where g = "\<lambda>x. app_types (kinded ActionKind x)"] del: map_concat)
qed

section \<open>Validity\<close>

text \<open>What a valid member is, stated on its own: no order of checks, no paths.\<close>

definition valid_signage :: "string \<Rightarrow> signage_members \<Rightarrow> bool" where
  "valid_signage ty s \<longleftrightarrow> (sg_screen_id s = '''') \<noteq> (sg_selector s = '''') \<and>
     (ty = ''play_cast'' \<longrightarrow> sg_cast_id s \<noteq> '''') \<and>
     (ty = ''show_alert'' \<longrightarrow> (sg_cast_id s = '''') \<noteq> (sg_message s = ''''))"

definition valid_misfire :: "member \<Rightarrow> bool" where
  "valid_misfire m \<longleftrightarrow> (\<forall>p. m_raw m \<noteq> None \<and> raw_struct_ok m \<and> list_all str_ok (raw_field m ''misfire'') \<and>
     dstr_ptr None (raw_field m ''misfire'') = Some p \<longrightarrow> p \<in> {''skip'', ''catch_up_once'', ''fire_each''})"

definition leaf_valid :: "kind \<Rightarrow> member \<Rightarrow> bool" where
  "leaf_valid k m \<longleftrightarrow>
     ClassOf k (m_type m) \<in> {Edge, App} \<and>
     (\<forall>e. m_ref m = Some e \<longrightarrow> Present e = 1 \<and> (er_entity_id e = '''' \<or> Valid (er_entity_id e))) \<and>
     (k = ActionKind \<and> m_type m \<in> {''play_cast'', ''show_alert'', ''dismiss_alert''} \<longrightarrow>
        (\<exists>s. signage_of m = Inr s \<and> valid_signage (m_type m) s)) \<and>
     (k = TriggerKind \<and> m_type m \<in> {''time'', ''time_pattern'', ''sun''} \<longrightarrow> valid_misfire m)"

lemma compile_err_Some [simp]: "compile_err c f \<noteq> None"
  by (simp add: compile_err_def)

lemma validate_signage_None:
  "validate_signage m path = None \<longleftrightarrow> (\<exists>s. signage_of m = Inr s \<and> valid_signage (m_type m) s)"
  by (auto simp: validate_signage_def validateScreenRef_def validateSignageContent_def valid_signage_def action_names
      split: sum.split option.split if_splits)

lemma validateMisfire_None: "validateMisfire m path = None \<longleftrightarrow> valid_misfire m"
  by (auto simp: validateMisfire_def valid_misfire_def ValidMisfire_def split: option.split)

lemma chain_None [simp]: "(case x of None \<Rightarrow> y | Some e \<Rightarrow> Some e) = None \<longleftrightarrow> x = None \<and> y = None"
  by (simp split: option.split)

lemma first_err_indexed:
  assumes "\<And>i x. x \<in> set xs \<Longrightarrow> f i x = None \<longleftrightarrow> P x"
  shows "first_err (\<lambda>(i, x). f i x) (indexed xs) = None \<longleftrightarrow> list_all P xs"
proof -
  have "first_err (\<lambda>(i, x). f i x) (enumerate n xs) = None \<longleftrightarrow> list_all P xs" for n
    using assms by (induction xs arbitrary: n) auto
  then show ?thesis by (simp add: indexed_def)
qed

lemma validate_ref_None:
  "validate_ref ref path = None \<longleftrightarrow>
    (\<forall>e. ref = Some e \<longrightarrow> Present e = 1 \<and> (er_entity_id e = '''' \<or> Valid (er_entity_id e)))"
  by (cases ref) (auto simp: validate_ref_def)

lemma validate_leaf_None: "validate_leaf k path m = None \<longleftrightarrow> leaf_valid k m"
proof -
  have "ClassOf k (m_type m) \<in> {Edge, App} \<longleftrightarrow> ClassOf k (m_type m) \<noteq> VUnknown"
    by (cases "ClassOf k (m_type m)") simp_all
  then show ?thesis
    unfolding validate_leaf_def leaf_valid_def
    by (simp add: validate_signage_None validateMisfire_None validate_ref_None IsSignageAction_def action_names)
      blast
qed

lemma list_all_concat: "list_all P (concat xss) = list_all (list_all P) xss"
  by (induction xss) auto

lemma validateMember_None:
  "validateMember k path m = None \<longleftrightarrow> list_all (\<lambda>(k, m). leaf_valid k m) (kinded k m)"
  "validate_branch path b = None \<longleftrightarrow> list_all (\<lambda>(k, m). leaf_valid k m) (branch_kinded b)"
proof (induction m and b arbitrary: k path and path)
  case (Member ty ck ref cs bs ds raw)
  let ?v = "\<lambda>(k, m). leaf_valid k m"
  note cs = first_err_indexed [of cs "\<lambda>i c. validateMember ConditionKind (child_path path ck i) c"
      "\<lambda>c. list_all ?v (kinded ConditionKind c)"]
    and bs = first_err_indexed [of bs "\<lambda>j b. validate_branch (idx_path (path @ ''.branches'') j) b"
      "\<lambda>b. list_all ?v (branch_kinded b)"]
    and ds = first_err_indexed [of ds "\<lambda>i a. validateMember ActionKind (idx_path (path @ ''.default'') i) a"
      "\<lambda>a. list_all ?v (kinded ActionKind a)"]
  show ?case
    using Member cs bs ds
    by (simp add: validate_leaf_None list_all_concat list.pred_map comp_def del: first_err_None)
next
  case (Branch c as)
  let ?v = "\<lambda>(k, m). leaf_valid k m"
  note as = first_err_indexed [of as "\<lambda>i a. validateMember ActionKind (idx_path (path @ ''.actions'') i) a"
      "\<lambda>a. list_all ?v (kinded ActionKind a)"]
  show ?case
    using Branch as by (simp add: list_all_concat list.pred_map comp_def del: first_err_None)
qed

lemma validate_list_None:
  "validate_list k path ms = None \<longleftrightarrow> list_all (\<lambda>(k, m). leaf_valid k m) (concat (map (kinded k) ms))"
  unfolding validate_list_def
  by (subst first_err_indexed [where P = "\<lambda>m. list_all (\<lambda>(k, m). leaf_valid k m) (kinded k m)"])
    (simp_all add: validateMember_None list_all_concat list.pred_map comp_def del: first_err_None)

lemma ClassifyRule_types:
  "map ar_type (en_reasons (ClassifyRule r)) =
     app_types (rule_kinded r) @ (if ModeClass (r_mode r) = App then [''''] else [])"
proof -
  have list: "map ar_type (concat (map (\<lambda>(i, m). classifyMember k (idx_path p i) m) (indexed ms)))
      = concat (map (\<lambda>m. app_types (kinded k m)) ms)" for k p ms
    by (rule indexed_concat) (rule classify_types)
  show ?thesis
    by (simp add: ClassifyRule_def Let_def rule_kinded_def list comp_def del: map_concat)
qed

lemma ClassifyRule_edge:
  "en_class_of (ClassifyRule r) = ''edge'' \<longleftrightarrow>
     (\<forall>(k, m) \<in> set (rule_kinded r). ClassOf k (m_type m) \<noteq> App) \<and> ModeClass (r_mode r) \<noteq> App"
proof -
  have "en_class_of (ClassifyRule r) = ''edge'' \<longleftrightarrow> map ar_type (en_reasons (ClassifyRule r)) = []"
    by (simp add: ClassifyRule_def Let_def)
  then show ?thesis by (auto simp: ClassifyRule_types app_types_def filter_empty_conv)
qed

text \<open>Classification is exact: the reasons name every app-class member, at every depth and in
  document order, and an app-class mode, and nothing else; a rule is edge exactly when there is
  none.\<close>

theorem ClassifyRule_exact:
  "map ar_type (en_reasons (ClassifyRule r)) =
     app_types (rule_kinded r) @ (if ModeClass (r_mode r) = App then [''''] else [])
   \<and> (en_class_of (ClassifyRule r) = ''edge'' \<longleftrightarrow>
       (\<forall>(k, m) \<in> set (rule_kinded r). ClassOf k (m_type m) \<noteq> App) \<and> ModeClass (r_mode r) \<noteq> App)"
  by (simp only: ClassifyRule_types ClassifyRule_edge)

lemma ValidateRule_None:
  "ValidateRule r = None \<longleftrightarrow>
     list_all (\<lambda>(k, m). leaf_valid k m) (rule_kinded r) \<and> ModeClass (r_mode r) \<noteq> VUnknown \<and>
     (r_mode r = ''parallel'' \<longleftrightarrow> r_max r \<noteq> None) \<and> validateExpressions r = None"
  by (auto simp: ValidateRule_def validate_list_None rule_kinded_def validateModeMax_def)

text \<open>A rule passes the validator exactly when every member, at every depth, is a member of the closed
  vocabulary of its place, its reference names exactly one thing and its entity a canonical ULID,
  its signage content and its misfire policy are unambiguous, its mode is known, \<open>max\<close> is given for
  the mode \<open>parallel\<close> and for no other, and its expressions pass.\<close>

theorem ValidateRule_exact:
  "ValidateRule r = None \<longleftrightarrow>
     (\<forall>(k, m) \<in> set (rule_kinded r). leaf_valid k m) \<and>
     r_mode r \<in> {'''', ''single'', ''restart'', ''queued'', ''parallel''} \<and>
     (r_mode r = ''parallel'' \<longleftrightarrow> r_max r \<noteq> None) \<and> validateExpressions r = None"
  by (auto simp: ValidateRule_None list_all_iff ModeClass_def)

lemma triggerSubjects_static:
  "\<forall>t \<in> set (r_triggers r). ref_entity t \<noteq> '''' \<Longrightarrow> triggerSubjects r = (map ref_entity (r_triggers r), False)"
  by (auto simp: triggerSubjects_def list_ex_iff)

lemma site_sources:
  assumes "site_err True allowed False (path, raw) = None" "Parse raw = Inr e"
  shows "set (SourceEntities e) \<subseteq> set allowed"
  using assms by (auto simp: site_err_def list_all_iff split: if_splits)

lemma Compile_cases:
  assumes "Compile j = Inr entry" "ParseRule j = Some r"
  shows "ValidateRule r = None \<and> entry = ClassifyRule r"
  using assms by (simp add: Compile_def split: option.splits)

text \<open>The expressions of a compiled edge rule are local.  When every trigger names its entity, an
  expression anywhere in the rule's actions reads nothing but the entities of the triggers: it has
  the same value over any two snapshots that agree on those.\<close>

theorem edge_expressions_local:
  assumes "Compile j = Inr entry" "en_class_of entry = ''edge''" "ParseRule j = Some r"
    and "\<forall>t \<in> set (r_triggers r). ref_entity t \<noteq> ''''"
    and "(path, raw) \<in> set (rule_sites r)" "Parse raw = Inr e"
    and "\<forall>t \<in> set (r_triggers r). snap' (ref_entity t) = xe_snap env (ref_entity t)"
  shows "Evaluate e (env\<lparr>xe_snap := snap'\<rparr>) = Evaluate e env"
proof -
  have "validateExpressions r = None" "en_class_of (ClassifyRule r) = ''edge''"
    using Compile_cases [OF assms(1,3)] assms(2) by (auto simp: ValidateRule_None)
  then have "site_err True (map ref_entity (r_triggers r)) False (path, raw) = None"
    using triggerSubjects_static [OF assms(4)] assms(5) by (auto simp: validateExpressions_def list_all_iff)
  then have "set (SourceEntities e) \<subseteq> ref_entity ` set (r_triggers r)"
    using site_sources [OF _ assms(6), of "map ref_entity (r_triggers r)" path] by simp
  then show ?thesis
    using assms(7) by (intro Evaluate_agree) (auto simp: agree_def nowMillis_def inScope_def)
qed

definition demo_edge_rule :: json where
  "demo_edge_rule = JObj
     [(''id'', JStr ''R''),
      (''triggers'', JArr [JObj [(''type'', JStr ''state''), (''entity_id'', JStr ''01ARZ3NDEKTSV4RRFFQ69G5FAV'')]]),
      (''actions'', JArr [JObj [(''type'', JStr ''log''),
         (''message'', JObj [(''expr'', JStr (''state('' @ [dquote] @ ''01ARZ3NDEKTSV4RRFFQ69G5FAV'' @ [dquote] @ '')''))])]])]"

text \<open>What the text decodes to, and its first expression.\<close>

definition demo_edge :: rule where
  "demo_edge = \<lparr>r_id = ''R'', r_mode = '''', r_max = None,
     r_triggers = [Member ''state'' ''''
       (Some \<lparr>er_entity_id = ''01ARZ3NDEKTSV4RRFFQ69G5FAV'', er_selector = '''', er_device_class = ''''\<rparr>) [] [] []
       (Some (JObj [(''type'', JStr ''state''), (''entity_id'', JStr ''01ARZ3NDEKTSV4RRFFQ69G5FAV'')]))],
     r_conditions = [],
     r_actions = [Member ''log'' '''' None [] [] []
       (Some (JObj [(''type'', JStr ''log''),
         (''message'', JObj [(''expr'', JStr (''state('' @ [dquote] @ ''01ARZ3NDEKTSV4RRFFQ69G5FAV'' @ [dquote] @ '')''))])]))]\<rparr>"

definition demo_site :: expr where
  "demo_site = \<lparr>ex_literal = None,
     ex_pipeline = Some \<lparr>pl_source = \<lparr>so_literal = None,
         so_call = Some \<lparr>c_name = ''state'', c_args = [GStr ''01ARZ3NDEKTSV4RRFFQ69G5FAV'']\<rparr>\<rparr>, pl_filters = []\<rparr>\<rparr>"

lemma demo_edge_parsed: "ParseRule demo_edge_rule = Some demo_edge"
  by code_simp

lemma demo_edge_facts:
  "ValidateRule demo_edge = None" "en_class_of (ClassifyRule demo_edge) = ''edge''"
  "map (\<lambda>(p, j). Parse j) (rule_sites demo_edge) = [Inr demo_site]"
  by code_simp+

theorem edge_expressions_local_witness:
  "SourceEntities demo_site = [''01ARZ3NDEKTSV4RRFFQ69G5FAV'']
   \<and> Evaluate demo_site ((demo_xenv ''A'')\<lparr>xe_snap := Map.empty\<rparr>) = Evaluate demo_site (demo_xenv ''A'')"
proof -
  obtain p raw where s: "(p, raw) \<in> set (rule_sites demo_edge)" "Parse raw = Inr demo_site"
    using demo_edge_facts(3) by (cases "rule_sites demo_edge") auto
  have c: "Compile demo_edge_rule = Inr (ClassifyRule demo_edge)"
    by (simp add: Compile_def demo_edge_parsed demo_edge_facts)
  show ?thesis
    using edge_expressions_local [OF c demo_edge_facts(2) demo_edge_parsed _ s, of Map.empty "demo_xenv ''A''"]
    by (simp add: demo_edge_def ref_entity_def demo_xenv_def demo_site_def SourceEntities_def)
qed

theorem ClassifyRule_exact_witness:
  "rule_kinded demo_edge \<noteq> [] \<and> map ar_type (en_reasons (ClassifyRule demo_edge)) = []"
  using ClassifyRule_exact [of demo_edge] demo_edge_facts(2)
  by (auto simp: rule_kinded_def demo_edge_def app_types_def filter_empty_conv)

theorem ValidateRule_exact_witness:
  "length (rule_kinded demo_edge) = 2 \<and> leaf_valid TriggerKind (hd (r_triggers demo_edge))"
  using ValidateRule_exact [of demo_edge] demo_edge_facts(1)
  by (simp add: rule_kinded_def demo_edge_def)

end
