(* ===== verification/Action.thy ===== *)
theory Action
  imports Condition Vocab
begin

text \<open>
  Running a rule's actions, \<open>internal/rules/eval/action.go\<close>.  The sinks an action calls are
  parameters: each is a function of the effects so far and of its arguments, so a sink may answer
  differently every time.  What a run does is its list of effects in order: calls of the sinks and
  records appended to the context's recorders.  Reasons of failures are a datatype; their texts are
  omitted.
\<close>

section \<open>Results and effects\<close>

type_synonym params = "(string \<times> gval) list"

datatype reason =
    NoCommandSink | NotInVocabulary | SinkError string | SignageMemberType member_type_error
  | NoCastId | NeitherCastNorMessage | BothCastAndMessage | NotAnObject | NoVariable | VariableNotString
  | NoValue | ValueFailed | NoAction | ActionNotString | ParamsNotObject | SinkFailure

record preset_command =
  pc_entity :: string
  pc_command :: string
  pc_params :: params

record command_result =
  cr_target :: string
  cr_command :: string
  cr_ok :: bool
  cr_error :: "reason option"

record batch_outcome =
  bo_outcome :: string
  bo_results :: "command_result list"

record screen_ref =
  sr_screen :: string
  sr_selector :: string

record screen_result =
  sc_screen :: string
  sc_ok :: bool
  sc_error :: "reason option"

record signage_outcome =
  sg_action :: string
  sg_outcome :: string
  sg_screens :: "screen_result list"
  sg_error :: "reason option"

record variable_outcome =
  vo_variable :: string
  vo_value :: "gval option"
  vo_ok :: bool
  vo_error :: "reason option"

record pack_outcome =
  po_name :: string
  po_ok :: bool
  po_error :: "reason option"

record log_entry =
  le_level :: string
  le_message :: string

datatype signage_call =
    PlayCast screen_ref string
  | ShowAlert screen_ref string string int
  | DismissAlert screen_ref

datatype effect =
    Dispatch string string params
  | SignageCall signage_call
  | WriteVariable string gval
  | InvokePackAction string params
  | RecOutcome batch_outcome
  | RecRejected command_result
  | RecLog log_entry
  | RecSignage signage_outcome
  | RecVariable variable_outcome
  | RecPack pack_outcome

text \<open>The context.  A nil sink or function is \<open>None\<close>; the flags say which recorders are there.\<close>

record action_ctx =
  ac_reg :: "registry option"
  ac_snap :: snapshot
  ac_wall :: int
  ac_mono :: int
  ac_loc :: location
  ac_math :: mathlib
  ac_vars :: "string \<rightharpoonup> gval"
  ac_sink :: "(effect list \<Rightarrow> string \<Rightarrow> string \<Rightarrow> params \<Rightarrow> string option) option"
  ac_presets :: "(string \<Rightarrow> preset_command list option) option"
  ac_resolve :: "(entity_ref \<Rightarrow> string list) option"
  ac_signage :: "(effect list \<Rightarrow> signage_call \<Rightarrow> signage_outcome) option"
  ac_variables :: "(effect list \<Rightarrow> string \<Rightarrow> gval \<Rightarrow> variable_outcome) option"
  ac_pack :: "(effect list \<Rightarrow> string \<Rightarrow> params \<Rightarrow> pack_outcome) option"
  ac_eval :: "(json \<Rightarrow> gval option) option"
  ac_rec_outcomes :: bool
  ac_rec_logs :: bool
  ac_rec_rejected :: bool
  ac_rec_signage :: bool
  ac_rec_variables :: bool
  ac_rec_pack :: bool

record delay_pending =
  dp_remaining :: "member list"
  dp_resume :: int

section \<open>Outcomes\<close>

definition outcomeFor :: "command_result list \<Rightarrow> string" where
  "outcomeFor results =
     (let ok = length (filter cr_ok results); fail = length (filter (\<lambda>r. \<not> cr_ok r) results)
      in if fail = 0 then ''complete'' else if ok = 0 then ''failed'' else ''partial'')"

definition SignageOutcomeFor :: "string \<Rightarrow> screen_result list \<Rightarrow> signage_outcome" where
  "SignageOutcomeFor action results =
     \<lparr>sg_action = action,
      sg_outcome = outcomeFor (map (\<lambda>r. \<lparr>cr_target = sc_screen r, cr_command = '''', cr_ok = sc_ok r, cr_error = sc_error r\<rparr>) results),
      sg_screens = results, sg_error = None\<rparr>"

definition FailedSignageOutcome :: "string \<Rightarrow> reason \<Rightarrow> signage_outcome" where
  "FailedSignageOutcome action r = \<lparr>sg_action = action, sg_outcome = ''failed'', sg_screens = [], sg_error = Some r\<rparr>"

definition failedVariableOutcome :: "string \<Rightarrow> reason \<Rightarrow> variable_outcome" where
  "failedVariableOutcome name r = \<lparr>vo_variable = name, vo_value = None, vo_ok = False, vo_error = Some r\<rparr>"

definition failedPackActionOutcome :: "string \<Rightarrow> reason \<Rightarrow> pack_outcome" where
  "failedPackActionOutcome name r = \<lparr>po_name = name, po_ok = False, po_error = Some r\<rparr>"

definition recordOutcome :: "action_ctx \<Rightarrow> command_result list \<Rightarrow> effect list \<Rightarrow> effect list" where
  "recordOutcome ctx results st =
     (if ac_rec_outcomes ctx then st @ [RecOutcome \<lparr>bo_outcome = outcomeFor results, bo_results = results\<rparr>] else st)"

definition recordRejected :: "action_ctx \<Rightarrow> string \<Rightarrow> string \<Rightarrow> reason \<Rightarrow> effect list \<Rightarrow> effect list" where
  "recordRejected ctx e cmd r st =
     (if ac_rec_rejected ctx
      then st @ [RecRejected \<lparr>cr_target = e, cr_command = cmd, cr_ok = False, cr_error = Some r\<rparr>] else st)"

definition recordSignage :: "action_ctx \<Rightarrow> signage_outcome \<Rightarrow> effect list \<Rightarrow> effect list" where
  "recordSignage ctx out st = (if ac_rec_signage ctx then st @ [RecSignage out] else st)"

definition recordVariable :: "action_ctx \<Rightarrow> variable_outcome \<Rightarrow> effect list \<Rightarrow> effect list" where
  "recordVariable ctx out st = (if ac_rec_variables ctx then st @ [RecVariable out] else st)"

definition recordPackAction :: "action_ctx \<Rightarrow> pack_outcome \<Rightarrow> effect list \<Rightarrow> effect list" where
  "recordPackAction ctx out st = (if ac_rec_pack ctx then st @ [RecPack out] else st)"

section \<open>Commands\<close>

definition commandAllowed :: "action_ctx \<Rightarrow> string \<Rightarrow> string \<Rightarrow> bool" where
  "commandAllowed ctx e cmd =
     (case ac_reg ctx of
        None \<Rightarrow> True
      | Some reg \<Rightarrow> (case ac_snap ctx e of None \<Rightarrow> False | Some ent \<Rightarrow> rg_command reg (en_class ent) cmd))"

definition dispatchOne :: "action_ctx \<Rightarrow> string \<Rightarrow> string \<Rightarrow> params \<Rightarrow> effect list \<Rightarrow> effect list" where
  "dispatchOne ctx e cmd ps st =
     (case ac_sink ctx of
        None \<Rightarrow> recordRejected ctx e cmd NoCommandSink st
      | Some sink \<Rightarrow>
          if \<not> commandAllowed ctx e cmd then recordRejected ctx e cmd NotInVocabulary st
          else st @ [Dispatch e cmd ps])"

definition dispatchResult ::
  "action_ctx \<Rightarrow> string \<Rightarrow> string \<Rightarrow> params \<Rightarrow> effect list \<Rightarrow> command_result \<times> effect list" where
  "dispatchResult ctx e cmd ps st =
     (let res = (\<lambda>ok r. \<lparr>cr_target = e, cr_command = cmd, cr_ok = ok, cr_error = r\<rparr>)
      in case ac_sink ctx of
           None \<Rightarrow> (res False (Some NoCommandSink), st)
         | Some sink \<Rightarrow>
             if \<not> commandAllowed ctx e cmd then (res False (Some NotInVocabulary), st)
             else (case sink st e cmd ps of
                     Some err \<Rightarrow> (res False (Some (SinkError err)), st @ [Dispatch e cmd ps])
                   | None \<Rightarrow> (res True None, st @ [Dispatch e cmd ps])))"

fun dispatch_list :: "action_ctx \<Rightarrow> preset_command list \<Rightarrow> effect list \<Rightarrow> command_result list \<times> effect list" where
  "dispatch_list ctx [] st = ([], st)"
| "dispatch_list ctx (c # cs) st =
     (case dispatchResult ctx (pc_entity c) (pc_command c) (pc_params c) st of
        (r, st') \<Rightarrow> (case dispatch_list ctx cs st' of (rs, st'') \<Rightarrow> (r # rs, st'')))"

definition dispatchAll ::
  "action_ctx \<Rightarrow> string list \<Rightarrow> string \<Rightarrow> params \<Rightarrow> effect list \<Rightarrow> command_result list \<times> effect list" where
  "dispatchAll ctx targets cmd ps st =
     dispatch_list ctx (map (\<lambda>t. \<lparr>pc_entity = t, pc_command = cmd, pc_params = ps\<rparr>) targets) st"

definition resolveTargets :: "action_ctx \<Rightarrow> entity_ref \<Rightarrow> string list" where
  "resolveTargets ctx ref =
     (if er_entity_id ref \<noteq> '''' then [er_entity_id ref]
      else (case ac_resolve ctx of Some f \<Rightarrow> f ref | None \<Rightarrow> []))"

definition evalParam :: "action_ctx \<Rightarrow> json \<Rightarrow> gval option" where
  "evalParam ctx raw = (case ac_eval ctx of Some f \<Rightarrow> f raw | None \<Rightarrow> jdecode raw)"

definition evalParams :: "action_ctx \<Rightarrow> (string \<times> json) list \<Rightarrow> params option" where
  "evalParams ctx raw =
     mapM_opt (\<lambda>(k, v). case evalParam ctx v of None \<Rightarrow> None | Some x \<Rightarrow> Some (k, x)) raw"

text \<open>\<open>json.Unmarshal\<close> of a member's own JSON into a struct; an absent one is an error.\<close>

definition raw_decodes :: "member \<Rightarrow> bool" where
  "raw_decodes m \<longleftrightarrow> m_raw m \<noteq> None \<and> raw_struct_ok m"

definition runDeviceCommand :: "action_ctx \<Rightarrow> member \<Rightarrow> effect list \<Rightarrow> effect list" where
  "runDeviceCommand ctx m st =
     (case m_ref m of
        None \<Rightarrow> st
      | Some ref \<Rightarrow>
          if \<not> (raw_decodes m \<and> list_all str_ok (raw_field m ''command'') \<and> list_all map_ok (raw_field m ''params''))
          then st
          else (let cmd = dstr '''' (raw_field m ''command'') in
            if cmd = '''' then st
            else (case evalParams ctx (dmap [] (raw_field m ''params'')) of
                    None \<Rightarrow> st
                  | Some ps \<Rightarrow>
                     (case resolveTargets ctx ref of
                        [] \<Rightarrow> st
                      | [t] \<Rightarrow> dispatchOne ctx t cmd ps st
                      | ts \<Rightarrow> (case dispatchAll ctx ts cmd ps st of (rs, st') \<Rightarrow> recordOutcome ctx rs st')))))"

definition runPresetBatch :: "action_ctx \<Rightarrow> member \<Rightarrow> effect list \<Rightarrow> effect list" where
  "runPresetBatch ctx m st =
     (if \<not> (raw_decodes m \<and> list_all str_ok (raw_field m ''preset_id'')) then st
      else (let pid = dstr '''' (raw_field m ''preset_id'') in
        if pid = '''' then st
        else (case ac_presets ctx of
           None \<Rightarrow> st
         | Some presets \<Rightarrow>
            (case presets pid of
               None \<Rightarrow> st
             | Some cmds \<Rightarrow> (case dispatch_list ctx cmds st of (rs, st') \<Rightarrow> recordOutcome ctx rs st')))))"

definition runLog :: "action_ctx \<Rightarrow> member \<Rightarrow> effect list \<Rightarrow> effect list" where
  "runLog ctx m st =
     (if \<not> (raw_decodes m \<and> list_all str_ok (raw_field m ''level'')) then st
      else (case draw (raw_field m ''message'') of
         None \<Rightarrow> st
       | Some raw \<Rightarrow>
          (case evalParam ctx raw of
             Some (GStr msg) \<Rightarrow>
               (let level = dstr '''' (raw_field m ''level'')
                in if ac_rec_logs ctx
                   then st @ [RecLog \<lparr>le_level = (if level = '''' then ''info'' else level), le_message = msg\<rparr>]
                   else st)
           | _ \<Rightarrow> st)))"

section \<open>Actions of the app\<close>

definition call_signage ::
  "action_ctx \<Rightarrow> (effect list \<Rightarrow> signage_call \<Rightarrow> signage_outcome) \<Rightarrow> signage_call \<Rightarrow> effect list \<Rightarrow> effect list" where
  "call_signage ctx sink c st = recordSignage ctx (sink st c) (st @ [SignageCall c])"

definition runSignage :: "action_ctx \<Rightarrow> member \<Rightarrow> effect list \<Rightarrow> effect list" where
  "runSignage ctx m st =
     (case ac_signage ctx of
        None \<Rightarrow> st
      | Some sink \<Rightarrow>
         (case (case m_raw m of Some j \<Rightarrow> DecodeSignage j | None \<Rightarrow> Inr no_signage) of
            Inl terr \<Rightarrow> recordSignage ctx (FailedSignageOutcome (m_type m) (SignageMemberType terr)) st
          | Inr spec \<Rightarrow>
              let ref = \<lparr>sr_screen = sg_screen_id spec, sr_selector = sg_selector spec\<rparr>;
                  cast = sg_cast_id spec; msg = sg_message spec
              in if m_type m = ActionPlayCast then
                   (if cast = '''' then recordSignage ctx (FailedSignageOutcome (m_type m) NoCastId) st
                    else call_signage ctx sink (PlayCast ref cast) st)
                 else if m_type m = ActionShowAlert then
                   (if (cast = '''') = (msg = '''') then
                      recordSignage ctx (FailedSignageOutcome (m_type m)
                        (if cast \<noteq> '''' then BothCastAndMessage else NeitherCastNorMessage)) st
                    else call_signage ctx sink (ShowAlert ref cast msg (sg_ttl_seconds spec)) st)
                 else if m_type m = ActionDismissAlert then call_signage ctx sink (DismissAlert ref) st
                 else st))"

definition runVariableWrite :: "action_ctx \<Rightarrow> member \<Rightarrow> effect list \<Rightarrow> effect list" where
  "runVariableWrite ctx m st =
     (case ac_variables ctx of
        None \<Rightarrow> st
      | Some sink \<Rightarrow>
          if \<not> raw_decodes m then recordVariable ctx (failedVariableOutcome '''' NotAnObject) st
          else (case draw (raw_field m ''variable'') of
             None \<Rightarrow> recordVariable ctx (failedVariableOutcome '''' NoVariable) st
           | Some var \<Rightarrow>
               if \<not> str_ok var then recordVariable ctx (failedVariableOutcome '''' VariableNotString) st
               else (let name = dstr '''' [var] in
                 case draw (raw_field m ''value'') of
                   None \<Rightarrow> recordVariable ctx (failedVariableOutcome name NoValue) st
                 | Some val \<Rightarrow>
                    (case evalParam ctx val of
                       None \<Rightarrow> recordVariable ctx (failedVariableOutcome name ValueFailed) st
                     | Some v \<Rightarrow> recordVariable ctx (sink st name v) (st @ [WriteVariable name v])))))"

text \<open>\<open>json.Unmarshal\<close> into a \<open>map[string]any\<close>.\<close>

definition decode_params :: "json \<Rightarrow> params option" where
  "decode_params j =
     (case j of
        JNull \<Rightarrow> Some []
      | JObj kvs \<Rightarrow> (case jdecode j of Some (GObj ps) \<Rightarrow> Some ps | _ \<Rightarrow> None)
      | _ \<Rightarrow> None)"

definition runPackAction :: "action_ctx \<Rightarrow> member \<Rightarrow> effect list \<Rightarrow> effect list" where
  "runPackAction ctx m st =
     (case ac_pack ctx of
        None \<Rightarrow> st
      | Some sink \<Rightarrow>
          if \<not> raw_decodes m then recordPackAction ctx (failedPackActionOutcome '''' NotAnObject) st
          else (case draw (raw_field m ''action'') of
             None \<Rightarrow> recordPackAction ctx (failedPackActionOutcome '''' NoAction) st
           | Some act \<Rightarrow>
               if \<not> str_ok act \<or> dstr '''' [act] = ''''
               then recordPackAction ctx (failedPackActionOutcome '''' ActionNotString) st
               else (let name = dstr '''' [act] in
                 case (case draw (raw_field m ''params'') of None \<Rightarrow> Some [] | Some p \<Rightarrow> decode_params p) of
                   None \<Rightarrow> recordPackAction ctx (failedPackActionOutcome name ParamsNotObject) st
                 | Some ps \<Rightarrow> recordPackAction ctx (sink st name ps) (st @ [InvokePackAction name ps]))))"

section \<open>Sequences\<close>

text \<open>\<open>runDelay\<close>: the instant to resume at, if the action delays; a decoding error is ignored.\<close>

definition runDelay :: "action_ctx \<Rightarrow> member \<Rightarrow> delay_pending option" where
  "runDelay ctx m =
     (let d = dint 0 (raw_field m ''duration_seconds'')
      in if d \<le> 0 then None
         else Some \<lparr>dp_remaining = [], dp_resume = i64 (ac_mono ctx + i64 (d * 1000))\<rparr>)"

definition mergeDelayTail :: "delay_pending \<Rightarrow> member list \<Rightarrow> delay_pending" where
  "mergeDelayTail dp tail_acts = dp\<lparr>dp_remaining := dp_remaining dp @ tail_acts\<rparr>"

text \<open>A context that reaches a condition has a registry; a nil one classifies nothing.\<close>

definition no_registry :: registry where
  "no_registry = \<lparr>rg_groups = (\<lambda>_ _. []), rg_type = (\<lambda>_ _. TUnknown), rg_emission = (\<lambda>_ _. ''''),
     rg_command = (\<lambda>_ _. False)\<rparr>"

definition ctx_env :: "action_ctx \<Rightarrow> cond_env" where
  "ctx_env ctx =
     \<lparr>ce_reg = (case ac_reg ctx of Some r \<Rightarrow> r | None \<Rightarrow> no_registry), ce_snap = ac_snap ctx, ce_now = ac_wall ctx,
      ce_loc = ac_loc ctx, ce_vars = ac_vars ctx, ce_math = ac_math ctx\<rparr>"

text \<open>The actions a choose action runs: those of its first branch that holds, or the default.\<close>

fun chosen_branch :: "action_ctx \<Rightarrow> branch list \<Rightarrow> member list option" where
  "chosen_branch ctx [] = None"
| "chosen_branch ctx (b # bs) =
     (if EvalConditionAt (ctx_env ctx) (b_cond b) then Some (b_actions b) else chosen_branch ctx bs)"

definition choose_actions :: "action_ctx \<Rightarrow> member \<Rightarrow> member list" where
  "choose_actions ctx m = (case chosen_branch ctx (m_branches m) of Some as \<Rightarrow> as | None \<Rightarrow> m_default m)"

text \<open>Actions that neither nest nor delay; an unknown type does nothing.\<close>

definition run_simple :: "action_ctx \<Rightarrow> member \<Rightarrow> effect list \<Rightarrow> effect list" where
  "run_simple ctx m st =
     (if m_type m = ''device_command'' then runDeviceCommand ctx m st
      else if m_type m = ''preset_batch'' then runPresetBatch ctx m st
      else if m_type m = ''log'' then runLog ctx m st
      else if IsSignageAction (m_type m) then runSignage ctx m st
      else if m_type m = ActionVariableWrite then runVariableWrite ctx m st
      else if m_type m = ActionPackAction then runPackAction ctx m st
      else st)"

lemma size_branch_actions: "size_list size (b_actions b) < size b"
  by (cases b) simp

lemma chosen_branch_size:
  "chosen_branch ctx bs = Some as \<Longrightarrow> size_list size as < size_list size bs"
proof (induction bs)
  case (Cons b bs)
  then show ?case using size_branch_actions [of b] by (auto split: if_splits)
qed simp

lemma choose_actions_size: "size_list size (choose_actions ctx m) < size m"
proof (cases m)
  case (Member ty ck ref cs bs ds raw)
  then show ?thesis
    using chosen_branch_size [of ctx bs] by (fastforce simp: choose_actions_def split: option.splits)
qed

function RunActions :: "action_ctx \<Rightarrow> member list \<Rightarrow> effect list \<Rightarrow> delay_pending option \<times> effect list" where
  "RunActions ctx [] st = (None, st)"
| "RunActions ctx (m # ms) st =
     (if m_type m = ''choose'' then
        (case RunActions ctx (choose_actions ctx m) st of
           (Some dp, st') \<Rightarrow> (Some (mergeDelayTail dp ms), st')
         | (None, st') \<Rightarrow> RunActions ctx ms st')
      else if m_type m = ''delay'' then
        (case runDelay ctx m of
           Some dp \<Rightarrow> (Some (mergeDelayTail dp ms), st)
         | None \<Rightarrow> RunActions ctx ms st)
      else RunActions ctx ms (run_simple ctx m st))"
  by pat_completeness auto
termination
  by (relation "measure (\<lambda>(ctx, ms, st). size_list size ms)") (auto simp: choose_actions_size less_SucI trans_less_add1)

declare RunActions.simps [simp del]
lemmas RunActions_simps = RunActions.simps

lemma RunActions_Nil [simp]: "RunActions ctx [] st = (None, st)"
  by (simp add: RunActions.simps)

section \<open>What a run may do\<close>

text \<open>An effect a context permits: a call needs its sink, a record its recorder, and a command
  that is dispatched is one the vocabulary allows.\<close>

fun permitted :: "action_ctx \<Rightarrow> effect \<Rightarrow> bool" where
  "permitted ctx (Dispatch e c ps) \<longleftrightarrow> ac_sink ctx \<noteq> None \<and> commandAllowed ctx e c"
| "permitted ctx (SignageCall c) \<longleftrightarrow> ac_signage ctx \<noteq> None"
| "permitted ctx (WriteVariable n v) \<longleftrightarrow> ac_variables ctx \<noteq> None"
| "permitted ctx (InvokePackAction n ps) \<longleftrightarrow> ac_pack ctx \<noteq> None"
| "permitted ctx (RecOutcome b) \<longleftrightarrow> ac_rec_outcomes ctx"
| "permitted ctx (RecRejected r) \<longleftrightarrow> ac_rec_rejected ctx \<and> \<not> cr_ok r"
| "permitted ctx (RecLog l) \<longleftrightarrow> ac_rec_logs ctx"
| "permitted ctx (RecSignage s) \<longleftrightarrow> ac_rec_signage ctx"
| "permitted ctx (RecVariable v) \<longleftrightarrow> ac_rec_variables ctx"
| "permitted ctx (RecPack p) \<longleftrightarrow> ac_rec_pack ctx"

definition extends :: "action_ctx \<Rightarrow> effect list \<Rightarrow> effect list \<Rightarrow> bool" where
  "extends ctx st st' \<longleftrightarrow> (\<exists>new. st' = st @ new \<and> list_all (permitted ctx) new)"

lemma extends_refl [simp]: "extends ctx st st"
  by (simp add: extends_def)

lemma extends_trans [trans]: "extends ctx st st' \<Longrightarrow> extends ctx st' st'' \<Longrightarrow> extends ctx st st''"
  by (auto simp: extends_def)

lemma extends_snoc [simp]: "extends ctx st (st @ [e]) \<longleftrightarrow> permitted ctx e"
  by (auto simp: extends_def)

lemma extends_records [simp]:
  "extends ctx st (recordOutcome ctx rs st)" "extends ctx st (recordRejected ctx e c r st)"
  "extends ctx st (recordSignage ctx sg st)" "extends ctx st (recordVariable ctx vo st)"
  "extends ctx st (recordPackAction ctx po st)"
  by (simp_all add: recordOutcome_def recordRejected_def recordSignage_def recordVariable_def
      recordPackAction_def)

lemma extends_dispatchOne [simp]: "extends ctx st (dispatchOne ctx e c ps st)"
  by (simp add: dispatchOne_def split: option.split)

lemma extends_dispatchResult: "dispatchResult ctx e c ps st = (r, st') \<Longrightarrow> extends ctx st st'"
  by (auto simp: dispatchResult_def Let_def split: option.splits if_splits)

lemma extends_dispatch_list: "dispatch_list ctx cs st = (rs, st') \<Longrightarrow> extends ctx st st'"
  by (induction cs arbitrary: st rs)
    (auto split: prod.splits dest: extends_dispatchResult intro: extends_trans)

lemma extends_call:
  "permitted ctx e \<Longrightarrow> extends ctx (st @ [e]) st' \<Longrightarrow> extends ctx st st'"
  by (auto simp: extends_def)

lemma extends_call_records:
  assumes "permitted ctx e"
  shows "extends ctx st (recordSignage ctx sg (st @ [e]))"
    and "extends ctx st (recordVariable ctx vo (st @ [e]))"
    and "extends ctx st (recordPackAction ctx po (st @ [e]))"
  using assms by (auto intro: extends_call)

lemma extends_dispatchAll: "dispatchAll ctx ts c ps st = (rs, st') \<Longrightarrow> extends ctx st st'"
  by (simp add: dispatchAll_def extends_dispatch_list)

lemma extends_runDeviceCommand [simp]: "extends ctx st (runDeviceCommand ctx m st)"
  by (auto simp: runDeviceCommand_def Let_def split: option.split list.split prod.split
      intro: extends_trans [OF extends_dispatchAll])

lemma extends_runPresetBatch [simp]: "extends ctx st (runPresetBatch ctx m st)"
  by (auto simp: runPresetBatch_def Let_def split: option.split prod.split
      intro: extends_trans [OF extends_dispatch_list])

lemma extends_runLog [simp]: "extends ctx st (runLog ctx m st)"
  by (simp add: runLog_def Let_def split: option.split gval.split)

lemma extends_call_signage: "ac_signage ctx \<noteq> None \<Longrightarrow> extends ctx st (call_signage ctx sink c st)"
  by (simp add: call_signage_def extends_call_records)

lemma extends_runSignage [simp]: "extends ctx st (runSignage ctx m st)"
  by (cases "ac_signage ctx") (auto simp: runSignage_def Let_def extends_call_signage split: sum.split)

lemma extends_runVariableWrite [simp]: "extends ctx st (runVariableWrite ctx m st)"
  by (cases "ac_variables ctx")
    (auto simp: runVariableWrite_def Let_def extends_call_records split: option.split)

lemma extends_runPackAction [simp]: "extends ctx st (runPackAction ctx m st)"
  by (cases "ac_pack ctx")
    (auto simp: runPackAction_def Let_def extends_call_records split: option.split)

lemma extends_run_simple: "extends ctx st (run_simple ctx m st)"
  by (simp add: run_simple_def)

lemma RunActions_extends: "RunActions ctx ms st = (r, st') \<Longrightarrow> extends ctx st st'"
proof (induction ctx ms st arbitrary: r st' rule: RunActions.induct)
  case (2 ctx m ms st)
  show ?case
  proof (cases "m_type m = ''choose''")
    case True
    obtain r1 st1 where 1: "RunActions ctx (choose_actions ctx m) st = (r1, st1)" by fastforce
    note 3 = "2.IH"(1) [OF True 1]
    with 2 True 1 show ?thesis by (cases r1) (auto simp: RunActions.simps(2) intro: extends_trans)
  next
    case False
    with 2 show ?thesis
      by (auto simp: RunActions.simps(2) split: if_splits option.splits
          intro: extends_trans [OF extends_run_simple])
  qed
qed simp

section \<open>Delays\<close>

text \<open>
  A run with a delay stops there and leaves the rest for later.  The caller resumes it under another
  context.  \<open>run_to_end\<close> resumes until nothing is left, the \<open>k\<close>-th time under \<open>ctxs k\<close>; \<open>run_through\<close>
  is the reference: one pass over the actions which only switches contexts at a delay.
\<close>

lemma delay_remaining_smaller:
  "RunActions ctx ms st = (Some dp, st') \<Longrightarrow> size_list size (dp_remaining dp) < size_list size ms"
proof (induction ctx ms st arbitrary: dp st' rule: RunActions.induct)
  case (2 ctx m ms st)
  have app: "size_list size (as @ bs) = size_list size as + size_list size bs" for as bs :: "member list"
    by (induction as) auto
  show ?case
  proof (cases "m_type m = ''choose''")
    case True
    obtain r1 st1 where 1: "RunActions ctx (choose_actions ctx m) st = (r1, st1)" by fastforce
    with 2 True show ?thesis
      using choose_actions_size [of ctx m]
      by (cases r1) (fastforce simp: RunActions.simps(2) mergeDelayTail_def app)+
  next
    case False
    with 2 show ?thesis
      by (auto simp: RunActions.simps(2) runDelay_def Let_def mergeDelayTail_def
          split: if_splits option.splits intro: less_SucI trans_less_add2)
  qed
qed simp

function run_to_end ::
  "(nat \<Rightarrow> action_ctx) \<Rightarrow> nat \<Rightarrow> member list \<Rightarrow> effect list \<Rightarrow> nat \<times> effect list" where
  "run_to_end ctxs k ms st =
     (case RunActions (ctxs k) ms st of
        (None, st') \<Rightarrow> (k, st')
      | (Some dp, st') \<Rightarrow> run_to_end ctxs (Suc k) (dp_remaining dp) st')"
  by pat_completeness auto
termination
  by (relation "measure (\<lambda>(ctxs, k, ms, st). size_list size ms)") (auto dest: delay_remaining_smaller [OF sym])

declare run_to_end.simps [simp del]

function run_through ::
  "(nat \<Rightarrow> action_ctx) \<Rightarrow> nat \<Rightarrow> member list \<Rightarrow> effect list \<Rightarrow> nat \<times> effect list" where
  "run_through ctxs k [] st = (k, st)"
| "run_through ctxs k (m # ms) st =
     (if m_type m = ''choose'' then
        (case run_through ctxs k (choose_actions (ctxs k) m) st of (k', st') \<Rightarrow> run_through ctxs k' ms st')
      else if m_type m = ''delay'' then
        run_through ctxs (if runDelay (ctxs k) m = None then k else Suc k) ms st
      else run_through ctxs k ms (run_simple (ctxs k) m st))"
  by pat_completeness auto
termination
  by (relation "measure (\<lambda>(ctxs, k, ms, st). size_list size ms)")
    (auto simp: choose_actions_size less_SucI trans_less_add1)

declare run_through.simps(2) [simp del]

lemma run_through_append:
  "run_through ctxs k (as @ bs) st = (case run_through ctxs k as st of (k', st') \<Rightarrow> run_through ctxs k' bs st')"
proof (induction as arbitrary: k st)
  case (Cons a as)
  then show ?case by (simp add: run_through.simps(2) split: prod.split)
qed simp

lemma run_through_RunActions:
  assumes "RunActions ctx ms st = (r, st')" and "ctx = ctxs k"
  shows "run_through ctxs k ms st
    = (case r of None \<Rightarrow> (k, st') | Some dp \<Rightarrow> run_through ctxs (Suc k) (dp_remaining dp) st')"
  using assms
proof (induction ctx ms st arbitrary: r st' rule: RunActions.induct)
  case (2 ctx m ms st)
  show ?case
  proof (cases "m_type m = ''choose''")
    case True
    obtain r1 st1 where 1: "RunActions ctx (choose_actions ctx m) st = (r1, st1)" by fastforce
    note 3 = "2.IH"(1) [OF True 1 "2.prems"(2)]
    show ?thesis
      using 2 True 1 3
      by (cases r1) (auto simp: RunActions.simps(2) run_through.simps(2) mergeDelayTail_def
          run_through_append split: prod.split)
  next
    case False
    with 2 show ?thesis
      by (auto simp: RunActions.simps(2) run_through.simps(2) runDelay_def Let_def mergeDelayTail_def
          split: if_splits option.splits)
  qed
qed simp

section \<open>Batches\<close>

definition call_of :: "preset_command \<Rightarrow> effect" where
  "call_of c = Dispatch (pc_entity c) (pc_command c) (pc_params c)"

definition allowed_call :: "action_ctx \<Rightarrow> preset_command \<Rightarrow> bool" where
  "allowed_call ctx c \<longleftrightarrow> commandAllowed ctx (pc_entity c) (pc_command c)"

lemma dispatchResult_spec:
  assumes "ac_sink ctx = Some sink"
  shows "dispatchResult ctx (pc_entity c) (pc_command c) (pc_params c) st =
    (\<lparr>cr_target = pc_entity c, cr_command = pc_command c,
      cr_ok = (allowed_call ctx c \<and> sink st (pc_entity c) (pc_command c) (pc_params c) = None),
      cr_error = (if \<not> allowed_call ctx c then Some NotInVocabulary
                  else map_option SinkError (sink st (pc_entity c) (pc_command c) (pc_params c)))\<rparr>,
     st @ (if allowed_call ctx c then [call_of c] else []))"
  using assms by (simp add: dispatchResult_def Let_def allowed_call_def call_of_def split: option.split)

lemma dispatchResult_target: "cr_target (fst (dispatchResult ctx e c ps st)) = e"
  by (simp add: dispatchResult_def Let_def split: option.split)

lemma dispatch_list_calls:
  assumes "ac_sink ctx = Some sink"
  shows "snd (dispatch_list ctx cs st) = st @ map call_of (filter (allowed_call ctx) cs)"
  using assms by (induction cs arbitrary: st) (simp_all add: dispatchResult_spec split_def)

lemma dispatch_list_targets:
  "map cr_target (fst (dispatch_list ctx cs st)) = map pc_entity cs"
  by (induction cs arbitrary: st) (simp_all add: split_def dispatchResult_target)

lemma dispatch_list_nth:
  assumes "ac_sink ctx = Some sink" "i < length cs"
  shows "fst (dispatch_list ctx cs st) ! i =
    fst (dispatchResult ctx (pc_entity (cs ! i)) (pc_command (cs ! i)) (pc_params (cs ! i))
      (st @ map call_of (filter (allowed_call ctx) (take i cs))))"
  using assms
proof (induction cs arbitrary: st i)
  case (Cons c cs)
  then show ?case
    by (cases i) (simp_all add: dispatchResult_spec split_def)
qed simp

lemma outcomeFor_spec:
  "outcomeFor rs = (if list_all cr_ok rs then ''complete'' else if list_ex cr_ok rs then ''partial'' else ''failed'')"
  by (simp add: outcomeFor_def Let_def filter_empty_conv list_all_iff list_ex_iff)

lemma dispatch_list_results:
  assumes "ac_sink ctx = Some sink"
  shows "list_all cr_ok (fst (dispatch_list ctx cs st)) \<longleftrightarrow>
    (\<forall>i<length cs. allowed_call ctx (cs ! i) \<and>
       sink (st @ map call_of (take i cs)) (pc_entity (cs ! i)) (pc_command (cs ! i)) (pc_params (cs ! i)) = None)"
  using assms
proof (induction cs arbitrary: st)
  case (Cons c cs)
  then show ?case
    by (auto simp: dispatchResult_spec split_def nth_Cons' all_conj_distrib less_Suc_eq_0_disj split: if_splits)
qed simp

lemma run_to_end_through: "run_to_end ctxs k ms st = run_through ctxs k ms st"
proof (induction ctxs k ms st rule: run_to_end.induct)
  case (1 ctxs k ms st)
  obtain r st' where r: "RunActions (ctxs k) ms st = (r, st')" by fastforce
  show ?case
    using run_through_RunActions [where ctxs = ctxs and k = k, OF r refl] 1 [OF r [symmetric]] r
    by (cases r) (simp_all add: run_to_end.simps [of ctxs k ms st])
qed

text \<open>C40. A run that delays and is resumed, any number of times and each time under the context of
  that moment, has the effects of one pass over the actions, in that order: a delay, also one inside
  nested choose actions, drops, repeats and reorders nothing; and resuming ends.\<close>

theorem delays_lose_nothing: "run_to_end ctxs k ms st = run_through ctxs k ms st"
  by (rule run_to_end_through)

text \<open>A run only appends effects, and each is permitted: a command that reaches the sink names an
  entity of the snapshot and a command of its class's vocabulary, when there is a registry; without
  a sink for signage, variables or pack actions there is no such call; nothing is recorded where
  there is no recorder.\<close>

theorem RunActions_permitted:
  "\<exists>new. snd (RunActions ctx ms st) = st @ new \<and> list_all (permitted ctx) new"
  by (cases "RunActions ctx ms st") (use RunActions_extends in \<open>fastforce simp: extends_def\<close>)

text \<open>A preset batch reaches every command, whatever became of the ones before it: one result for
  each, in order; the sink is called exactly with the allowed ones, in order; and the outcome is
  complete exactly when all were allowed and accepted.\<close>

theorem batch_is_attempted_in_full:
  assumes "ac_sink ctx = Some sink"
  shows "map cr_target (fst (dispatch_list ctx cs st)) = map pc_entity cs
    \<and> snd (dispatch_list ctx cs st) = st @ map call_of (filter (allowed_call ctx) cs)
    \<and> (outcomeFor (fst (dispatch_list ctx cs st)) = ''complete'' \<longleftrightarrow>
        (\<forall>i<length cs. allowed_call ctx (cs ! i) \<and>
          sink (st @ map call_of (take i cs)) (pc_entity (cs ! i)) (pc_command (cs ! i)) (pc_params (cs ! i)) = None))"
  using dispatch_list_results [OF assms, of cs st]
  by (simp add: dispatch_list_targets dispatch_list_calls [OF assms] outcomeFor_spec)

definition demo_ctx :: action_ctx where
  "demo_ctx = \<lparr>ac_reg = None, ac_snap = Map.empty, ac_wall = 0, ac_mono = 5, ac_loc = ce_loc demo_env,
     ac_math = flat_sun, ac_vars = Map.empty,
     ac_sink = Some (\<lambda>st e c ps. if e = ''bad'' then Some ''offline'' else None),
     ac_presets = None, ac_resolve = None, ac_signage = None, ac_variables = None, ac_pack = None,
     ac_eval = None, ac_rec_outcomes = True, ac_rec_logs = True, ac_rec_rejected = True,
     ac_rec_signage = True, ac_rec_variables = True, ac_rec_pack = True\<rparr>"

definition demo_batch :: "preset_command list" where
  "demo_batch = map (\<lambda>t. \<lparr>pc_entity = t, pc_command = ''on'', pc_params = []\<rparr>) [''bad'', ''good'']"

theorem batch_is_attempted_in_full_witness:
  "map cr_target (fst (dispatch_list demo_ctx demo_batch [])) = [''bad'', ''good'']
    \<and> outcomeFor (fst (dispatch_list demo_ctx demo_batch [])) \<noteq> ''complete''"
  using batch_is_attempted_in_full
    [of demo_ctx "\<lambda>st e c ps. if e = ''bad'' then Some ''offline'' else None" demo_batch "[]"]
  by (auto simp: demo_ctx_def demo_batch_def numeral_2_eq_2 less_Suc_eq_0_disj ex_disj_distrib)

end
