(* ===== verification/Closure.thy ===== *)
theory Closure
  imports Compile Action
begin

text \<open>
  The edge closure of a rule, \<open>internal/rules/closure/closure.go\<close>: what an edge device must hold to
  run the rule without the app.  A rule's selectors, preset batches and the values of the variables
  its conditions read are frozen from an environment.  The last part joins the compiler, the closure
  and the actions: what an edge rule can do, and that its closure is enough to run it.
\<close>

record closure_env =
  cv_variables :: "string \<rightharpoonup> gval"
  cv_selector :: "(string \<Rightarrow> string list) option"
  cv_device_class :: "(string \<Rightarrow> string list) option"
  cv_presets :: "(string \<Rightarrow> preset_command list option) option"

record closure =
  cl_variables :: "string \<rightharpoonup> gval"
  cl_selectors :: "string \<rightharpoonup> string list"
  cl_presets :: "string \<rightharpoonup> preset_command list"

definition empty_closure :: closure where
  "empty_closure = \<lparr>cl_variables = Map.empty, cl_selectors = Map.empty, cl_presets = Map.empty\<rparr>"

definition codePresetNotFound :: string where "codePresetNotFound = ''PRESET_NOT_FOUND''"

definition resolve_with :: "(string \<Rightarrow> string list) option \<Rightarrow> string \<Rightarrow> string list" where
  "resolve_with f s = (case f of Some g \<Rightarrow> g s | None \<Rightarrow> [])"

definition freezeRef :: "closure_env \<Rightarrow> entity_ref option \<Rightarrow> closure \<Rightarrow> closure" where
  "freezeRef env ref c =
     (case ref of
        None \<Rightarrow> c
      | Some e \<Rightarrow>
          if er_selector e \<noteq> '''' then
            c\<lparr>cl_selectors := (cl_selectors c)(er_selector e \<mapsto> resolve_with (cv_selector env) (er_selector e))\<rparr>
          else if er_device_class e \<noteq> '''' then
            c\<lparr>cl_selectors := (cl_selectors c)(er_device_class e \<mapsto>
                 resolve_with (cv_device_class env) (er_device_class e))\<rparr>
          else c)"

definition freeze_variable :: "closure_env \<Rightarrow> member \<Rightarrow> closure \<Rightarrow> closure" where
  "freeze_variable env m c =
     (if m_type m \<noteq> ''variable'' \<or> \<not> (raw_struct_ok m \<and> list_all str_ok (raw_field m ''variable'')) then c
      else (let name = dstr '''' (raw_field m ''variable'') in
        if name = '''' then c
        else (case cv_variables env name of
                Some v \<Rightarrow> c\<lparr>cl_variables := (cl_variables c)(name \<mapsto> v)\<rparr>
              | None \<Rightarrow> c)))"

fun freezeCondition :: "closure_env \<Rightarrow> member \<Rightarrow> closure \<Rightarrow> closure" where
  "freezeCondition env (Member ty ck ref cs bs ds raw) c =
     (if ck \<noteq> '''' then fold (freezeCondition env) cs c
      else freeze_variable env (Member ty ck ref cs bs ds raw) c)"

definition freezePreset :: "closure_env \<Rightarrow> member \<Rightarrow> closure \<Rightarrow> compile_error + closure" where
  "freezePreset env m c =
     (if \<not> (raw_struct_ok m \<and> list_all str_ok (raw_field m ''preset_id''))
      then Inl \<lparr>ce_code = codePresetNotFound, ce_field = ''''\<rparr>
      else (let pid = dstr '''' (raw_field m ''preset_id'') in
        case (case cv_presets env of Some f \<Rightarrow> f pid | None \<Rightarrow> None) of
          None \<Rightarrow> Inl \<lparr>ce_code = codePresetNotFound, ce_field = ''''\<rparr>
        | Some cmds \<Rightarrow> Inr (c\<lparr>cl_presets := (cl_presets c)(pid \<mapsto> cmds)\<rparr>)))"

text \<open>A loop over a list that stops at the first error.\<close>

fun fold_err :: "('a \<Rightarrow> 's \<Rightarrow> 'e + 's) \<Rightarrow> 'a list \<Rightarrow> 's \<Rightarrow> 'e + 's" where
  "fold_err f [] s = Inr s"
| "fold_err f (x # xs) s = (case f x s of Inl e \<Rightarrow> Inl e | Inr s' \<Rightarrow> fold_err f xs s')"

lemma fold_err_cong [fundef_cong]:
  "xs = ys \<Longrightarrow> s = t \<Longrightarrow> (\<And>x u. x \<in> set ys \<Longrightarrow> f x u = g x u) \<Longrightarrow> fold_err f xs s = fold_err g ys t"
  by (induction xs arbitrary: ys s t) (auto split: sum.split)

fun freezeAction :: "closure_env \<Rightarrow> member \<Rightarrow> closure \<Rightarrow> compile_error + closure"
  and freeze_branch :: "closure_env \<Rightarrow> branch \<Rightarrow> closure \<Rightarrow> compile_error + closure" where
  "freezeAction env (Member ty ck ref cs bs ds raw) c =
     (let c' = freezeRef env ref c in
      if ty = ''preset_batch'' then freezePreset env (Member ty ck ref cs bs ds raw) c'
      else if ty = ''choose'' then
        (case fold_err (freeze_branch env) bs c' of
           Inl e \<Rightarrow> Inl e
         | Inr c'' \<Rightarrow> fold_err (freezeAction env) ds c'')
      else Inr c')"
| "freeze_branch env (Branch cond as) c = fold_err (freezeAction env) as (freezeCondition env cond c)"

definition Compute :: "rule \<Rightarrow> closure_env \<Rightarrow> compile_error + closure" where
  "Compute r env =
     fold_err (freezeAction env) (r_actions r)
       (fold (freezeCondition env) (r_conditions r)
         (fold (\<lambda>t. freezeRef env (m_ref t)) (r_triggers r) empty_closure))"

section \<open>What a rule needs\<close>

text \<open>The variables that the conditions of a member read, and the presets its actions name, at every
  depth; a preset action whose text does not decode is \<open>None\<close>.\<close>

fun cond_vars :: "member \<Rightarrow> string list" where
  "cond_vars (Member ty ck ref cs bs ds raw) =
     (if ck \<noteq> '''' then concat (map cond_vars cs)
      else (let m = Member ty ck ref cs bs ds raw; name = dstr '''' (raw_field m ''variable'')
            in if ty = ''variable'' \<and> raw_struct_ok m \<and> list_all str_ok (raw_field m ''variable'') \<and> name \<noteq> ''''
               then [name] else []))"

fun action_vars :: "member \<Rightarrow> string list"
  and branch_vars :: "branch \<Rightarrow> string list" where
  "action_vars (Member ty ck ref cs bs ds raw) =
     (if ty = ''choose'' then concat (map branch_vars bs) @ concat (map action_vars ds) else [])"
| "branch_vars (Branch c as) = cond_vars c @ concat (map action_vars as)"

definition preset_of :: "member \<Rightarrow> string option" where
  "preset_of m =
     (if raw_struct_ok m \<and> list_all str_ok (raw_field m ''preset_id'')
      then Some (dstr '''' (raw_field m ''preset_id'')) else None)"

fun action_presets :: "member \<Rightarrow> string option list"
  and branch_presets :: "branch \<Rightarrow> string option list" where
  "action_presets (Member ty ck ref cs bs ds raw) =
     (if ty = ''preset_batch'' then [preset_of (Member ty ck ref cs bs ds raw)]
      else if ty = ''choose'' then concat (map branch_presets bs) @ concat (map action_presets ds) else [])"
| "branch_presets (Branch c as) = concat (map action_presets as)"

definition rule_vars :: "rule \<Rightarrow> string list" where
  "rule_vars r = concat (map cond_vars (r_conditions r)) @ concat (map action_vars (r_actions r))"

definition rule_presets :: "rule \<Rightarrow> string option list" where
  "rule_presets r = concat (map action_presets (r_actions r))"

definition env_presets :: "closure_env \<Rightarrow> string \<rightharpoonup> preset_command list" where
  "env_presets env pid = (case cv_presets env of Some f \<Rightarrow> f pid | None \<Rightarrow> None)"

section \<open>What is frozen\<close>

lemma map_add_restrict: "(m ++ (f |` A)) ++ (f |` B) = m ++ (f |` (A \<union> B))"
  by (auto simp: map_add_def restrict_map_def fun_eq_iff split: option.split)

lemma map_add_upd_restrict:
  "f k = Some v \<Longrightarrow> m(k \<mapsto> v) = m ++ (f |` {k})" "f k = None \<Longrightarrow> m = m ++ (f |` {k})"
  by (auto simp: map_add_def restrict_map_def fun_eq_iff split: option.split)

lemma freezeRef_keeps [simp]:
  "cl_variables (freezeRef env ref c) = cl_variables c" "cl_presets (freezeRef env ref c) = cl_presets c"
  by (simp_all add: freezeRef_def split: option.split)

lemma freeze_variable_eq:
  assumes "m_comp m = ''''"
  shows "freeze_variable env m c = c\<lparr>cl_variables := cl_variables c ++ (cv_variables env |` set (cond_vars m))\<rparr>"
proof -
  let ?n = "dstr '''' (raw_field m ''variable'')"
  let ?named = "m_type m = ''variable'' \<and> raw_struct_ok m \<and> list_all str_ok (raw_field m ''variable'') \<and> ?n \<noteq> ''''"
  have vars: "cond_vars m = (if ?named then [?n] else [])"
    using assms by (cases m) (auto simp: Let_def)
  show ?thesis
  proof (cases ?named)
    case True
    then show ?thesis
      using map_add_upd_restrict [of "cv_variables env" ?n] vars
      by (simp add: freeze_variable_def Let_def split: option.split)
  next
    case False
    then show ?thesis using vars by (auto simp: freeze_variable_def Let_def)
  qed
qed

lemma freezeCondition_eq:
  "freezeCondition env m c = c\<lparr>cl_variables := cl_variables c ++ (cv_variables env |` set (cond_vars m))\<rparr>"
proof (induction m arbitrary: c rule: cond_vars.induct)
  case (1 ty ck ref cs bs ds raw)
  have fold: "fold (freezeCondition env) xs c = c\<lparr>cl_variables := cl_variables c ++ (cv_variables env |` set (concat (map cond_vars xs)))\<rparr>"
    if "set xs \<subseteq> set cs" "ck \<noteq> ''''" for xs c
    using that
  proof (induction xs arbitrary: c)
    case (Cons x xs)
    then show ?case using "1.IH" [of x] by (simp add: map_add_restrict)
  qed simp
  show ?case
    using fold [of cs] freeze_variable_eq [of "Member ty ck ref cs bs ds raw" env c]
    by (cases "ck = ''''") simp_all
qed

lemma freeze_conditions_eq:
  "fold (freezeCondition env) ms c =
     c\<lparr>cl_variables := cl_variables c ++ (cv_variables env |` set (concat (map cond_vars ms)))\<rparr>"
  by (induction ms arbitrary: c) (simp_all add: freezeCondition_eq map_add_restrict)

lemma freeze_refs_keep:
  "cl_variables (fold (\<lambda>t. freezeRef env (m_ref t)) ts c) = cl_variables c"
  "cl_presets (fold (\<lambda>t. freezeRef env (m_ref t)) ts c) = cl_presets c"
  by (induction ts arbitrary: c) simp_all

text \<open>What freezing does to a closure: the named variables and presets are added; it succeeds exactly
  when every preset is there.\<close>

definition freezes :: "closure_env \<Rightarrow> string list \<Rightarrow> string option list \<Rightarrow> closure \<Rightarrow> compile_error + closure \<Rightarrow> bool" where
  "freezes env vs ps c res \<longleftrightarrow>
     (case res of
        Inl e \<Rightarrow> ce_code e = codePresetNotFound \<and> (\<exists>p \<in> set ps. p = None \<or> env_presets env (the p) = None)
      | Inr c' \<Rightarrow> cl_variables c' = cl_variables c ++ (cv_variables env |` set vs) \<and>
          cl_presets c' = cl_presets c ++ (env_presets env |` {q. Some q \<in> set ps}) \<and>
          (\<forall>p \<in> set ps. \<exists>q. p = Some q \<and> env_presets env q \<noteq> None))"

lemma freezes_nil [simp]: "freezes env [] [] c (Inr c)"
  by (simp add: freezes_def)

lemma freezes_err: "freezes env vs ps c (Inl e) \<Longrightarrow> set ps \<subseteq> set ps' \<Longrightarrow> freezes env vs' ps' c' (Inl e)"
  by (auto simp: freezes_def)

lemma freezes_trans:
  assumes "freezes env vs ps c (Inr c')" "freezes env vs' ps' c' res"
  shows "freezes env (vs @ vs') (ps @ ps') c res"
proof -
  have "{q. Some q \<in> set (ps @ ps')} = {q. Some q \<in> set ps} \<union> {q. Some q \<in> set ps'}" by auto
  then show ?thesis using assms by (auto simp: freezes_def map_add_restrict split: sum.splits)
qed

lemma freezes_fold:
  assumes "\<And>x c. x \<in> set xs \<Longrightarrow> freezes env (fv x) (fp x) c (f x c)"
  shows "freezes env (concat (map fv xs)) (concat (map fp xs)) c (fold_err f xs c)"
  using assms
proof (induction xs arbitrary: c)
  case (Cons x xs)
  have x: "freezes env (fv x) (fp x) c (f x c)" using Cons.prems by simp
  show ?case
  proof (cases "f x c")
    case (Inl e)
    then show ?thesis using x by (auto intro: freezes_err)
  next
    case (Inr c')
    then show ?thesis using x Cons by (auto intro: freezes_trans)
  qed
qed simp

lemma freezes_start:
  "cl_variables c' = cl_variables c ++ (cv_variables env |` set vs) \<Longrightarrow> cl_presets c' = cl_presets c \<Longrightarrow>
   freezes env vs' ps c' res \<Longrightarrow> freezes env (vs @ vs') ps c res"
  using freezes_trans [of env vs "[]" c c' vs' ps res] by (simp add: freezes_def)

lemma freezes_preset: "freezes env [] [preset_of m] c (freezePreset env m c)"
proof (cases "preset_of m")
  case (Some q)
  then show ?thesis
    using map_add_upd_restrict(1) [of "env_presets env" q]
    by (auto simp: freezes_def freezePreset_def preset_of_def env_presets_def Let_def split: if_splits option.splits)
qed (auto simp: freezes_def freezePreset_def preset_of_def split: if_splits)

lemma freezeAction_freezes:
  "freezes env (action_vars m) (action_presets m) c (freezeAction env m c)"
  "freezes env (branch_vars b) (branch_presets b) c (freeze_branch env b c)"
proof (induction m and b arbitrary: c and c)
  case (Member ty ck ref cs bs ds raw)
  let ?c = "freezeRef env ref c"
  have ref: "freezes env [] [] c (Inr ?c)" by (simp add: freezes_def)
  have b: "freezes env (concat (map branch_vars bs)) (concat (map branch_presets bs)) ?c (fold_err (freeze_branch env) bs ?c)"
    using Member by (intro freezes_fold) blast
  have d: "freezes env (concat (map action_vars ds)) (concat (map action_presets ds)) c' (fold_err (freezeAction env) ds c')" for c'
    using Member by (intro freezes_fold) blast
  consider "ty = ''preset_batch''" | "ty = ''choose''" | "ty \<noteq> ''preset_batch''" "ty \<noteq> ''choose''" by blast
  then show ?case
  proof cases
    case 1
    then show ?thesis using freezes_trans [OF ref freezes_preset] by (simp add: Let_def)
  next
    case 2
    then show ?thesis
    proof (cases "fold_err (freeze_branch env) bs ?c")
      case (Inl e)
      then show ?thesis using 2 b by (auto simp: Let_def intro: freezes_err)
    next
      case (Inr c')
      then show ?thesis using 2 freezes_trans [OF ref freezes_trans [OF b [unfolded Inr] d]] by (simp add: Let_def)
    qed
  next
    case 3
    then show ?thesis using ref by (simp add: Let_def)
  qed
next
  case (Branch cond as)
  have "freezes env (concat (map action_vars as)) (concat (map action_presets as)) c' (fold_err (freezeAction env) as c')" for c'
    using Branch by (intro freezes_fold) blast
  then show ?case
    using freezes_start [of "freezeCondition env cond c" c env "cond_vars cond"]
    by (simp add: freezeCondition_eq)
qed

lemma Compute_freezes: "freezes env (rule_vars r) (rule_presets r) empty_closure (Compute r env)"
proof -
  let ?c1 = "fold (\<lambda>t. freezeRef env (m_ref t)) (r_triggers r) empty_closure"
  have "freezes env (concat (map action_vars (r_actions r))) (rule_presets r) c (fold_err (freezeAction env) (r_actions r) c)" for c
    unfolding rule_presets_def by (rule freezes_fold) (rule freezeAction_freezes)
  then show ?thesis
    unfolding Compute_def rule_vars_def
    by (rule freezes_start [rotated 2]) (simp_all add: freeze_conditions_eq freeze_refs_keep)
qed

text \<open>The closure holds exactly what the rule needs: of the variables, those that some condition of the
  rule names, at every depth, with their values in the environment; of the presets, those that some
  action names.  Freezing fails exactly when a named preset does not exist or does not decode.\<close>

theorem Compute_exact:
  "case Compute r env of
     Inr c \<Rightarrow> cl_variables c = cv_variables env |` set (rule_vars r) \<and>
       (\<forall>q. cl_presets c q = (if Some q \<in> set (rule_presets r) then env_presets env q else None)) \<and>
       (\<forall>p \<in> set (rule_presets r). \<exists>q. p = Some q \<and> env_presets env q \<noteq> None)
   | Inl e \<Rightarrow> ce_code e = codePresetNotFound \<and>
       (\<exists>p \<in> set (rule_presets r). p = None \<or> env_presets env (the p) = None)"
  using Compute_freezes [of env r]
  by (auto simp: freezes_def empty_closure_def restrict_map_def split: sum.split)

section \<open>Members of a choose action\<close>

lemma choose_actions_in:
  assumes "a \<in> set (choose_actions ctx m)"
  shows "a \<in> set (m_default m) \<or> (\<exists>b \<in> set (m_branches m). a \<in> set (b_actions b))"
proof -
  have "chosen_branch ctx bs = Some as \<Longrightarrow> \<exists>b \<in> set bs. as = b_actions b" for bs as
    by (induction bs) (auto split: if_splits)
  then show ?thesis using assms by (fastforce simp: choose_actions_def split: option.splits)
qed

lemma chosen_kinded:
  assumes "a \<in> set (choose_actions ctx m)" "m_type m = ''choose''" "m_comp m = ''''"
  shows "set (kinded ActionKind a) \<subseteq> set (kinded ActionKind m)"
proof (cases m)
  case (Member ty ck ref cs bs ds raw)
  have "set (kinded ActionKind a) \<subseteq> set (branch_kinded b)" if "a \<in> set (b_actions b)" for b
    using that by (cases b) auto
  then show ?thesis using Member choose_actions_in [OF assms(1)] assms(2,3) by fastforce
qed

lemma chosen_needs:
  assumes "a \<in> set (choose_actions ctx m)" "m_type m = ''choose''"
  shows "set (action_vars a) \<subseteq> set (action_vars m)" "set (action_presets a) \<subseteq> set (action_presets m)"
proof -
  obtain ty ck ref cs bs ds raw where m: "m = Member ty ck ref cs bs ds raw" by (cases m)
  have b: "set (action_vars a) \<subseteq> set (branch_vars b)" "set (action_presets a) \<subseteq> set (branch_presets b)"
    if "a \<in> set (b_actions b)" for b
    using that by (cases b; auto)+
  show "set (action_vars a) \<subseteq> set (action_vars m)" "set (action_presets a) \<subseteq> set (action_presets m)"
    using m b choose_actions_in [OF assms(1)] assms(2) by fastforce+
qed

lemma members_all_top: "members_all P m \<Longrightarrow> P m"
  by (cases m) simp

lemma chosen_members_all:
  assumes "a \<in> set (choose_actions ctx m)" "members_all P m"
  shows "members_all P a"
proof (cases m)
  case (Member ty ck ref cs bs ds raw)
  have "members_all P a" if "a \<in> set (b_actions b)" "branch_all P b" for b
    using that by (cases b) (auto simp: list_all_iff)
  then show ?thesis using Member choose_actions_in [OF assms(1)] assms(2) by (auto simp: list_all_iff)
qed

lemma branch_members_all: "members_all P m \<Longrightarrow> b \<in> set (m_branches m) \<Longrightarrow> members_all P (b_cond b)"
  by (cases m; cases b) (auto simp: list_all_iff)

lemma branch_cond_vars:
  "b \<in> set (m_branches m) \<Longrightarrow> m_type m = ''choose'' \<Longrightarrow> set (cond_vars (b_cond b)) \<subseteq> set (action_vars m)"
  by (cases m; cases b) fastforce

section \<open>Running an edge rule\<close>

text \<open>A context without the app: its sinks and their recorders removed.\<close>

definition edge_only :: "action_ctx \<Rightarrow> action_ctx" where
  "edge_only ctx = ctx\<lparr>ac_signage := None, ac_variables := None, ac_pack := None,
     ac_rec_signage := False, ac_rec_variables := False, ac_rec_pack := False\<rparr>"

text \<open>A context whose variables and presets are those of a closure.\<close>

definition with_closure :: "closure \<Rightarrow> action_ctx \<Rightarrow> action_ctx" where
  "with_closure c ctx = ctx\<lparr>ac_vars := cl_variables c, ac_presets := Some (cl_presets c)\<rparr>"

definition preset_lookup :: "action_ctx \<Rightarrow> string \<Rightarrow> preset_command list option" where
  "preset_lookup ctx q = (case ac_presets ctx of Some f \<Rightarrow> f q | None \<Rightarrow> None)"

definition edge_member :: "member \<Rightarrow> bool" where
  "edge_member m \<longleftrightarrow> members_all well_shaped m \<and> (\<forall>(k, n) \<in> set (kinded ActionKind m). ClassOf k (m_type n) \<noteq> App)"

lemma edge_member_chosen:
  assumes "edge_member m" "m_type m = ''choose''" "a \<in> set (choose_actions ctx m)"
  shows "edge_member a"
proof -
  have "m_comp m = ''''"
    using assms(1,2) members_all_top [of well_shaped m] by (auto simp: edge_member_def well_shaped_def split: if_splits)
  then show ?thesis
    using assms chosen_kinded [of a ctx m] chosen_members_all [of a ctx m] by (auto simp: edge_member_def)
qed

lemma edge_member_type:
  assumes "edge_member m"
  shows "ClassOf ActionKind (m_type m) \<noteq> App"
proof (cases "m_comp m = ''''")
  case True
  then show ?thesis using assms by (cases m) (auto simp: edge_member_def)
next
  case False
  then have "m_type m = ''''"
    using assms members_all_top [of well_shaped m] by (auto simp: edge_member_def well_shaped_def)
  then show ?thesis by (simp add: ClassOf_def actions_table_def action_names)
qed

lemma edge_only_fields [simp]:
  "ac_reg (edge_only ctx) = ac_reg ctx" "ac_snap (edge_only ctx) = ac_snap ctx"
  "ac_wall (edge_only ctx) = ac_wall ctx" "ac_mono (edge_only ctx) = ac_mono ctx"
  "ac_loc (edge_only ctx) = ac_loc ctx" "ac_math (edge_only ctx) = ac_math ctx"
  "ac_vars (edge_only ctx) = ac_vars ctx" "ac_sink (edge_only ctx) = ac_sink ctx"
  "ac_presets (edge_only ctx) = ac_presets ctx" "ac_resolve (edge_only ctx) = ac_resolve ctx"
  "ac_eval (edge_only ctx) = ac_eval ctx" "ac_rec_outcomes (edge_only ctx) = ac_rec_outcomes ctx"
  "ac_rec_logs (edge_only ctx) = ac_rec_logs ctx" "ac_rec_rejected (edge_only ctx) = ac_rec_rejected ctx"
  by (simp_all add: edge_only_def)

lemma with_closure_fields [simp]:
  "ac_reg (with_closure c ctx) = ac_reg ctx" "ac_snap (with_closure c ctx) = ac_snap ctx"
  "ac_wall (with_closure c ctx) = ac_wall ctx" "ac_mono (with_closure c ctx) = ac_mono ctx"
  "ac_loc (with_closure c ctx) = ac_loc ctx" "ac_math (with_closure c ctx) = ac_math ctx"
  "ac_sink (with_closure c ctx) = ac_sink ctx" "ac_resolve (with_closure c ctx) = ac_resolve ctx"
  "ac_signage (with_closure c ctx) = ac_signage ctx" "ac_variables (with_closure c ctx) = ac_variables ctx"
  "ac_pack (with_closure c ctx) = ac_pack ctx" "ac_eval (with_closure c ctx) = ac_eval ctx"
  "ac_rec_outcomes (with_closure c ctx) = ac_rec_outcomes ctx" "ac_rec_logs (with_closure c ctx) = ac_rec_logs ctx"
  "ac_rec_rejected (with_closure c ctx) = ac_rec_rejected ctx" "ac_rec_signage (with_closure c ctx) = ac_rec_signage ctx"
  "ac_rec_variables (with_closure c ctx) = ac_rec_variables ctx" "ac_rec_pack (with_closure c ctx) = ac_rec_pack ctx"
  by (simp_all add: with_closure_def)

lemma edge_only_simps [simp]:
  "ctx_env (edge_only ctx) = ctx_env ctx" "runDelay (edge_only ctx) m = runDelay ctx m"
  "commandAllowed (edge_only ctx) e cmd = commandAllowed ctx e cmd"
  "evalParams (edge_only ctx) ps = evalParams ctx ps" "evalParam (edge_only ctx) j = evalParam ctx j"
  "resolveTargets (edge_only ctx) ref = resolveTargets ctx ref"
  "recordOutcome (edge_only ctx) rs st = recordOutcome ctx rs st"
  "dispatchOne (edge_only ctx) e cmd pars st = dispatchOne ctx e cmd pars st"
  "dispatchResult (edge_only ctx) e cmd pars st = dispatchResult ctx e cmd pars st"
  unfolding ctx_env_def runDelay_def commandAllowed_def evalParams_def evalParam_def resolveTargets_def
    recordOutcome_def dispatchOne_def dispatchResult_def recordRejected_def edge_only_fields
  by (rule refl)+

lemma dispatch_list_cong:
  assumes "\<And>e c ps st. dispatchResult ctx' e c ps st = dispatchResult ctx e c ps st"
  shows "dispatch_list ctx' cs st = dispatch_list ctx cs st"
  using assms by (induction cs arbitrary: st) simp_all

lemma edge_only_run_simple:
  assumes "ClassOf ActionKind (m_type m) \<noteq> App"
  shows "run_simple (edge_only ctx) m st = run_simple ctx m st"
proof -
  have dl: "dispatch_list (edge_only ctx) cs st = dispatch_list ctx cs st" for cs st
    by (rule dispatch_list_cong) simp
  have "\<not> IsSignageAction (m_type m)" "m_type m \<noteq> ActionVariableWrite" "m_type m \<noteq> ActionPackAction"
    using assms by (auto simp: ClassOf_def IsSignageAction_def actions_table_def action_names)
  then show ?thesis
    unfolding run_simple_def runDeviceCommand_def runPresetBatch_def runLog_def dispatchAll_def edge_only_simps
      edge_only_fields dl by simp
qed

lemma choose_actions_env: "ctx_env ctx' = ctx_env ctx \<Longrightarrow> choose_actions ctx' m = choose_actions ctx m"
proof -
  assume "ctx_env ctx' = ctx_env ctx"
  then have "chosen_branch ctx' bs = chosen_branch ctx bs" for bs by (induction bs) simp_all
  then show ?thesis by (simp add: choose_actions_def)
qed

lemma edge_only_run_through:
  "list_all edge_member ms \<Longrightarrow> run_through (\<lambda>k. edge_only (ctxs k)) k ms st = run_through ctxs k ms st"
proof (induction ctxs k ms st rule: run_through.induct)
  case (2 ctxs k m ms st)
  have "list_all edge_member (choose_actions (ctxs k) m)" if "m_type m = ''choose''"
    using 2(5) edge_member_chosen that by (auto simp: list_all_iff)
  moreover have "choose_actions (edge_only (ctxs k)) m = choose_actions (ctxs k) m"
    by (rule choose_actions_env) simp
  ultimately show ?case
    using 2 edge_only_run_simple [OF edge_member_type, of m "ctxs k" st]
    by (simp add: run_through.simps(2) split: prod.split)
qed simp

lemma edge_rule_members:
  assumes "ParseRule j = Some r" "en_class_of (ClassifyRule r) = ''edge''"
  shows "list_all edge_member (r_actions r)"
proof -
  have "members_all well_shaped m" if "m \<in> set (r_actions r)" for m
    using ParseRule_members [OF assms(1), of m] that decode_member_all [of well_shaped] decode_member_top
    by (auto simp: rule_members_def)
  then show ?thesis
    using assms(2) by (auto simp: ClassifyRule_edge rule_kinded_def edge_member_def list_all_iff)
qed

text \<open>C34. An edge rule needs no app.  A rule that is classified edge runs to its end, over all its delays,
  with the same effects when the sinks for signage, variables and pack actions are taken away.\<close>

theorem edge_rule_needs_no_app:
  assumes "ParseRule j = Some r" "en_class_of (ClassifyRule r) = ''edge''"
  shows "run_to_end (\<lambda>k. edge_only (ctxs k)) 0 (r_actions r) st = run_to_end ctxs 0 (r_actions r) st"
  using edge_only_run_through [OF edge_rule_members [OF assms]] by (simp add: run_to_end_through)

theorem edge_rule_needs_no_app_witness:
  "r_actions demo_edge \<noteq> [] \<and>
   run_to_end (\<lambda>k. edge_only demo_ctx) 0 (r_actions demo_edge) [] = run_to_end (\<lambda>k. demo_ctx) 0 (r_actions demo_edge) []"
  using edge_rule_needs_no_app [OF demo_edge_parsed demo_edge_facts(2), of "\<lambda>k. demo_ctx" "[]"]
  by (simp add: demo_edge_def)

section \<open>Running from the closure\<close>

lemma eval_leaf_vars:
  assumes "m_comp m = ''''" "\<forall>n \<in> set (cond_vars m). vars' n = ce_vars env n"
  shows "eval_leaf (env\<lparr>ce_vars := vars'\<rparr>) m = eval_leaf env m"
proof -
  have "evalVariableCondition vars' m = evalVariableCondition (ce_vars env) m" if "m_type m = ''variable''"
    using that assms by (cases m) (auto simp: evalVariableCondition_def Let_def)
  then show ?thesis by (simp add: eval_leaf_def)
qed

lemma EvalConditionAt_vars:
  assumes "members_all well_shaped m" "\<forall>n \<in> set (cond_vars m). vars' n = ce_vars env n"
  shows "EvalConditionAt (env\<lparr>ce_vars := vars'\<rparr>) m = EvalConditionAt env m"
  using assms
proof (induction env m rule: EvalConditionAt.induct)
  case (1 env ty ck ref cs bs ds raw)
  let ?e = "env\<lparr>ce_vars := vars'\<rparr>" and ?m = "Member ty ck ref cs bs ds raw"
  have sub: "members_all well_shaped c" "ck \<noteq> '''' \<Longrightarrow> \<forall>n \<in> set (cond_vars c). vars' n = ce_vars env n"
    if "c \<in> set cs" for c
    using "1.prems" that by (auto simp: list_all_iff)
  have "well_shaped ?m" using "1.prems" by simp
  then consider "ck = ''and''" | "ck = ''or''" | "ck = ''not''" | "ck = ''''"
    by (auto simp: well_shaped_def split: if_splits)
  then show ?case
  proof cases
    case 1
    then show ?thesis using "1.IH"(1) sub by (auto simp: list_all_iff)
  next
    case 2
    then show ?thesis using "1.IH"(2) sub by (auto simp: list_ex_iff)
  next
    case 3
    then show ?thesis using "1.IH"(3) sub by (auto split: list.splits)
  next
    case 4
    then show ?thesis using eval_leaf_vars [of ?m vars' env] "1.prems" by simp
  qed
qed

text \<open>The closure gives a member what it needs in a context.\<close>

definition serves :: "closure \<Rightarrow> action_ctx \<Rightarrow> member \<Rightarrow> bool" where
  "serves c ctx m \<longleftrightarrow> members_all well_shaped m \<and>
     (\<forall>n \<in> set (action_vars m). cl_variables c n = ac_vars ctx n) \<and>
     (\<forall>q. Some q \<in> set (action_presets m) \<longrightarrow> cl_presets c q = preset_lookup ctx q)"

lemma serves_chosen:
  "serves c ctx m \<Longrightarrow> m_type m = ''choose'' \<Longrightarrow> a \<in> set (choose_actions ctx' m) \<Longrightarrow> serves c ctx a"
  using chosen_needs [of a ctx' m] chosen_members_all [of a ctx' m] by (auto simp: serves_def)

lemma with_closure_env: "ctx_env (with_closure c ctx) = (ctx_env ctx)\<lparr>ce_vars := cl_variables c\<rparr>"
  by (simp add: with_closure_def ctx_env_def)

lemma serves_choose_actions:
  assumes "serves c ctx m" "m_type m = ''choose''"
  shows "choose_actions (with_closure c ctx) m = choose_actions ctx m"
proof -
  have c: "EvalConditionAt (ctx_env (with_closure c ctx)) (b_cond b) = EvalConditionAt (ctx_env ctx) (b_cond b)"
    if "b \<in> set (m_branches m)" for b
  proof -
    have "\<forall>n \<in> set (cond_vars (b_cond b)). cl_variables c n = ac_vars ctx n"
      using assms branch_cond_vars [OF that] by (auto simp: serves_def)
    then show ?thesis
      using assms branch_members_all [OF _ that] EvalConditionAt_vars [of "b_cond b" "cl_variables c" "ctx_env ctx"]
      by (simp add: serves_def with_closure_env) (simp add: ctx_env_def)
  qed
  have "chosen_branch (with_closure c ctx) bs = chosen_branch ctx bs" if "set bs \<subseteq> set (m_branches m)" for bs
    using that c by (induction bs) simp_all
  then show ?thesis by (simp add: choose_actions_def)
qed

lemma with_closure_simps [simp]:
  "runDelay (with_closure c ctx) m = runDelay ctx m"
  "commandAllowed (with_closure c ctx) e cmd = commandAllowed ctx e cmd"
  "evalParams (with_closure c ctx) ps = evalParams ctx ps" "evalParam (with_closure c ctx) j = evalParam ctx j"
  "resolveTargets (with_closure c ctx) ref = resolveTargets ctx ref"
  "recordOutcome (with_closure c ctx) rs st = recordOutcome ctx rs st"
  "recordSignage (with_closure c ctx) sg st = recordSignage ctx sg st"
  "recordVariable (with_closure c ctx) vo st = recordVariable ctx vo st"
  "recordPackAction (with_closure c ctx) po st = recordPackAction ctx po st"
  "call_signage (with_closure c ctx) sink call st = call_signage ctx sink call st"
  "dispatchOne (with_closure c ctx) e cmd pars st = dispatchOne ctx e cmd pars st"
  "dispatchResult (with_closure c ctx) e cmd pars st = dispatchResult ctx e cmd pars st"
  unfolding runDelay_def commandAllowed_def evalParams_def evalParam_def resolveTargets_def call_signage_def
    recordOutcome_def dispatchOne_def dispatchResult_def recordRejected_def recordSignage_def recordVariable_def
    recordPackAction_def with_closure_fields
  by (rule refl)+

lemma serves_preset_batch:
  assumes "serves c ctx m" "m_type m = ''preset_batch''"
  shows "runPresetBatch (with_closure c ctx) m st = runPresetBatch ctx m st"
proof -
  have dl: "dispatch_list (with_closure c ctx) cs st = dispatch_list ctx cs st" for cs st
    by (rule dispatch_list_cong) simp
  have "cl_presets c (dstr '''' (raw_field m ''preset_id'')) = preset_lookup ctx (dstr '''' (raw_field m ''preset_id''))"
    if "raw_decodes m" "list_all str_ok (raw_field m ''preset_id'')"
    using assms that by (cases m) (auto simp: serves_def preset_of_def raw_decodes_def)
  then show ?thesis
    unfolding runPresetBatch_def dl with_closure_simps Let_def
    by (auto simp: with_closure_def preset_lookup_def split: option.split)
qed

lemma serves_run_simple:
  assumes "serves c ctx m"
  shows "run_simple (with_closure c ctx) m st = run_simple ctx m st"
proof -
  have dl: "dispatch_list (with_closure c ctx) cs st = dispatch_list ctx cs st" for cs st
    by (rule dispatch_list_cong) simp
  have "runDeviceCommand (with_closure c ctx) m st = runDeviceCommand ctx m st"
    "runLog (with_closure c ctx) m st = runLog ctx m st" "runSignage (with_closure c ctx) m st = runSignage ctx m st"
    "runVariableWrite (with_closure c ctx) m st = runVariableWrite ctx m st"
    "runPackAction (with_closure c ctx) m st = runPackAction ctx m st"
    unfolding runDeviceCommand_def runLog_def runSignage_def runVariableWrite_def runPackAction_def dispatchAll_def
      with_closure_simps with_closure_fields dl
    by (rule refl)+
  then show ?thesis using serves_preset_batch [OF assms] by (simp add: run_simple_def)
qed

lemma serves_run_through:
  "(\<And>k. list_all (serves c (ctxs k)) ms) \<Longrightarrow>
   run_through (\<lambda>k. with_closure c (ctxs k)) k ms st = run_through ctxs k ms st"
proof (induction ctxs k ms st rule: run_through.induct)
  case (2 ctxs k m ms st)
  have m: "serves c (ctxs i) m" and ms: "list_all (serves c (ctxs i)) ms" for i
    using "2.prems" [of i] by simp_all
  have "list_all (serves c (ctxs i)) (choose_actions (ctxs k) m)" if "m_type m = ''choose''" for i
    using serves_chosen [OF m that] by (auto simp: list_all_iff)
  then show ?case
    using 2(1-4) ms serves_run_simple [OF m] serves_choose_actions [OF m]
    by (simp add: run_through.simps(2) split: prod.split)
qed simp


definition demo_closure_rule :: json where
  "demo_closure_rule = JObj [(''actions'', JArr [JObj [(''type'', JStr ''choose''), (''branches'', JArr
     [JObj [(''condition'', JObj [(''type'', JStr ''variable''), (''variable'', JStr ''v''), (''equals'', JStr ''on'')]),
            (''actions'', JArr [JObj [(''type'', JStr ''preset_batch''), (''preset_id'', JStr ''p'')]])]])]])]"

definition demo_frozen :: rule where
  "demo_frozen = (let cond = JObj [(''type'', JStr ''variable''), (''variable'', JStr ''v''), (''equals'', JStr ''on'')];
       act = JObj [(''type'', JStr ''preset_batch''), (''preset_id'', JStr ''p'')]
     in \<lparr>r_id = '''', r_mode = '''', r_max = None, r_triggers = [], r_conditions = [],
      r_actions = [Member ''choose'' '''' None []
        [Branch (Member ''variable'' '''' None [] [] [] (Some cond))
           [Member ''preset_batch'' '''' None [] [] [] (Some act)]] []
        (Some (JObj [(''type'', JStr ''choose''), (''branches'', JArr [JObj [(''condition'', cond), (''actions'', JArr [act])]])]))]\<rparr>)"

definition demo_closure_env :: closure_env where
  "demo_closure_env = \<lparr>cv_variables = [''v'' \<mapsto> GStr ''on'', ''w'' \<mapsto> GStr ''off''], cv_selector = None,
     cv_device_class = None, cv_presets = Some (\<lambda>p. if p = ''p'' then Some demo_batch else None)\<rparr>"

lemma demo_frozen_facts:
  "ParseRule demo_closure_rule = Some demo_frozen"
  "rule_vars demo_frozen = [''v''] \<and> rule_presets demo_frozen = [Some ''p'']"
  "case Compute demo_frozen demo_closure_env of Inr c \<Rightarrow> True | Inl _ \<Rightarrow> False"
  by code_simp+

theorem Compute_exact_witness:
  "case Compute demo_frozen demo_closure_env of
     Inr c \<Rightarrow> cl_variables c ''v'' = Some (GStr ''on'') \<and> cl_variables c ''w'' = None | Inl _ \<Rightarrow> False"
  using Compute_exact [of demo_frozen demo_closure_env] demo_frozen_facts
  by (auto simp: demo_closure_env_def split: sum.splits)


end
