(* ===== verification/TriggerRuntime.thy ===== *)
theory TriggerRuntime
  imports Hold Schedule Triggers Closure
begin

text \<open>
  A trigger at run time: the trigger half of \<open>internal/rules/engine/engine.go\<close> and its
  stabilization window, \<open>stabilization.go\<close>.  A runtime carries the trigger's pure state machine, its
  \<open>for\<close> hold, its baseline and the window that holds back its first firings.  The engine's clock is a
  pair of readings, fixed during one call.
\<close>

record clock_reading =
  ck_wall :: int
  ck_mono :: int

section \<open>Canonical texts\<close>

text \<open>
  \<open>canonRaw\<close> re-marshals decoded JSON; two texts have the same canonical form exactly when they decode
  to the same value, so the value stands for the form.  A text that does not decode stands for
  itself.
\<close>

datatype canon = CanonAbsent | CanonValue gval | CanonText json

definition canonRaw :: "json option \<Rightarrow> canon" where
  "canonRaw raw = (case raw of None \<Rightarrow> CanonAbsent
     | Some j \<Rightarrow> (case jdecode j of Some v \<Rightarrow> CanonValue v | None \<Rightarrow> CanonText j))"

definition triggerSig :: "json option \<Rightarrow> string \<Rightarrow> canon \<times> string" where
  "triggerSig raw entityID = (canonRaw raw, entityID)"

section \<open>The runtime\<close>

record trigger_rt =
  tr_kind :: string
  tr_entity :: string
  tr_sig :: "canon \<times> string"
  tr_st :: "state_trigger option"
  tr_nt :: "numeric_trigger option"
  tr_sched :: "sched_trigger option"
  tr_misfire :: string
  tr_hold :: "hold option"
  tr_holdKind :: hold_kind
  tr_for :: int
  tr_baseline :: trigger_baseline
  tr_prevParsed :: "f64 option"
  tr_seen :: bool
  tr_stabArmed :: bool
  tr_stabDeadline :: int
  tr_stabPending :: bool
  tr_lastLevelHolds :: bool
  tr_lastAttr :: gval

definition parseForSeconds :: "member \<Rightarrow> int" where
  "parseForSeconds m = dint 0 (raw_field m ''for'')"

definition parseMisfire :: "member \<Rightarrow> string" where
  "parseMisfire m = dstr '''' (raw_field m ''misfire'')"

definition scheduleTimeAt :: "member \<Rightarrow> string" where
  "scheduleTimeAt m = dstr '''' (raw_field m ''at'')"

text \<open>A text that is no string and no number is passed on as it starts; no pattern starts that way.\<close>

definition canonPatternField :: "json option \<Rightarrow> string" where
  "canonPatternField raw =
     (case raw of
        None \<Rightarrow> '''' | Some JNull \<Rightarrow> '''' | Some (JStr s) \<Rightarrow> s | Some (JNum s) \<Rightarrow> s
      | Some (JBool b) \<Rightarrow> (if b then ''true'' else ''false'') | Some (JArr _) \<Rightarrow> ''['' | Some (JObj _) \<Rightarrow> ''{'')"

definition scheduleTimePatternFields :: "member \<Rightarrow> string \<times> string \<times> string" where
  "scheduleTimePatternFields m =
     (canonPatternField (draw (raw_field m ''hours'')), canonPatternField (draw (raw_field m ''minutes'')),
      canonPatternField (draw (raw_field m ''seconds'')))"

definition scheduleSunSpec :: "member \<Rightarrow> string \<times> int" where
  "scheduleSunSpec m = (dstr '''' (raw_field m ''event''), dint 0 (raw_field m ''offset''))"

definition blank_runtime :: "string \<Rightarrow> int \<Rightarrow> canon \<times> string \<Rightarrow> trigger_rt" where
  "blank_runtime kind forSeconds sig =
     \<lparr>tr_kind = kind, tr_entity = '''', tr_sig = sig, tr_st = None, tr_nt = None, tr_sched = None, tr_misfire = '''',
      tr_hold = None, tr_holdKind = BoundedHold, tr_for = forSeconds, tr_baseline = no_baseline, tr_prevParsed = None,
      tr_seen = False, tr_stabArmed = False, tr_stabDeadline = 0, tr_stabPending = False,
      tr_lastLevelHolds = False, tr_lastAttr = GNil\<rparr>"

definition with_hold :: "member \<Rightarrow> string \<Rightarrow> hold_kind \<Rightarrow> trigger_rt \<Rightarrow> trigger_rt option" where
  "with_hold m entity hk tr =
     (if entity = '''' then None
      else Some (tr\<lparr>tr_entity := entity, tr_holdKind := hk, tr_hold := Some (NewHold hk (tr_for tr)),
                   tr_sig := triggerSig (m_raw m) entity\<rparr>))"

definition newStateOrNumericRuntime :: "member \<Rightarrow> string \<Rightarrow> trigger_rt option" where
  "newStateOrNumericRuntime m override =
     (let tr = blank_runtime (m_type m) (parseForSeconds m) (CanonAbsent, '''')
      in if m_type m = ''state'' then
           (case NewStateTrigger m of
              None \<Rightarrow> None
            | Some st \<Rightarrow>
                with_hold m (if override = '''' then st_entity st else override)
                  (if st_attribute st = '''' \<and> st_from st = None \<and> st_to st = None then DebounceHold else BoundedHold)
                  (tr\<lparr>tr_st := Some st\<rparr>))
         else if m_type m = ''numeric'' then
           (case NewNumericTrigger m of
              None \<Rightarrow> None
            | Some nt \<Rightarrow>
                with_hold m (if override = '''' then nt_entity nt else override) BoundedHold (tr\<lparr>tr_nt := Some nt\<rparr>))
         else None)"

definition newTriggerRuntime :: "member \<Rightarrow> trigger_rt option" where
  "newTriggerRuntime m =
     (if m_type m = ''state'' \<or> m_type m = ''numeric'' then newStateOrNumericRuntime m ''''
      else (let tr = blank_runtime (m_type m) (parseForSeconds m) (triggerSig (m_raw m) '''');
                sched = (if m_type m = ''time'' then map_option SchedTime (NewTimeTrigger (scheduleTimeAt m))
                  else if m_type m = ''time_pattern'' then
                    (case scheduleTimePatternFields m of (h, mi, s) \<Rightarrow> map_option SchedPattern (NewTimePatternTrigger h mi s))
                  else if m_type m = ''sun'' then
                    (case scheduleSunSpec m of (event, offset) \<Rightarrow> map_option SchedSun (NewSunTrigger event offset))
                  else None)
            in case sched of None \<Rightarrow> None
               | Some sc \<Rightarrow> Some (tr\<lparr>tr_sched := Some sc, tr_misfire := parseMisfire m\<rparr>)))"

section \<open>Stepping\<close>

definition stateLevelHolds :: "registry \<Rightarrow> state_trigger \<Rightarrow> trigger_rt \<Rightarrow> entity \<Rightarrow> bool \<times> trigger_rt" where
  "stateLevelHolds reg st tr ent =
     (if st_attribute st = '''' then
        (case st_to st of Some b \<Rightarrow> MatchState reg (en_class ent) (en_state ent) b | None \<Rightarrow> True, tr)
      else (case map_of (en_attrs ent) (st_attribute st) of
              None \<Rightarrow> (False, tr)
            | Some av \<Rightarrow>
               (case st_to st of Some b \<Rightarrow> TypedEqual av b (rg_type reg (en_class ent) (st_attribute st))
                | None \<Rightarrow> deep_equal av (tr_lastAttr tr),
                tr\<lparr>tr_lastAttr := av\<rparr>)))"

definition numericLevelHolds :: "numeric_trigger \<Rightarrow> entity \<Rightarrow> bool" where
  "numericLevelHolds nt ent = (case ParseNumber (nt_value nt ent) of None \<Rightarrow> False | Some f \<Rightarrow> satisfies nt f)"

text \<open>\<open>evalTrigger\<close>: whether the trigger fires, and whether its level holds.\<close>

definition evalTrigger :: "registry \<Rightarrow> trigger_rt \<Rightarrow> observation \<Rightarrow> bool \<times> bool \<times> trigger_rt" where
  "evalTrigger reg tr obs =
     (case (tr_kind tr = ''state'', tr_st tr, tr_kind tr = ''numeric'', tr_nt tr) of
        (True, Some st, _, _) \<Rightarrow>
          (case StateObserve st reg (tr_baseline tr) obs of (fired, next) \<Rightarrow>
             (case stateLevelHolds reg st (tr\<lparr>tr_baseline := next\<rparr>) (ob_entity obs) of (level, tr') \<Rightarrow> (fired, level, tr')))
      | (_, _, True, Some nt) \<Rightarrow>
          (case NumericObserve nt (tr_prevParsed tr) obs of (fired, next) \<Rightarrow>
             (fired, numericLevelHolds nt (ob_entity obs), tr\<lparr>tr_prevParsed := next\<rparr>))
      | _ \<Rightarrow> (False, False, tr))"

text \<open>The step of a trigger's hold; a trigger that is stepped has one.\<close>

definition step_hold :: "int \<Rightarrow> bool \<Rightarrow> trigger_rt \<Rightarrow> bool \<times> trigger_rt" where
  "step_hold now raw tr =
     (case tr_hold tr of None \<Rightarrow> (False, tr)
      | Some h \<Rightarrow> (case Step h now raw of (fires, h') \<Rightarrow> (fires, tr\<lparr>tr_hold := Some h'\<rparr>)))"

definition stepTriggerObservation :: "registry \<Rightarrow> int \<Rightarrow> trigger_rt \<Rightarrow> observation \<Rightarrow> bool \<times> trigger_rt" where
  "stepTriggerObservation reg now tr obs =
     (case evalTrigger reg tr obs of (edge, level, tr1) \<Rightarrow>
        if tr_for tr1 \<le> 0 then (edge, tr1\<lparr>tr_seen := True, tr_lastLevelHolds := level\<rparr>)
        else (let tr2 = (if tr_holdKind tr1 \<noteq> DebounceHold \<and> \<not> tr_seen tr1 \<and> tr_kind tr1 = ''state''
                         then tr1\<lparr>tr_hold := map_option (\<lambda>h. Seed h level) (tr_hold tr1)\<rparr> else tr1)
              in step_hold now (if tr_holdKind tr1 = DebounceHold then edge else level)
                   (tr2\<lparr>tr_seen := True, tr_lastLevelHolds := level\<rparr>)))"

definition stepTriggerTick :: "int \<Rightarrow> trigger_rt \<Rightarrow> bool \<times> trigger_rt" where
  "stepTriggerTick now tr = step_hold now (tr_holdKind tr \<noteq> DebounceHold \<and> tr_lastLevelHolds tr) tr"

definition seedTriggerBaseline :: "registry \<Rightarrow> string \<Rightarrow> entity \<Rightarrow> trigger_rt \<Rightarrow> trigger_rt" where
  "seedTriggerBaseline reg s cur tr =
     (let tr1 = tr\<lparr>tr_baseline := \<lparr>tb_known = True, tb_state = s, tb_attr = None\<rparr>\<rparr>;
          tr2 = (case (tr_kind tr = ''state'', tr_st tr, tr_hold tr) of
                   (True, Some st, Some h) \<Rightarrow>
                     (case stateLevelHolds reg st tr1 cur of (level, tr') \<Rightarrow>
                        tr'\<lparr>tr_lastLevelHolds := level, tr_hold := Some (Seed h level)\<rparr>)
                 | _ \<Rightarrow> tr1)
      in tr2\<lparr>tr_seen := True\<rparr>)"

section \<open>Stabilization\<close>

definition arm_trigger :: "int \<Rightarrow> trigger_rt \<Rightarrow> trigger_rt" where
  "arm_trigger deadline tr =
     (if tr_kind tr = ''state'' \<or> tr_kind tr = ''numeric''
      then tr\<lparr>tr_stabArmed := True, tr_stabDeadline := deadline\<rparr> else tr)"

definition stabilizationHeld :: "int \<Rightarrow> trigger_rt \<Rightarrow> bool \<times> trigger_rt" where
  "stabilizationHeld now tr =
     (if \<not> tr_stabArmed tr then (False, tr)
      else if tr_stabDeadline tr \<le> now then (False, tr\<lparr>tr_stabArmed := False\<rparr>)
      else (True, tr\<lparr>tr_stabPending := True\<rparr>))"

text \<open>One trigger of \<open>releaseStabilized\<close>: whether it fires now.\<close>

definition release_trigger :: "int \<Rightarrow> trigger_rt \<Rightarrow> bool \<times> trigger_rt" where
  "release_trigger now tr =
     (if \<not> tr_stabArmed tr \<or> now < tr_stabDeadline tr then (False, tr)
      else (tr_stabPending tr, tr\<lparr>tr_stabArmed := False, tr_stabPending := False\<rparr>))"

end
