(* ===== verification/Engine.thy ===== *)
theory Engine
  imports TriggerRuntime
begin

text \<open>
  The edge rule engine, \<open>internal/rules/engine\<close>: the loaded rules with their trigger runtimes and runs in
  flight, the entity snapshot and the schedule cursor.  An operation takes the readings of the
  engine's clock; a \<open>Tick\<close> also those of the clock it is given.  The calls an operation makes of the
  command sink are appended to a trace, which the source does not keep.  After a generation is applied
  no two instances share a trigger runtime, so each instance holds its runtimes by value.
\<close>

section \<open>State\<close>

text \<open>
  A closure as the engine receives it: Go maps as entry lists in key order, \<open>None\<close> for a nil map and a
  nil slice.  These are what the marshalled closure shows.
\<close>

record frozen =
  fz_variables :: "(string \<times> gval) list option"
  fz_selectors :: "(string \<times> string list option) list option"
  fz_presets :: "(string \<times> preset_command list option) list option"

definition no_frozen :: frozen where
  "no_frozen = \<lparr>fz_variables = None, fz_selectors = None, fz_presets = None\<rparr>"

definition go_map :: "(string \<times> 'v) list option \<Rightarrow> string \<rightharpoonup> 'v" where
  "go_map m = (case m of Some kvs \<Rightarrow> map_of kvs | None \<Rightarrow> Map.empty)"

definition go_slice :: "'a list option \<Rightarrow> 'a list" where
  "go_slice s = (case s of Some xs \<Rightarrow> xs | None \<Rightarrow> [])"

record run_disposition =
  rd_rule :: string
  rd_disposition :: string
  rd_mode :: string
  rd_misfire :: bool

definition Ran :: string where "Ran = ''ran''"
definition Skipped :: string where "Skipped = ''skipped''"
definition Restarted :: string where "Restarted = ''restarted''"
definition Canceled :: string where "Canceled = ''canceled''"

record run_state =
  rs_pending :: "delay_pending option"
  rs_scope :: string

record rule_instance =
  ri_id :: string
  ri_mode :: string
  ri_rule :: rule
  ri_closure :: frozen
  ri_triggers :: "trigger_rt list"
  ri_run :: "run_state option"

record engine =
  eg_reg :: registry
  eg_sink :: "(effect list \<Rightarrow> string \<Rightarrow> string \<Rightarrow> params \<Rightarrow> string option) option"
  eg_presets :: "(string \<Rightarrow> preset_command list option) option"
  eg_math :: mathlib
  eg_rules :: "rule_instance list"
  eg_gen :: int
  eg_snap :: snapshot
  eg_loc :: location
  eg_lastTickWall :: int
  eg_scheduleFloor :: int
  eg_clockUntrusted :: bool
  eg_stabWindowMs :: int
  eg_trace :: "effect list"

definition NewEngine :: "registry \<Rightarrow> (effect list \<Rightarrow> string \<Rightarrow> string \<Rightarrow> params \<Rightarrow> string option) option \<Rightarrow>
    (string \<Rightarrow> preset_command list option) option \<Rightarrow> mathlib \<Rightarrow> engine" where
  "NewEngine reg sink presets ml =
     \<lparr>eg_reg = reg, eg_sink = sink, eg_presets = presets, eg_math = ml, eg_rules = [], eg_gen = 0, eg_snap = Map.empty,
      eg_loc = \<lparr>loc_tz = None, loc_lat = Fin 0, loc_lon = Fin 0\<rparr>, eg_lastTickWall = 0, eg_scheduleFloor = 0,
      eg_clockUntrusted = False, eg_stabWindowMs = 0, eg_trace = []\<rparr>"

text \<open>\<open>SetLocation\<close>: the zone database is a parameter; an unknown zone leaves the location.\<close>

definition SetLocation :: "(string \<Rightarrow> zone option) \<Rightarrow> string \<Rightarrow> f64 \<Rightarrow> f64 \<Rightarrow> engine \<Rightarrow> bool \<times> engine" where
  "SetLocation zones tzName lat lon e =
     (case zones tzName of None \<Rightarrow> (False, e)
      | Some z \<Rightarrow> (True, e\<lparr>eg_loc := \<lparr>loc_tz = Some z, loc_lat = lat, loc_lon = lon\<rparr>\<rparr>))"

definition SeedScheduleFloor :: "int \<Rightarrow> engine \<Rightarrow> engine" where
  "SeedScheduleFloor wallMs e = e\<lparr>eg_scheduleFloor := wallMs\<rparr>"

text \<open>A window in nanoseconds, kept in whole milliseconds.\<close>

definition SetStabilizationWindow :: "int \<Rightarrow> engine \<Rightarrow> engine" where
  "SetStabilizationWindow d e = e\<lparr>eg_stabWindowMs := (if d \<le> 0 then 0 else d div 1000000)\<rparr>"

definition map_triggers :: "(trigger_rt \<Rightarrow> trigger_rt) \<Rightarrow> rule_instance \<Rightarrow> rule_instance" where
  "map_triggers f ri = ri\<lparr>ri_triggers := map f (ri_triggers ri)\<rparr>"

definition SeedEntityState :: "string \<Rightarrow> string \<Rightarrow> engine \<Rightarrow> engine" where
  "SeedEntityState entityID s e =
     (let cur = (case eg_snap e entityID of Some c \<Rightarrow> c
            | None \<Rightarrow> \<lparr>en_id = entityID, en_class = '''', en_state = '''', en_attrs = []\<rparr>)\<lparr>en_state := s\<rparr>
      in e\<lparr>eg_snap := (eg_snap e)(entityID \<mapsto> cur),
           eg_rules := map (map_triggers (\<lambda>tr. if tr_entity tr \<noteq> entityID then tr
             else seedTriggerBaseline (eg_reg e) s cur tr)) (eg_rules e)\<rparr>)"

section \<open>Runs\<close>

text \<open>\<open>effectiveClk\<close>: while the clock is untrusted its wall reading is the floor.\<close>

definition effectiveClk :: "clock_reading \<Rightarrow> engine \<Rightarrow> clock_reading" where
  "effectiveClk clk e = (if eg_clockUntrusted e then clk\<lparr>ck_wall := eg_scheduleFloor e\<rparr> else clk)"

definition exprEvaluator :: "clock_reading \<Rightarrow> engine \<Rightarrow> string \<Rightarrow> json \<Rightarrow> gval option" where
  "exprEvaluator clk e scope raw =
     (case Parse raw of
        Inl _ \<Rightarrow> None
      | Inr x \<Rightarrow> Evaluate x \<lparr>xe_snap = eg_snap e, xe_now = ck_wall clk, xe_floor = eg_scheduleFloor e,
                          xe_untrusted = eg_clockUntrusted e, xe_edge = True, xe_scope = scope\<rparr>)"

definition closureResolver :: "frozen \<Rightarrow> entity_ref \<Rightarrow> string list" where
  "closureResolver cl ref =
     (if er_entity_id ref \<noteq> '''' then [er_entity_id ref]
      else go_slice (case go_map (fz_selectors cl) (if er_selector ref = '''' then er_device_class ref else er_selector ref)
             of Some s \<Rightarrow> s | None \<Rightarrow> None))"

text \<open>\<open>closurePresetStore.Commands\<close>\<close>

definition store_Commands :: "frozen \<Rightarrow> (string \<Rightarrow> preset_command list option) option \<Rightarrow> string \<Rightarrow> preset_command list option" where
  "store_Commands cl live presetID =
     (case go_map (fz_presets cl) presetID of
        Some cmds \<Rightarrow> Some (go_slice cmds)
      | None \<Rightarrow> (case live of Some f \<Rightarrow> f presetID | None \<Rightarrow> None))"

definition actionContext :: "clock_reading \<Rightarrow> engine \<Rightarrow> rule_instance \<Rightarrow> string \<Rightarrow> action_ctx" where
  "actionContext clk e ri scope =
     \<lparr>ac_reg = Some (eg_reg e), ac_snap = eg_snap e, ac_wall = ck_wall (effectiveClk clk e), ac_mono = ck_mono clk,
      ac_loc = eg_loc e, ac_math = eg_math e, ac_vars = go_map (fz_variables (ri_closure ri)), ac_sink = eg_sink e,
      ac_presets = Some (store_Commands (ri_closure ri) (eg_presets e)),
      ac_resolve = Some (closureResolver (ri_closure ri)), ac_signage = None, ac_variables = None, ac_pack = None,
      ac_eval = Some (exprEvaluator clk e scope), ac_rec_outcomes = False, ac_rec_logs = False,
      ac_rec_rejected = False, ac_rec_signage = False, ac_rec_variables = False, ac_rec_pack = False\<rparr>"

definition conditionsPass :: "clock_reading \<Rightarrow> engine \<Rightarrow> rule_instance \<Rightarrow> bool" where
  "conditionsPass clk e ri =
     list_all (EvalConditionAt \<lparr>ce_reg = eg_reg e, ce_snap = eg_snap e, ce_now = ck_wall (effectiveClk clk e),
       ce_loc = eg_loc e, ce_vars = go_map (fz_variables (ri_closure ri)), ce_math = eg_math e\<rparr>)
       (r_conditions (ri_rule ri))"

text \<open>Operations on one rule return the rule and the trace; the engine holds what they read.\<close>

definition startRun :: "clock_reading \<Rightarrow> engine \<Rightarrow> string \<Rightarrow> rule_instance \<Rightarrow> effect list \<Rightarrow> rule_instance \<times> effect list" where
  "startRun clk e scope ri tr =
     (case RunActions (actionContext clk e ri scope) (r_actions (ri_rule ri)) tr of
        (Some dp, tr') \<Rightarrow> (ri\<lparr>ri_run := Some \<lparr>rs_pending = Some dp, rs_scope = scope\<rparr>\<rparr>, tr')
      | (None, tr') \<Rightarrow> (ri\<lparr>ri_run := None\<rparr>, tr'))"

definition disposition :: "rule_instance \<Rightarrow> string \<Rightarrow> bool \<Rightarrow> run_disposition" where
  "disposition ri d caught = \<lparr>rd_rule = ri_id ri, rd_disposition = d, rd_mode = ri_mode ri, rd_misfire = caught\<rparr>"

definition fireRuleWith ::
  "clock_reading \<Rightarrow> engine \<Rightarrow> string \<Rightarrow> bool \<Rightarrow> rule_instance \<Rightarrow> effect list \<Rightarrow>
    run_disposition list \<times> rule_instance \<times> effect list" where
  "fireRuleWith clk e scope caught ri tr =
     (if \<not> conditionsPass clk e ri then ([], ri, tr)
      else if ri_run ri \<noteq> None \<and> ri_mode ri = ''restart'' then
        (case startRun clk e scope (ri\<lparr>ri_run := None\<rparr>) tr of (ri', tr') \<Rightarrow>
           ([disposition ri Restarted caught, disposition ri Ran caught], ri', tr'))
      else if ri_run ri \<noteq> None then ([disposition ri Skipped caught], ri, tr)
      else (case startRun clk e scope ri tr of (ri', tr') \<Rightarrow> ([disposition ri Ran caught], ri', tr')))"

definition fireRule ::
  "clock_reading \<Rightarrow> engine \<Rightarrow> string \<Rightarrow> rule_instance \<Rightarrow> effect list \<Rightarrow>
    run_disposition list \<times> rule_instance \<times> effect list" where
  "fireRule clk e scope ri tr = fireRuleWith clk e scope False ri tr"

definition resumeDelay :: "clock_reading \<Rightarrow> clock_reading \<Rightarrow> engine \<Rightarrow> rule_instance \<Rightarrow> effect list \<Rightarrow> rule_instance \<times> effect list" where
  "resumeDelay clk now e ri tr =
     (case ri_run ri of
        None \<Rightarrow> (ri, tr)
      | Some run \<Rightarrow>
         (case rs_pending run of
            None \<Rightarrow> (ri, tr)
          | Some dp \<Rightarrow>
              if ck_mono now < dp_resume dp then (ri, tr)
              else (case RunActions (actionContext clk e ri (rs_scope run)) (dp_remaining dp) tr of
                      (Some dp', tr') \<Rightarrow> (ri\<lparr>ri_run := Some (run\<lparr>rs_pending := Some dp'\<rparr>)\<rparr>, tr')
                    | (None, tr') \<Rightarrow> (ri\<lparr>ri_run := None\<rparr>, tr'))))"

section \<open>Passes over the triggers\<close>

text \<open>
  \<open>fire_all\<close> fires one rule for a list of firings, each with its scope and whether it was caught up.
  A pass visits every trigger of every rule in order; \<open>step\<close> gives the trigger's firings and its
  next runtime.  The loops of the source are the passes with the steps below.
\<close>

type_synonym firing = "string \<times> bool"

fun fire_all ::
  "clock_reading \<Rightarrow> engine \<Rightarrow> firing list \<Rightarrow> rule_instance \<Rightarrow> effect list \<Rightarrow>
    run_disposition list \<times> rule_instance \<times> effect list" where
  "fire_all clk e [] ri tr = ([], ri, tr)"
| "fire_all clk e ((scope, caught) # fs) ri tr =
     (case fireRuleWith clk e scope caught ri tr of (out, ri', tr') \<Rightarrow>
       (case fire_all clk e fs ri' tr' of (outs, ri'', tr'') \<Rightarrow> (out @ outs, ri'', tr'')))"

fun pass_triggers ::
  "clock_reading \<Rightarrow> engine \<Rightarrow> (trigger_rt \<Rightarrow> firing list \<times> trigger_rt) \<Rightarrow> trigger_rt list \<Rightarrow> rule_instance \<Rightarrow>
    effect list \<Rightarrow> run_disposition list \<times> trigger_rt list \<times> rule_instance \<times> effect list" where
  "pass_triggers clk e step [] ri tr = ([], [], ri, tr)"
| "pass_triggers clk e step (t # ts) ri tr =
     (case step t of (fires, t') \<Rightarrow>
       (case fire_all clk e fires ri tr of (out, ri', tr') \<Rightarrow>
         (case pass_triggers clk e step ts ri' tr' of (outs, ts', ri'', tr'') \<Rightarrow> (out @ outs, t' # ts', ri'', tr''))))"

fun pass_rules ::
  "clock_reading \<Rightarrow> engine \<Rightarrow> (trigger_rt \<Rightarrow> firing list \<times> trigger_rt) \<Rightarrow> rule_instance list \<Rightarrow> effect list \<Rightarrow>
    run_disposition list \<times> rule_instance list \<times> effect list" where
  "pass_rules clk e step [] tr = ([], [], tr)"
| "pass_rules clk e step (ri # ris) tr =
     (case pass_triggers clk e step (ri_triggers ri) ri tr of (out, ts, ri', tr') \<Rightarrow>
       (case pass_rules clk e step ris tr' of (outs, ris', tr'') \<Rightarrow>
          (out @ outs, ri'\<lparr>ri_triggers := ts\<rparr> # ris', tr'')))"

definition run_pass ::
  "clock_reading \<Rightarrow> (trigger_rt \<Rightarrow> firing list \<times> trigger_rt) \<Rightarrow> engine \<Rightarrow> run_disposition list \<times> engine" where
  "run_pass clk step e =
     (case pass_rules clk e step (eg_rules e) (eg_trace e) of
        (out, ris, tr) \<Rightarrow> (out, e\<lparr>eg_rules := ris, eg_trace := tr\<rparr>))"

text \<open>\<open>dispatchFire\<close>: a firing goes through the stabilization window; its scope is the trigger's entity.\<close>

definition gate :: "int \<Rightarrow> bool \<times> trigger_rt \<Rightarrow> firing list \<times> trigger_rt" where
  "gate now = (\<lambda>(fires, t).
     if \<not> fires then ([], t)
     else (case stabilizationHeld now t of (held, t') \<Rightarrow> (if held then [] else [(tr_entity t', False)], t')))"

definition observe_step :: "clock_reading \<Rightarrow> engine \<Rightarrow> observation \<Rightarrow> trigger_rt \<Rightarrow> firing list \<times> trigger_rt" where
  "observe_step clk e obs t =
     (if tr_entity t \<noteq> en_id (ob_entity obs) then ([], t)
      else gate (ck_mono clk) (stepTriggerObservation (eg_reg e) (ck_mono clk) t obs))"

definition tick_step :: "clock_reading \<Rightarrow> clock_reading \<Rightarrow> trigger_rt \<Rightarrow> firing list \<times> trigger_rt" where
  "tick_step clk now t =
     (if tr_for t \<le> 0 \<or> tr_hold t = None then ([], t)
      else gate (ck_mono clk) (stepTriggerTick (ck_mono now) t))"

definition release_step :: "clock_reading \<Rightarrow> trigger_rt \<Rightarrow> firing list \<times> trigger_rt" where
  "release_step clk t =
     (case release_trigger (ck_mono clk) t of (fires, t') \<Rightarrow> (if fires then [(tr_entity t', False)] else [], t'))"

definition live_step :: "engine \<Rightarrow> int \<Rightarrow> int \<Rightarrow> trigger_rt \<Rightarrow> firing list \<times> trigger_rt" where
  "live_step e from to t =
     (case tr_sched t of None \<Rightarrow> ([], t)
      | Some sc \<Rightarrow> (map (\<lambda>_. ('''', False)) (Occurrences (eg_math e) sc (eg_loc e) from to), t))"

definition misfire_step :: "engine \<Rightarrow> int \<Rightarrow> int \<Rightarrow> trigger_rt \<Rightarrow> firing list \<times> trigger_rt" where
  "misfire_step e from to t =
     (case tr_sched t of None \<Rightarrow> ([], t)
      | Some sc \<Rightarrow> (map (\<lambda>f. ('''', fi_caught f))
          (ApplyMisfire (tr_misfire t) (Occurrences (eg_math e) sc (eg_loc e) from to)), t))"

section \<open>Events\<close>

definition Observe :: "clock_reading \<Rightarrow> observation \<Rightarrow> engine \<Rightarrow> run_disposition list \<times> engine" where
  "Observe clk obs e =
     (if eg_rules e = [] then ([], e)
      else (let e1 = e\<lparr>eg_snap := (eg_snap e)(en_id (ob_entity obs) \<mapsto> ob_entity obs)\<rparr>
            in run_pass clk (observe_step clk e1 obs) e1))"

definition releaseStabilized :: "clock_reading \<Rightarrow> engine \<Rightarrow> run_disposition list \<times> engine" where
  "releaseStabilized clk e = run_pass clk (release_step clk) e"

text \<open>The cursor only moves forward.\<close>

definition advance_cursor :: "int \<Rightarrow> engine \<Rightarrow> engine" where
  "advance_cursor wall e = (if eg_lastTickWall e < wall then e\<lparr>eg_lastTickWall := wall\<rparr> else e)"

definition replayMissedSchedules :: "clock_reading \<Rightarrow> int \<Rightarrow> int \<Rightarrow> engine \<Rightarrow> run_disposition list \<times> engine" where
  "replayMissedSchedules clk fromExclusive toInclusive e =
     (if eg_rules e = [] then ([], e)
      else (case run_pass clk (misfire_step e (max fromExclusive (eg_scheduleFloor e)) toInclusive) e of
              (out, e') \<Rightarrow> (out, advance_cursor toInclusive e')))"

definition hasSchedule :: "engine \<Rightarrow> bool" where
  "hasSchedule e \<longleftrightarrow> list_ex (\<lambda>ri. list_ex (\<lambda>t. tr_sched t \<noteq> None) (ri_triggers ri)) (eg_rules e)"

definition dispatchSchedule :: "clock_reading \<Rightarrow> clock_reading \<Rightarrow> engine \<Rightarrow> run_disposition list \<times> engine" where
  "dispatchSchedule clk now e =
     (if \<not> hasSchedule e then ([], e)
      else if eg_clockUntrusted e then ([], e)
      else if eg_lastTickWall e = 0 then replayMissedSchedules clk (eg_scheduleFloor e) (ck_wall now) e
      else (case run_pass clk (live_step e (max (eg_lastTickWall e) (eg_scheduleFloor e)) (ck_wall now)) e of
              (out, e') \<Rightarrow> (out, advance_cursor (ck_wall now) e')))"

fun resume_rules :: "clock_reading \<Rightarrow> clock_reading \<Rightarrow> engine \<Rightarrow> rule_instance list \<Rightarrow> effect list \<Rightarrow> rule_instance list \<times> effect list" where
  "resume_rules clk now e [] tr = ([], tr)"
| "resume_rules clk now e (ri # ris) tr =
     (case resumeDelay clk now e ri tr of (ri', tr') \<Rightarrow>
       (case resume_rules clk now e ris tr' of (ris', tr'') \<Rightarrow> (ri' # ris', tr'')))"

definition resume_all :: "clock_reading \<Rightarrow> clock_reading \<Rightarrow> engine \<Rightarrow> engine" where
  "resume_all clk now e =
     (case resume_rules clk now e (eg_rules e) (eg_trace e) of (ris, tr) \<Rightarrow> e\<lparr>eg_rules := ris, eg_trace := tr\<rparr>)"

definition Tick :: "clock_reading \<Rightarrow> clock_reading \<Rightarrow> engine \<Rightarrow> run_disposition list \<times> engine" where
  "Tick clk now e =
     (if eg_rules e = [] then ([], e)
      else (case run_pass clk (tick_step clk now) e of (out1, e1) \<Rightarrow>
           (case releaseStabilized clk e1 of (out2, e2) \<Rightarrow>
           (case dispatchSchedule clk now e2 of (out3, e3) \<Rightarrow>
              (out1 @ out2 @ out3, resume_all clk now e3)))))"

text \<open>\<open>SetClockTrust\<close>: an unknown state is an error.\<close>

definition SetClockTrust :: "clock_reading \<Rightarrow> string \<Rightarrow> engine \<Rightarrow> (run_disposition list \<times> engine) option" where
  "SetClockTrust clk st e =
     (if st = ''untrusted'' then Some ([], e\<lparr>eg_clockUntrusted := True\<rparr>)
      else if st = ''trusted'' then
        (let e1 = e\<lparr>eg_clockUntrusted := False\<rparr>
         in if \<not> eg_clockUntrusted e then Some ([], e1)
            else Some (replayMissedSchedules clk (eg_lastTickWall e1) (ck_wall clk) e1))
      else None)"

section \<open>Generations\<close>

record compiled_rule =
  cr_entry :: compiled_entry
  cr_rule :: rule
  cr_closure :: frozen

record generation =
  gn_number :: int
  gn_rules :: "compiled_rule list"

definition canonMembers :: "member list \<Rightarrow> canon list" where
  "canonMembers ms = map (\<lambda>m. canonRaw (m_raw m)) ms"

text \<open>The signature's marshalled bytes, as what they are marshalled from; marshalling it cannot fail.\<close>

definition ruleSignature :: "rule \<Rightarrow> frozen \<Rightarrow> string \<times> canon list \<times> canon list \<times> canon list \<times> frozen" where
  "ruleSignature r cl =
     (r_mode r, canonMembers (r_triggers r), canonMembers (r_conditions r), canonMembers (r_actions r), cl)"

definition ruleChanged :: "rule \<Rightarrow> frozen \<Rightarrow> rule \<Rightarrow> frozen \<Rightarrow> bool" where
  "ruleChanged oldRule oldCl newRule newCl \<longleftrightarrow> ruleSignature oldRule oldCl \<noteq> ruleSignature newRule newCl"

definition opt_list :: "'a option \<Rightarrow> 'a list" where
  "opt_list x = (case x of Some y \<Rightarrow> [y] | None \<Rightarrow> [])"

definition buildTriggers :: "frozen \<Rightarrow> member \<Rightarrow> trigger_rt list" where
  "buildTriggers cl m =
     (case m_ref m of
        None \<Rightarrow> opt_list (newTriggerRuntime m)
      | Some ref \<Rightarrow>
          if er_entity_id ref = '''' \<and> (er_selector ref \<noteq> '''' \<or> er_device_class ref \<noteq> '''')
          then concat (map (\<lambda>entityID. opt_list (newStateOrNumericRuntime m entityID))
                 (go_slice (case go_map (fz_selectors cl)
                     (if er_selector ref = '''' then er_device_class ref else er_selector ref) of Some s \<Rightarrow> s | None \<Rightarrow> None)))
          else opt_list (newTriggerRuntime m))"

definition newRuleInstance :: "compiled_rule \<Rightarrow> rule_instance" where
  "newRuleInstance cr =
     \<lparr>ri_id = r_id (cr_rule cr), ri_mode = (if r_mode (cr_rule cr) = '''' then ''single'' else r_mode (cr_rule cr)),
      ri_rule = cr_rule cr, ri_closure = cr_closure cr,
      ri_triggers = concat (map (buildTriggers (cr_closure cr)) (r_triggers (cr_rule cr))), ri_run = None\<rparr>"

definition armStabilization :: "clock_reading \<Rightarrow> engine \<Rightarrow> rule_instance \<Rightarrow> rule_instance" where
  "armStabilization clk e ri =
     (if eg_stabWindowMs e \<le> 0 then ri
      else map_triggers (arm_trigger (i64 (ck_mono clk + eg_stabWindowMs e))) ri)"

text \<open>Each signature is carried at most once, and the first old trigger with it wins.\<close>

fun carry :: "((canon \<times> string) \<times> trigger_rt) list \<Rightarrow> trigger_rt list \<Rightarrow> trigger_rt list" where
  "carry bySig [] = []"
| "carry bySig (t # ts) =
     (case map_of bySig (tr_sig t) of
        Some prev \<Rightarrow> prev # carry (filter (\<lambda>(s, _). s \<noteq> tr_sig t) bySig) ts
      | None \<Rightarrow> t # carry bySig ts)"

definition carryUnchangedTriggers :: "rule_instance \<Rightarrow> rule_instance \<Rightarrow> rule_instance" where
  "carryUnchangedTriggers fresh old =
     fresh\<lparr>ri_triggers := carry (map (\<lambda>t. (tr_sig t, t)) (ri_triggers old)) (ri_triggers fresh)\<rparr>"

definition prior_of :: "engine \<Rightarrow> string \<rightharpoonup> rule_instance" where
  "prior_of e = map_of (rev (map (\<lambda>ri. (ri_id ri, ri)) (eg_rules e)))"

definition canceled_if_running :: "rule_instance \<Rightarrow> run_disposition list" where
  "canceled_if_running ri = (if ri_run ri \<noteq> None then [disposition ri Canceled False] else [])"

text \<open>The instance of one rule of a generation, and the dispositions it causes.\<close>

definition swap_rule :: "clock_reading \<Rightarrow> engine \<Rightarrow> string list \<Rightarrow> compiled_rule \<Rightarrow> run_disposition list \<times> rule_instance" where
  "swap_rule clk e kept cr =
     (let rid = r_id (cr_rule cr); fresh = armStabilization clk e (newRuleInstance cr)
      in case (if rid \<in> set kept then None else prior_of e rid) of
           Some old \<Rightarrow>
             if \<not> ruleChanged (ri_rule old) (ri_closure old) (cr_rule cr) (cr_closure cr) then ([], old)
             else (canceled_if_running old, carryUnchangedTriggers fresh old)
         | None \<Rightarrow> ([], fresh))"

fun swap_rules ::
  "clock_reading \<Rightarrow> engine \<Rightarrow> string list \<Rightarrow> compiled_rule list \<Rightarrow> run_disposition list \<times> rule_instance list \<times> string list" where
  "swap_rules clk e kept [] = ([], [], kept)"
| "swap_rules clk e kept (cr # crs) =
     (if en_class_of (cr_entry cr) \<noteq> ''edge'' then swap_rules clk e kept crs
      else (case swap_rule clk e kept cr of (out, ri) \<Rightarrow>
        (case swap_rules clk e (r_id (cr_rule cr) # kept) crs of (outs, ris, kept') \<Rightarrow> (out @ outs, ri # ris, kept'))))"

definition ApplyGeneration :: "clock_reading \<Rightarrow> generation \<Rightarrow> engine \<Rightarrow> run_disposition list \<times> engine" where
  "ApplyGeneration clk gen e =
     (case swap_rules clk e [] (gn_rules gen) of
        (out, ris, kept) \<Rightarrow>
          (out @ concat (map canceled_if_running (filter (\<lambda>ri. ri_id ri \<notin> set kept) (eg_rules e))),
           e\<lparr>eg_rules := ris, eg_gen := gn_number gen\<rparr>))"

text \<open>\<open>Load\<close>: a rule of another class is refused.\<close>

definition Load :: "clock_reading \<Rightarrow> compiled_entry \<Rightarrow> rule \<Rightarrow> engine \<Rightarrow> engine option" where
  "Load clk entry r e =
     (if en_class_of entry \<noteq> ''edge'' then None
      else Some (snd (ApplyGeneration clk \<lparr>gn_number = eg_gen e + 1,
             gn_rules = [\<lparr>cr_entry = entry, cr_rule = r, cr_closure = no_frozen\<rparr>]\<rparr> e)))"

end
