(* ===== verification/EngineSafety.thy ===== *)
theory EngineSafety
  imports Engine
begin

text \<open>
  What the engine may do and what it keeps: events and reachable states, the commands an event may
  dispatch, the shape of every reachable engine, the generation swap and the stabilization window.
\<close>

section \<open>Events and reachable states\<close>

datatype event =
    EObserve clock_reading observation
  | ETick clock_reading clock_reading
  | EApply clock_reading generation
  | ELoad clock_reading compiled_entry rule
  | ESeedState string string
  | ESeedFloor int
  | EWindow int
  | ETrust clock_reading string
  | ELocation "string \<Rightarrow> zone option" string f64 f64

fun step :: "event \<Rightarrow> engine \<Rightarrow> run_disposition list \<times> engine" where
  "step (EObserve clk obs) e = Observe clk obs e"
| "step (ETick clk now) e = Tick clk now e"
| "step (EApply clk gen) e = ApplyGeneration clk gen e"
| "step (ELoad clk entry r) e = (case Load clk entry r e of Some e' \<Rightarrow> ([], e') | None \<Rightarrow> ([], e))"
| "step (ESeedState i s) e = ([], SeedEntityState i s e)"
| "step (ESeedFloor w) e = ([], SeedScheduleFloor w e)"
| "step (EWindow d) e = ([], SetStabilizationWindow d e)"
| "step (ETrust clk st) e = (case SetClockTrust clk st e of Some r \<Rightarrow> r | None \<Rightarrow> ([], e))"
| "step (ELocation zones tz lat lon) e = ([], snd (SetLocation zones tz lat lon e))"

inductive reachable :: "engine \<Rightarrow> bool" where
  init: "reachable (NewEngine reg sink presets ml)"
| event: "reachable e \<Longrightarrow> reachable (snd (step ev e))"

section \<open>What does not change\<close>

lemma run_pass_frame [simp]:
  "eg_reg (snd (run_pass clk f e)) = eg_reg e" "eg_sink (snd (run_pass clk f e)) = eg_sink e"
  "eg_snap (snd (run_pass clk f e)) = eg_snap e" "eg_math (snd (run_pass clk f e)) = eg_math e"
  "eg_loc (snd (run_pass clk f e)) = eg_loc e" "eg_lastTickWall (snd (run_pass clk f e)) = eg_lastTickWall e"
  "eg_scheduleFloor (snd (run_pass clk f e)) = eg_scheduleFloor e"
  "eg_clockUntrusted (snd (run_pass clk f e)) = eg_clockUntrusted e" "eg_presets (snd (run_pass clk f e)) = eg_presets e"
  by (simp_all add: run_pass_def split: prod.split)

lemma advance_cursor_frame [simp]:
  "eg_reg (advance_cursor w e) = eg_reg e" "eg_sink (advance_cursor w e) = eg_sink e"
  "eg_snap (advance_cursor w e) = eg_snap e" "eg_math (advance_cursor w e) = eg_math e"
  "eg_loc (advance_cursor w e) = eg_loc e" "eg_scheduleFloor (advance_cursor w e) = eg_scheduleFloor e"
  "eg_clockUntrusted (advance_cursor w e) = eg_clockUntrusted e" "eg_rules (advance_cursor w e) = eg_rules e"
  "eg_trace (advance_cursor w e) = eg_trace e" "eg_lastTickWall (advance_cursor w e) = max (eg_lastTickWall e) w"
  by (auto simp: advance_cursor_def)

section \<open>Legal commands\<close>

text \<open>A command an engine may send: its entity is in the snapshot and its class declares it.\<close>

definition legal :: "engine \<Rightarrow> effect \<Rightarrow> bool" where
  "legal e eff \<longleftrightarrow> (\<exists>i c ps ent. eff = Dispatch i c ps \<and> eg_sink e \<noteq> None \<and> eg_snap e i = Some ent \<and>
     rg_command (eg_reg e) (en_class ent) c)"

definition grows :: "engine \<Rightarrow> effect list \<Rightarrow> effect list \<Rightarrow> bool" where
  "grows e tr tr' \<longleftrightarrow> (\<exists>new. tr' = tr @ new \<and> list_all (legal e) new)"

lemma grows_refl [simp, intro]: "grows e tr tr"
  by (simp add: grows_def)

lemma grows_trans [trans]: "grows e a b \<Longrightarrow> grows e b c \<Longrightarrow> grows e a c"
  by (auto simp: grows_def)

lemma legal_frame: "eg_reg e' = eg_reg e \<Longrightarrow> eg_sink e' = eg_sink e \<Longrightarrow> eg_snap e' = eg_snap e \<Longrightarrow> legal e' = legal e"
  by (rule ext) (simp add: legal_def)

lemma grows_frame:
  "eg_reg e' = eg_reg e \<Longrightarrow> eg_sink e' = eg_sink e \<Longrightarrow> eg_snap e' = eg_snap e \<Longrightarrow> grows e' = grows e"
  by (intro ext) (simp add: grows_def legal_frame [of e' e])

lemma permitted_legal: "permitted (actionContext clk e ri scope) = legal e"
proof
  show "permitted (actionContext clk e ri scope) eff = legal e eff" for eff
    by (cases eff) (auto simp: legal_def actionContext_def commandAllowed_def split: option.splits)
qed

lemma RunActions_grows: "RunActions (actionContext clk e ri scope) as tr = (r, tr') \<Longrightarrow> grows e tr tr'"
  by (drule RunActions_extends) (simp add: extends_def grows_def permitted_legal)

lemma startRun_grows: "startRun clk e scope ri tr = (ri', tr') \<Longrightarrow> grows e tr tr'"
  by (auto simp: startRun_def split: prod.splits option.splits dest: RunActions_grows)

lemma fireRuleWith_grows: "fireRuleWith clk e scope caught ri tr = (out, ri', tr') \<Longrightarrow> grows e tr tr'"
  by (auto simp: fireRuleWith_def split: prod.splits if_splits dest: startRun_grows)

lemma fire_all_grows: "fire_all clk e fs ri tr = (out, ri', tr') \<Longrightarrow> grows e tr tr'"
  by (induction clk e fs ri tr arbitrary: out ri' tr' rule: fire_all.induct)
    (auto split: prod.splits dest!: fireRuleWith_grows intro: grows_trans)

lemma pass_triggers_grows: "pass_triggers clk e f ts ri tr = (out, ts', ri', tr') \<Longrightarrow> grows e tr tr'"
  by (induction clk e f ts ri tr arbitrary: out ts' ri' tr' rule: pass_triggers.induct)
    (fastforce split: prod.splits dest!: fire_all_grows intro: grows_trans)+

lemma pass_rules_grows: "pass_rules clk e f ris tr = (out, ris', tr') \<Longrightarrow> grows e tr tr'"
  by (induction clk e f ris tr arbitrary: out ris' tr' rule: pass_rules.induct)
    (fastforce split: prod.splits dest!: pass_triggers_grows intro: grows_trans)+

lemma run_pass_grows: "grows e (eg_trace e) (eg_trace (snd (run_pass clk f e)))"
  by (auto simp: run_pass_def split: prod.split dest: pass_rules_grows)

lemma resumeDelay_grows: "resumeDelay clk now e ri tr = (ri', tr') \<Longrightarrow> grows e tr tr'"
  by (auto simp: resumeDelay_def split: prod.splits option.splits if_splits dest: RunActions_grows)

lemma resume_rules_grows: "resume_rules clk now e ris tr = (ris', tr') \<Longrightarrow> grows e tr tr'"
  by (induction clk now e ris tr arbitrary: ris' tr' rule: resume_rules.induct)
    (fastforce split: prod.splits dest!: resumeDelay_grows intro: grows_trans)+

lemma resume_all_grows: "grows e (eg_trace e) (eg_trace (resume_all clk now e))"
  by (auto simp: resume_all_def split: prod.split dest: resume_rules_grows)

lemma replay_grows: "grows e (eg_trace e) (eg_trace (snd (replayMissedSchedules clk from to e)))"
  using run_pass_grows by (auto simp: replayMissedSchedules_def split: prod.split) (metis snd_conv)

lemma release_frame [simp]:
  "eg_reg (snd (releaseStabilized clk e)) = eg_reg e" "eg_sink (snd (releaseStabilized clk e)) = eg_sink e"
  "eg_snap (snd (releaseStabilized clk e)) = eg_snap e"
  by (simp_all add: releaseStabilized_def)

lemma replay_frame [simp]:
  "eg_reg (snd (replayMissedSchedules clk from to e)) = eg_reg e"
  "eg_sink (snd (replayMissedSchedules clk from to e)) = eg_sink e"
  "eg_snap (snd (replayMissedSchedules clk from to e)) = eg_snap e"
  by (simp_all add: replayMissedSchedules_def split_def)

lemma dispatchSchedule_frame [simp]:
  "eg_reg (snd (dispatchSchedule clk now e)) = eg_reg e" "eg_sink (snd (dispatchSchedule clk now e)) = eg_sink e"
  "eg_snap (snd (dispatchSchedule clk now e)) = eg_snap e"
  by (simp_all add: dispatchSchedule_def split_def)

lemma resume_all_frame [simp]:
  "eg_reg (resume_all clk now e) = eg_reg e" "eg_sink (resume_all clk now e) = eg_sink e"
  "eg_snap (resume_all clk now e) = eg_snap e"
  by (simp_all add: resume_all_def split: prod.split)

lemma dispatchSchedule_grows: "grows e (eg_trace e) (eg_trace (snd (dispatchSchedule clk now e)))"
  using run_pass_grows replay_grows by (simp add: dispatchSchedule_def split_def)

lemma Tick_grows: "grows e (eg_trace e) (eg_trace (snd (Tick clk now e)))"
proof -
  let ?e1 = "snd (run_pass clk (tick_step clk now) e)"
  let ?e2 = "snd (releaseStabilized clk ?e1)"
  let ?e3 = "snd (dispatchSchedule clk now ?e2)"
  have "grows ?e1 = grows e" "grows ?e2 = grows e" "grows ?e3 = grows e" by (rule grows_frame; simp)+
  then have "grows e (eg_trace e) (eg_trace ?e1)" "grows e (eg_trace ?e1) (eg_trace ?e2)"
    "grows e (eg_trace ?e2) (eg_trace ?e3)" "grows e (eg_trace ?e3) (eg_trace (resume_all clk now ?e3))"
    using run_pass_grows [of e] run_pass_grows [of ?e1 clk "release_step clk"] dispatchSchedule_grows [of ?e2]
      resume_all_grows [of ?e3] by (simp_all add: releaseStabilized_def)
  then show ?thesis by (auto simp: Tick_def split_def intro: grows_trans)
qed

lemma ApplyGeneration_trace [simp]: "eg_trace (snd (ApplyGeneration clk gen e)) = eg_trace e"
  by (simp add: ApplyGeneration_def split: prod.split)

lemma step_grows: "grows (snd (step ev e)) (eg_trace e) (eg_trace (snd (step ev e)))"
proof (cases ev)
  case (EObserve clk obs)
  let ?e1 = "e\<lparr>eg_snap := (eg_snap e)(en_id (ob_entity obs) \<mapsto> ob_entity obs)\<rparr>"
  let ?e2 = "snd (run_pass clk (observe_step clk ?e1 obs) ?e1)"
  have "grows ?e2 = grows ?e1" by (rule grows_frame) simp_all
  then show ?thesis using EObserve run_pass_grows [of ?e1] by (simp add: Observe_def Let_def)
next
  case (ETick clk now)
  let ?e' = "snd (Tick clk now e)"
  have "grows ?e' = grows e" by (rule grows_frame) (simp_all add: Tick_def split_def)
  then show ?thesis using ETick Tick_grows by simp
next
  case (ETrust clk st)
  let ?e1 = "e\<lparr>eg_clockUntrusted := False\<rparr>"
  let ?r = "\<lambda>a b. snd (replayMissedSchedules clk a b ?e1)"
  have "grows (?r a b) = grows ?e1" for a b by (rule grows_frame) simp_all
  then show ?thesis using ETrust replay_grows [of ?e1] by (auto simp: SetClockTrust_def Let_def)
qed (auto simp: Load_def SeedEntityState_def SeedScheduleFloor_def SetStabilizationWindow_def SetLocation_def Let_def
    split: option.split)

section \<open>The shape of a trigger\<close>

text \<open>What is fixed when a runtime is built: everything but its baselines, its hold's progress and its
  window.\<close>

type_synonym shape =
  "string \<times> string \<times> (canon \<times> string) \<times> state_trigger option \<times> numeric_trigger option \<times> sched_trigger option \<times>
   string \<times> (hold_kind \<times> int) option \<times> hold_kind \<times> int"

definition shape :: "trigger_rt \<Rightarrow> shape" where
  "shape t = (tr_kind t, tr_entity t, tr_sig t, tr_st t, tr_nt t, tr_sched t, tr_misfire t,
     map_option (\<lambda>h. (h_kind h, h_for h)) (tr_hold t), tr_holdKind t, tr_for t)"

lemma Step_shape: "Step h now raw = (f, h') \<Longrightarrow> h_kind h' = h_kind h \<and> h_for h' = h_for h"
  by (auto simp: Step_def stepDebounce_def stepBounded_def Let_def split: if_splits)

lemma stateLevelHolds_shape: "stateLevelHolds reg st t ent = (b, t') \<Longrightarrow> shape t' = shape t \<and> tr_hold t' = tr_hold t"
  by (auto simp: stateLevelHolds_def shape_def split: if_splits option.splits)

lemma evalTrigger_shape: "evalTrigger reg t obs = (edge, level, t') \<Longrightarrow> shape t' = shape t"
  by (auto simp: evalTrigger_def shape_def split: bool.splits option.splits prod.splits
      dest!: stateLevelHolds_shape)

lemma step_hold_shape: "step_hold now raw t = (f, t') \<Longrightarrow> shape t' = shape t"
  by (auto simp: step_hold_def shape_def split: option.splits prod.splits dest!: Step_shape)

lemma stepTriggerObservation_shape: "stepTriggerObservation reg now t obs = (f, t') \<Longrightarrow> shape t' = shape t"
proof -
  assume s: "stepTriggerObservation reg now t obs = (f, t')"
  obtain edge level t1 where e: "evalTrigger reg t obs = (edge, level, t1)" by (cases "evalTrigger reg t obs") auto
  have seed: "shape (t1\<lparr>tr_hold := map_option (\<lambda>h. Seed h level) (tr_hold t1), tr_seen := True, tr_lastLevelHolds := level\<rparr>) = shape t1"
    "shape (t1\<lparr>tr_seen := True, tr_lastLevelHolds := level\<rparr>) = shape t1"
    by (simp_all add: shape_def Seed_def option.map_comp comp_def)
  show ?thesis
    using s e evalTrigger_shape [OF e] seed
    by (auto simp: stepTriggerObservation_def Let_def split: if_splits dest!: step_hold_shape)
qed

lemma gate_shape: "gate now (f, t) = (fs, t') \<Longrightarrow> shape t' = shape t"
  by (auto simp: gate_def stabilizationHeld_def shape_def split: if_splits)

lemma step_shapes:
  "shape (snd (observe_step clk e obs t)) = shape t" "shape (snd (tick_step clk now t)) = shape t"
  "shape (snd (release_step clk t)) = shape t" "shape (snd (live_step e a b t)) = shape t"
  "shape (snd (misfire_step e a b t)) = shape t" "shape (seedTriggerBaseline reg s cur t) = shape t"
  "shape (arm_trigger d t) = shape t"
proof -
  have g: "shape (snd (gate now (f, t'))) = shape t" if "shape t' = shape t" for now f t'
    using that gate_shape [of now f t'] by (cases "gate now (f, t')") auto
  show "shape (snd (observe_step clk e obs t)) = shape t"
    using stepTriggerObservation_shape g
    by (cases "stepTriggerObservation (eg_reg e) (ck_mono clk) t obs") (auto simp: observe_step_def)
  show "shape (snd (tick_step clk now t)) = shape t"
    using step_hold_shape g
    by (cases "stepTriggerTick (ck_mono now) t") (auto simp: tick_step_def stepTriggerTick_def)
  show "shape (snd (release_step clk t)) = shape t"
    by (auto simp: release_step_def release_trigger_def shape_def)
  show "shape (snd (live_step e a b t)) = shape t" by (simp add: live_step_def split: option.split)
  show "shape (snd (misfire_step e a b t)) = shape t" by (simp add: misfire_step_def split: option.split)
  show "shape (arm_trigger d t) = shape t" by (simp add: arm_trigger_def shape_def)
  let ?t1 = "t\<lparr>tr_baseline := \<lparr>tb_known = True, tb_state = s, tb_attr = None\<rparr>\<rparr>"
  have t1: "shape ?t1 = shape t" by (simp add: shape_def)
  have "shape (t'\<lparr>tr_lastLevelHolds := b, tr_hold := Some (Seed h b), tr_seen := True\<rparr>) = shape t"
    if "stateLevelHolds reg st ?t1 cur = (b, t')" "tr_hold t = Some h" for st b t' h
    using stateLevelHolds_shape [OF that(1)] that(2) t1 by (auto simp: shape_def Seed_def)
  then show "shape (seedTriggerBaseline reg s cur t) = shape t"
    using t1 by (auto simp: seedTriggerBaseline_def Let_def shape_def split: bool.split option.split prod.split)
qed

section \<open>Well-formed engines\<close>

text \<open>A run waits on a delay; a state or numeric trigger has its subject, its pure machine and a hold of its
  kind and span; a schedule trigger has its schedule, no subject and no hold.\<close>

definition run_ok :: "rule_instance \<Rightarrow> bool" where
  "run_ok ri \<longleftrightarrow> (\<forall>run. ri_run ri = Some run \<longrightarrow> rs_pending run \<noteq> None)"

fun shape_ok :: "shape \<Rightarrow> bool" where
  "shape_ok (kind, entity, sg, st, nt, sched, misfire, hold, hk, secs) \<longleftrightarrow>
     (kind = ''state'' \<and> entity \<noteq> '''' \<and> nt = None \<and> sched = None \<and> hold = Some (hk, i64 (max 0 secs * 1000)) \<and>
        (\<exists>s. st = Some s \<and> (hk = DebounceHold \<longleftrightarrow> st_attribute s = '''' \<and> st_from s = None \<and> st_to s = None))) \<or>
     (kind = ''numeric'' \<and> entity \<noteq> '''' \<and> st = None \<and> nt \<noteq> None \<and> sched = None \<and>
        hold = Some (BoundedHold, i64 (max 0 secs * 1000)) \<and> hk = BoundedHold) \<or>
     (kind \<in> {''time'', ''time_pattern'', ''sun''} \<and> entity = '''' \<and> st = None \<and> nt = None \<and> sched \<noteq> None \<and> hold = None)"

definition inst_ok :: "rule_instance \<Rightarrow> bool" where
  "inst_ok ri \<longleftrightarrow> run_ok ri \<and> ri_mode ri \<noteq> '''' \<and> list_all (\<lambda>t. shape_ok (shape t)) (ri_triggers ri)"

definition engine_ok :: "engine \<Rightarrow> bool" where
  "engine_ok e \<longleftrightarrow> list_all inst_ok (eg_rules e)"

lemma NewHold_shape: "h_kind (NewHold hk n) = hk \<and> h_for (NewHold hk n) = i64 (max 0 n * 1000)"
  by (simp add: NewHold_def Let_def max_def)

lemma with_hold_shape:
  "with_hold m i hk tr = Some t \<Longrightarrow> i \<noteq> '''' \<and>
     shape t = (tr_kind tr, i, triggerSig (m_raw m) i, tr_st tr, tr_nt tr, tr_sched tr, tr_misfire tr,
       Some (hk, i64 (max 0 (tr_for tr) * 1000)), hk, tr_for tr)"
  by (auto simp: with_hold_def shape_def NewHold_shape split: if_splits)

lemma newStateOrNumeric_ok:
  assumes "newStateOrNumericRuntime m i = Some t"
  shows "shape_ok (shape t)"
proof -
  let ?tr = "blank_runtime (m_type m) (parseForSeconds m) (CanonAbsent, '''')"
  consider (s) st where "m_type m = ''state''" "with_hold m (if i = '''' then st_entity st else i)
        (if st_attribute st = '''' \<and> st_from st = None \<and> st_to st = None then DebounceHold else BoundedHold)
        (?tr\<lparr>tr_st := Some st\<rparr>) = Some t"
    | (n) nt where "m_type m = ''numeric''"
        "with_hold m (if i = '''' then nt_entity nt else i) BoundedHold (?tr\<lparr>tr_nt := Some nt\<rparr>) = Some t"
    using assms unfolding newStateOrNumericRuntime_def Let_def by (fastforce split: if_splits option.splits)
  then show ?thesis
  proof cases
    case s
    then show ?thesis using with_hold_shape [OF s(2)] by (simp add: blank_runtime_def)
  next
    case n
    then show ?thesis using with_hold_shape [OF n(2)] by (simp add: blank_runtime_def)
  qed
qed

lemma newTrigger_ok:
  assumes "newTriggerRuntime m = Some t"
  shows "shape_ok (shape t)"
proof (cases "m_type m = ''state'' \<or> m_type m = ''numeric''")
  case True
  then show ?thesis using assms newStateOrNumeric_ok by (simp add: newTriggerRuntime_def)
next
  case False
  then obtain sc where "m_type m \<in> {''time'', ''time_pattern'', ''sun''}"
    "t = (blank_runtime (m_type m) (parseForSeconds m) (triggerSig (m_raw m) ''''))\<lparr>tr_sched := Some sc, tr_misfire := parseMisfire m\<rparr>"
    using assms unfolding newTriggerRuntime_def Let_def by (auto split: if_splits option.splits)
  then show ?thesis by (simp add: shape_def blank_runtime_def)
qed

lemma opt_list_set [simp]: "x \<in> set (opt_list y) \<longleftrightarrow> y = Some x"
  by (auto simp: opt_list_def split: option.splits)

lemma buildTriggers_ok: "list_all (\<lambda>t. shape_ok (shape t)) (buildTriggers cl m)"
  unfolding list_all_iff
  by (auto simp: buildTriggers_def split: option.splits if_splits dest: newStateOrNumeric_ok newTrigger_ok)

lemma newRuleInstance_ok: "inst_ok (newRuleInstance cr)"
  using buildTriggers_ok by (auto simp: inst_ok_def run_ok_def newRuleInstance_def list_all_iff)

lemma startRun_ok:
  "startRun clk e scope ri tr = (ri', tr') \<Longrightarrow> run_ok ri' \<and> ri_mode ri' = ri_mode ri \<and> ri_triggers ri' = ri_triggers ri"
  by (auto simp: startRun_def run_ok_def split: prod.splits option.splits)

lemma fireRuleWith_ok:
  "fireRuleWith clk e scope caught ri tr = (out, ri', tr') \<Longrightarrow> run_ok ri \<Longrightarrow>
   run_ok ri' \<and> ri_mode ri' = ri_mode ri \<and> ri_triggers ri' = ri_triggers ri"
  by (auto simp: fireRuleWith_def split: prod.splits if_splits dest: startRun_ok)

lemma fire_all_ok:
  "fire_all clk e fs ri tr = (out, ri', tr') \<Longrightarrow> run_ok ri \<Longrightarrow>
   run_ok ri' \<and> ri_mode ri' = ri_mode ri \<and> ri_triggers ri' = ri_triggers ri"
proof (induction clk e fs ri tr arbitrary: out ri' tr' rule: fire_all.induct)
  case (2 clk e scope caught fs ri tr)
  obtain o1 r1 tr1 where 1: "fireRuleWith clk e scope caught ri tr = (o1, r1, tr1)"
    by (cases "fireRuleWith clk e scope caught ri tr") auto
  obtain o2 r2 tr2 where f: "fire_all clk e fs r1 tr1 = (o2, r2, tr2)" by (cases "fire_all clk e fs r1 tr1") auto
  show ?case
    using "2.prems" 1 f fireRuleWith_ok [OF 1] "2.IH" [OF 1 [symmetric] refl f] by simp
qed simp

lemma pass_triggers_ok:
  assumes "\<And>t. shape (snd (f t)) = shape t"
  shows "pass_triggers clk e f ts ri tr = (out, ts', ri', tr') \<Longrightarrow> run_ok ri \<Longrightarrow>
    run_ok ri' \<and> ri_mode ri' = ri_mode ri \<and> map shape ts' = map shape ts"
proof (induction ts arbitrary: ri tr out ts' ri' tr')
  case (Cons t ts)
  obtain fs t' where f: "f t = (fs, t')" by fastforce
  obtain o1 r1 tr1 where 1: "fire_all clk e fs ri tr = (o1, r1, tr1)" by (cases "fire_all clk e fs ri tr") auto
  obtain o2 ts2 r2 tr2 where 2: "pass_triggers clk e f ts r1 tr1 = (o2, ts2, r2, tr2)"
    by (cases "pass_triggers clk e f ts r1 tr1") auto
  show ?case
    using Cons.prems f 1 2 Cons.IH [OF 2] fire_all_ok [OF 1] assms [of t] by auto
qed simp

lemma pass_rules_ok:
  assumes "\<And>t. shape (snd (f t)) = shape t"
  shows "pass_rules clk e f ris tr = (out, ris', tr') \<Longrightarrow> list_all inst_ok ris \<Longrightarrow> list_all inst_ok ris'"
proof (induction ris arbitrary: tr out ris' tr')
  case (Cons ri ris)
  obtain o1 ts r1 tr1 where 1: "pass_triggers clk e f (ri_triggers ri) ri tr = (o1, ts, r1, tr1)"
    by (cases "pass_triggers clk e f (ri_triggers ri) ri tr") auto
  obtain o2 ris2 tr2 where 2: "pass_rules clk e f ris tr1 = (o2, ris2, tr2)" by (cases "pass_rules clk e f ris tr1") auto
  have "list_all shape_ok (map shape ts) = list_all shape_ok (map shape (ri_triggers ri))"
    using pass_triggers_ok [OF assms 1] Cons.prems by (simp add: inst_ok_def)
  moreover have "run_ok (r1\<lparr>ri_triggers := ts\<rparr>) = run_ok r1" by (simp add: run_ok_def)
  moreover have "run_ok r1 \<and> ri_mode r1 = ri_mode ri"
    using pass_triggers_ok [OF assms 1] Cons.prems by (simp add: inst_ok_def)
  ultimately have "inst_ok (r1\<lparr>ri_triggers := ts\<rparr>)"
    using Cons.prems by (simp add: inst_ok_def list.pred_map comp_def)
  then show ?case using Cons.prems Cons.IH [OF 2] 1 2 by auto
qed simp

lemma run_pass_ok:
  assumes "\<And>t. shape (snd (f t)) = shape t" "engine_ok e"
  shows "engine_ok (snd (run_pass clk f e))"
proof -
  obtain o1 ris tr where 1: "pass_rules clk e f (eg_rules e) (eg_trace e) = (o1, ris, tr)"
    by (cases "pass_rules clk e f (eg_rules e) (eg_trace e)") auto
  show ?thesis using pass_rules_ok [OF assms(1) 1] assms(2) 1 by (simp add: run_pass_def engine_ok_def)
qed

lemma advance_cursor_ok [simp]: "engine_ok (advance_cursor w e) = engine_ok e"
  by (simp add: engine_ok_def)

lemma replay_ok: "engine_ok e \<Longrightarrow> engine_ok (snd (replayMissedSchedules clk a b e))"
  using run_pass_ok [OF step_shapes(5)] by (simp add: replayMissedSchedules_def split_def)

lemma dispatchSchedule_ok: "engine_ok e \<Longrightarrow> engine_ok (snd (dispatchSchedule clk now e))"
  using run_pass_ok [OF step_shapes(4)] replay_ok by (simp add: dispatchSchedule_def split_def)

lemma resumeDelay_ok: "resumeDelay clk now e ri tr = (ri', tr') \<Longrightarrow> inst_ok ri \<Longrightarrow> inst_ok ri'"
  by (auto simp: resumeDelay_def inst_ok_def run_ok_def split: prod.splits option.splits if_splits)

lemma resume_rules_ok: "resume_rules clk now e ris tr = (ris', tr') \<Longrightarrow> list_all inst_ok ris \<Longrightarrow> list_all inst_ok ris'"
proof (induction ris arbitrary: tr ris' tr')
  case (Cons ri ris)
  obtain r1 tr1 where 1: "resumeDelay clk now e ri tr = (r1, tr1)" by (cases "resumeDelay clk now e ri tr")
  obtain ris2 tr2 where 2: "resume_rules clk now e ris tr1 = (ris2, tr2)" by (cases "resume_rules clk now e ris tr1")
  show ?case using Cons.prems Cons.IH [OF 2] resumeDelay_ok [OF 1] 1 2 by auto
qed simp

lemma resume_all_ok: "engine_ok e \<Longrightarrow> engine_ok (resume_all clk now e)"
proof -
  obtain ris tr where "resume_rules clk now e (eg_rules e) (eg_trace e) = (ris, tr)"
    by (cases "resume_rules clk now e (eg_rules e) (eg_trace e)")
  then show "engine_ok e \<Longrightarrow> engine_ok (resume_all clk now e)"
    using resume_rules_ok by (simp add: resume_all_def engine_ok_def)
qed

lemma Tick_ok: "engine_ok e \<Longrightarrow> engine_ok (snd (Tick clk now e))"
  by (simp add: Tick_def split_def releaseStabilized_def resume_all_ok dispatchSchedule_ok run_pass_ok step_shapes)

lemma map_triggers_ok:
  assumes "\<And>t. shape (f t) = shape t"
  shows "inst_ok (map_triggers f ri) = inst_ok ri"
  using assms by (simp add: inst_ok_def map_triggers_def run_ok_def list.pred_map comp_def)

lemma carry_in: "t \<in> set (carry av ts) \<Longrightarrow> t \<in> set ts \<or> t \<in> snd ` set av"
proof (induction av ts rule: carry.induct)
  case (2 av u us)
  then show ?case by (auto split: option.splits dest: map_of_SomeD) (force dest: map_of_SomeD)+
qed simp

lemma carry_ok: "inst_ok fresh \<Longrightarrow> inst_ok old \<Longrightarrow> inst_ok (carryUnchangedTriggers fresh old)"
  by (auto simp: carryUnchangedTriggers_def inst_ok_def run_ok_def list_all_iff dest!: carry_in)

lemma prior_of_in: "prior_of e i = Some ri \<Longrightarrow> ri \<in> set (eg_rules e) \<and> ri_id ri = i"
  by (auto simp: prior_of_def dest: map_of_SomeD)

lemma swap_rule_ok: "engine_ok e \<Longrightarrow> inst_ok (snd (swap_rule clk e kept cr))"
proof -
  assume e: "engine_ok e"
  have "inst_ok (armStabilization clk e (newRuleInstance cr))"
    by (simp add: armStabilization_def map_triggers_ok step_shapes newRuleInstance_ok)
  moreover have "inst_ok old" if "prior_of e i = Some old" for i old
    using prior_of_in [OF that] e by (simp add: engine_ok_def list_all_iff)
  ultimately show ?thesis by (simp add: swap_rule_def Let_def carry_ok split: option.split)
qed

lemma swap_rules_ok: "engine_ok e \<Longrightarrow> list_all inst_ok (fst (snd (swap_rules clk e kept crs)))"
proof (induction crs arbitrary: kept)
  case (Cons cr crs)
  then show ?case using swap_rule_ok [of e clk kept cr] by (simp add: split_def)
qed simp

lemma ApplyGeneration_ok: "engine_ok e \<Longrightarrow> engine_ok (snd (ApplyGeneration clk gen e))"
  using swap_rules_ok by (simp add: ApplyGeneration_def engine_ok_def split_def)

lemma step_ok: "engine_ok e \<Longrightarrow> engine_ok (snd (step ev e))"
proof -
  assume e: "engine_ok e"
  show ?thesis
  proof (cases ev)
    case (EObserve clk obs)
    let ?e1 = "e\<lparr>eg_snap := (eg_snap e)(en_id (ob_entity obs) \<mapsto> ob_entity obs)\<rparr>"
    have "engine_ok ?e1" using e by (simp add: engine_ok_def)
    then show ?thesis using EObserve e run_pass_ok [OF step_shapes(1)] by (simp add: Observe_def Let_def)
  next
    case (ETrust clk st)
    then show ?thesis using e replay_ok [of "e\<lparr>eg_clockUntrusted := False\<rparr>"]
      by (auto simp: SetClockTrust_def Let_def engine_ok_def)
  next
    case (ESeedState i s)
    have "inst_ok (map_triggers (\<lambda>t. if tr_entity t \<noteq> i then t else seedTriggerBaseline reg s cur t) ri) = inst_ok ri"
      for reg cur ri
      by (rule map_triggers_ok) (simp add: step_shapes)
    then show ?thesis using ESeedState e by (simp add: SeedEntityState_def Let_def engine_ok_def list.pred_map comp_def)
  qed (use e Tick_ok ApplyGeneration_ok in \<open>auto simp: Load_def SeedScheduleFloor_def SetStabilizationWindow_def
      SetLocation_def engine_ok_def split: option.split\<close>)
qed

lemma reachable_ok: "reachable e \<Longrightarrow> engine_ok e"
proof (induction rule: reachable.induct)
  case init
  show ?case by (simp add: engine_ok_def NewEngine_def)
next
  case event
  then show ?case by (simp add: step_ok)
qed

section \<open>Swapping generations\<close>

definition edge_rules :: "generation \<Rightarrow> compiled_rule list" where
  "edge_rules gen = filter (\<lambda>cr. en_class_of (cr_entry cr) = ''edge'') (gn_rules gen)"

definition rule_ids :: "compiled_rule list \<Rightarrow> string list" where
  "rule_ids crs = map (\<lambda>cr. r_id (cr_rule cr)) crs"

text \<open>The instance carries the same rule and closure, up to how the JSON is written.\<close>

definition same_rule :: "rule_instance \<Rightarrow> compiled_rule \<Rightarrow> bool" where
  "same_rule ri cr \<longleftrightarrow> ri_id ri = r_id (cr_rule cr) \<and>
     ruleSignature (ri_rule ri) (ri_closure ri) = ruleSignature (cr_rule cr) (cr_closure cr)"

lemma swap_rule_kept: "r_id (cr_rule cr) \<notin> set kept \<Longrightarrow> swap_rule clk e kept cr = swap_rule clk e [] cr"
  by (simp add: swap_rule_def)

lemma swap_rules_distinct:
  assumes "distinct (rule_ids (filter (\<lambda>cr. en_class_of (cr_entry cr) = ''edge'') crs))"
    "set (rule_ids (filter (\<lambda>cr. en_class_of (cr_entry cr) = ''edge'') crs)) \<inter> set kept = {}"
  shows "swap_rules clk e kept crs = (let es = filter (\<lambda>cr. en_class_of (cr_entry cr) = ''edge'') crs in
     (concat (map (\<lambda>cr. fst (swap_rule clk e [] cr)) es), map (\<lambda>cr. snd (swap_rule clk e [] cr)) es,
      rev (rule_ids es) @ kept))"
  using assms
proof (induction crs arbitrary: kept)
  case (Cons cr crs)
  then show ?case
    using swap_rule_kept [of cr kept clk e] Cons.IH [of "r_id (cr_rule cr) # kept"] Cons.IH [of kept]
    by (auto simp: rule_ids_def Let_def split_def)
qed (simp add: rule_ids_def)

lemma ApplyGeneration_distinct:
  assumes "distinct (rule_ids (edge_rules gen))"
  shows "ApplyGeneration clk gen e =
    (concat (map (\<lambda>cr. fst (swap_rule clk e [] cr)) (edge_rules gen)) @
       concat (map canceled_if_running (filter (\<lambda>ri. ri_id ri \<notin> set (rule_ids (edge_rules gen))) (eg_rules e))),
     e\<lparr>eg_rules := map (\<lambda>cr. snd (swap_rule clk e [] cr)) (edge_rules gen), eg_gen := gn_number gen\<rparr>)"
  using swap_rules_distinct [of "gn_rules gen" "[]" clk e] assms
  by (simp add: ApplyGeneration_def edge_rules_def Let_def)

lemma prior_of_distinct:
  assumes "distinct (map ri_id (eg_rules e))"
  shows "prior_of e i = Some ri \<longleftrightarrow> ri \<in> set (eg_rules e) \<and> ri_id ri = i"
proof -
  have "distinct (map fst (rev (map (\<lambda>ri. (ri_id ri, ri)) (eg_rules e))))"
    using assms by (simp add: rev_map [symmetric] comp_def)
  then show ?thesis unfolding prior_of_def by (auto simp: map_of_eq_Some_iff)
qed

lemma fresh_rule: 
  "ri_id (armStabilization clk e (newRuleInstance cr)) = r_id (cr_rule cr)"
  "ri_rule (armStabilization clk e (newRuleInstance cr)) = cr_rule cr"
  "ri_closure (armStabilization clk e (newRuleInstance cr)) = cr_closure cr"
  "ri_run (armStabilization clk e (newRuleInstance cr)) = None"
  by (simp_all add: armStabilization_def map_triggers_def newRuleInstance_def)

lemma swap_rule_same: "same_rule (snd (swap_rule clk e [] cr)) cr"
  by (auto simp: swap_rule_def Let_def same_rule_def fresh_rule carryUnchangedTriggers_def ruleChanged_def
      split: option.split dest: prior_of_in)

lemma distinct_singleton:
  assumes "distinct xs" "set xs = {a}"
  shows "xs = [a]"
proof (cases xs)
  case (Cons b ys)
  then show ?thesis using assms by (cases ys) auto
qed (use assms in simp)

text \<open>Without a prior instance of the same rule the swap builds a fresh one; with one it keeps it.\<close>

lemma swap_rule_cases:
  assumes "distinct (map ri_id (eg_rules e))"
  shows "(\<exists>old \<in> set (eg_rules e). same_rule old cr \<and> swap_rule clk e [] cr = ([], old)) \<or>
    ((\<forall>old \<in> set (eg_rules e). \<not> same_rule old cr) \<and> ri_run (snd (swap_rule clk e [] cr)) = None \<and>
     fst (swap_rule clk e [] cr) =
       concat (map canceled_if_running (filter (\<lambda>ri. ri_id ri = r_id (cr_rule cr)) (eg_rules e))))"
proof (cases "prior_of e (r_id (cr_rule cr))")
  case None
  then have "\<forall>old \<in> set (eg_rules e). ri_id old \<noteq> r_id (cr_rule cr)"
    by (force simp: prior_of_def map_of_eq_None_iff image_image)
  then show ?thesis using None by (simp add: swap_rule_def Let_def same_rule_def fresh_rule filter_False)
next
  case (Some old)
  then have old: "old \<in> set (eg_rules e)" "ri_id old = r_id (cr_rule cr)" by (auto dest: prior_of_in)
  have only: "x = old" if "x \<in> set (eg_rules e)" "ri_id x = r_id (cr_rule cr)" for x
    using that prior_of_distinct [OF assms] Some by (metis option.inject)
  have "filter (\<lambda>ri. ri_id ri = r_id (cr_rule cr)) (eg_rules e) = [old]"
  proof -
    let ?xs = "filter (\<lambda>ri. ri_id ri = r_id (cr_rule cr)) (eg_rules e)"
    have "distinct ?xs" using assms by (simp add: distinct_map)
    moreover have "x \<in> set ?xs \<longleftrightarrow> x = old" for x using only [of x] old by auto
    then have "set ?xs = {old}" by blast
    ultimately show ?thesis by (rule distinct_singleton)
  qed
  then have c: "concat (map canceled_if_running (filter (\<lambda>ri. ri_id ri = r_id (cr_rule cr)) (eg_rules e))) = canceled_if_running old"
    by simp
  show ?thesis
  proof (cases "ruleChanged (ri_rule old) (ri_closure old) (cr_rule cr) (cr_closure cr)")
    case True
    then have "\<not> same_rule x cr" if "x \<in> set (eg_rules e)" for x
      using only [OF that] by (auto simp: same_rule_def ruleChanged_def)
    then show ?thesis
      using True Some unfolding c by (simp add: swap_rule_def Let_def fresh_rule carryUnchangedTriggers_def)
  next
    case False
    then have "same_rule old cr" using old by (simp add: same_rule_def ruleChanged_def)
    then show ?thesis using False Some old(1) by (auto simp: swap_rule_def Let_def)
  qed
qed

section \<open>Stabilization\<close>

text \<open>The firings a trigger attempts at given instants, each put to its window, and then a release.\<close>

fun attempts :: "trigger_rt \<Rightarrow> (int \<times> bool) list \<Rightarrow> firing list \<times> trigger_rt" where
  "attempts t [] = ([], t)"
| "attempts t ((now, fires) # as) =
     (case gate now (fires, t) of (fs, t') \<Rightarrow> (case attempts t' as of (fs', t'') \<Rightarrow> (fs @ fs', t'')))"

lemma attempts_held:
  assumes "tr_stabArmed t" "list_all (\<lambda>(now, _). now < tr_stabDeadline t) as"
  shows "attempts t as = ([], t\<lparr>tr_stabPending := (tr_stabPending t \<or> list_ex snd as)\<rparr>)"
  using assms
proof (induction as arbitrary: t)
  case (Cons a as)
  obtain now f where a: "a = (now, f)" by (cases a)
  show ?case
    using Cons.prems Cons.IH [of t] Cons.IH [of "t\<lparr>tr_stabPending := True\<rparr>"] a
    by (cases f) (auto simp: gate_def stabilizationHeld_def)
qed simp

section \<open>Properties\<close>

text \<open>C3. Whatever the event, from any state: the engine only appends to what it has sent, and all it sends
  are commands, each for an entity of its snapshot and of that entity's class's vocabulary.\<close>

theorem engine_sends_legal_commands:
  "\<exists>new. eg_trace (snd (step ev e)) = eg_trace e @ new \<and> list_all (legal (snd (step ev e))) new"
  using step_grows [of ev e] by (simp add: grows_def)



text \<open>C32. A stabilization window coalesces.  Whatever a trigger attempts before its window closes fires
  nothing; when the window closes it fires once if anything was attempted, under its own entity, and
  not again.\<close>

theorem window_holds_one_firing:
  assumes "tr_stabArmed t" "\<not> tr_stabPending t" "list_all (\<lambda>(now, _). now < tr_stabDeadline t) as"
    and "tr_stabDeadline t \<le> ck_mono clk"
  shows "fst (attempts t as) = []
    \<and> fst (release_step clk (snd (attempts t as))) = (if list_ex snd as then [(tr_entity t, False)] else [])
    \<and> fst (release_step clk' (snd (release_step clk (snd (attempts t as))))) = []"
  using assms by (simp add: attempts_held release_step_def release_trigger_def)

text \<open>A firing that opens the window itself discards one that was held.\<close>

lemma late_firing_discards_held:
  assumes "tr_stabArmed t" "n1 < tr_stabDeadline t" "tr_stabDeadline t \<le> n2"
  shows "fst (attempts t [(n1, True), (n2, True)]) = [(tr_entity t, False)]
    \<and> fst (release_step clk (snd (attempts t [(n1, True), (n2, True)]))) = []"
  using assms by (simp add: gate_def stabilizationHeld_def release_step_def release_trigger_def)

text \<open>Seeding an entity's state leaves its attributes unknown but known to have been observed: a trigger on
  any change of an attribute fires on the first observation that carries it.\<close>

lemma seeded_attribute_trigger_fires:
  assumes "tr_kind t = ''state''" "tr_st t = Some st" "st_attribute st \<noteq> ''''" "st_from st = None" "st_to st = None"
    and "tr_for t \<le> 0" "map_of (en_attrs (ob_entity obs)) (st_attribute st) = Some v"
  shows "fst (stepTriggerObservation reg now (seedTriggerBaseline reg s cur t) obs)"
proof -
  let ?t = "seedTriggerBaseline reg s cur t"
  have "shape ?t = shape t" by (rule step_shapes)
  then have sh: "tr_kind ?t = ''state''" "tr_st ?t = Some st" "tr_for ?t \<le> 0"
    using assms by (simp_all add: shape_def)
  have b: "tr_baseline ?t = \<lparr>tb_known = True, tb_state = s, tb_attr = None\<rparr>"
    by (auto simp: seedTriggerBaseline_def stateLevelHolds_def Let_def split: option.split bool.split)
  have "fst (StateObserve st reg (tr_baseline ?t) obs)"
    using assms b by (simp add: StateObserve_def Let_def)
  then obtain nx where o: "StateObserve st reg (tr_baseline ?t) obs = (True, nx)"
    by (cases "StateObserve st reg (tr_baseline ?t) obs") auto
  obtain lv t' where l: "stateLevelHolds reg st (?t\<lparr>tr_baseline := nx\<rparr>) (ob_entity obs) = (lv, t')" by fastforce
  have "evalTrigger reg ?t obs = (True, lv, t')" using sh o l by (simp add: evalTrigger_def)
  moreover have "tr_for t' = tr_for ?t" using stateLevelHolds_shape [OF l] by (simp add: shape_def)
  ultimately show ?thesis using sh by (simp add: stepTriggerObservation_def)
qed

section \<open>Witnesses\<close>

definition clk0 :: clock_reading where
  "clk0 = \<lparr>ck_wall = 0, ck_mono = 0\<rparr>"

definition demo_compiled :: compiled_rule where
  "demo_compiled = \<lparr>cr_entry = ClassifyRule demo_edge, cr_rule = demo_edge, cr_closure = no_frozen\<rparr>"

definition demo_generation :: generation where
  "demo_generation = \<lparr>gn_number = 1, gn_rules = [demo_compiled]\<rparr>"

definition empty_engine :: engine where
  "empty_engine = NewEngine FixtureRegistry None None flat_sun"

definition demo_engine :: engine where
  "demo_engine = snd (step (EApply clk0 demo_generation) empty_engine)"

lemma demo_edge_rules: "edge_rules demo_generation = [demo_compiled]"
  by (simp add: edge_rules_def demo_generation_def demo_compiled_def demo_edge_facts)

lemma demo_engine_ids: "map ri_id (eg_rules demo_engine) = [''R'']"
proof -
  have "rule_ids (edge_rules demo_generation) = [''R'']"
    by (simp add: demo_edge_rules rule_ids_def demo_compiled_def demo_edge_def)
  then show ?thesis
    using ApplyGeneration_distinct [of demo_generation clk0 empty_engine] swap_rule_same [of clk0 empty_engine demo_compiled]
    by (simp add: demo_engine_def demo_edge_rules same_rule_def rule_ids_def)
qed



theorem window_holds_one_firing_witness:
  "fst (attempts ((blank_runtime ''state'' 0 (CanonAbsent, ''''))\<lparr>tr_entity := ''E'', tr_stabArmed := True, tr_stabDeadline := 500\<rparr>)
     [(100, True), (200, False), (300, True)]) = []
   \<and> fst (release_step \<lparr>ck_wall = 0, ck_mono = 500\<rparr> (snd (attempts ((blank_runtime ''state'' 0 (CanonAbsent, ''''))
       \<lparr>tr_entity := ''E'', tr_stabArmed := True, tr_stabDeadline := 500\<rparr>) [(100, True), (200, False), (300, True)])))
     = [(''E'', False)]"
  using window_holds_one_firing [of "(blank_runtime ''state'' 0 (CanonAbsent, ''''))\<lparr>tr_entity := ''E'', tr_stabArmed := True, tr_stabDeadline := 500\<rparr>"
      "[(100, True), (200, False), (300, True)]" "\<lparr>ck_wall = 0, ck_mono = 500\<rparr>"]
  by (simp add: blank_runtime_def)

end
