(* ===== verification/EngineTime.thy ===== *)
theory EngineTime
  imports EngineSafety
begin

text \<open>
  The engine over time: a run through its delays while other firings arrive, and the windows of wall
  time a sequence of ticks and clock-trust changes gives to the schedule triggers.
\<close>

section \<open>A run through its delays\<close>

text \<open>
  One tick of a rule as its run sees it: firings arrive, then the delay is due, by some lateness.
\<close>

record tick_env =
  te_clk :: clock_reading
  te_engine :: engine
  te_firings :: "firing list"
  te_late :: nat

definition due_reading :: "tick_env \<Rightarrow> delay_pending \<Rightarrow> clock_reading" where
  "due_reading env dp = \<lparr>ck_wall = ck_wall (te_clk env), ck_mono = dp_resume dp + int (te_late env)\<rparr>"

definition due_tick :: "tick_env \<Rightarrow> rule_instance \<Rightarrow> effect list \<Rightarrow> rule_instance \<times> effect list" where
  "due_tick env ri tr =
     (case fire_all (te_clk env) (te_engine env) (te_firings env) ri tr of
        (_, ri1, tr1) \<Rightarrow>
          (case Option.bind (ri_run ri1) rs_pending of
             None \<Rightarrow> (ri1, tr1)
           | Some dp \<Rightarrow> resumeDelay (te_clk env) (due_reading env dp) (te_engine env) ri1 tr1))"

fun due_ticks :: "(nat \<Rightarrow> tick_env) \<Rightarrow> nat \<Rightarrow> nat \<Rightarrow> rule_instance \<Rightarrow> effect list \<Rightarrow> rule_instance \<times> effect list" where
  "due_ticks envs k 0 ri tr = (ri, tr)"
| "due_ticks envs k (Suc n) ri tr = (case due_tick (envs k) ri tr of (ri', tr') \<Rightarrow> due_ticks envs (Suc k) n ri' tr')"

lemma fire_all_in_flight:
  assumes "ri_run ri \<noteq> None" "ri_mode ri \<noteq> ''restart''"
  shows "snd (fire_all clk e fs ri tr) = (ri, tr)"
  using assms
proof (induction fs)
  case (Cons f fs)
  have "snd (fireRuleWith clk e (fst f) (snd f) ri tr) = (ri, tr)"
    using assms by (simp add: fireRuleWith_def)
  then show ?case using Cons by (cases f) (auto simp: split_def)
qed simp

text \<open>The contexts the actions of a run are run under: the one it starts in, then one for each tick.\<close>

definition run_contexts :: "clock_reading \<Rightarrow> engine \<Rightarrow> (nat \<Rightarrow> tick_env) \<Rightarrow> rule_instance \<Rightarrow> string \<Rightarrow> nat \<Rightarrow> action_ctx" where
  "run_contexts clk e envs ri scope k =
     (case k of 0 \<Rightarrow> actionContext clk e ri scope
      | Suc i \<Rightarrow> actionContext (te_clk (envs i)) (te_engine (envs i)) ri scope)"

lemma actionContext_run [simp]: "actionContext clk e (ri\<lparr>ri_run := r\<rparr>) scope = actionContext clk e ri scope"
  by (simp add: actionContext_def)

lemma due_tick_in_flight:
  assumes "ri_mode ri \<noteq> ''restart''"
  shows "due_tick env (ri\<lparr>ri_run := Some \<lparr>rs_pending = Some dp, rs_scope = scope\<rparr>\<rparr>) tr =
    (case RunActions (actionContext (te_clk env) (te_engine env) ri scope) (dp_remaining dp) tr of
       (Some dp', tr') \<Rightarrow> (ri\<lparr>ri_run := Some \<lparr>rs_pending = Some dp', rs_scope = scope\<rparr>\<rparr>, tr')
     | (None, tr') \<Rightarrow> (ri\<lparr>ri_run := None\<rparr>, tr'))"
proof -
  let ?ri = "ri\<lparr>ri_run := Some \<lparr>rs_pending = Some dp, rs_scope = scope\<rparr>\<rparr>"
  obtain out where "fire_all (te_clk env) (te_engine env) (te_firings env) ?ri tr = (out, ?ri, tr)"
    using fire_all_in_flight [of ?ri "te_clk env" "te_engine env" "te_firings env" tr] assms
    by (cases "fire_all (te_clk env) (te_engine env) (te_firings env) ?ri tr") auto
  then show ?thesis
    by (simp add: due_tick_def resumeDelay_def due_reading_def split: prod.split option.split)
qed

lemma due_ticks_complete:
  assumes "ri_mode ri \<noteq> ''restart''" "ctxs = run_contexts clk e envs ri scope"
  shows "run_to_end ctxs (Suc k) (dp_remaining dp) tr = (m, tr') \<Longrightarrow>
    k < m \<and> due_ticks envs k (m - k) (ri\<lparr>ri_run := Some \<lparr>rs_pending = Some dp, rs_scope = scope\<rparr>\<rparr>) tr = (ri\<lparr>ri_run := None\<rparr>, tr')"
proof (induction "dp_remaining dp" arbitrary: dp k tr rule: measure_induct_rule [of "size_list size"])
  case less
  have ctx: "ctxs (Suc k) = actionContext (te_clk (envs k)) (te_engine (envs k)) ri scope"
    by (simp add: assms(2) run_contexts_def)
  obtain r tr1 where r: "RunActions (ctxs (Suc k)) (dp_remaining dp) tr = (r, tr1)" by fastforce
  show ?case
  proof (cases r)
    case None
    then have "m = Suc k" "tr1 = tr'" using less.prems r by (auto simp: run_to_end.simps)
    then show ?thesis using r None due_tick_in_flight [OF assms(1)] by (simp add: ctx)
  next
    case (Some dp')
    then have rest: "run_to_end ctxs (Suc (Suc k)) (dp_remaining dp') tr1 = (m, tr')"
      using less.prems r by (simp add: run_to_end.simps [of ctxs "Suc k"])
    have "size_list size (dp_remaining dp') < size_list size (dp_remaining dp)"
      using delay_remaining_smaller r Some by blast
    from less.hyps [OF this rest]
    have IH: "Suc k < m" "due_ticks envs (Suc k) (m - Suc k) (ri\<lparr>ri_run := Some \<lparr>rs_pending = Some dp', rs_scope = scope\<rparr>\<rparr>) tr1 =
        (ri\<lparr>ri_run := None\<rparr>, tr')"
      by auto
    then have "m - k = Suc (m - Suc k)" by simp
    then show ?thesis using IH r Some due_tick_in_flight [OF assms(1)] by (simp add: ctx)
  qed
qed

section \<open>The windows of the schedules\<close>

text \<open>
  The wall-clock window an event gives to every schedule trigger: whether its occurrences go through
  the misfire policy, its exclusive start and its inclusive end.
\<close>

datatype time_event = TTick clock_reading clock_reading | TTrust clock_reading string

fun time_step :: "time_event \<Rightarrow> engine \<Rightarrow> engine" where
  "time_step (TTick clk now) e = snd (dispatchSchedule clk now e)"
| "time_step (TTrust clk st) e = (case SetClockTrust clk st e of Some (_, e') \<Rightarrow> e' | None \<Rightarrow> e)"

fun window :: "time_event \<Rightarrow> engine \<Rightarrow> (bool \<times> int \<times> int) option" where
  "window (TTick clk now) e =
     (if \<not> hasSchedule e \<or> eg_clockUntrusted e then None
      else Some (eg_lastTickWall e = 0, max (eg_lastTickWall e) (eg_scheduleFloor e), ck_wall now))"
| "window (TTrust clk st) e =
     (if st = ''trusted'' \<and> eg_clockUntrusted e \<and> eg_rules e \<noteq> []
      then Some (True, max (eg_lastTickWall e) (eg_scheduleFloor e), ck_wall clk) else None)"

fun reading_of :: "time_event \<Rightarrow> clock_reading" where
  "reading_of (TTick clk now) = clk"
| "reading_of (TTrust clk st) = clk"

definition cursor :: "engine \<Rightarrow> int" where
  "cursor e = max (eg_lastTickWall e) (eg_scheduleFloor e)"

text \<open>What an event does with its window: one pass that fires its occurrences, live or through the misfire
  policy, and the cursor.\<close>

definition after_trust :: "time_event \<Rightarrow> engine \<Rightarrow> engine" where
  "after_trust ev e = (case ev of TTick _ _ \<Rightarrow> e
     | TTrust _ st \<Rightarrow> if st = ''untrusted'' then e\<lparr>eg_clockUntrusted := True\<rparr>
         else if st = ''trusted'' then e\<lparr>eg_clockUntrusted := False\<rparr> else e)"

lemma hasSchedule_rules: "hasSchedule e \<Longrightarrow> eg_rules e \<noteq> []"
  by (auto simp: hasSchedule_def)

lemma time_step_window:
  assumes "0 \<le> eg_lastTickWall e" "0 \<le> eg_scheduleFloor e"
  shows "time_step ev e =
    (case window ev e of
       None \<Rightarrow> after_trust ev e
     | Some (missed, a, b) \<Rightarrow>
         let e1 = after_trust ev e
         in advance_cursor b (snd (run_pass (reading_of ev) (if missed then misfire_step e1 a b else live_step e1 a b) e1)))"
proof (cases ev)
  case (TTick clk now)
  then show ?thesis
    using assms hasSchedule_rules [of e]
    by (auto simp: dispatchSchedule_def replayMissedSchedules_def after_trust_def split_def max_def)
next
  case (TTrust clk st)
  then show ?thesis
    by (auto simp: SetClockTrust_def replayMissedSchedules_def after_trust_def Let_def split_def)
qed

fun windows :: "time_event list \<Rightarrow> engine \<Rightarrow> (int \<times> int) list" where
  "windows [] e = []"
| "windows (ev # evs) e =
     (case window ev e of Some (_, a, b) \<Rightarrow> [(a, b)] | None \<Rightarrow> []) @ windows evs (time_step ev e)"

fun time_steps :: "time_event list \<Rightarrow> engine \<Rightarrow> engine" where
  "time_steps [] e = e"
| "time_steps (ev # evs) e = time_steps evs (time_step ev e)"

lemma after_trust_frame [simp]:
  "eg_lastTickWall (after_trust ev e) = eg_lastTickWall e" "eg_scheduleFloor (after_trust ev e) = eg_scheduleFloor e"
  by (simp_all add: after_trust_def split: time_event.split)

lemma time_step_cursor:
  assumes "0 \<le> eg_lastTickWall e" "0 \<le> eg_scheduleFloor e"
  shows "eg_lastTickWall (time_step ev e) = (case window ev e of None \<Rightarrow> eg_lastTickWall e | Some (_, a, b) \<Rightarrow> max (eg_lastTickWall e) b)
    \<and> eg_scheduleFloor (time_step ev e) = eg_scheduleFloor e"
  by (simp add: time_step_window [OF assms] Let_def split: option.split prod.split)

lemma time_step_nonneg:
  assumes "0 \<le> eg_lastTickWall e" "0 \<le> eg_scheduleFloor e"
  shows "0 \<le> eg_lastTickWall (time_step ev e)" "0 \<le> eg_scheduleFloor (time_step ev e)"
  using assms time_step_cursor [OF assms, of ev]
  by (cases "window ev e"; simp add: split_def le_max_iff_disj)+

lemma window_start: "window ev e = Some (missed, a, b) \<Longrightarrow> a = cursor e"
  by (cases ev) (auto simp: cursor_def split: if_splits)

text \<open>Consecutive windows: each starts where the cursor stands; one whose end lies behind it is empty.\<close>

fun chained :: "int \<Rightarrow> (int \<times> int) list \<Rightarrow> bool" where
  "chained c [] = True"
| "chained c ((a, b) # ws) \<longleftrightarrow> a = c \<and> chained (max c b) ws"

fun maxes :: "int \<Rightarrow> (int \<times> int) list \<Rightarrow> int list" where
  "maxes c [] = []"
| "maxes c ((a, b) # ws) = max c b # maxes (max c b) ws"

lemma sorted_maxes: "sorted (c # maxes c ws)"
proof (induction c ws rule: maxes.induct)
  case (2 c a b ws)
  have "c \<le> max c b" by simp
  then show ?case using 2 by (simp only: maxes.simps sorted2 simp_thms)
qed simp

context schedule_laws
begin

lemma chained_over_ticks: "chained c ws \<Longrightarrow> concat (map (\<lambda>(a, b). occ a b) ws) = over_ticks occ c (maxes c ws)"
proof (induction c ws rule: maxes.induct)
  case (2 c a b ws)
  have "occ c b = occ c (max c b)"
    using empty_window [of b c] empty_window [of c c] by (cases "b \<le> c") (simp_all add: max_absorb1 max_absorb2)
  then show ?case using 2 by simp
qed simp

lemma chained_once:
  "chained c ws \<Longrightarrow> distinct (concat (map (\<lambda>(a, b). occ a b) ws)) \<and>
     set (concat (map (\<lambda>(a, b). occ a b) ws)) = set (occ c (last (c # maxes c ws)))"
  using over_ticks_once [OF sorted_maxes] set_over_ticks [OF sorted_maxes] by (simp only: chained_over_ticks)

end

lemma windows_chained:
  assumes "0 \<le> eg_lastTickWall e" "0 \<le> eg_scheduleFloor e"
  shows "chained (cursor e) (windows evs e) \<and> last (cursor e # maxes (cursor e) (windows evs e)) = cursor (time_steps evs e)"
  using assms
proof (induction evs arbitrary: e)
  case (Cons ev evs)
  let ?e = "time_step ev e"
  note c = time_step_cursor [OF Cons.prems, of ev]
  note IH = Cons.IH [OF time_step_nonneg [OF Cons.prems, of ev]]
  show ?case
  proof (cases "window ev e")
    case None
    then show ?thesis using IH c by (simp add: cursor_def)
  next
    case (Some w)
    then obtain missed b where w: "window ev e = Some (missed, cursor e, b)"
      using window_start by (cases w) auto
    have "cursor ?e = max (cursor e) b" using c w by (simp add: cursor_def max.assoc max.left_commute)
    then show ?thesis using IH w by simp
  qed
qed simp

lemma time_steps_nonneg:
  "0 \<le> eg_lastTickWall e \<Longrightarrow> 0 \<le> eg_scheduleFloor e \<Longrightarrow>
   0 \<le> eg_lastTickWall (time_steps evs e) \<and> 0 \<le> eg_scheduleFloor (time_steps evs e)"
proof (induction evs arbitrary: e)
  case (Cons ev evs)
  then show ?case using time_step_nonneg [OF Cons.prems, of ev] by simp
qed simp

section \<open>Properties\<close>


text \<open>C2. A run is carried to its end.  When a rule that is not in restart mode fires while idle and its
  conditions hold, it starts one run, and ticks at which its delay is due complete it: after as many
  ticks as it has delays, however late each tick and whatever firings of the rule arrive between,
  the rule is idle again and what it has sent is one pass over its actions, delays skipped.\<close>

theorem run_is_completed:
  assumes "ri_run ri = None" "ri_mode ri \<noteq> ''restart''" "conditionsPass clk e ri"
  shows "case fireRuleWith clk e scope caught ri tr of (out, ri1, tr1) \<Rightarrow>
    case run_through (run_contexts clk e envs ri scope) 0 (r_actions (ri_rule ri)) tr of (m, tr') \<Rightarrow>
      out = [disposition ri Ran caught] \<and> due_ticks envs 0 m ri1 tr1 = (ri, tr')"
proof -
  let ?c = "run_contexts clk e envs ri scope" and ?as = "r_actions (ri_rule ri)"
  have idle: "ri\<lparr>ri_run := None\<rparr> = ri" using assms(1) by simp
  obtain r tr1 where r: "RunActions (?c 0) ?as tr = (r, tr1)" by fastforce
  have c0: "?c 0 = actionContext clk e ri scope" by (simp add: run_contexts_def)
  obtain m tr' where m: "run_to_end ?c 0 ?as tr = (m, tr')" by fastforce
  show ?thesis
  proof (cases r)
    case None
    then have "m = 0" "tr' = tr1" using m r by (simp_all add: run_to_end.simps)
    then show ?thesis
      using r None m assms idle by (simp add: fireRuleWith_def startRun_def c0 run_to_end_through)
  next
    case (Some dp)
    then have "run_to_end ?c (Suc 0) (dp_remaining dp) tr1 = (m, tr')"
      using m r by (simp add: run_to_end.simps [of ?c 0])
    from due_ticks_complete [OF assms(2) refl this]
    show ?thesis
      using r Some m assms idle by (simp add: fireRuleWith_def startRun_def c0 run_to_end_through)
  qed
qed

text \<open>While no rule has a schedule the cursor stays behind.  A rule loaded later is given a window that
  reaches back to it, past the time the rule was loaded.\<close>

lemma late_rule_sees_past:
  assumes "\<not> hasSchedule e" "\<not> eg_clockUntrusted e"
  shows "window (TTick clk now) (snd (ApplyGeneration clk' gen (time_steps (map (\<lambda>n. TTick clk n) ns) e))) =
    (if hasSchedule (snd (ApplyGeneration clk' gen e)) then Some (eg_lastTickWall e = 0, cursor e, ck_wall now) else None)"
proof -
  have "time_steps (map (\<lambda>n. TTick clk n) ns) e = e"
    using assms(1) by (induction ns) (simp_all add: dispatchSchedule_def)
  then show ?thesis using assms(2) by (simp add: cursor_def ApplyGeneration_def split: prod.split)
qed

definition demo_scheduled :: engine where
  "demo_scheduled = empty_engine\<lparr>eg_lastTickWall := 1719849599000, eg_rules :=
     [(newRuleInstance demo_compiled)\<lparr>ri_triggers :=
        [(blank_runtime ''time'' 0 (CanonAbsent, ''''))\<lparr>tr_sched := Some (SchedTime (clock_trigger 43200))\<rparr>]\<rparr>]\<rparr>"


theorem run_is_completed_witness:
  "case fireRuleWith clk0 empty_engine ''E'' False (newRuleInstance demo_compiled) [] of (out, ri1, tr1) \<Rightarrow>
     out = [disposition (newRuleInstance demo_compiled) Ran False]"
proof -
  let ?ri = "newRuleInstance demo_compiled"
  have "ri_run ?ri = None" "ri_mode ?ri \<noteq> ''restart''" "conditionsPass clk0 empty_engine ?ri"
    by (simp_all add: newRuleInstance_def demo_compiled_def demo_edge_def conditionsPass_def)
  from run_is_completed [OF this] show ?thesis by (simp add: split_def)
qed

end
