(* ===== verification/ScopeTree.thy ===== *)
theory ScopeTree
  imports GoValue Ulid
begin

text \<open>
  The scope-node tree, \<open>internal/datamodel/scopetree.go\<close> and the ancestor chain of \<open>resolve.go\<close>: the
  index of nodes by id with the structural checks of both builders, the walk to the root, the effective
  time zone and position of a node, and the proof that a complete tree without errors is rooted.
\<close>

section \<open>Runes\<close>

text \<open>
  Decoding of UTF-8 as \<open>unicode/utf8\<close> does it: the length in bytes and the code point of the first rune;
  an invalid byte is one rune, the replacement character.
\<close>

definition cont :: "nat \<Rightarrow> bool" where
  "cont b \<longleftrightarrow> 128 \<le> b \<and> b \<le> 191"

fun first_rune :: "nat list \<Rightarrow> nat \<times> nat" where
  "first_rune [] = (1, 65533)"
| "first_rune (a # bs) =
     (let second = (\<lambda>lo hi. bs \<noteq> [] \<and> lo \<le> bs ! 0 \<and> bs ! 0 \<le> hi);
          third = (1 < length bs \<and> cont (bs ! 1)); fourth = (2 < length bs \<and> cont (bs ! 2))
      in if a < 128 then (1, a)
         else if 194 \<le> a \<and> a \<le> 223 \<and> second 128 191 then (2, (a - 192) * 64 + (bs ! 0 - 128))
         else if 224 \<le> a \<and> a \<le> 239 \<and>
             second (if a = 224 then 160 else 128) (if a = 237 then 159 else 191) \<and> third then
           (3, (a - 224) * 4096 + (bs ! 0 - 128) * 64 + (bs ! 1 - 128))
         else if 240 \<le> a \<and> a \<le> 244 \<and>
             second (if a = 240 then 144 else 128) (if a = 244 then 143 else 191) \<and> third \<and> fourth then
           (4, (a - 240) * 262144 + (bs ! 0 - 128) * 4096 + (bs ! 1 - 128) * 64 + (bs ! 2 - 128))
         else (1, 65533))"

text \<open>The runes of a text; the first argument bounds the number of steps and the length is enough.\<close>

fun runes :: "nat \<Rightarrow> nat list \<Rightarrow> nat list" where
  "runes k [] = []"
| "runes 0 (b # bs) = []"
| "runes (Suc k) (b # bs) =
     (case first_rune (b # bs) of (w, r) \<Rightarrow> r # runes k (drop (w - 1) bs))"

definition runes_of :: "string \<Rightarrow> nat list" where
  "runes_of s = runes (length s) (map byte_of s)"

lemma runes_fuel: "length bs \<le> k \<Longrightarrow> length bs \<le> m \<Longrightarrow> runes k bs = runes m bs"
proof (induction k arbitrary: bs m)
  case 0
  then show ?case by simp
next
  case (Suc k)
  show ?case
  proof (cases bs)
    case (Cons b cs)
    then obtain m' where "m = Suc m'" using Suc.prems by (cases m) auto
    then show ?thesis
      using Cons Suc.prems Suc.IH [of "drop (w - 1) cs" m' for w] by (auto simp del: first_rune.simps split: prod.split)
  qed simp
qed

text \<open>\<open>unicode.IsSpace\<close>, and \<open>strings.TrimSpace(s) == ""\<close>.\<close>

definition rune_space :: "nat \<Rightarrow> bool" where
  "rune_space r \<longleftrightarrow> (9 \<le> r \<and> r \<le> 13) \<or> r \<in> {32, 133, 160, 5760, 8232, 8233, 8239, 8287, 12288} \<or>
     (8192 \<le> r \<and> r \<le> 8202)"

definition blank :: "string \<Rightarrow> bool" where
  "blank s = list_all rune_space (runes_of s)"

section \<open>Nodes and the tree\<close>

record ScopeNode =
  nd_id :: string
  nd_kind :: string
  nd_parent :: "string option"
  nd_name :: string
  nd_tz :: "string option"
  nd_lat :: "f64 option"
  nd_long :: "f64 option"
  nd_account_state :: string
  nd_entitlements :: "json option"

text \<open>The index by id, the latest entry first: a later node of the same id replaces an earlier one.\<close>

type_synonym ScopeTree = "(string \<times> ScopeNode) list"

definition index_nodes :: "ScopeNode list \<Rightarrow> ScopeTree" where
  "index_nodes nodes = rev (map (\<lambda>n. (nd_id n, n)) nodes)"

record dm_error =
  err_field :: string
  err_code :: string

definition dm_err :: "string \<Rightarrow> string \<Rightarrow> dm_error" where
  "dm_err f c = \<lparr>err_field = f, err_code = c\<rparr>"

definition permittedChildKinds :: "string \<Rightarrow> string \<Rightarrow> bool" where
  "permittedChildKinds parent child \<longleftrightarrow>
     (parent = ''org'' \<and> child = ''site'') \<or>
     (parent = ''site'' \<and> child \<in> {''group'', ''screen''}) \<or>
     (parent = ''group'' \<and> child \<in> {''group'', ''screen''})"

definition validScopeKind :: "string \<Rightarrow> bool" where
  "validScopeKind k \<longleftrightarrow> k \<in> {''org'', ''site'', ''group'', ''screen''}"

definition maxScopeNodeNameLen :: nat where
  "maxScopeNodeNameLen = 200"

definition CheckRowID :: "string \<Rightarrow> string \<Rightarrow> dm_error option" where
  "CheckRowID i field = (if \<not> Valid i then Some (dm_err field ''ROW_ID_INVALID'') else None)"

definition validAccountStates :: "string \<Rightarrow> bool" where
  "validAccountStates s \<longleftrightarrow> s \<in> {''trial'', ''active'', ''suspended'', ''closed'', ''purged''}"

definition isJSONObject :: "json \<Rightarrow> bool" where
  "isJSONObject j = (case j of JObj _ \<Rightarrow> True | _ \<Rightarrow> False)"

definition validateAccountFields :: "ScopeNode \<Rightarrow> dm_error list" where
  "validateAccountFields n =
     (if nd_kind n = ''org'' then
        (if nd_account_state n = '''' then [dm_err ''account_state'' ''SCOPE_NODE_ACCOUNT_STATE_INVALID'']
         else if \<not> validAccountStates (nd_account_state n)
         then [dm_err ''account_state'' ''SCOPE_NODE_ACCOUNT_STATE_INVALID'']
         else []) @
        (case nd_entitlements n of
           None \<Rightarrow> [dm_err ''entitlements'' ''SCOPE_NODE_ENTITLEMENTS_INVALID'']
         | Some j \<Rightarrow> if \<not> isJSONObject j then [dm_err ''entitlements'' ''SCOPE_NODE_ENTITLEMENTS_INVALID''] else [])
      else
        (if nd_account_state n \<noteq> '''' then [dm_err ''account_state'' ''SCOPE_NODE_ACCOUNT_STATE_INVALID''] else []) @
        (if nd_entitlements n \<noteq> None then [dm_err ''entitlements'' ''SCOPE_NODE_ENTITLEMENTS_INVALID''] else []))"

definition geo_present :: "ScopeNode \<Rightarrow> nat" where
  "geo_present n = length (filter id [nd_tz n \<noteq> None, nd_lat n \<noteq> None, nd_long n \<noteq> None])"

definition validateGeo :: "ScopeNode \<Rightarrow> dm_error list" where
  "validateGeo n =
     (let present = geo_present n in
      if nd_kind n = ''site'' then
        (if present \<noteq> 3 then [dm_err ''tz'' ''SCOPE_NODE_GEO_REQUIRED''] else [])
      else if nd_kind n = ''org'' then
        (if present \<noteq> 0 then [dm_err ''tz'' ''SCOPE_NODE_GEO_FORBIDDEN''] else [])
      else if nd_kind n \<in> {''group'', ''screen''} then
        (if present \<noteq> 0 \<and> present \<noteq> 3 then [dm_err ''tz'' ''SCOPE_NODE_GEO_PARTIAL''] else [])
      else [])"

definition parent_errors :: "bool \<Rightarrow> ScopeTree \<Rightarrow> ScopeNode \<Rightarrow> dm_error list" where
  "parent_errors fullTree t n =
     (if nd_kind n = ''org'' then
        (if nd_parent n \<noteq> None then [dm_err ''parent_id'' ''SCOPE_NODE_PARENT_INVALID''] else [])
      else
        (case nd_parent n of
           None \<Rightarrow> [dm_err ''parent_id'' ''SCOPE_NODE_PARENT_INVALID'']
         | Some p \<Rightarrow>
             (case map_of t p of
                Some q \<Rightarrow>
                  if \<not> permittedChildKinds (nd_kind q) (nd_kind n)
                  then [dm_err ''parent_id'' ''SCOPE_NODE_PARENT_INVALID''] else []
              | None \<Rightarrow> if fullTree then [dm_err ''parent_id'' ''SCOPE_NODE_PARENT_INVALID''] else [])))"

definition node_errors :: "bool \<Rightarrow> ScopeTree \<Rightarrow> ScopeNode \<Rightarrow> dm_error list" where
  "node_errors fullTree t n =
     (if blank (nd_name n) \<or> length (runes_of (nd_name n)) > maxScopeNodeNameLen
      then [dm_err ''name'' ''SCOPE_NODE_NAME_INVALID''] else []) @
     (case CheckRowID (nd_id n) ''id'' of None \<Rightarrow> [] | Some e \<Rightarrow> [e]) @
     (if \<not> validScopeKind (nd_kind n) then [dm_err ''kind'' ''SCOPE_NODE_KIND_INVALID'']
      else parent_errors fullTree t n @ validateGeo n @ (if fullTree then validateAccountFields n else []))"

text \<open>The upward walk of \<open>unreachableFromRoot\<close>: whether it comes back to a node it has seen.\<close>

function cycles :: "ScopeTree \<Rightarrow> string list \<Rightarrow> ScopeNode \<Rightarrow> bool" where
  "cycles t seen cur =
     (case nd_parent cur of
        None \<Rightarrow> False
      | Some p \<Rightarrow>
          (case map_of t p of
             None \<Rightarrow> False
           | Some parent \<Rightarrow>
               if nd_kind parent = ''org'' then False
               else if nd_id parent \<in> set seen then True
               else cycles t (nd_id parent # seen) parent))"
  by pat_completeness auto

lemma unseen_decreases:
  assumes "map_of t p = Some q" "nd_id q \<notin> set seen"
  shows "card (nd_id ` snd ` set t - set (nd_id q # seen)) < card (nd_id ` snd ` set t - set seen)"
proof (rule psubset_card_mono)
  have "nd_id q \<in> nd_id ` snd ` set t" using assms(1) map_of_SomeD by force
  then show "nd_id ` snd ` set t - set (nd_id q # seen) \<subset> nd_id ` snd ` set t - set seen"
    using assms(2) by auto
qed simp

termination cycles
  by (relation "measure (\<lambda>(t, seen, cur). card (nd_id ` snd ` set t - set seen))")
    (auto simp del: list.set simp: unseen_decreases)

declare cycles.simps [simp del]

definition unreachableFromRoot :: "ScopeNode list \<Rightarrow> ScopeTree \<Rightarrow> dm_error list" where
  "unreachableFromRoot nodes t =
     concat (map (\<lambda>n. if nd_kind n = ''org'' then []
        else if cycles t [nd_id n] n then [dm_err ''parent_id'' ''SCOPE_NODE_PARENT_INVALID''] else []) nodes)"

definition buildScopeTree :: "ScopeNode list \<Rightarrow> bool \<Rightarrow> ScopeTree \<times> dm_error list" where
  "buildScopeTree nodes fullTree =
     (let t = index_nodes nodes; orgCount = length (filter (\<lambda>n. nd_kind n = ''org'') nodes) in
      (t,
       (if orgCount > 1 then [dm_err ''kind'' ''SCOPE_NODE_MULTIPLE_ORG''] else []) @
       concat (map (node_errors fullTree t) nodes) @
       (if fullTree then unreachableFromRoot nodes t else [])))"

definition BuildScopeTree :: "ScopeNode list \<Rightarrow> ScopeTree \<times> dm_error list" where
  "BuildScopeTree nodes = buildScopeTree nodes False"

definition BuildFullScopeTree :: "ScopeNode list \<Rightarrow> ScopeTree \<times> dm_error list" where
  "BuildFullScopeTree nodes = buildScopeTree nodes True"

section \<open>Walking to the root\<close>

definition KindOf :: "ScopeTree \<Rightarrow> string \<Rightarrow> string option" where
  "KindOf t i = map_option nd_kind (map_of t i)"

text \<open>The loop of \<open>AncestorChain\<close>: what it appends from \<open>cur\<close> on.  A missing node reads as the zero node,
  which has no parent.\<close>

function chain_from :: "ScopeTree \<Rightarrow> string list \<Rightarrow> string \<Rightarrow> string list" where
  "chain_from t seen cur =
     (if cur \<in> set seen then []
      else cur #
        (case map_of t cur of
           None \<Rightarrow> []
         | Some n \<Rightarrow>
             (case nd_parent n of
                None \<Rightarrow> []
              | Some p \<Rightarrow> if map_of t p = None then [] else chain_from t (cur # seen) p)))"
  by pat_completeness auto

lemma unseen_key_decreases:
  assumes "map_of t cur = Some n" "cur \<notin> set seen"
  shows "card (fst ` set t - set (cur # seen)) < card (fst ` set t - set seen)"
proof (rule psubset_card_mono)
  have "cur \<in> fst ` set t" using assms(1) map_of_SomeD by force
  then show "fst ` set t - set (cur # seen) \<subset> fst ` set t - set seen" using assms(2) by auto
qed simp

termination chain_from
  by (relation "measure (\<lambda>(t, seen, cur). card (fst ` set t - set seen))")
    (auto simp del: list.set simp: unseen_key_decreases)

declare chain_from.simps [simp del]

definition AncestorChain :: "ScopeTree \<Rightarrow> string \<Rightarrow> string list" where
  "AncestorChain t i = (if map_of t i = None then [] else chain_from t [] i)"

record EffectiveGeo =
  geo_tz :: string
  geo_lat :: f64
  geo_long :: f64
  geo_source :: string

definition declares_geo :: "ScopeNode \<Rightarrow> bool" where
  "declares_geo n \<longleftrightarrow> nd_tz n \<noteq> None \<and> nd_lat n \<noteq> None \<and> nd_long n \<noteq> None"

definition geo_of :: "string \<Rightarrow> ScopeNode \<Rightarrow> EffectiveGeo" where
  "geo_of src n = \<lparr>geo_tz = the (nd_tz n), geo_lat = the (nd_lat n), geo_long = the (nd_long n), geo_source = src\<rparr>"

function nearest_site :: "ScopeTree \<Rightarrow> string list \<Rightarrow> ScopeNode \<Rightarrow> ScopeNode option" where
  "nearest_site t seen cur =
     (case nd_parent cur of
        None \<Rightarrow> None
      | Some p \<Rightarrow>
          (case map_of t p of
             None \<Rightarrow> None
           | Some parent \<Rightarrow>
               if nd_id parent \<in> set seen then None
               else if nd_kind parent = ''site'' \<and> declares_geo parent then Some parent
               else nearest_site t (nd_id parent # seen) parent))"
  by pat_completeness auto
termination nearest_site
  by (relation "measure (\<lambda>(t, seen, cur). card (nd_id ` snd ` set t - set seen))")
    (auto simp del: list.set simp: unseen_decreases)

declare nearest_site.simps [simp del]

definition EffectiveGeo :: "ScopeTree \<Rightarrow> string \<Rightarrow> dm_error + EffectiveGeo" where
  "EffectiveGeo t i =
     (case map_of t i of
        None \<Rightarrow> Inl (dm_err ''scope_node'' ''SCOPE_NODE_PARENT_INVALID'')
      | Some n \<Rightarrow>
          if declares_geo n then Inr (geo_of ''own'' n)
          else (case nearest_site t [i] n of
                  Some parent \<Rightarrow> Inr (geo_of (''ancestor-site:'' @ nd_id parent) parent)
                | None \<Rightarrow> Inl (dm_err ''tz'' ''EFFECTIVE_GEO_UNRESOLVED'')))"

definition EffectiveTZ :: "ScopeTree \<Rightarrow> string \<Rightarrow> dm_error + string \<times> f64 \<times> f64" where
  "EffectiveTZ t i =
     (case EffectiveGeo t i of Inl e \<Rightarrow> Inl e | Inr g \<Rightarrow> Inr (geo_tz g, geo_lat g, geo_long g))"

section \<open>The index\<close>

lemma index_Some: "map_of (index_nodes nodes) i = Some n \<Longrightarrow> n \<in> set nodes \<and> nd_id n = i"
  by (auto simp: index_nodes_def dest!: map_of_SomeD)

lemma index_dom: "n \<in> set nodes \<Longrightarrow> \<exists>m. map_of (index_nodes nodes) (nd_id n) = Some m"
proof -
  assume "n \<in> set nodes"
  then have "(nd_id n, n) \<in> set (index_nodes nodes)" by (auto simp: index_nodes_def)
  then have "map_of (index_nodes nodes) (nd_id n) \<noteq> None"
    by (metis domIff dom_map_of_conv_image_fst image_eqI fst_conv)
  then show ?thesis by auto
qed

text \<open>A tree is keyed when every entry is under its own id; both builders return such a tree.\<close>

definition keyed :: "ScopeTree \<Rightarrow> bool" where
  "keyed t \<longleftrightarrow> (\<forall>(i, n) \<in> set t. nd_id n = i)"

lemma index_keyed: "keyed (index_nodes nodes)"
  by (auto simp: keyed_def index_nodes_def)

lemma keyedD: "keyed t \<Longrightarrow> map_of t i = Some n \<Longrightarrow> nd_id n = i"
  by (auto simp: keyed_def dest: map_of_SomeD)

section \<open>The chain\<close>

lemma chain_from_fresh: "set (chain_from t seen cur) \<inter> set seen = {} \<and> distinct (chain_from t seen cur)"
proof (induction t seen cur rule: chain_from.induct)
  case (1 t seen cur)
  show ?case
    using 1 by (subst (1 2) chain_from.simps) (auto split: option.split)
qed

lemma AncestorChain_distinct: "distinct (AncestorChain t i)"
  using chain_from_fresh [of t "[]" i] by (simp add: AncestorChain_def)

lemma AncestorChain_hd: "map_of t i = Some n \<Longrightarrow> AncestorChain t i \<noteq> [] \<and> hd (AncestorChain t i) = i"
  by (simp add: AncestorChain_def chain_from.simps [of t "[]" i])

lemma chain_from_in_tree:
  "j \<in> set (chain_from t seen cur) \<Longrightarrow> map_of t cur \<noteq> None \<Longrightarrow> map_of t j \<noteq> None"
proof (induction t seen cur rule: chain_from.induct)
  case (1 t seen cur)
  then show ?case
    by (subst (asm) chain_from.simps) (auto split: option.splits if_splits)
qed

lemma AncestorChain_in_tree: "j \<in> set (AncestorChain t i) \<Longrightarrow> map_of t j \<noteq> None"
  using chain_from_in_tree [of j t "[]" i] by (auto simp: AncestorChain_def split: if_splits)

lemma chain_from_nonempty: "map_of t i \<noteq> None \<Longrightarrow> i \<notin> set seen \<Longrightarrow> chain_from t seen i \<noteq> [] \<and> hd (chain_from t seen i) = i"
  by (subst chain_from.simps, subst (2) chain_from.simps) (auto split: option.splits)

lemma chain_from_walk:
  assumes "map_of t i \<noteq> None" "i \<notin> set seen"
  shows "successively (\<lambda>a b. \<exists>n. map_of t a = Some n \<and> nd_parent n = Some b) (chain_from t seen i) \<and>
    (\<exists>n. map_of t (last (chain_from t seen i)) = Some n \<and>
      (\<forall>p. nd_parent n = Some p \<longrightarrow> map_of t p = None \<or> p \<in> set seen \<union> set (chain_from t seen i)))"
  using assms
proof (induction t seen i rule: chain_from.induct)
  case (1 t seen cur)
  obtain n where n: "map_of t cur = Some n" using 1(2) by auto
  show ?case
  proof (cases "\<exists>p. nd_parent n = Some p \<and> map_of t p \<noteq> None \<and> p \<notin> set (cur # seen)")
    case False
    then have "chain_from t seen cur = [cur]"
      using n 1(3) by (subst chain_from.simps) (auto simp: chain_from.simps split: option.splits)
    then show ?thesis using n False by auto
  next
    case True
    then obtain p where p: "nd_parent n = Some p" "map_of t p \<noteq> None" "p \<notin> set (cur # seen)" by blast
    have step: "chain_from t seen cur = cur # chain_from t (cur # seen) p"
      using n p 1(3) by (subst chain_from.simps) (auto split: option.splits)
    have ih: "successively (\<lambda>a b. \<exists>n. map_of t a = Some n \<and> nd_parent n = Some b) (chain_from t (cur # seen) p) \<and>
      (\<exists>n. map_of t (last (chain_from t (cur # seen) p)) = Some n \<and>
        (\<forall>q. nd_parent n = Some q \<longrightarrow> map_of t q = None \<or> q \<in> set (cur # seen) \<union> set (chain_from t (cur # seen) p)))"
      using 1 n p by auto
    show ?thesis
      using ih n p chain_from_nonempty [OF p(2,3)] by (auto simp: step successively_Cons)
  qed
qed

text \<open>C38. The walk to the root ends on every tree, cyclic ones included, after at most as many steps as the tree
  has nodes: it visits nodes of the tree, none twice, each the parent of the one before, and it stops only at a
  node without parent, at the boundary of the tree, or where the next step would repeat a node.\<close>

theorem ancestor_walk_ends:
  "distinct (AncestorChain t i) \<and> set (AncestorChain t i) \<subseteq> fst ` set t \<and> length (AncestorChain t i) \<le> length t \<and>
   successively (\<lambda>a b. \<exists>n. map_of t a = Some n \<and> nd_parent n = Some b) (AncestorChain t i) \<and>
   (case AncestorChain t i of [] \<Rightarrow> map_of t i = None
    | j # js \<Rightarrow> j = i \<and> (case map_of t (last (j # js)) of None \<Rightarrow> False
        | Some n \<Rightarrow> (case nd_parent n of None \<Rightarrow> True | Some p \<Rightarrow> map_of t p = None \<or> p \<in> set (j # js))))"
proof -
  have d: "distinct (AncestorChain t i)" by (rule AncestorChain_distinct)
  moreover have s: "set (AncestorChain t i) \<subseteq> fst ` set t"
    using AncestorChain_in_tree by (force simp: map_of_eq_None_iff)
  moreover have "length (AncestorChain t i) \<le> length t"
    using card_mono [OF _ s] distinct_card [OF d] card_image_le [of "set t" fst] card_length [of t] by simp
  moreover have "AncestorChain t i \<noteq> [] \<Longrightarrow>
      successively (\<lambda>a b. \<exists>n. map_of t a = Some n \<and> nd_parent n = Some b) (AncestorChain t i) \<and>
      hd (AncestorChain t i) = i \<and> (\<exists>n. map_of t (last (AncestorChain t i)) = Some n \<and>
        (\<forall>p. nd_parent n = Some p \<longrightarrow> map_of t p = None \<or> p \<in> set (AncestorChain t i)))"
    using chain_from_walk [of t i "[]"] chain_from_nonempty [of t i "[]"] by (auto simp: AncestorChain_def split: if_splits)
  moreover have "AncestorChain t i = [] \<longleftrightarrow> map_of t i = None"
    using AncestorChain_hd [of t i] by (cases "map_of t i") (auto simp: AncestorChain_def)
  ultimately show ?thesis by (cases "AncestorChain t i") (auto simp del: last.simps split: option.splits)
qed

section \<open>The geo walk follows the chain\<close>

definition site_geo :: "ScopeTree \<Rightarrow> string \<Rightarrow> bool" where
  "site_geo t i = (case map_of t i of None \<Rightarrow> False | Some n \<Rightarrow> nd_kind n = ''site'' \<and> declares_geo n)"

lemma nearest_site_chain:
  assumes "keyed t" "map_of t cur = Some n" "cur \<notin> set seen"
  shows "nearest_site t (cur # seen) n =
    (case find (site_geo t) (tl (chain_from t seen cur)) of None \<Rightarrow> None | Some j \<Rightarrow> map_of t j)"
  using assms
proof (induction t seen cur arbitrary: n rule: chain_from.induct)
  case (1 t seen cur)
  show ?case
  proof (cases "nd_parent n")
    case None
    then show ?thesis
      using 1(3,4) by (simp add: nearest_site.simps [of t _ n] chain_from.simps [of t seen cur])
  next
    case (Some p)
    show ?thesis
    proof (cases "map_of t p")
      case None
      then show ?thesis
        using Some 1(3,4) by (simp add: nearest_site.simps [of t _ n] chain_from.simps [of t seen cur])
    next
      case (Some q)
      have idq: "nd_id q = p" using keyedD [OF 1(2) Some] .
      have c: "chain_from t seen cur = cur # chain_from t (cur # seen) p"
        using Some \<open>nd_parent n = Some p\<close> 1(3,4) by (subst chain_from.simps) simp
      have ns: "nearest_site t (cur # seen) n =
          (if p \<in> set (cur # seen) then None
           else if nd_kind q = ''site'' \<and> declares_geo q then Some q
           else nearest_site t (p # cur # seen) q)"
        using Some \<open>nd_parent n = Some p\<close> idq by (subst nearest_site.simps) simp
      show ?thesis
      proof (cases "p \<in> set (cur # seen)")
        case True
        then have "chain_from t (cur # seen) p = []" by (subst chain_from.simps) simp
        then show ?thesis using ns c True by simp
      next
        case False
        have IH: "nearest_site t (p # cur # seen) q =
            (case find (site_geo t) (tl (chain_from t (cur # seen) p)) of None \<Rightarrow> None | Some j \<Rightarrow> map_of t j)"
          using 1(1) [of n p q] 1(2,3,4) \<open>nd_parent n = Some p\<close> Some False by auto
        have cp: "chain_from t (cur # seen) p = p # tl (chain_from t (cur # seen) p)"
          using False by (subst (1 2) chain_from.simps) simp
        have "find (site_geo t) (chain_from t (cur # seen) p) =
            (if site_geo t p then Some p else find (site_geo t) (tl (chain_from t (cur # seen) p)))"
          by (subst cp) simp
        moreover have "site_geo t p \<longleftrightarrow> nd_kind q = ''site'' \<and> declares_geo q" using Some by (simp add: site_geo_def)
        ultimately show ?thesis using ns c False IH Some by simp
      qed
    qed
  qed
qed

lemma EffectiveGeo_chain:
  assumes "keyed t" "map_of t i = Some n"
  shows "EffectiveGeo t i =
    (if declares_geo n then Inr (geo_of ''own'' n)
     else (case find (site_geo t) (tl (AncestorChain t i)) of
             Some j \<Rightarrow> Inr (geo_of (''ancestor-site:'' @ j) (the (map_of t j)))
           | None \<Rightarrow> Inl (dm_err ''tz'' ''EFFECTIVE_GEO_UNRESOLVED'')))"
proof -
  have "nearest_site t [i] n =
      (case find (site_geo t) (tl (AncestorChain t i)) of None \<Rightarrow> None | Some j \<Rightarrow> map_of t j)"
    using nearest_site_chain [OF assms, of "[]"] assms(2) by (simp add: AncestorChain_def)
  moreover have "\<exists>m. map_of t j = Some m \<and> nd_id m = j" if "find (site_geo t) xs = Some j" for j xs
    using that keyedD [OF assms(1)] by (auto simp: find_Some_iff site_geo_def split: option.splits)
  ultimately show ?thesis
    using assms(2) by (cases "find (site_geo t) (tl (AncestorChain t i))") (fastforce simp: EffectiveGeo_def)+
qed

text \<open>The walk for a node's effective position and the walk of its ancestor chain agree: the position is the
  node's own when it declares one, otherwise that of the first declaring site on the chain above it, and an
  error when there is none.\<close>

theorem geo_walk_is_chain_walk:
  assumes "map_of (fst (buildScopeTree nodes full)) i = Some n"
  shows "EffectiveGeo (fst (buildScopeTree nodes full)) i =
    (if declares_geo n then Inr (geo_of ''own'' n)
     else (case find (site_geo (fst (buildScopeTree nodes full)))
                  (tl (AncestorChain (fst (buildScopeTree nodes full)) i)) of
             Some j \<Rightarrow> Inr (geo_of (''ancestor-site:'' @ j) (the (map_of (fst (buildScopeTree nodes full)) j)))
           | None \<Rightarrow> Inl (dm_err ''tz'' ''EFFECTIVE_GEO_UNRESOLVED'')))"
  using EffectiveGeo_chain [OF _ assms] by (simp add: buildScopeTree_def Let_def index_keyed)

section \<open>A complete tree without errors is rooted\<close>

text \<open>The distance of a node from an org along its parents.\<close>

inductive depth :: "ScopeTree \<Rightarrow> string \<Rightarrow> nat \<Rightarrow> bool" for t where
  depth_org: "map_of t i = Some n \<Longrightarrow> nd_kind n = ''org'' \<Longrightarrow> depth t i 0"
| depth_up: "map_of t i = Some n \<Longrightarrow> nd_kind n \<noteq> ''org'' \<Longrightarrow> nd_parent n = Some p \<Longrightarrow> depth t p k \<Longrightarrow>
    depth t i (Suc k)"

inductive_cases depthE: "depth t i k"

lemma depth_unique: "depth t i k \<Longrightarrow> depth t i m \<Longrightarrow> k = m"
proof (induction arbitrary: m rule: depth.induct)
  case (depth_org i n)
  from depth_org(3) show ?case by (rule depthE) (use depth_org in auto)
next
  case (depth_up i n p k)
  from depth_up.prems show ?case
  proof (rule depthE)
    fix n' p' k' assume "m = Suc k'" "map_of t i = Some n'" "nd_parent n' = Some p'" "depth t p' k'"
    then show ?thesis using depth_up.hyps(1,3) depth_up.IH [of k'] by simp
  qed (use depth_up.hyps(1,2) in auto)
qed

text \<open>What the checks of one node leave when they find nothing, in a complete tree.\<close>

definition placed :: "ScopeTree \<Rightarrow> ScopeNode \<Rightarrow> bool" where
  "placed t n \<longleftrightarrow> Valid (nd_id n) \<and> validScopeKind (nd_kind n) \<and> parent_errors True t n = [] \<and> validateGeo n = []"

lemma node_errors_placed: "node_errors True t n = [] \<Longrightarrow> placed t n"
  by (auto simp: node_errors_def placed_def CheckRowID_def split: if_splits)

lemma placed_org: "placed t n \<Longrightarrow> nd_kind n = ''org'' \<Longrightarrow> nd_parent n = None \<and> \<not> declares_geo n"
  by (cases "nd_tz n") (simp_all add: placed_def parent_errors_def validateGeo_def geo_present_def declares_geo_def
      split: if_splits)

lemma placed_parent:
  "placed t n \<Longrightarrow> nd_kind n \<noteq> ''org'' \<Longrightarrow>
     \<exists>p q. nd_parent n = Some p \<and> map_of t p = Some q \<and> permittedChildKinds (nd_kind q) (nd_kind n)"
  by (auto simp: placed_def parent_errors_def split: option.splits if_splits)

lemma placed_site: "placed t n \<Longrightarrow> nd_kind n = ''site'' \<Longrightarrow> declares_geo n"
  by (cases "nd_tz n"; cases "nd_lat n"; cases "nd_long n")
    (simp_all add: placed_def validateGeo_def geo_present_def declares_geo_def)

lemma no_cycle_depth:
  assumes "\<not> cycles t seen n" "keyed t" "\<forall>i m. map_of t i = Some m \<longrightarrow> placed t m"
    "map_of t (nd_id n) = Some n" "nd_kind n \<noteq> ''org''"
  shows "\<exists>k. depth t (nd_id n) k"
  using assms
proof (induction t seen n rule: cycles.induct)
  case (1 t seen cur)
  have "placed t cur" using 1(4,5) by blast
  then obtain p q where p: "nd_parent cur = Some p" "map_of t p = Some q" using placed_parent 1(6) by blast
  have idq: "nd_id q = p" using keyedD [OF 1(3) p(2)] .
  show ?case
  proof (cases "nd_kind q = ''org''")
    case True
    then show ?thesis using depth_up [OF 1(5,6) p(1) depth_org [OF p(2)]] by blast
  next
    case False
    have nc: "\<not> cycles t (nd_id q # seen) q" "nd_id q \<notin> set seen"
      using 1(2) p False by (auto simp: cycles.simps [of t seen cur] split: if_splits)
    then obtain k where "depth t (nd_id q) k" using 1(1) [OF p False nc(2) nc(1)] 1(3,4) p(2) False idq by auto
    then show ?thesis using depth_up [OF 1(5,6) p(1)] idq by blast
  qed
qed

text \<open>From a node of depth \<open>k\<close> the chain has \<open>k + 1\<close> nodes, ends at an org, and just before it stands a site.\<close>

lemma chain_of_depth:
  assumes "depth t i k" "\<forall>i m. map_of t i = Some m \<longrightarrow> placed t m" "\<forall>j \<in> set seen. \<exists>m > k. depth t j m"
  shows "length (chain_from t seen i) = Suc k \<and>
    (\<exists>n. map_of t (last (chain_from t seen i)) = Some n \<and> nd_kind n = ''org'') \<and>
    (0 < k \<longrightarrow> site_geo t (chain_from t seen i ! (k - 1)))"
  using assms
proof (induction arbitrary: seen rule: depth.induct)
  case (depth_org i n)
  have "i \<notin> set seen" using depth_org depth_unique depth.depth_org by (metis less_irrefl)
  moreover have "nd_parent n = None" using depth_org placed_org by blast
  ultimately have "chain_from t seen i = [i]" using depth_org by (simp add: chain_from.simps [of t seen i])
  then show ?case using depth_org by simp
next
  case (depth_up i n p k)
  have di: "depth t i (Suc k)" using depth_up.hyps by (rule depth.depth_up)
  then have ni: "i \<notin> set seen" using depth_up.prems(2) depth_unique by (metis less_irrefl)
  obtain q where q: "map_of t p = Some q" using depth_up.hyps(4) by (auto elim: depthE)
  have c: "chain_from t seen i = i # chain_from t (i # seen) p"
    using ni q depth_up.hyps by (subst chain_from.simps) simp
  have "\<forall>j \<in> set (i # seen). \<exists>m > k. depth t j m" using di depth_up.prems(2) by (auto dest: Suc_lessD)
  note IH = depth_up.IH [OF depth_up.prems(1) this]
  have ne: "chain_from t (i # seen) p \<noteq> []" using IH by auto
  have site: "site_geo t i" if "k = 0"
  proof -
    have "nd_kind q = ''org''" using depth_up.hyps(4) q that by (auto elim: depthE)
    moreover have "permittedChildKinds (nd_kind q) (nd_kind n)"
      using placed_parent [of t n] depth_up q by auto
    ultimately have "nd_kind n = ''site''" by (simp add: permittedChildKinds_def)
    then show ?thesis using depth_up.hyps(1) depth_up.prems(1) placed_site [of t n] by (simp add: site_geo_def)
  qed
  show ?case using c IH ne site by (cases k) auto
qed

lemma full_tree_depth:
  assumes "BuildFullScopeTree nodes = (t, [])"
  shows "keyed t" "\<And>i n. map_of t i = Some n \<Longrightarrow> placed t n \<and> n \<in> set nodes"
    "\<And>i n. map_of t i = Some n \<Longrightarrow> \<exists>k. depth t i k"
proof -
  have t: "t = index_nodes nodes" and e: "concat (map (node_errors True t) nodes) = []"
    and u: "unreachableFromRoot nodes t = []"
    using assms unfolding BuildFullScopeTree_def buildScopeTree_def Let_def by auto
  have errs: "\<forall>n \<in> set nodes. node_errors True t n = []" using e by simp
  have un: "\<forall>n \<in> set nodes. nd_kind n \<noteq> ''org'' \<longrightarrow> \<not> cycles t [nd_id n] n"
    using u by (auto simp: unreachableFromRoot_def split: if_splits)
  show k: "keyed t" by (simp add: t index_keyed)
  show p: "placed t n \<and> n \<in> set nodes" if "map_of t i = Some n" for i n
    using that errs node_errors_placed index_Some t by blast
  show "\<exists>k. depth t i k" if i: "map_of t i = Some n" for i n
  proof (cases "nd_kind n = ''org''")
    case True
    then show ?thesis using depth_org i by blast
  next
    case False
    have "nd_id n = i" using keyedD [OF k i] .
    then show ?thesis using no_cycle_depth [of t "[nd_id n]" n] k p un i False by blast
  qed
qed

text \<open>C29. A complete tree built without errors is rooted: every node's chain starts at the node, repeats no node, and
  ends at the one org of the tree, and every node other than the org has an effective time zone and position.\<close>

theorem full_tree_is_rooted:
  assumes "BuildFullScopeTree nodes = (t, [])" "map_of t i = Some n"
  shows "hd (AncestorChain t i) = i \<and> distinct (AncestorChain t i) \<and>
    (\<exists>r. filter (\<lambda>m. nd_kind m = ''org'') nodes = [r] \<and> last (AncestorChain t i) = nd_id r) \<and>
    (nd_kind n \<noteq> ''org'' \<longrightarrow> (\<exists>g. EffectiveGeo t i = Inr g))"
proof -
  note F = full_tree_depth [OF assms(1)]
  obtain k where k: "depth t i k" using F(3) [OF assms(2)] by blast
  have pl: "\<forall>i m. map_of t i = Some m \<longrightarrow> placed t m" using F(2) by blast
  have c: "AncestorChain t i = chain_from t [] i" using assms(2) by (simp add: AncestorChain_def)
  note C = chain_of_depth [OF k pl, of "[]", folded c, simplified]
  obtain r where r: "map_of t (last (AncestorChain t i)) = Some r" "nd_kind r = ''org''" using C by blast
  have "length (filter (\<lambda>m. nd_kind m = ''org'') nodes) \<le> 1"
    using assms(1) by (auto simp: BuildFullScopeTree_def buildScopeTree_def Let_def split: if_splits)
  moreover have "r \<in> set (filter (\<lambda>m. nd_kind m = ''org'') nodes)" using F(2) [OF r(1)] r(2) by simp
  ultimately have one: "filter (\<lambda>m. nd_kind m = ''org'') nodes = [r]"
    by (cases "filter (\<lambda>m. nd_kind m = ''org'') nodes") auto
  have geo: "\<exists>g. EffectiveGeo t i = Inr g" if nk: "nd_kind n \<noteq> ''org''"
  proof (cases "declares_geo n")
    case True
    then show ?thesis using EffectiveGeo_chain [OF F(1) assms(2)] by simp
  next
    case False
    have k0: "0 < k" using k nk assms(2) by (auto elim: depthE)
    have ni: "\<not> site_geo t i" using False assms(2) by (simp add: site_geo_def)
    have at: "site_geo t (AncestorChain t i ! (k - 1))" using C k0 by simp
    have "AncestorChain t i ! 0 = i" using AncestorChain_hd [OF assms(2)] hd_conv_nth by metis
    then have "k \<noteq> 1" using at ni by auto
    then obtain k' where k': "k = Suc (Suc k')" using k0 by (cases k; cases "k - 1") auto
    then have "AncestorChain t i ! (k - 1) \<in> set (tl (AncestorChain t i))"
      using C by (auto simp: in_set_conv_nth nth_tl intro!: exI [of _ k'])
    then have "find (site_geo t) (tl (AncestorChain t i)) \<noteq> None" using at by (auto simp: find_None_iff)
    then show ?thesis using EffectiveGeo_chain [OF F(1) assms(2)] False by auto
  qed
  show ?thesis
    using AncestorChain_hd [OF assms(2)] AncestorChain_distinct one geo keyedD [OF F(1) r(1)] by auto
qed

definition demo_node :: "char \<Rightarrow> string \<Rightarrow> string option \<Rightarrow> ScopeNode" where
  "demo_node c kind parent =
     \<lparr>nd_id = replicate 25 (CHR ''0'') @ [c], nd_kind = kind, nd_parent = parent, nd_name = ''n'',
      nd_tz = (if kind = ''site'' then Some ''UTC'' else None),
      nd_lat = (if kind = ''site'' then Some (Fin 1) else None),
      nd_long = (if kind = ''site'' then Some (Fin 2) else None),
      nd_account_state = (if kind = ''org'' then ''active'' else ''''),
      nd_entitlements = (if kind = ''org'' then Some (JObj []) else None)\<rparr>"

definition demo_nodes :: "ScopeNode list" where
  "demo_nodes =
     [demo_node CHR ''1'' ''org'' None,
      demo_node CHR ''2'' ''site'' (Some (replicate 25 (CHR ''0'') @ ''1'')),
      demo_node CHR ''3'' ''group'' (Some (replicate 25 (CHR ''0'') @ ''2'')),
      demo_node CHR ''4'' ''screen'' (Some (replicate 25 (CHR ''0'') @ ''3''))]"

lemma demo_name: "runes_of ''n'' = [110]" "\<not> blank ''n''"
  by (simp_all add: runes_of_def byte_of_def blank_def rune_space_def)

lemma demo_ids: "\<forall>n \<in> set demo_nodes. Valid (nd_id n)"
  by code_simp

lemma demo_parents: "\<forall>n \<in> set demo_nodes. parent_errors True (index_nodes demo_nodes) n = []"
  by code_simp

lemma demo_geo: "\<forall>n \<in> set demo_nodes. validateGeo n = [] \<and> validateAccountFields n = [] \<and> validScopeKind (nd_kind n)
  \<and> \<not> cycles (index_nodes demo_nodes) [nd_id n] n \<and> nd_name n = ''n''"
  by code_simp

lemma demo_tree_ok: "BuildFullScopeTree demo_nodes = (index_nodes demo_nodes, [])"
proof -
  have "node_errors True (index_nodes demo_nodes) n = []" if "n \<in> set demo_nodes" for n
    using that demo_ids demo_parents demo_geo demo_name
    by (auto simp: node_errors_def CheckRowID_def maxScopeNodeNameLen_def)
  moreover have "unreachableFromRoot demo_nodes (index_nodes demo_nodes) = []"
    using demo_geo by (auto simp: unreachableFromRoot_def)
  moreover have "length (filter (\<lambda>n. nd_kind n = ''org'') demo_nodes) = 1" by code_simp
  ultimately show ?thesis by (simp add: BuildFullScopeTree_def buildScopeTree_def Let_def)
qed
lemma demo_screen:
  "map_of (index_nodes demo_nodes) (replicate 25 (CHR ''0'') @ ''4'') =
     Some (demo_node CHR ''4'' ''screen'' (Some (replicate 25 (CHR ''0'') @ ''3'')))"
  by code_simp

theorem full_tree_is_rooted_witness:
  "\<exists>g. EffectiveGeo (index_nodes demo_nodes) (replicate 25 (CHR ''0'') @ ''4'') = Inr g"
  using full_tree_is_rooted [OF demo_tree_ok demo_screen] by (simp add: demo_node_def)

theorem geo_walk_is_chain_walk_witness:
  "EffectiveGeo (fst (buildScopeTree demo_nodes True)) (replicate 25 (CHR ''0'') @ ''4'') =
     (case find (site_geo (fst (buildScopeTree demo_nodes True)))
          (tl (AncestorChain (fst (buildScopeTree demo_nodes True)) (replicate 25 (CHR ''0'') @ ''4''))) of
        Some j \<Rightarrow> Inr (geo_of (''ancestor-site:'' @ j) (the (map_of (fst (buildScopeTree demo_nodes True)) j)))
      | None \<Rightarrow> Inl (dm_err ''tz'' ''EFFECTIVE_GEO_UNRESOLVED''))"
proof -
  have "map_of (fst (buildScopeTree demo_nodes True)) (replicate 25 (CHR ''0'') @ ''4'') =
      Some (demo_node CHR ''4'' ''screen'' (Some (replicate 25 (CHR ''0'') @ ''3'')))"
    using demo_screen by (simp add: buildScopeTree_def Let_def)
  from geo_walk_is_chain_walk [OF this] show ?thesis by (simp add: demo_node_def declares_geo_def)
qed

end
