(* ===== verification/EventLog.thy ===== *)
theory EventLog
  imports Ulid
begin

text \<open>
  The durable event log, \<open>internal/events/eventlog.go\<close>, and the resume resolution over it,
  \<open>internal/events/resume.go\<close>: a log ordered by envelope id, idempotent on ids, that keeps at most
  \<open>retention\<close> entries.  The specification is a set: the log of a history of appends is the tail of the
  sorted set of the ids appended, whatever the order and the repetitions, and the resume outcomes are
  characterised over that set.
\<close>

section \<open>Envelopes and the log\<close>

record Envelope =
  env_id :: string
  env_schema :: string
  env_ts :: int
  env_scope_node :: string
  env_trace_id :: string
  env_cost_class :: string
  env_retention_class :: string
  env_origin :: string
  env_origin_principal :: string
  env_payload :: string

record EventLog =
  retention :: int
  events :: "Envelope list"
  evictedThrough :: string

definition NewEventLog :: "int \<Rightarrow> EventLog" where
  "NewEventLog n = \<lparr>retention = (if n < 0 then 0 else n), events = [], evictedThrough = ''''\<rparr>"

text \<open>\<open>sort.Search\<close>: binary search for the least index in \<open>[i, j)\<close> at which the predicate holds.\<close>

function sort_search :: "(nat \<Rightarrow> bool) \<Rightarrow> nat \<Rightarrow> nat \<Rightarrow> nat" where
  "sort_search f i j =
     (if i < j then
        (let h = (i + j) div 2 in if \<not> f h then sort_search f (h + 1) j else sort_search f i h)
      else i)"
  by pat_completeness auto
termination
  by (relation "measure (\<lambda>(f, i, j). j - i)") auto

declare sort_search.simps [simp del]

definition search :: "EventLog \<Rightarrow> string \<Rightarrow> nat" where
  "search l i = sort_search (\<lambda>k. env_id (events l ! k) \<ge> i) 0 (length (events l))"

definition Append :: "Envelope \<Rightarrow> EventLog \<Rightarrow> EventLog" where
  "Append env l =
     (let pos = search l (env_id env) in
      if pos < length (events l) \<and> env_id (events l ! pos) = env_id env then l
      else
        let evs = take pos (events l) @ env # drop pos (events l) in
        if retention l > 0 \<and> int (length evs) > retention l then
          let dropped = nat (int (length evs) - retention l);
              h = env_id (evs ! (dropped - 1))
          in l\<lparr>events := drop dropped evs,
               evictedThrough := (if h > evictedThrough l then h else evictedThrough l)\<rparr>
        else l\<lparr>events := evs\<rparr>)"

definition OldestRetainedID :: "EventLog \<Rightarrow> string" where
  "OldestRetainedID l = (case events l of [] \<Rightarrow> '''' | e # _ \<Rightarrow> env_id e)"

definition HeadID :: "EventLog \<Rightarrow> string" where
  "HeadID l = (if events l = [] then '''' else env_id (last (events l)))"

definition AgedOut :: "EventLog \<Rightarrow> string \<Rightarrow> bool" where
  "AgedOut l i = (if i = '''' then False
                  else let oldest = OldestRetainedID l in oldest \<noteq> '''' \<and> i < oldest)"

definition EvictedAfter :: "EventLog \<Rightarrow> string \<Rightarrow> bool" where
  "EvictedAfter l i \<longleftrightarrow> evictedThrough l \<noteq> '''' \<and> i < evictedThrough l"

definition After :: "EventLog \<Rightarrow> string \<Rightarrow> Envelope list" where
  "After l i =
     (let pos = search l i;
          pos = (if pos < length (events l) \<and> env_id (events l ! pos) = i then pos + 1 else pos)
      in drop pos (events l))"

definition From :: "EventLog \<Rightarrow> string \<Rightarrow> Envelope list" where
  "From l i = drop (search l i) (events l)"

definition Has :: "EventLog \<Rightarrow> string \<Rightarrow> bool" where
  "Has l i = (let pos = search l i in pos < length (events l) \<and> env_id (events l ! pos) = i)"

section \<open>Resuming\<close>

datatype ResumeResult = Fresh | Resumed | Gap

record GapFrame =
  from_id :: "string option"
  to_id :: string
  gap_reason :: string

record ResumeOutcome =
  outcome_result :: ResumeResult
  outcome_gap :: "GapFrame option"
  resume_at :: string
  backlog :: "Envelope list"

datatype ResumeError = RESUME_FROM_INVALID

text \<open>The grammar \<open>^[A-Za-z0-9_-]+$\<close>.\<close>

definition resume_from_grammar :: "string \<Rightarrow> bool" where
  "resume_from_grammar s \<longleftrightarrow>
     s \<noteq> [] \<and> list_all (\<lambda>c. is_upper c \<or> is_lower c \<or> is_digit c \<or> c = CHR ''_'' \<or> c = CHR ''-'') s"

text \<open>A nil predicate is None: it admits nothing.\<close>

fun FirstVisibleID :: "Envelope list \<Rightarrow> (Envelope \<Rightarrow> bool) option \<Rightarrow> string" where
  "FirstVisibleID batch None = ''''"
| "FirstVisibleID [] (Some visible) = ''''"
| "FirstVisibleID (env # batch) (Some visible) =
     (if visible env then env_id env else FirstVisibleID batch (Some visible))"

text \<open>The interface \<open>Log\<close>, as the record of its methods; a log value is passed with them.\<close>

record 'l Log =
  log_Append :: "Envelope \<Rightarrow> 'l \<Rightarrow> 'l"
  log_Has :: "'l \<Rightarrow> string \<Rightarrow> bool"
  log_After :: "'l \<Rightarrow> string \<Rightarrow> Envelope list"
  log_From :: "'l \<Rightarrow> string \<Rightarrow> Envelope list"
  log_HeadID :: "'l \<Rightarrow> string"
  log_AgedOut :: "'l \<Rightarrow> string \<Rightarrow> bool"
  log_EvictedAfter :: "'l \<Rightarrow> string \<Rightarrow> bool"

definition memory_log :: "EventLog Log" where
  "memory_log = \<lparr>log_Append = Append, log_Has = Has, log_After = After, log_From = From,
                 log_HeadID = HeadID, log_AgedOut = AgedOut, log_EvictedAfter = EvictedAfter\<rparr>"

definition oldestVisibleAfter ::
  "'l Log \<Rightarrow> 'l \<Rightarrow> string \<Rightarrow> (Envelope \<Rightarrow> bool) option \<Rightarrow> string" where
  "oldestVisibleAfter L l i visible = FirstVisibleID (log_After L l i) visible"

definition ResolveVisible ::
  "'l Log \<Rightarrow> 'l \<Rightarrow> string \<Rightarrow> (Envelope \<Rightarrow> bool) option \<Rightarrow> ResumeError + ResumeOutcome" where
  "ResolveVisible L l resumeFrom visible =
     (if resumeFrom = '''' then
        Inr \<lparr>outcome_result = Fresh, outcome_gap = None, resume_at = '''', backlog = []\<rparr>
      else if \<not> resume_from_grammar resumeFrom \<or> \<not> Valid resumeFrom then Inl RESUME_FROM_INVALID
      else case visible of
        None \<Rightarrow> Inl RESUME_FROM_INVALID
      | Some vis \<Rightarrow>
          let to = (if log_AgedOut L l resumeFrom then oldestVisibleAfter L l resumeFrom visible else '''') in
          if to \<noteq> '''' then
            Inr \<lparr>outcome_result = Gap,
                 outcome_gap = Some \<lparr>from_id = Some resumeFrom, to_id = to,
                                     gap_reason = ''retention_expired''\<rparr>,
                 resume_at = to, backlog = log_From L l to\<rparr>
          else
            (case log_From L l resumeFrom of
               [] \<Rightarrow> Inl RESUME_FROM_INVALID
             | e # rest \<Rightarrow>
                 if env_id e \<noteq> resumeFrom \<or> \<not> vis e then Inl RESUME_FROM_INVALID
                 else Inr \<lparr>outcome_result = Resumed, outcome_gap = None, resume_at = '''',
                           backlog = rest\<rparr>))"

definition everyEnvelope :: "Envelope \<Rightarrow> bool" where
  "everyEnvelope e = True"

definition Resolve :: "'l Log \<Rightarrow> 'l \<Rightarrow> string \<Rightarrow> ResumeError + ResumeOutcome" where
  "Resolve L l resumeFrom = ResolveVisible L l resumeFrom (Some everyEnvelope)"

definition BufferExceededGap :: "string option \<Rightarrow> string \<Rightarrow> GapFrame" where
  "BufferExceededGap f t = \<lparr>from_id = f, to_id = t, gap_reason = ''buffer_exceeded''\<rparr>"

section \<open>Binary search\<close>

lemma sort_search_least:
  assumes "i \<le> k" "k \<le> j" "\<And>m. i \<le> m \<Longrightarrow> m < k \<Longrightarrow> \<not> f m" "\<And>m. k \<le> m \<Longrightarrow> m < j \<Longrightarrow> f m"
  shows "sort_search f i j = k"
  using assms
proof (induction f i j rule: sort_search.induct)
  case (1 f i j)
  show ?case
  proof (cases "i < j")
    case True
    let ?h = "(i + j) div 2"
    have h: "i \<le> ?h" "?h < j" using True by auto
    show ?thesis
    proof (cases "f ?h")
      case True
      then have "k \<le> ?h" using 1(5) [of ?h] h by (meson not_le)
      then show ?thesis
        using 1(2) [OF \<open>i < j\<close> refl] True 1(3-) h \<open>i < j\<close> by (simp add: sort_search.simps [of f i j])
    next
      case False
      then have "?h < k" using 1(6) [of ?h] h by (meson not_le)
      then show ?thesis
        using 1(1) [OF \<open>i < j\<close> refl] False 1(3-) h \<open>i < j\<close> by (simp add: sort_search.simps [of f i j])
    qed
  next
    case False
    then show ?thesis using 1(3,4) by (simp add: sort_search.simps [of f i j])
  qed
qed

definition ordered :: "EventLog \<Rightarrow> bool" where
  "ordered l \<longleftrightarrow> sorted_wrt (<) (map env_id (events l))"

lemma search_takeWhile:
  assumes "ordered l"
  shows "search l i = length (takeWhile (\<lambda>e. env_id e < i) (events l))"
proof -
  let ?p = "\<lambda>e. env_id e < i" and ?es = "events l"
  let ?k = "length (takeWhile ?p ?es)"
  have k: "?k \<le> length ?es" by (rule length_takeWhile_le)
  have below: "\<not> env_id (?es ! m) \<ge> i" if "m < ?k" for m
    using that nth_mem [of m "takeWhile ?p ?es"]
    by (metis leD set_takeWhileD takeWhile_nth)
  have above: "env_id (?es ! m) \<ge> i" if m: "?k \<le> m" "m < length ?es" for m
  proof -
    have "\<not> ?p (?es ! ?k)" using m by (intro nth_length_takeWhile) simp
    moreover have "env_id (?es ! ?k) \<le> env_id (?es ! m)"
      using assms m unfolding ordered_def sorted_wrt_iff_nth_less
      by (cases "?k = m") (auto simp: less_imp_le)
    ultimately show ?thesis by (simp add: not_less)
  qed
  show ?thesis
    unfolding search_def by (rule sort_search_least) (use k below above in auto)
qed

lemma From_dropWhile: "ordered l \<Longrightarrow> From l i = dropWhile (\<lambda>e. env_id e < i) (events l)"
  by (simp add: From_def search_takeWhile dropWhile_eq_drop)

section \<open>The contract of a log\<close>

lemma filter_tail_sorted:
  "sorted_wrt (<) (map env_id es) \<Longrightarrow> filter (\<lambda>e. i \<le> env_id e) es =
     (case find (\<lambda>e. env_id e = i) es of None \<Rightarrow> [] | Some e \<Rightarrow> [e]) @ filter (\<lambda>e. i < env_id e) es"
proof (induction es)
  case (Cons a es)
  show ?case
  proof (cases "i \<le> env_id a")
    case True
    with Cons.prems have "\<forall>e \<in> set es. i < env_id e" by auto
    then have "filter (\<lambda>e. i \<le> env_id e) es = es" "filter (\<lambda>e. i < env_id e) es = es"
      "find (\<lambda>e. env_id e = i) es = None"
      by (auto simp: filter_id_conv find_None_iff less_imp_le)
    then show ?thesis using True by auto
  next
    case False
    then show ?thesis using Cons by auto
  qed
qed simp

text \<open>
  What resume resolution relies on, whichever implementation it is given: the retained entries in id
  order, the two tails read from them, and a retained id is never aged out.
\<close>

locale durable_log =
  fixes L :: "'l Log" and entries :: "'l \<Rightarrow> Envelope list" and ok :: "'l \<Rightarrow> bool"
  assumes entries_sorted: "ok l \<Longrightarrow> sorted_wrt (<) (map env_id (entries l))"
    and Append_ok: "ok l \<Longrightarrow> ok (log_Append L e l)"
    and Has_entries: "ok l \<Longrightarrow> log_Has L l i \<longleftrightarrow> i \<in> env_id ` set (entries l)"
    and After_entries: "ok l \<Longrightarrow> log_After L l i = filter (\<lambda>e. i < env_id e) (entries l)"
    and From_entries: "ok l \<Longrightarrow> log_From L l i = filter (\<lambda>e. i \<le> env_id e) (entries l)"
    and HeadID_entries: "ok l \<Longrightarrow> log_HeadID L l = (if entries l = [] then [] else env_id (last (entries l)))"
    and Has_not_AgedOut: "ok l \<Longrightarrow> log_Has L l i \<Longrightarrow> \<not> log_AgedOut L l i"
begin

lemma From_split:
  "ok l \<Longrightarrow> log_From L l i =
     (case find (\<lambda>e. env_id e = i) (entries l) of None \<Rightarrow> [] | Some e \<Rightarrow> [e]) @ log_After L l i"
  by (simp add: From_entries After_entries filter_tail_sorted entries_sorted)

lemma FirstVisibleID_find:
  "FirstVisibleID es (Some vis) = (case find vis es of None \<Rightarrow> [] | Some e \<Rightarrow> env_id e)"
  by (induction es) auto

lemma resolve_cases:
  assumes "ok l" "i \<noteq> []" "resume_from_grammar i" "Valid i"
  shows "ResolveVisible L l i (Some vis) =
    (case find (\<lambda>e. i < env_id e \<and> vis e) (if log_AgedOut L l i then entries l else []) of
       Some g \<Rightarrow>
         Inr \<lparr>outcome_result = Gap,
              outcome_gap = Some \<lparr>from_id = Some i, to_id = env_id g, gap_reason = ''retention_expired''\<rparr>,
              resume_at = env_id g, backlog = filter (\<lambda>e. env_id g \<le> env_id e) (entries l)\<rparr>
     | None \<Rightarrow>
         (case find (\<lambda>e. env_id e = i) (entries l) of
            Some e \<Rightarrow>
              if vis e then Inr \<lparr>outcome_result = Resumed, outcome_gap = None, resume_at = [],
                                 backlog = filter (\<lambda>e. i < env_id e) (entries l)\<rparr>
              else Inl RESUME_FROM_INVALID
          | None \<Rightarrow> Inl RESUME_FROM_INVALID))"
proof -
  have find_filter: "find vis (filter (\<lambda>e. i < env_id e) es) = find (\<lambda>e. i < env_id e \<and> vis e) es" for es
    by (induction es) auto
  have head: "(case log_From L l i of [] \<Rightarrow> Inl RESUME_FROM_INVALID
       | e # rest \<Rightarrow> if env_id e \<noteq> i \<or> \<not> vis e then Inl RESUME_FROM_INVALID else Inr (K rest)) =
    (case find (\<lambda>e. env_id e = i) (entries l) of None \<Rightarrow> Inl RESUME_FROM_INVALID
       | Some e \<Rightarrow> if vis e then Inr (K (filter (\<lambda>e. i < env_id e) (entries l)))
                   else Inl RESUME_FROM_INVALID)" for K :: "Envelope list \<Rightarrow> ResumeOutcome"
  proof (cases "find (\<lambda>e. env_id e = i) (entries l)")
    case None
    have "env_id (hd (filter (\<lambda>e. i < env_id e) (entries l))) \<noteq> i"
      if "filter (\<lambda>e. i < env_id e) (entries l) \<noteq> []"
      using hd_in_set [OF that] by auto
    with None show ?thesis using assms(1) by (auto simp: From_split After_entries split: list.split)
  next
    case (Some e)
    then have "env_id e = i" by (auto simp: find_Some_iff)
    with Some show ?thesis using assms(1) by (simp add: From_split After_entries)
  qed
  have gt: "env_id g \<noteq> []" if "find (\<lambda>e. i < env_id e \<and> vis e) es = Some g" for g es
    using that by (auto simp: find_Some_iff)
  show ?thesis
    using assms gt
    by (simp add: ResolveVisible_def oldestVisibleAfter_def FirstVisibleID_find After_entries find_filter
        From_entries head [unfolded From_entries [OF assms(1)]] Let_def split: option.split)
qed

end

section \<open>The in-memory log meets the contract\<close>

lemma dropWhile_filter_sorted:
  "sorted_wrt (<) (map env_id es) \<Longrightarrow>
     dropWhile (\<lambda>e. env_id e < i) es = filter (\<lambda>e. i \<le> env_id e) es"
proof (induction es)
  case (Cons a es)
  show ?case
  proof (cases "env_id a < i")
    case False
    with Cons.prems have "\<forall>e \<in> set es. i \<le> env_id e" by (auto simp: not_less dest: less_imp_le)
    then show ?thesis using False by (simp add: filter_id_conv not_less)
  qed (use Cons in auto)
qed simp

lemma From_filter: "ordered l \<Longrightarrow> From l i = filter (\<lambda>e. i \<le> env_id e) (events l)"
  by (simp add: From_dropWhile dropWhile_filter_sorted ordered_def)

lemma search_hit:
  assumes "ordered l"
  shows "search l i < length (events l) \<and> env_id (events l ! search l i) = i \<longleftrightarrow>
    i \<in> env_id ` set (events l)"
proof
  assume "i \<in> env_id ` set (events l)"
  then obtain e where e: "e \<in> set (events l)" "env_id e = i" by auto
  then have "find (\<lambda>e. env_id e = i) (events l) \<noteq> None" by (auto simp: find_None_iff)
  then obtain x where x: "find (\<lambda>e. env_id e = i) (events l) = Some x" by auto
  then have "From l i = x # filter (\<lambda>e. i < env_id e) (events l)"
    using filter_tail_sorted [of "events l" i] assms by (simp add: From_filter ordered_def)
  moreover have "env_id x = i" using x by (auto simp: find_Some_iff)
  ultimately show "search l i < length (events l) \<and> env_id (events l ! search l i) = i"
    by (metis From_def drop_eq_Nil hd_drop_conv_nth list.discI list.sel(1) not_le)
qed (metis imageI nth_mem)

lemma Has_ids: "ordered l \<Longrightarrow> Has l i \<longleftrightarrow> i \<in> env_id ` set (events l)"
  using search_hit [of l i] by (simp add: Has_def Let_def)

lemma After_filter:
  assumes "ordered l"
  shows "After l i = filter (\<lambda>e. i < env_id e) (events l)"
proof (cases "i \<in> env_id ` set (events l)")
  case True
  then have h: "search l i < length (events l)" "env_id (events l ! search l i) = i"
    using search_hit [OF assms] by auto
  have "After l i = tl (From l i)"
    using h by (simp add: From_def After_def Let_def tl_drop drop_Suc)
  moreover have "find (\<lambda>e. env_id e = i) (events l) \<noteq> None" using True by (auto simp: find_None_iff)
  ultimately show ?thesis
    using filter_tail_sorted [of "events l" i] assms by (auto simp: From_filter ordered_def)
next
  case False
  then have "After l i = From l i" using search_hit [OF assms, of i] by (auto simp: After_def From_def Let_def)
  moreover have "filter (\<lambda>e. i \<le> env_id e) (events l) = filter (\<lambda>e. i < env_id e) (events l)"
    using False by (intro filter_cong) (auto simp: less_le)
  ultimately show ?thesis using assms by (simp add: From_filter)
qed


text \<open>An append is an insertion into the sorted list of ids, then the drop of what exceeds the retention.\<close>

definition inserted :: "Envelope \<Rightarrow> Envelope list \<Rightarrow> Envelope list" where
  "inserted e es = filter (\<lambda>x. env_id x < env_id e) es @ e # filter (\<lambda>x. env_id e < env_id x) es"

lemma takeWhile_filter_sorted:
  "sorted_wrt (<) (map env_id es) \<Longrightarrow>
     takeWhile (\<lambda>e. env_id e < i) es = filter (\<lambda>e. env_id e < i) es"
proof (induction es)
  case (Cons a es)
  show ?case
  proof (cases "env_id a < i")
    case False
    with Cons.prems have "filter (\<lambda>e. env_id e < i) es = []" by (auto simp: filter_empty_conv)
    then show ?thesis using False by simp
  qed (use Cons in auto)
qed simp

lemma Append_inserted:
  assumes "ordered l" "env_id e \<notin> env_id ` set (events l)"
  shows "Append e l =
    (let evs = inserted e (events l) in
     if retention l > 0 \<and> int (length evs) > retention l then
       let dropped = nat (int (length evs) - retention l); h = env_id (evs ! (dropped - 1))
       in l\<lparr>events := drop dropped evs, evictedThrough := (if h > evictedThrough l then h else evictedThrough l)\<rparr>
     else l\<lparr>events := evs\<rparr>)"
proof -
  have s: "sorted_wrt (<) (map env_id (events l))" using assms(1) by (simp add: ordered_def)
  have "take (search l (env_id e)) (events l) = filter (\<lambda>x. env_id x < env_id e) (events l)"
    by (metis assms(1) s search_takeWhile takeWhile_eq_take takeWhile_filter_sorted)
  moreover have "drop (search l (env_id e)) (events l) = filter (\<lambda>x. env_id e < env_id x) (events l)"
    using assms From_filter [OF assms(1), of "env_id e"] unfolding From_def
    by (auto intro!: filter_cong simp: less_le)
  moreover have "\<not> (search l (env_id e) < length (events l) \<and>
      env_id (events l ! search l (env_id e)) = env_id e)"
    using assms search_hit [OF assms(1)] by simp
  ultimately show ?thesis by (simp only: Append_def inserted_def Let_def if_False)
qed

lemma Append_held: "ordered l \<Longrightarrow> env_id e \<in> env_id ` set (events l) \<Longrightarrow> Append e l = l"
  using search_hit [of l "env_id e"] by (simp add: Append_def Let_def)

lemma inserted_sorted:
  "sorted_wrt (<) (map env_id es) \<Longrightarrow> sorted_wrt (<) (map env_id (inserted e es))"
  by (auto simp: inserted_def sorted_wrt_append sorted_wrt_map sorted_wrt_filter)

lemma inserted_set:
  "env_id e \<notin> env_id ` set es \<Longrightarrow> set (inserted e es) = insert e (set es)"
  by (auto simp: inserted_def)

lemma inserted_ids:
  assumes "sorted_wrt (<) (map env_id es)" "env_id e \<notin> env_id ` set es"
  shows "map env_id (inserted e es) = sorted_list_of_set (insert (env_id e) (env_id ` set es))"
  using inserted_sorted [OF assms(1), of e] inserted_set [OF assms(2)]
  by (metis List.finite_set image_insert list.set_map sorted_list_of_set.idem_if_sorted_distinct
      strict_sorted_iff)

lemma ordered_Append: "ordered l \<Longrightarrow> ordered (Append e l)"
  using Append_held [of l e] Append_inserted [of l e] inserted_sorted [of "events l" e]
  by (cases "env_id e \<in> env_id ` set (events l)")
    (auto simp: ordered_def Let_def drop_map [symmetric] sorted_wrt_drop)

interpretation memory: durable_log memory_log events ordered
proof
  fix l :: EventLog and i :: string and e :: Envelope
  assume o: "ordered l"
  show "sorted_wrt (<) (map env_id (events l))" using o by (simp add: ordered_def)
  show "ordered (log_Append memory_log e l)" using o by (simp add: memory_log_def ordered_Append)
  show "log_Has memory_log l i = (i \<in> env_id ` set (events l))" using o by (simp add: memory_log_def Has_ids)
  show "log_After memory_log l i = filter (\<lambda>e. i < env_id e) (events l)"
    using o by (simp add: memory_log_def After_filter)
  show "log_From memory_log l i = filter (\<lambda>e. i \<le> env_id e) (events l)"
    using o by (simp add: memory_log_def From_filter)
  show "log_HeadID memory_log l = (if events l = [] then [] else env_id (last (events l)))"
    by (simp add: memory_log_def HeadID_def)
  assume "log_Has memory_log l i"
  then have "i \<in> env_id ` set (events l)" using o by (simp add: memory_log_def Has_ids)
  then have "events l \<noteq> [] \<longrightarrow> env_id (hd (events l)) \<le> i"
    using o by (cases "events l") (auto simp: ordered_def dest: less_imp_le)
  then show "\<not> log_AgedOut memory_log l i"
    by (auto simp: memory_log_def AgedOut_def OldestRetainedID_def Let_def split: list.splits)
qed

section \<open>A history of appends\<close>

text \<open>
  The specification: the ids of a history are a set; the log holds its greatest \<open>r\<close> elements (all of
  them without a horizon), each with the envelope first recorded under it.
\<close>

definition history :: "int \<Rightarrow> Envelope list \<Rightarrow> EventLog" where
  "history r es = fold Append es (NewEventLog r)"

definition ids :: "Envelope list \<Rightarrow> string set" where
  "ids es = env_id ` set es"

definition over :: "int \<Rightarrow> string set \<Rightarrow> nat" where
  "over r S = (if r > 0 then card S - nat r else 0)"

definition kept_ids :: "int \<Rightarrow> string set \<Rightarrow> string list" where
  "kept_ids r S = drop (over r S) (sorted_list_of_set S)"

definition dropped_ids :: "int \<Rightarrow> string set \<Rightarrow> string list" where
  "dropped_ids r S = take (over r S) (sorted_list_of_set S)"

definition first_recorded :: "Envelope list \<Rightarrow> string \<Rightarrow> Envelope" where
  "first_recorded es i = the (find (\<lambda>e. env_id e = i) es)"

definition upper :: "string set \<Rightarrow> string set \<Rightarrow> bool" where
  "upper D S \<longleftrightarrow> D \<subseteq> S \<and> (\<forall>e \<in> S - D. \<forall>d \<in> D. e < d)"

lemma upperD: "upper D S \<Longrightarrow> e \<in> S \<Longrightarrow> e \<notin> D \<Longrightarrow> d \<in> D \<Longrightarrow> e < d"
  by (simp add: upper_def)

lemma upper_split:
  assumes "finite S" "upper D S"
  shows "sorted_list_of_set S = sorted_list_of_set (S - D) @ sorted_list_of_set D"
proof -
  have D: "finite D" "D \<subseteq> S" using assms by (auto simp: upper_def intro: finite_subset)
  have "sorted (sorted_list_of_set (S - D) @ sorted_list_of_set D)"
    using assms D by (auto simp: sorted_append upper_def less_imp_le)
  moreover have "distinct (sorted_list_of_set (S - D) @ sorted_list_of_set D)"
    using assms D by auto
  moreover have "set (sorted_list_of_set (S - D) @ sorted_list_of_set D) = S"
    using assms D by auto
  ultimately show ?thesis using sorted_list_of_set.idem_if_sorted_distinct by metis
qed

definition log_inv :: "int \<Rightarrow> Envelope list \<Rightarrow> EventLog \<Rightarrow> bool" where
  "log_inv r es l \<longleftrightarrow>
     (let D = env_id ` set (events l); S = ids es in
      retention l = max 0 r \<and> ordered l \<and> upper D S \<and>
      (if r > 0 then card D = min (nat r) (card S) else D = S) \<and>
      evictedThrough l = (if S - D = {} then [] else Max (S - D)) \<and>
      (\<forall>e \<in> set (events l). find (\<lambda>x. env_id x = env_id e) es = Some e))"

lemma find_append: "find p (xs @ ys) = (case find p xs of None \<Rightarrow> find p ys | Some x \<Rightarrow> Some x)"
  by (induction xs) auto

lemma card_ids_events: "ordered l \<Longrightarrow> card (env_id ` set (events l)) = length (events l)"
  by (metis distinct_card length_map list.set_map ordered_def strict_sorted_iff)

lemma ids_snoc: "ids (es @ [e]) = insert (env_id e) (ids es)"
  by (simp add: ids_def)

lemma log_inv_held:
  assumes "log_inv r es l" "env_id e \<in> env_id ` set (events l)"
  shows "log_inv r (es @ [e]) (Append e l)"
proof -
  have "ids (es @ [e]) = ids es" using assms by (auto simp: log_inv_def upper_def ids_snoc Let_def)
  moreover have "Append e l = l" using assms by (intro Append_held) (auto simp: log_inv_def Let_def)
  ultimately show ?thesis using assms(1) by (auto simp: log_inv_def Let_def find_append)
qed

lemma log_inv_room:
  assumes inv: "log_inv r es l" and new: "env_id e \<notin> env_id ` set (events l)"
    and room: "r > 0 \<Longrightarrow> length (events l) < nat r"
  shows "log_inv r (es @ [e]) (Append e l)"
proof -
  let ?D = "env_id ` set (events l)" and ?S = "ids es"
  have o: "ordered l" and ret: "retention l = max 0 r" and up: "upper ?D ?S"
    and card: "if r > 0 then card ?D = min (nat r) (card ?S) else ?D = ?S"
    and ev: "evictedThrough l = (if ?S - ?D = {} then [] else Max (?S - ?D))"
    and firsts: "\<forall>x \<in> set (events l). find (\<lambda>y. env_id y = env_id x) es = Some x"
    using inv by (auto simp: log_inv_def Let_def)
  have D: "?D = ?S"
    using card up room card_ids_events [OF o] card_subset_eq [of ?S ?D]
    by (auto simp: upper_def ids_def split: if_splits)
  have S: "ids (es @ [e]) = insert (env_id e) ?D" using D by (simp add: ids_snoc)
  have len: "length (inserted e (events l)) = Suc (length (events l))"
    using inserted_set [OF new] card_ids_events [OF o] inserted_ids [OF _ new] o new
    by (metis List.finite_set card_insert_disjoint finite_imageI length_map
        ordered_def sorted_list_of_set.length_sorted_key_list_of_set)
  have app: "Append e l = l\<lparr>events := inserted e (events l)\<rparr>"
  proof -
    have "\<not> (retention l > 0 \<and> int (length (inserted e (events l))) > retention l)"
      using room ret len by (cases "r > 0") auto
    then show ?thesis using Append_inserted [OF o new] by (simp only: Let_def if_False)
  qed
  have "find (\<lambda>y. env_id y = env_id e) es = None"
    using new unfolding D by (auto simp: find_None_iff ids_def image_iff)
  then have "\<forall>x \<in> set (inserted e (events l)). find (\<lambda>y. env_id y = env_id x) (es @ [e]) = Some x"
    using firsts by (auto simp: inserted_set [OF new] find_append)
  moreover have "card (insert (env_id e) ?D) \<le> nat r" if "r > 0"
    using room [OF that] card_ids_events [OF o] new by simp
  ultimately show ?thesis
    using app ret ev D S ordered_Append [OF o, of e]
    by (auto simp: log_inv_def Let_def inserted_set [OF new] upper_def)
qed

lemma max_step:
  fixes m t :: string
  assumes "finite X" "t = (if X = {} then [] else Max X)"
  shows "(if m > t then m else t) = Max (insert m X)"
proof -
  have "(if m > t then m else t) = max m t" by (auto simp: max_def)
  then show ?thesis using assms Max_insert [OF assms(1), of m] by (cases "X = {}") (auto simp: max_def)
qed

lemma log_inv_full:
  assumes inv: "log_inv r es l" and new: "env_id e \<notin> env_id ` set (events l)"
    and full: "r > 0" "length (events l) \<ge> nat r"
  shows "log_inv r (es @ [e]) (Append e l)"
proof -
  let ?D = "env_id ` set (events l)" and ?S = "ids es" and ?i = "env_id e"
  let ?evs = "inserted e (events l)"
  have o: "ordered l" and ret: "retention l = r" and up: "upper ?D ?S"
    and card: "card ?D = min (nat r) (card ?S)"
    and ev: "evictedThrough l = (if ?S - ?D = {} then [] else Max (?S - ?D))"
    and firsts: "\<forall>x \<in> set (events l). find (\<lambda>y. env_id y = env_id x) es = Some x"
    using inv full(1) by (auto simp: log_inv_def Let_def)
  have fin: "finite ?S" by (simp add: ids_def)
  have cD: "length (events l) = nat r" using card card_ids_events [OF o] full by simp
  have ids_evs: "map env_id ?evs = sorted_list_of_set (insert ?i ?D)"
    using inserted_ids [OF _ new] o by (simp add: ordered_def)
  have srt: "sorted_wrt (<) (map env_id ?evs)" using inserted_sorted o by (simp add: ordered_def)
  have len: "length ?evs = Suc (nat r)"
    using arg_cong [OF ids_evs, of length] new cD card_ids_events [OF o] by simp
  then obtain m ms where m: "?evs = m # ms" by (cases ?evs) auto
  have app: "Append e l = l\<lparr>events := ms,
      evictedThrough := (if env_id m > evictedThrough l then env_id m else evictedThrough l)\<rparr>"
    using Append_inserted [OF o new] ret len full(1) m by (auto simp: Let_def)
  have ms: "set (m # ms) = insert e (set (events l))" using inserted_set [OF new] m by simp
  have lt: "\<forall>x \<in> set ms. env_id m < env_id x" using srt m by simp
  define D' where "D' = env_id ` set ms"
  have D': "insert (env_id m) D' = insert ?i ?D" "env_id m \<notin> D'"
    using arg_cong [OF ms, of "image env_id"] lt by (auto simp: D'_def)
  have cD': "card D' = nat r"
    using D' new cD card_ids_events [OF o] by (metis card_insert_disjoint diff_Suc_1 finite_imageI
        List.finite_set D'_def)
  have S': "ids (es @ [e]) = insert ?i ?S" by (simp add: ids_snoc)
  have old: "env_id m = ?i" if "?i \<in> ?S"
  proof (rule ccontr)
    assume ne: "env_id m \<noteq> ?i"
    have "env_id m \<in> insert ?i ?D" "?i \<in> insert (env_id m) D'" using D'(1) by blast+
    with ne have "env_id m \<in> ?D" "?i \<in> D'" by auto
    then have "env_id m < ?i" using lt by (auto simp: D'_def)
    moreover have "?i < env_id m"
      using upperD [OF up that new \<open>env_id m \<in> ?D\<close>] .
    ultimately show False by simp
  qed
  have rest: "insert ?i ?S - D' = insert (env_id m) (?S - ?D)"
  proof (intro equalityI subsetI)
    fix x assume "x \<in> insert ?i ?S - D'"
    then show "x \<in> insert (env_id m) (?S - ?D)"
      using eqset_imp_iff [OF D'(1), of x] by blast
  next
    fix x assume x: "x \<in> insert (env_id m) (?S - ?D)"
    have "x \<notin> D'" using x D'(2) old eqset_imp_iff [OF D'(1), of x] by auto
    moreover have "x \<in> insert ?i ?S"
      using x up eqset_imp_iff [OF D'(1), of x] by (auto simp: upper_def)
    ultimately show "x \<in> insert ?i ?S - D'" by simp
  qed
  have up': "upper D' (insert ?i ?S)"
    unfolding upper_def rest
  proof (intro conjI ballI)
    show "D' \<subseteq> insert ?i ?S" using D' up by (auto simp: upper_def)
    fix x d assume x: "x \<in> insert (env_id m) (?S - ?D)" and d: "d \<in> D'"
    have md: "env_id m < d" using d lt by (auto simp: D'_def)
    have "d \<in> insert ?i ?D" "env_id m \<in> insert ?i ?D"
      using eqset_imp_iff [OF D'(1), of d] eqset_imp_iff [OF D'(1), of "env_id m"] d by simp_all
    then have "d \<in> ?D \<or> (d = ?i \<and> env_id m \<in> ?D)" using md by auto
    then show "x < d"
    proof
      assume "d \<in> ?D"
      then show ?thesis using x md up unfolding upper_def by blast
    next
      assume "d = ?i \<and> env_id m \<in> ?D"
      then have "x = env_id m \<or> x < env_id m" using x up unfolding upper_def by blast
      then show ?thesis using md by auto
    qed
  qed
  have max': "(if env_id m > evictedThrough l then env_id m else evictedThrough l)
      = Max (insert (env_id m) (?S - ?D))"
    by (rule max_step) (use ev fin in simp_all)
  have firsts': "\<forall>x \<in> set ms. find (\<lambda>y. env_id y = env_id x) (es @ [e]) = Some x"
  proof
    fix x assume x: "x \<in> set ms"
    show "find (\<lambda>y. env_id y = env_id x) (es @ [e]) = Some x"
    proof (cases "x \<in> set (events l)")
      case False
      then have "x = e" using x ms by auto
      then have "?i \<notin> ?S" using x old lt by auto
      then have "find (\<lambda>y. env_id y = ?i) es = None" by (auto simp: find_None_iff ids_def image_iff)
      then show ?thesis using \<open>x = e\<close> by (simp add: find_append)
    qed (use firsts in \<open>simp add: find_append\<close>)
  qed
  have "card ?S \<le> card (insert ?i ?S)" using fin by (simp add: card_insert_le)
  then have "nat r = min (nat r) (card (insert ?i ?S))"
    using card cD card_ids_events [OF o] by simp
  moreover have "\<not> (?i \<in> D' \<and> ?S \<subseteq> D')"
    using rest by (metis Diff_eq_empty_iff insert_not_empty insert_subset)
  ultimately show ?thesis
    using app ret full(1) ordered_Append [OF o, of e] S' rest up' max' firsts' cD'
    by (auto simp add: log_inv_def Let_def D'_def [symmetric])
qed

lemma history_inv: "log_inv r es (history r es)"
proof (induction es rule: rev_induct)
  case Nil
  show ?case by (simp add: log_inv_def history_def NewEventLog_def ordered_def upper_def ids_def)
next
  case (snoc e es)
  have "log_inv r (es @ [e]) (Append e (history r es))"
    using log_inv_held [OF snoc] log_inv_room [OF snoc] log_inv_full [OF snoc]
    by (meson not_le)
  then show ?case by (simp add: history_def)
qed
lemma log_inv_over:
  assumes "log_inv r es l"
  shows "map env_id (events l) = kept_ids r (ids es)"
    and "sorted_list_of_set (ids es - env_id ` set (events l)) = dropped_ids r (ids es)"
proof -
  let ?D = "env_id ` set (events l)" and ?S = "ids es"
  have fin: "finite ?S" by (simp add: ids_def)
  have up: "upper ?D ?S" and o: "ordered l"
    and card: "if r > 0 then card ?D = min (nat r) (card ?S) else ?D = ?S"
    using assms by (auto simp: log_inv_def Let_def)
  have "?D \<subseteq> ?S" using up by (simp add: upper_def)
  then have "card (?S - ?D) = over r ?S"
    using card fin by (auto simp: over_def card_Diff_subset finite_subset split: if_splits)
  then have l: "length (sorted_list_of_set (?S - ?D)) = over r ?S" by simp
  have D: "sorted_list_of_set ?D = map env_id (events l)"
    using o by (metis list.set_map ordered_def sorted_list_of_set.idem_if_sorted_distinct strict_sorted_iff)
  show "map env_id (events l) = kept_ids r ?S"
    using upper_split [OF fin up] l D by (simp add: kept_ids_def)
  show "sorted_list_of_set (?S - ?D) = dropped_ids r ?S"
    using upper_split [OF fin up] l by (simp add: dropped_ids_def)
qed

lemma le_last_sorted: "sorted (xs :: string list) \<Longrightarrow> x \<in> set xs \<Longrightarrow> x \<le> last xs"
  by (induction xs) (auto split: if_splits)

lemma last_sorted_Max: "finite X \<Longrightarrow> X \<noteq> {} \<Longrightarrow> last (sorted_list_of_set X) = (Max X :: string)"
proof -
  assume fin: "finite X" and ne: "X \<noteq> {}"
  have "Max X \<in> X" "\<forall>x \<in> X. x \<le> Max X" using fin ne by auto
  moreover from this have "Max X \<in> set (sorted_list_of_set X)" using fin by simp
  moreover have "\<forall>x \<in> set (sorted_list_of_set X). x \<le> last (sorted_list_of_set X)"
    using le_last_sorted [OF sorted_sorted_list_of_set] by auto
  ultimately show ?thesis using fin ne by (metis antisym last_in_set set_sorted_list_of_set empty_set)
qed

lemma log_inv_evicted:
  "evictedThrough (history r es) = (if dropped_ids r (ids es) = [] then [] else last (dropped_ids r (ids es)))"
proof -
  let ?X = "ids es - env_id ` set (events (history r es))"
  note inv = history_inv [of r es]
  have fin: "finite ?X" by (simp add: ids_def)
  have "evictedThrough (history r es) = (if ?X = {} then [] else Max ?X)" using inv by (simp add: log_inv_def Let_def)
  also have "\<dots> = (if dropped_ids r (ids es) = [] then [] else last (dropped_ids r (ids es)))"
    using log_inv_over(2) [OF inv] last_sorted_Max [OF fin] fin
    by (metis empty_set sorted_list_of_set.fold_insort_key.empty set_sorted_list_of_set)
  finally show ?thesis .
qed

text \<open>C8. Whatever the order and the repetitions of the appends, a log keeps exactly the greatest ids appended,
  as many as its horizon allows, each with the envelope first recorded under it, and remembers the
  greatest id it dropped.\<close>

theorem log_is_tail_of_history:
  "events (history r es) = map (first_recorded es) (kept_ids r (ids es)) \<and>
   evictedThrough (history r es) = (if dropped_ids r (ids es) = [] then [] else last (dropped_ids r (ids es)))"
proof
  let ?l = "history r es"
  note inv = history_inv [of r es]
  have "\<forall>e \<in> set (events ?l). first_recorded es (env_id e) = e"
    using inv by (auto simp: log_inv_def Let_def first_recorded_def)
  then have "events ?l = map (first_recorded es) (map env_id (events ?l))"
    by (simp add: map_idI)
  then show "events ?l = map (first_recorded es) (kept_ids r (ids es))"
    using log_inv_over(1) [OF inv] by simp
  show "evictedThrough ?l = (if dropped_ids r (ids es) = [] then [] else last (dropped_ids r (ids es)))"
    by (rule log_inv_evicted)
qed

section \<open>Resuming from a history\<close>

lemma history_ordered: "ordered (history r es)"
  using history_inv [of r es] by (simp add: log_inv_def Let_def)

lemma kept_above:
  assumes "i \<in> set (kept_ids r (ids es)) \<or> (\<exists>k \<in> set (kept_ids r (ids es)). k \<le> i)"
  shows "filter (\<lambda>j. i \<le> j) (kept_ids r (ids es)) = filter (\<lambda>j. i \<le> j) (sorted_list_of_set (ids es))"
    and "filter (\<lambda>j. i < j) (kept_ids r (ids es)) = filter (\<lambda>j. i < j) (sorted_list_of_set (ids es))"
proof -
  let ?D = "dropped_ids r (ids es)" and ?K = "kept_ids r (ids es)"
  have split: "sorted_list_of_set (ids es) = ?D @ ?K" by (simp add: dropped_ids_def kept_ids_def)
  then have "sorted_wrt (<) (?D @ ?K)" by (metis strict_sorted_list_of_set)
  then have "\<forall>d \<in> set ?D. d < i" using assms by (auto simp: sorted_wrt_append dest: order_less_le_trans)
  then have "filter (\<lambda>j. i \<le> j) ?D = []" "filter (\<lambda>j. i < j) ?D = []"
    by (auto simp: filter_empty_conv not_le not_less less_imp_le)
  then show "filter (\<lambda>j. i \<le> j) ?K = filter (\<lambda>j. i \<le> j) (sorted_list_of_set (ids es))"
    "filter (\<lambda>j. i < j) ?K = filter (\<lambda>j. i < j) (sorted_list_of_set (ids es))"
    unfolding split by simp_all
qed

lemma history_events:
  shows "map env_id (events (history r es)) = kept_ids r (ids es)"
    and "e \<in> set (events (history r es)) \<Longrightarrow> first_recorded es (env_id e) = e"
    and "events (history r es) = map (first_recorded es) (kept_ids r (ids es))"
proof -
  show ids: "map env_id (events (history r es)) = kept_ids r (ids es)"
    by (rule log_inv_over [OF history_inv])
  show first: "first_recorded es (env_id e) = e" if "e \<in> set (events (history r es))" for e
    using history_inv [of r es] that by (auto simp: log_inv_def Let_def first_recorded_def)
  show "events (history r es) = map (first_recorded es) (kept_ids r (ids es))"
    unfolding ids [symmetric] using first by (simp add: map_idI)
qed

lemma filter_events:
  "filter (\<lambda>e. P (env_id e)) (events (history r es)) = map (first_recorded es) (filter P (kept_ids r (ids es)))"
proof -
  have "filter P (kept_ids r (ids es)) = map env_id (filter (\<lambda>e. P (env_id e)) (events (history r es)))"
    by (simp add: history_events(1) [symmetric] filter_map comp_def)
  moreover have "map (first_recorded es \<circ> env_id) (filter (\<lambda>e. P (env_id e)) (events (history r es)))
      = filter (\<lambda>e. P (env_id e)) (events (history r es))"
    using history_events(2) [of _ r es] by (intro map_idI) auto
  ultimately show ?thesis by simp
qed

lemma resume_not_fresh:
  assumes "ResolveVisible L l i (Some vis) = Inr out" "i \<noteq> []"
  shows "resume_from_grammar i \<and> Valid i"
  using assms by (auto simp: ResolveVisible_def split: if_splits)

lemma first_recorded_id:
  assumes "j \<in> ids es"
  shows "first_recorded es j \<in> set es" "env_id (first_recorded es j) = j"
proof -
  have "find (\<lambda>e. env_id e = j) es \<noteq> None" using assms by (auto simp: ids_def find_None_iff)
  then obtain e where "find (\<lambda>e. env_id e = j) es = Some e" by auto
  then show "first_recorded es j \<in> set es" "env_id (first_recorded es j) = j"
    unfolding first_recorded_def by (simp_all, auto simp: find_Some_iff)
qed

lemma resume_outcome:
  assumes "ResolveVisible memory_log (history r es) i (Some vis) = Inr out" "i \<noteq> ''''"
  shows "outcome_result out \<noteq> Fresh \<and>
    (outcome_result out = Resumed \<longrightarrow> i \<in> ids es \<and> vis (first_recorded es i) \<and>
       backlog out = map (first_recorded es) (filter (\<lambda>j. i < j) (sorted_list_of_set (ids es)))) \<and>
    (outcome_result out = Gap \<longrightarrow> i < resume_at out \<and> vis (first_recorded es (resume_at out)) \<and>
       resume_at out \<in> ids es \<and>
       outcome_gap out = Some \<lparr>from_id = Some i, to_id = resume_at out, gap_reason = ''retention_expired''\<rparr> \<and>
       backlog out = map (first_recorded es) (filter (\<lambda>j. resume_at out \<le> j) (sorted_list_of_set (ids es))) \<and>
       (\<forall>j \<in> ids es. i < j \<and> j < resume_at out \<longrightarrow>
          j \<in> set (dropped_ids r (ids es)) \<or> \<not> vis (first_recorded es j)))"
proof -
  let ?l = "history r es" and ?K = "kept_ids r (ids es)"
  have g: "resume_from_grammar i" "Valid i" using resume_not_fresh [OF assms] by auto
  have K: "env_id e \<in> set ?K" if "e \<in> set (events ?l)" for e
    using that by (metis history_events(1) image_eqI list.set_map)
  note cases = assms(1) [unfolded memory.resolve_cases [OF history_ordered assms(2) g]]
  let ?gap = "find (\<lambda>e. i < env_id e \<and> vis e) (if log_AgedOut memory_log ?l i then events ?l else [])"
  show ?thesis
  proof (cases ?gap)
    case None
    with cases obtain e where e: "find (\<lambda>e. env_id e = i) (events ?l) = Some e" "vis e"
      and out: "outcome_result out = Resumed" "backlog out = filter (\<lambda>e. i < env_id e) (events ?l)"
      by (auto split: option.splits if_splits)
    have ei: "env_id e = i" "e \<in> set (events ?l)" using e(1) by (auto simp: find_Some_iff)
    then have "i \<in> set ?K" "first_recorded es i = e" using K history_events(2) by blast+
    moreover have "i \<in> ids es" using \<open>i \<in> set ?K\<close> by (auto simp: kept_ids_def ids_def dest: in_set_dropD)
    ultimately show ?thesis
      using out e(2) kept_above(2) [of i r es] by (simp add: filter_events)
  next
    case (Some e)
    with cases have out: "outcome_result out = Gap" "resume_at out = env_id e"
      "backlog out = filter (\<lambda>x. env_id e \<le> env_id x) (events ?l)"
      "outcome_gap out = Some \<lparr>from_id = Some i, to_id = env_id e, gap_reason = ''retention_expired''\<rparr>" by auto
    have f: "find (\<lambda>e. i < env_id e \<and> vis e) (events ?l) = Some e" using Some by (auto split: if_splits)
    then obtain n where n: "n < length (events ?l)" "events ?l ! n = e" "i < env_id e" "vis e"
      "\<forall>m < n. \<not> (i < env_id (events ?l ! m) \<and> vis (events ?l ! m))" by (auto simp: find_Some_iff)
    then have e: "e \<in> set (events ?l)" by auto
    have between: "\<not> vis (first_recorded es j)"
      if j: "j \<in> set ?K" "i < j" "j < env_id e" for j
    proof -
      obtain m where m: "m < length (events ?l)" "env_id (events ?l ! m) = j"
        using j(1) unfolding history_events(1) [symmetric] by (auto simp: in_set_conv_nth)
      then have "m < n"
        using n(1,2) j(3) history_ordered [of r es] unfolding ordered_def sorted_wrt_iff_nth_less
        by (metis length_map linorder_less_linear nth_map order_less_asym)
      then show ?thesis using n(5) m j(2) history_events(2) nth_mem by metis
    qed
    have "j \<in> set ?K \<or> j \<in> set (dropped_ids r (ids es))" if "j \<in> ids es" for j
    proof -
      have "j \<in> set (dropped_ids r (ids es) @ ?K)" using that by (simp add: dropped_ids_def kept_ids_def ids_def)
      then show ?thesis by auto
    qed
    then show ?thesis
      using out n(3,4) between kept_above(1) [of "env_id e" r es] K [OF e] history_events(2) [OF e]
      by (auto simp: filter_events kept_ids_def ids_def dest: in_set_dropD)
  qed
qed

text \<open>C9. A resume loses nothing unmarked: a clean resume from an id delivers every event ever recorded after it, once and in
  order; a gap resumes at a visible event, delivers everything recorded from there on, and what lies
  between the requested id and that event was dropped from retention or is not visible to the subscriber.\<close>

theorem resume_loses_nothing_unmarked:
  assumes "ResolveVisible memory_log (history r es) i (Some vis) = Inr out" "i \<noteq> ''''"
  shows "outcome_result out \<noteq> Fresh \<and>
    (outcome_result out = Resumed \<longrightarrow> i \<in> ids es \<and> vis (first_recorded es i) \<and>
       backlog out = map (first_recorded es) (filter (\<lambda>j. i < j) (sorted_list_of_set (ids es)))) \<and>
    (outcome_result out = Gap \<longrightarrow> i < resume_at out \<and> vis (first_recorded es (resume_at out)) \<and>
       backlog out = map (first_recorded es) (filter (\<lambda>j. resume_at out \<le> j) (sorted_list_of_set (ids es))) \<and>
       (\<forall>j \<in> ids es. i < j \<and> j < resume_at out \<longrightarrow>
          j \<in> set (dropped_ids r (ids es)) \<or> \<not> vis (first_recorded es j)))"
  using resume_outcome [OF assms] by blast

text \<open>The head of the log is the greatest id recorded, and the backlog after a point is what is kept above it.\<close>

lemma kept_nonempty: "ids es \<noteq> {} \<Longrightarrow> kept_ids r (ids es) \<noteq> []"
proof -
  assume "ids es \<noteq> {}"
  then have "0 < card (ids es)" by (simp add: ids_def card_gt_0_iff)
  then have "over r (ids es) < card (ids es)" by (auto simp: over_def)
  then show ?thesis by (simp add: kept_ids_def)
qed

lemma HeadID_max:
  assumes "j \<in> ids es"
  shows "j \<le> HeadID (history r es)" and "HeadID (history r es) \<in> set (kept_ids r (ids es))"
proof -
  let ?K = "kept_ids r (ids es)"
  have ne: "?K \<noteq> []" using assms kept_nonempty by auto
  then have "events (history r es) \<noteq> []" using history_events(1) [of r es] by auto
  then have h: "HeadID (history r es) = last ?K"
    using history_events(1) [of r es] by (metis HeadID_def last_map)
  then have "HeadID (history r es) = last (sorted_list_of_set (ids es))"
    using ne by (simp add: kept_ids_def last_drop)
  then show "j \<le> HeadID (history r es)"
    using assms le_last_sorted [of "sorted_list_of_set (ids es)" j] by (simp add: ids_def)
  show "HeadID (history r es) \<in> set ?K" using ne h by simp
qed

lemma After_history:
  "After (history r es) i = map (first_recorded es) (filter (\<lambda>j. i < j) (kept_ids r (ids es)))"
  using filter_events [of "\<lambda>j. i < j" r es] by (simp add: After_filter history_ordered)

lemma kept_in_ids: "j \<in> set (kept_ids r (ids es)) \<Longrightarrow> j \<in> ids es"
  by (auto simp: kept_ids_def ids_def dest: in_set_dropD)

lemma kept_or_dropped:
  assumes "j \<in> ids es"
  shows "j \<in> set (kept_ids r (ids es)) \<or>
    j \<in> set (dropped_ids r (ids es)) \<and> (\<forall>k \<in> set (kept_ids r (ids es)). j < k)"
proof -
  let ?D = "dropped_ids r (ids es)" and ?K = "kept_ids r (ids es)"
  have split: "sorted_list_of_set (ids es) = ?D @ ?K" by (simp add: dropped_ids_def kept_ids_def)
  then have "sorted_wrt (<) (?D @ ?K)" by (metis strict_sorted_list_of_set)
  moreover have "j \<in> set (?D @ ?K)" using assms unfolding split [symmetric] by (simp add: ids_def)
  ultimately show ?thesis by (auto simp: sorted_wrt_append)
qed

lemma kept_sorted: "sorted_wrt (<) (kept_ids r S)"
  by (simp add: kept_ids_def sorted_wrt_drop)

lemma EvictedAfter_history:
  "EvictedAfter (history r es) i \<longleftrightarrow> (\<exists>j \<in> set (dropped_ids r (ids es)). i < j)"
proof -
  let ?D = "dropped_ids r (ids es)"
  have s: "sorted ?D" by (simp add: dropped_ids_def sorted_wrt_take)
  have "EvictedAfter (history r es) i \<longleftrightarrow> ?D \<noteq> [] \<and> i < last ?D"
    unfolding EvictedAfter_def log_inv_evicted by auto
  then show ?thesis using le_last_sorted [OF s] last_in_set [of ?D] by (auto dest: order_less_le_trans)
qed

text \<open>The grammar check is implied by the check that the id is a ULID.\<close>

lemma Valid_grammar: "Valid i \<Longrightarrow> resume_from_grammar i"
proof -
  assume v: "Valid i"
  have a: "list_all (\<lambda>c. is_upper c \<or> is_lower c \<or> is_digit c \<or> c = CHR ''_'' \<or> c = CHR ''-'') crockfordAlphabet"
    by code_simp
  have "c \<in> set crockfordAlphabet" if "c \<in> set i" for c
    using v that by (force simp: Valid_def list_all_iff dest: index_byte_Some nth_mem)
  with a v show ?thesis by (auto simp: resume_from_grammar_def list_all_iff Valid_def)
qed

text \<open>
  What a subscriber can tell of an event it may not see: a recorded id outside its visible set is refused
  when it is retained, but when it was never recorded and lies below the whole log it is answered with a
  gap.  The answers to one id therefore differ with the presence of an invisible event that heads the log.
\<close>

lemma unseen_floor_is_told_apart:
  assumes "Valid (env_id a)" "env_id a < env_id b" "\<not> vis a" "vis b"
  shows "ResolveVisible memory_log (history 0 [a, b]) (env_id a) (Some vis) = Inl RESUME_FROM_INVALID"
    and "\<exists>out. ResolveVisible memory_log (history 0 [b]) (env_id a) (Some vis) = Inr out \<and>
           outcome_result out = Gap"
proof -
  have ne: "env_id a \<noteq> []" "env_id b \<noteq> []" using assms(1,2) by (auto simp: Valid_def)
  have h1: "events (history 0 [b]) = [b]" and h2: "events (history 0 [a, b]) = [a, b]"
    using assms(2) by (simp_all add: history_events(3) kept_ids_def over_def ids_def first_recorded_def less_imp_le)
  note rc = memory.resolve_cases [OF history_ordered ne(1) Valid_grammar [OF assms(1)] assms(1)]
  show "ResolveVisible memory_log (history 0 [a, b]) (env_id a) (Some vis) = Inl RESUME_FROM_INVALID"
    unfolding rc h2 using assms(3) by (simp add: memory_log_def AgedOut_def OldestRetainedID_def h2)
  show "\<exists>out. ResolveVisible memory_log (history 0 [b]) (env_id a) (Some vis) = Inr out \<and>
      outcome_result out = Gap"
    unfolding rc h1 using assms ne by (simp add: memory_log_def AgedOut_def OldestRetainedID_def h1)
qed

definition demo_envelope :: "string \<Rightarrow> string \<Rightarrow> Envelope" where
  "demo_envelope i node =
     \<lparr>env_id = i, env_schema = ''device.heartbeat'', env_ts = 0, env_scope_node = node, env_trace_id = ''t'',
      env_cost_class = ''c'', env_retention_class = ''r'', env_origin = ''internal'',
      env_origin_principal = '''', env_payload = ''{}''\<rparr>"

definition demo_ulid :: "char \<Rightarrow> string" where
  "demo_ulid c = replicate 25 (CHR ''0'') @ [c]"

definition demo_history :: "Envelope list" where
  "demo_history = [demo_envelope (demo_ulid CHR ''3'') ''n'', demo_envelope (demo_ulid CHR ''1'') ''n'',
     demo_envelope (demo_ulid CHR ''2'') ''n'', demo_envelope (demo_ulid CHR ''2'') ''m'']"

lemma demo_resume:
  "ResolveVisible memory_log (history 2 demo_history) (demo_ulid CHR ''2'') (Some everyEnvelope) =
     Inr \<lparr>outcome_result = Resumed, outcome_gap = None, resume_at = '''',
          backlog = [demo_envelope (demo_ulid CHR ''3'') ''n'']\<rparr>"
  by code_simp

theorem resume_loses_nothing_unmarked_witness:
  "demo_ulid CHR ''2'' \<in> ids demo_history \<and>
   [demo_envelope (demo_ulid CHR ''3'') ''n''] =
     map (first_recorded demo_history) (filter (\<lambda>j. demo_ulid CHR ''2'' < j) (sorted_list_of_set (ids demo_history)))"
  using resume_loses_nothing_unmarked [OF demo_resume] by (simp add: demo_ulid_def)

text \<open>A live subscriber is told of a loss exactly when an event past its last delivered id was dropped.\<close>

theorem lag_is_detected:
  "EvictedAfter (history r es) i \<longleftrightarrow> (\<exists>j \<in> set (dropped_ids r (ids es)). i < j)"
  by (rule EvictedAfter_history)

end
