(* ===== verification/Selector.thy ===== *)
theory Selector
  imports Ulid
begin

text \<open>
  The label-selector grammar shared by the API and the event stream,
  \<open>internal/shared/apiselector/apiselector.go\<close>: the splitting of a selector into terms, the term
  parsers with their rejections, and matching.  The lemmas give the canonical text of a selector, that
  parsing it returns the selector, and that everything the parser accepts has such a text.
\<close>

section \<open>Keys and values\<close>

definition is_alnum :: "char \<Rightarrow> bool" where
  "is_alnum c \<longleftrightarrow> is_upper c \<or> is_lower c \<or> is_digit c"

text \<open>\<open>[A-Za-z0-9][<rest>]{0,n}\<close>, anchored at both ends.\<close>

definition word_ok :: "(char \<Rightarrow> bool) \<Rightarrow> nat \<Rightarrow> string \<Rightarrow> bool" where
  "word_ok rest n s = (case s of [] \<Rightarrow> False | c # cs \<Rightarrow> is_alnum c \<and> length cs \<le> n \<and> list_all rest cs)"

definition name_char :: "char \<Rightarrow> bool" where
  "name_char c \<longleftrightarrow> is_alnum c \<or> c = CHR ''_'' \<or> c = CHR ''.'' \<or> c = CHR ''-''"

definition prefix_char :: "char \<Rightarrow> bool" where
  "prefix_char c \<longleftrightarrow> is_alnum c \<or> c = CHR ''.'' \<or> c = CHR ''-''"

definition keyOK :: "string \<Rightarrow> bool" where
  "keyOK s = (case split_on CHR ''/'' s of
      [name] \<Rightarrow> word_ok name_char 62 name
    | [prefix, name] \<Rightarrow> word_ok prefix_char 251 prefix \<and> word_ok name_char 62 name
    | _ \<Rightarrow> False)"

definition valueOK :: "string \<Rightarrow> bool" where
  "valueOK s \<longleftrightarrow> s = '''' \<or> word_ok name_char 62 s"

definition reservedScopeNode :: string where
  "reservedScopeNode = ''scope_node''"

section \<open>Terms\<close>

datatype termKind =
  TermEquality | TermInequality | TermIn | TermNotIn | TermExists | TermNotExists
| TermScopeExact | TermScopeSubtree

record sel_term =
  term_kind :: termKind
  term_key :: string
  term_value :: string
  term_values :: "string list"

type_synonym Selector = "sel_term list"

text \<open>The rejected term with the reason; every one is the status 400 and the code \<open>SELECTOR_INVALID\<close>.\<close>

datatype reason =
  EmptyTerm | SetNotClosed | SetShape | SetKey | ScopeNodeReserved | SetOperator | SetValue
| SubtreeKey | ScopeNodeValue | SpaceAroundOperator | SpaceHere | NotExistsKey | NotATerm
| InequalityKey | InequalityValue | EqualityKey | EqualityValue

record ParseError =
  bad_term :: string
  bad_reason :: reason

definition newParseError :: "string \<Rightarrow> reason \<Rightarrow> ParseError + 'a" where
  "newParseError raw r = Inl \<lparr>bad_term = raw, bad_reason = r\<rparr>"

definition isSelectorSpace :: "char \<Rightarrow> bool" where
  "isSelectorSpace c \<longleftrightarrow> byte_of c = 32 \<or> (9 \<le> byte_of c \<and> byte_of c \<le> 13)"

text \<open>\<open>strings.TrimFunc\<close> and \<open>strings.FieldsFunc\<close> over that set.\<close>

definition trim_sel :: "string \<Rightarrow> string" where
  "trim_sel s = rev (dropWhile isSelectorSpace (rev (dropWhile isSelectorSpace s)))"

fun split_by :: "(char \<Rightarrow> bool) \<Rightarrow> string \<Rightarrow> string list" where
  "split_by p [] = [[]]"
| "split_by p (c # s) =
     (if p c then [] # split_by p s
      else (case split_by p s of [] \<Rightarrow> [[c]] | w # ws \<Rightarrow> (c # w) # ws))"

definition fields_sel :: "string \<Rightarrow> string list" where
  "fields_sel s = filter (\<lambda>w. w \<noteq> []) (split_by isSelectorSpace s)"

text \<open>Top-level commas: the depth counts open parentheses and never goes below zero; \<open>cur\<close> is the
  current piece, reversed.\<close>

fun splitTopLevel :: "nat \<Rightarrow> string \<Rightarrow> string \<Rightarrow> string list" where
  "splitTopLevel depth cur [] = [rev cur]"
| "splitTopLevel depth cur (c # s) =
     (if c = CHR ''('' then splitTopLevel (depth + 1) (c # cur) s
      else if c = CHR '')'' then splitTopLevel (depth - 1) (c # cur) s
      else if c = CHR '','' \<and> depth = 0 then rev cur # splitTopLevel 0 [] s
      else splitTopLevel depth (c # cur) s)"

fun set_values :: "string \<Rightarrow> string list \<Rightarrow> ParseError + string list" where
  "set_values raw [] = Inr []"
| "set_values raw (p # ps) =
     (let v = trim_sel p in
      if \<not> valueOK v then newParseError raw SetValue
      else (case set_values raw ps of Inl e \<Rightarrow> Inl e | Inr vs \<Rightarrow> Inr (v # vs)))"

definition parseSet :: "string \<Rightarrow> ParseError + sel_term" where
  "parseSet raw =
     (case index_byte raw CHR ''('' of
        None \<Rightarrow> newParseError raw SetNotClosed
      | Some opn \<Rightarrow>
          if last raw \<noteq> CHR '')'' then newParseError raw SetNotClosed
          else
            let head = take opn raw; inner = butlast (drop (opn + 1) raw) in
            (case fields_sel head of
               [key, keyword] \<Rightarrow>
                 if \<not> keyOK key then newParseError raw SetKey
                 else if key = reservedScopeNode then newParseError raw ScopeNodeReserved
                 else
                   let kind = (if keyword = ''in'' then Some TermIn
                               else if keyword = ''notin'' then Some TermNotIn else None)
                   in (case kind of
                         None \<Rightarrow> newParseError raw SetOperator
                       | Some k \<Rightarrow>
                           (case set_values raw (split_on CHR '','' inner) of
                              Inl e \<Rightarrow> Inl e
                            | Inr vs \<Rightarrow> Inr \<lparr>term_kind = k, term_key = key, term_value = '''', term_values = vs\<rparr>))
             | _ \<Rightarrow> newParseError raw SetShape))"

definition parseCompact :: "string \<Rightarrow> ParseError + sel_term" where
  "parseCompact raw =
     (if raw = '''' then newParseError raw EmptyTerm
      else if hd raw = CHR ''!'' then
        let key = tl raw in
        if key = reservedScopeNode then newParseError raw ScopeNodeReserved
        else if \<not> keyOK key then newParseError raw NotExistsKey
        else Inr \<lparr>term_kind = TermNotExists, term_key = key, term_value = '''', term_values = []\<rparr>
      else case index_byte raw CHR ''='' of
        None \<Rightarrow>
          if raw = reservedScopeNode then newParseError raw ScopeNodeReserved
          else if \<not> keyOK raw then newParseError raw NotATerm
          else Inr \<lparr>term_kind = TermExists, term_key = raw, term_value = '''', term_values = []\<rparr>
      | Some eq \<Rightarrow>
          if eq > 0 \<and> raw ! (eq - 1) = CHR ''!'' then
            let key = take (eq - 1) raw; val = drop (eq + 1) raw in
            if \<not> keyOK key then newParseError raw InequalityKey
            else if key = reservedScopeNode then newParseError raw ScopeNodeReserved
            else if \<not> valueOK val then newParseError raw InequalityValue
            else Inr \<lparr>term_kind = TermInequality, term_key = key, term_value = val, term_values = []\<rparr>
          else
            let key = take eq raw;
                val = (if eq + 1 < length raw \<and> raw ! (eq + 1) = CHR ''='' then drop (eq + 2) raw
                       else drop (eq + 1) raw)
            in
            if \<not> keyOK key then newParseError raw EqualityKey
            else if key = reservedScopeNode then
              (if \<not> Valid val then newParseError raw ScopeNodeValue
               else Inr \<lparr>term_kind = TermScopeExact, term_key = key, term_value = val, term_values = []\<rparr>)
            else if \<not> valueOK val then newParseError raw EqualityValue
            else Inr \<lparr>term_kind = TermEquality, term_key = key, term_value = val, term_values = []\<rparr>)"

definition parseSpaced :: "string \<Rightarrow> ParseError + sel_term" where
  "parseSpaced raw =
     (let spaced = (case parseCompact (filter (\<lambda>c. \<not> isSelectorSpace c) raw) of
            Inr tm \<Rightarrow> if term_kind tm \<in> {TermEquality, TermInequality, TermScopeExact}
                      then newParseError raw SpaceAroundOperator else newParseError raw SpaceHere
          | Inl _ \<Rightarrow> newParseError raw SpaceHere)
      in case fields_sel raw of
           [key, op, val] \<Rightarrow>
             if op = ''subtree'' then
               (if key \<noteq> reservedScopeNode then newParseError raw SubtreeKey
                else if \<not> Valid val then newParseError raw ScopeNodeValue
                else Inr \<lparr>term_kind = TermScopeSubtree, term_key = key, term_value = val, term_values = []\<rparr>)
             else spaced
         | _ \<Rightarrow> spaced)"

definition parseTerm :: "string \<Rightarrow> ParseError + sel_term" where
  "parseTerm raw =
     (if raw = '''' then newParseError raw EmptyTerm
      else if index_byte raw CHR ''('' \<noteq> None then parseSet raw
      else if list_ex isSelectorSpace raw then parseSpaced raw
      else parseCompact raw)"

fun parse_terms :: "string list \<Rightarrow> ParseError + Selector" where
  "parse_terms [] = Inr []"
| "parse_terms (raw # raws) =
     (case parseTerm raw of
        Inl e \<Rightarrow> Inl e
      | Inr tm \<Rightarrow> (case parse_terms raws of Inl e \<Rightarrow> Inl e | Inr tms \<Rightarrow> Inr (tm # tms)))"

definition Parse_selector :: "string \<Rightarrow> ParseError + Selector" where
  "Parse_selector selector =
     (if trim_sel selector = '''' then Inr [] else parse_terms (splitTopLevel 0 [] selector))"

section \<open>Matching\<close>

text \<open>A nil subtree oracle is None.\<close>

definition term_matches ::
  "sel_term \<Rightarrow> (string \<rightharpoonup> string) \<Rightarrow> string \<Rightarrow> (string \<Rightarrow> string \<Rightarrow> bool) option \<Rightarrow> bool" where
  "term_matches t labels node inSubtree =
     (case term_kind t of
        TermEquality \<Rightarrow> (case labels (term_key t) of Some v \<Rightarrow> v = term_value t | None \<Rightarrow> False)
      | TermInequality \<Rightarrow> (case labels (term_key t) of Some v \<Rightarrow> v \<noteq> term_value t | None \<Rightarrow> True)
      | TermIn \<Rightarrow> (case labels (term_key t) of Some v \<Rightarrow> v \<in> set (term_values t) | None \<Rightarrow> False)
      | TermNotIn \<Rightarrow> (case labels (term_key t) of Some v \<Rightarrow> v \<notin> set (term_values t) | None \<Rightarrow> True)
      | TermExists \<Rightarrow> labels (term_key t) \<noteq> None
      | TermNotExists \<Rightarrow> labels (term_key t) = None
      | TermScopeExact \<Rightarrow> node = term_value t
      | TermScopeSubtree \<Rightarrow> node = term_value t \<or>
          (case inSubtree of None \<Rightarrow> False | Some f \<Rightarrow> f (term_value t) node))"

definition Matches ::
  "Selector \<Rightarrow> (string \<rightharpoonup> string) \<Rightarrow> string \<Rightarrow> (string \<Rightarrow> string \<Rightarrow> bool) option \<Rightarrow> bool" where
  "Matches s labels node inSubtree = list_all (\<lambda>t. term_matches t labels node inSubtree) s"

section \<open>The canonical text\<close>

fun join :: "char \<Rightarrow> string list \<Rightarrow> string" where
  "join d [] = []"
| "join d [w] = w"
| "join d (w # ws) = w @ d # join d ws"

definition wf_term :: "sel_term \<Rightarrow> bool" where
  "wf_term t \<longleftrightarrow>
     (case term_kind t of
        TermEquality \<Rightarrow> keyOK (term_key t) \<and> term_key t \<noteq> reservedScopeNode \<and> valueOK (term_value t) \<and>
          term_values t = []
      | TermInequality \<Rightarrow> keyOK (term_key t) \<and> term_key t \<noteq> reservedScopeNode \<and> valueOK (term_value t) \<and>
          term_values t = []
      | TermIn \<Rightarrow> keyOK (term_key t) \<and> term_key t \<noteq> reservedScopeNode \<and> term_value t = [] \<and>
          term_values t \<noteq> [] \<and> list_all valueOK (term_values t)
      | TermNotIn \<Rightarrow> keyOK (term_key t) \<and> term_key t \<noteq> reservedScopeNode \<and> term_value t = [] \<and>
          term_values t \<noteq> [] \<and> list_all valueOK (term_values t)
      | TermExists \<Rightarrow> keyOK (term_key t) \<and> term_key t \<noteq> reservedScopeNode \<and> term_value t = [] \<and>
          term_values t = []
      | TermNotExists \<Rightarrow> keyOK (term_key t) \<and> term_key t \<noteq> reservedScopeNode \<and> term_value t = [] \<and>
          term_values t = []
      | TermScopeExact \<Rightarrow> term_key t = reservedScopeNode \<and> Valid (term_value t) \<and> term_values t = []
      | TermScopeSubtree \<Rightarrow> term_key t = reservedScopeNode \<and> Valid (term_value t) \<and> term_values t = [])"

definition show_term :: "sel_term \<Rightarrow> string" where
  "show_term t =
     (case term_kind t of
        TermEquality \<Rightarrow> term_key t @ ''='' @ term_value t
      | TermInequality \<Rightarrow> term_key t @ ''!='' @ term_value t
      | TermIn \<Rightarrow> term_key t @ '' in ('' @ join CHR '','' (term_values t) @ '')''
      | TermNotIn \<Rightarrow> term_key t @ '' notin ('' @ join CHR '','' (term_values t) @ '')''
      | TermExists \<Rightarrow> term_key t
      | TermNotExists \<Rightarrow> ''!'' @ term_key t
      | TermScopeExact \<Rightarrow> term_key t @ ''='' @ term_value t
      | TermScopeSubtree \<Rightarrow> term_key t @ '' subtree '' @ term_value t)"

definition show_selector :: "Selector \<Rightarrow> string" where
  "show_selector s = join CHR '','' (map show_term s)"

text \<open>The characters of keys, values and ids: none of them is a separator.\<close>

definition plain :: "char \<Rightarrow> bool" where
  "plain c \<longleftrightarrow> name_char c \<or> c = CHR ''/''"

lemmas char_class_defs = is_alnum_def name_char_def prefix_char_def is_upper_def is_lower_def is_digit_def
  byte_of_def

lemma plain_not_separator:
  "plain c \<Longrightarrow> c \<noteq> CHR ''('' \<and> c \<noteq> CHR '')'' \<and> c \<noteq> CHR '','' \<and> c \<noteq> CHR ''='' \<and> c \<noteq> CHR ''!'' \<and>
     \<not> isSelectorSpace c"
  by (auto simp: plain_def isSelectorSpace_def char_class_defs)

lemma word_plain:
  "word_ok name_char n s \<Longrightarrow> s \<noteq> [] \<and> list_all plain s"
  "word_ok prefix_char n s \<Longrightarrow> s \<noteq> [] \<and> list_all plain s"
  by (auto simp: word_ok_def plain_def name_char_def prefix_char_def list_all_iff split: list.splits)

lemma split_on_join_two: "split_on d s = [a, b] \<Longrightarrow> s = a @ d # b"
proof (induction s arbitrary: a)
  case (Cons c s)
  show ?case
  proof (cases "c = d")
    case True
    with Cons.prems have "a = []" "split_on d s = [b]" by auto
    moreover have "split_on d s = [b] \<Longrightarrow> s = b" for s b
      by (induction s arbitrary: b) (auto split: if_splits list.splits)
    ultimately show ?thesis using True by auto
  next
    case False
    with Cons.prems obtain w where "split_on d s = [w, b]" "a = c # w"
      by (auto split: list.splits)
    then show ?thesis using Cons.IH by auto
  qed
qed simp

lemma split_on_join_one: "split_on d s = [b] \<Longrightarrow> s = b"
  by (induction s arbitrary: b) (auto split: if_splits list.splits)

lemma keyOK_plain: "keyOK s \<Longrightarrow> s \<noteq> [] \<and> list_all plain s"
  by (auto simp: keyOK_def plain_def [of "CHR ''/''"] dest!: split_on_join_one split_on_join_two word_plain
      split: list.splits)

lemma valueOK_plain: "valueOK s \<Longrightarrow> list_all plain s"
  by (auto simp: valueOK_def dest: word_plain)

lemma Valid_plain: "Valid s \<Longrightarrow> s \<noteq> [] \<and> list_all plain s"
proof -
  assume v: "Valid s"
  have a: "list_all plain crockfordAlphabet" by code_simp
  have "c \<in> set crockfordAlphabet" if "c \<in> set s" for c
    using v that by (force simp: Valid_def list_all_iff dest: index_byte_Some nth_mem)
  with a v show ?thesis by (auto simp: list_all_iff Valid_def)
qed

lemma index_byte_None: "index_byte s c = None \<longleftrightarrow> c \<notin> set s"
  by (induction s) auto

lemma index_byte_at: "c \<notin> set k \<Longrightarrow> index_byte (k @ c # s) c = Some (length k)"
  by (induction k) auto

lemma split_on_join: "ws \<noteq> [] \<Longrightarrow> \<forall>w \<in> set ws. d \<notin> set w \<Longrightarrow> split_on d (join d ws) = ws"
  by (induction d ws rule: join.induct) (auto simp: split_on_no_sep split_on_append_sep)

lemma split_by_none: "\<forall>c \<in> set s. \<not> p c \<Longrightarrow> split_by p s = [s]"
  by (induction s) auto

lemma split_by_append: "\<forall>c \<in> set s. \<not> p c \<Longrightarrow> p c \<Longrightarrow> split_by p (s @ c # t) = s # split_by p t"
  by (induction s) auto

lemma plain_absent:
  assumes "list_all plain s"
  shows "CHR ''('' \<notin> set s" "CHR '')'' \<notin> set s" "CHR '','' \<notin> set s" "CHR ''='' \<notin> set s"
    "CHR ''!'' \<notin> set s" "\<forall>c \<in> set s. \<not> isSelectorSpace c"
  using assms plain_not_separator by (auto simp: list_all_iff)

lemma trim_sel_plain: "list_all plain s \<Longrightarrow> trim_sel s = s"
proof -
  assume "list_all plain s"
  then have "\<forall>c \<in> set s. \<not> isSelectorSpace c" by (rule plain_absent)
  then have "dropWhile isSelectorSpace s = s" "dropWhile isSelectorSpace (rev s) = rev s"
    by (auto simp: dropWhile_eq_self_iff hd_rev)
  then show ?thesis by (simp add: trim_sel_def)
qed

section \<open>Parsing the canonical text\<close>

lemma reserved_keyOK: "keyOK reservedScopeNode"
  by code_simp

lemma list_ex_space: "list_all plain s \<Longrightarrow> \<not> list_ex isSelectorSpace s"
  using plain_absent(6) by (auto simp: list_ex_iff)

lemma key_facts:
  assumes "keyOK k"
  shows "k \<noteq> []" "list_all plain k" "hd (k @ s) \<noteq> CHR ''!''" "k @ s \<noteq> []" "k ! (length k - 1) \<noteq> CHR ''!''"
    "last k \<noteq> CHR ''!''"
proof -
  from assms show k: "k \<noteq> []" "list_all plain k" using keyOK_plain by auto
  from k show "k @ s \<noteq> []" by simp
  from k show "hd (k @ s) \<noteq> CHR ''!''" using plain_absent(5) [OF k(2)] by (cases k) auto
  from k show "last k \<noteq> CHR ''!''" using plain_absent(5) [OF k(2)] last_in_set by metis
  then show "k ! (length k - 1) \<noteq> CHR ''!''" using k(1) by (simp add: last_conv_nth)
qed

lemma value_not_eq: "list_all plain v \<Longrightarrow> v = [] \<or> hd v \<noteq> CHR ''=''"
  using plain_absent(4) [of v] by (cases v) auto

lemma parse_equality:
  assumes "keyOK k" "list_all plain v"
  shows "parseTerm (k @ CHR ''='' # v) =
    (if k = reservedScopeNode then
       (if Valid v then Inr \<lparr>term_kind = TermScopeExact, term_key = k, term_value = v, term_values = []\<rparr>
        else newParseError (k @ CHR ''='' # v) ScopeNodeValue)
     else if valueOK v then Inr \<lparr>term_kind = TermEquality, term_key = k, term_value = v, term_values = []\<rparr>
     else newParseError (k @ CHR ''='' # v) EqualityValue)"
proof -
  note k = key_facts [OF assms(1)] and pk = plain_absent [OF key_facts(2) [OF assms(1)]]
  have "index_byte (k @ CHR ''='' # v) CHR ''('' = None"
    using pk plain_absent [OF assms(2)] by (simp add: index_byte_None)
  moreover have "\<not> list_ex isSelectorSpace (k @ CHR ''='' # v)"
    using list_ex_space k assms by (auto simp: isSelectorSpace_def byte_of_def)
  moreover have "index_byte (k @ CHR ''='' # v) CHR ''='' = Some (length k)" by (rule index_byte_at [OF pk(4)])
  moreover have "(k @ CHR ''='' # v) ! (length k - 1) \<noteq> CHR ''!''" using k by (simp add: nth_append)
  ultimately show ?thesis
    using k(1) k(3) [of "CHR ''='' # v"] assms(1) value_not_eq [OF assms(2)]
    by (cases v) (simp_all add: parseTerm_def parseCompact_def Let_def nth_append)
qed

lemma parse_inequality:
  assumes "keyOK k" "k \<noteq> reservedScopeNode" "valueOK v"
  shows "parseTerm (k @ CHR ''!'' # CHR ''='' # v) =
    Inr \<lparr>term_kind = TermInequality, term_key = k, term_value = v, term_values = []\<rparr>"
proof -
  let ?s = "k @ CHR ''!'' # CHR ''='' # v"
  note k = key_facts [OF assms(1)] and pk = plain_absent [OF key_facts(2) [OF assms(1)]]
  have "index_byte ?s CHR ''('' = None"
    using pk plain_absent [OF valueOK_plain [OF assms(3)]] by (simp add: index_byte_None)
  moreover have "\<not> list_ex isSelectorSpace ?s"
    using list_ex_space k valueOK_plain [OF assms(3)] by (auto simp: isSelectorSpace_def byte_of_def)
  moreover have "index_byte ?s CHR ''='' = Some (length k + 1)"
    using index_byte_at [of "CHR ''=''" "k @ [CHR ''!'']" v] pk(4) by simp
  ultimately show ?thesis
    using k(1) k(3) [of "CHR ''!'' # CHR ''='' # v"] assms
    by (simp add: parseTerm_def parseCompact_def Let_def nth_append)
qed

lemma parse_existence:
  assumes "keyOK k" "k \<noteq> reservedScopeNode"
  shows "parseTerm k = Inr \<lparr>term_kind = TermExists, term_key = k, term_value = [], term_values = []\<rparr>"
    and "parseTerm (CHR ''!'' # k) = Inr \<lparr>term_kind = TermNotExists, term_key = k, term_value = [], term_values = []\<rparr>"
proof -
  note k = key_facts [OF assms(1)] and pk = plain_absent [OF key_facts(2) [OF assms(1)]]
  have no: "index_byte k CHR ''('' = None" "index_byte k CHR ''='' = None" "\<not> list_ex isSelectorSpace k"
    using pk list_ex_space [OF k(2)] by (auto simp: index_byte_None)
  show "parseTerm k = Inr \<lparr>term_kind = TermExists, term_key = k, term_value = [], term_values = []\<rparr>"
    using no k(1) k(3) [of "[]"] assms by (simp add: parseTerm_def parseCompact_def)
  show "parseTerm (CHR ''!'' # k) = Inr \<lparr>term_kind = TermNotExists, term_key = k, term_value = [], term_values = []\<rparr>"
    using no assms by (simp add: parseTerm_def parseCompact_def Let_def isSelectorSpace_def byte_of_def)
qed

lemma parse_subtree:
  assumes "Valid v"
  shows "parseTerm (reservedScopeNode @ '' subtree '' @ v) =
    Inr \<lparr>term_kind = TermScopeSubtree, term_key = reservedScopeNode, term_value = v, term_values = []\<rparr>"
proof -
  let ?s = "reservedScopeNode @ CHR '' '' # ''subtree'' @ CHR '' '' # v"
  have sp: "isSelectorSpace CHR '' ''" by code_simp
  note v = Valid_plain [OF assms]
  have pl: "list_all plain reservedScopeNode" "list_all plain ''subtree''" by code_simp+
  have "split_by isSelectorSpace ?s = [reservedScopeNode, ''subtree'', v]"
    using split_by_append [OF plain_absent(6) [OF pl(1)] sp] split_by_append [OF plain_absent(6) [OF pl(2)] sp]
      split_by_none [OF plain_absent(6)] v by simp
  then have "fields_sel ?s = [reservedScopeNode, ''subtree'', v]"
    using v by (simp add: fields_sel_def reservedScopeNode_def)
  moreover have "index_byte ?s CHR ''('' = None"
    using plain_absent(1) [OF pl(1)] plain_absent(1) v by (simp add: index_byte_None)
  moreover have "list_ex isSelectorSpace ?s" using sp by (auto simp: list_ex_iff)
  moreover have "?s \<noteq> []" by (simp add: reservedScopeNode_def)
  ultimately show ?thesis using assms by (simp add: parseTerm_def parseSpaced_def Let_def)
qed

lemma set_values_plain: "list_all valueOK vs \<Longrightarrow> set_values raw vs = Inr vs"
  by (induction vs) (simp_all add: trim_sel_plain valueOK_plain Let_def)

lemma parse_set:
  assumes "keyOK k" "k \<noteq> reservedScopeNode" "list_all valueOK vs" "vs \<noteq> []"
    and op: "kw = ''in'' \<and> kd = TermIn \<or> kw = ''notin'' \<and> kd = TermNotIn"
  shows "parseTerm (k @ CHR '' '' # kw @ CHR '' '' # CHR ''('' # join CHR '','' vs @ '')'') =
    Inr \<lparr>term_kind = kd, term_key = k, term_value = [], term_values = vs\<rparr>"
proof -
  let ?h = "k @ CHR '' '' # kw @ CHR '' '' # []" and ?j = "join CHR '','' vs"
  let ?s = "?h @ CHR ''('' # ?j @ '')''"
  note k = key_facts [OF assms(1)] and pk = plain_absent [OF key_facts(2) [OF assms(1)]]
  have sp: "isSelectorSpace CHR '' ''" by code_simp
  have pl: "list_all plain kw" "kw \<noteq> []" using op by (auto, code_simp+)
  have "split_by isSelectorSpace ?h = [k, kw, []]"
    using split_by_append [OF pk(6) sp] split_by_append [OF plain_absent(6) [OF pl(1)] sp] by simp
  then have f: "fields_sel ?h = [k, kw]" using k(1) pl(2) by (simp add: fields_sel_def)
  have i: "index_byte ?s CHR ''('' = Some (length ?h)"
    by (rule index_byte_at) (use pk(1) plain_absent(1) [OF pl(1)] in auto)
  have "split_on CHR '','' ?j = vs"
    using assms(3,4) valueOK_plain plain_absent(3) by (intro split_on_join) (auto simp: list_all_iff)
  then have sv: "set_values ?s (split_on CHR '','' ?j) = Inr vs" using set_values_plain [OF assms(3)] by simp
  have lst: "last ?s = CHR '')''" by simp
  have after: "drop (length h + 1) (h @ c # r) = r" for h r :: string and c by simp
  have parts: "take (length ?h) ?s = ?h" "butlast (drop (length ?h + 1) ?s) = ?j"
    unfolding after by (simp_all add: butlast_append)
  have "parseSet ?s = Inr \<lparr>term_kind = kd, term_key = k, term_value = [], term_values = vs\<rparr>"
    unfolding parseSet_def i option.case lst Let_def parts f using op assms(1,2) sv by auto
  moreover have "?s \<noteq> []" by simp
  ultimately have "parseTerm ?s = Inr \<lparr>term_kind = kd, term_key = k, term_value = [], term_values = vs\<rparr>"
    unfolding parseTerm_def i by simp
  then show ?thesis by simp
qed

lemma parse_show_term: "wf_term t \<Longrightarrow> parseTerm (show_term t) = Inr t"
  using reserved_keyOK
  by (cases t; cases "term_kind t")
    (auto simp: wf_term_def show_term_def parse_equality parse_inequality parse_existence
      valueOK_plain Valid_plain
      parse_subtree [simplified] parse_set [where kw = "''in''" and kd = TermIn, simplified]
      parse_set [where kw = "''notin''" and kd = TermNotIn, simplified])

lemma splitTopLevel_flat:
  assumes "CHR ''('' \<notin> set w" "CHR '')'' \<notin> set w" "d = 0 \<longrightarrow> CHR '','' \<notin> set w"
  shows "splitTopLevel d cur (w @ s) = splitTopLevel d (rev w @ cur) s"
  using assms by (induction w arbitrary: cur) auto

lemma splitTopLevel_plain: "list_all plain w \<Longrightarrow> splitTopLevel d cur (w @ s) = splitTopLevel d (rev w @ cur) s"
  by (rule splitTopLevel_flat) (auto dest: plain_absent)

lemma join_chars: "x \<in> set (join d ws) \<Longrightarrow> x = d \<or> (\<exists>w \<in> set ws. x \<in> set w)"
  by (induction d ws rule: join.induct) auto

lemma splitTopLevel_values:
  assumes "list_all valueOK vs"
  shows "splitTopLevel (Suc d) cur (join CHR '','' vs @ s) = splitTopLevel (Suc d) (rev (join CHR '','' vs) @ cur) s"
proof (rule splitTopLevel_flat)
  have "c \<noteq> CHR ''('' \<and> c \<noteq> CHR '')''" if "c \<in> set (join CHR '','' vs)" for c
    using join_chars [OF that] assms valueOK_plain plain_absent(1,2) by (auto simp: list_all_iff)
  then show "CHR ''('' \<notin> set (join CHR '','' vs)" "CHR '')'' \<notin> set (join CHR '','' vs)" by blast+
qed simp

lemma splitTopLevel_term:
  assumes "wf_term t"
  shows "splitTopLevel 0 cur (show_term t @ s) = splitTopLevel 0 (rev (show_term t) @ cur) s"
  using assms keyOK_plain [OF reserved_keyOK]
  by (cases "term_kind t")
    (auto simp: wf_term_def show_term_def splitTopLevel_plain splitTopLevel_values valueOK_plain
      dest: keyOK_plain Valid_plain)

lemma splitTopLevel_show:
  "list_all wf_term ts \<Longrightarrow> ts \<noteq> [] \<Longrightarrow> splitTopLevel 0 [] (show_selector ts) = map show_term ts"
proof (induction ts)
  case (Cons t ts)
  show ?case
  proof (cases ts)
    case Nil
    then show ?thesis
      using splitTopLevel_term [of t "[]" "[]"] Cons.prems by (simp add: show_selector_def)
  next
    case (Cons u us)
    then have "show_selector (t # ts) = show_term t @ CHR '','' # show_selector ts"
      by (simp add: show_selector_def)
    then show ?thesis
      using splitTopLevel_term [of t "[]" "CHR '','' # show_selector ts"] Cons.IH Cons.prems Cons by simp
  qed
qed simp

lemma trim_sel_empty: "trim_sel s = [] \<Longrightarrow> c \<in> set s \<Longrightarrow> isSelectorSpace c"
proof -
  let ?d = "dropWhile isSelectorSpace s"
  assume "trim_sel s = []" and c: "c \<in> set s"
  then have "\<forall>x \<in> set ?d. isSelectorSpace x" by (simp add: trim_sel_def dropWhile_eq_Nil_conv)
  then have "?d = []" using hd_dropWhile [of isSelectorSpace s] hd_in_set by blast
  then show ?thesis using c by (simp add: dropWhile_eq_Nil_conv)
qed

lemma show_term_visible: "wf_term t \<Longrightarrow> \<exists>c \<in> set (show_term t). \<not> isSelectorSpace c"
proof -
  assume "wf_term t"
  then have "keyOK (term_key t)" using reserved_keyOK by (auto simp: wf_term_def split: termKind.splits)
  then have "hd (term_key t) \<in> set (term_key t)" "\<not> isSelectorSpace (hd (term_key t))"
    using keyOK_plain plain_absent(6) hd_in_set by blast+
  moreover have "set (term_key t) \<subseteq> set (show_term t)" by (auto simp: show_term_def split: termKind.splits)
  ultimately show ?thesis by blast
qed

lemma parse_terms_show: "list_all wf_term ts \<Longrightarrow> parse_terms (map show_term ts) = Inr ts"
  by (induction ts) (auto simp: parse_show_term)

lemma parse_show_selector: "list_all wf_term ts \<Longrightarrow> Parse_selector (show_selector ts) = Inr ts"
proof (cases ts)
  case Nil
  then show ?thesis by (simp add: Parse_selector_def show_selector_def trim_sel_def)
next
  case (Cons t us)
  assume wf: "list_all wf_term ts"
  then have "wf_term t" using Cons by simp
  then obtain c where "c \<in> set (show_term t)" "\<not> isSelectorSpace c" using show_term_visible by blast
  moreover have "set (show_term t) \<subseteq> set (show_selector ts)" using Cons by (cases us) (auto simp: show_selector_def)
  ultimately have "trim_sel (show_selector ts) \<noteq> []" using trim_sel_empty by blast
  then show ?thesis
    using splitTopLevel_show [OF wf] Cons parse_terms_show [OF wf] by (simp add: Parse_selector_def)
qed

section \<open>What the parser accepts\<close>

lemma set_values_wf: "set_values raw ps = Inr vs \<Longrightarrow> list_all valueOK vs \<and> length vs = length ps"
  by (induction ps arbitrary: vs)
    (auto simp: newParseError_def Let_def split: if_splits sum.splits)

lemma parseSet_wf: "parseSet raw = Inr t \<Longrightarrow> wf_term t"
proof -
  assume "parseSet raw = Inr t"
  then obtain key kd vs inner where t: "t = \<lparr>term_kind = kd, term_key = key, term_value = [], term_values = vs\<rparr>"
    and k: "keyOK key" "key \<noteq> reservedScopeNode" "kd = TermIn \<or> kd = TermNotIn"
    and vs: "set_values raw (split_on CHR '','' inner) = Inr vs"
    by (auto simp: parseSet_def newParseError_def Let_def split: option.splits if_splits list.splits sum.splits)
  have "vs \<noteq> []" using set_values_wf [OF vs] split_on_nonempty by fastforce
  then show ?thesis using t k set_values_wf [OF vs] by (auto simp: wf_term_def)
qed

lemma parseCompact_wf: "parseCompact raw = Inr t \<Longrightarrow> wf_term t"
  by (auto simp: parseCompact_def newParseError_def Let_def wf_term_def split: option.splits if_splits)

lemma parseSpaced_wf: "parseSpaced raw = Inr t \<Longrightarrow> wf_term t"
  by (auto simp: parseSpaced_def newParseError_def Let_def wf_term_def
      split: option.splits if_splits list.splits sum.splits)

lemma parseTerm_wf: "parseTerm raw = Inr t \<Longrightarrow> wf_term t"
  by (auto simp: parseTerm_def newParseError_def split: if_splits
      intro: parseSet_wf parseCompact_wf parseSpaced_wf)

lemma parse_terms_wf: "parse_terms raws = Inr ts \<Longrightarrow> list_all wf_term ts"
  by (induction raws arbitrary: ts) (auto split: sum.splits intro: parseTerm_wf)

text \<open>C31. The parser accepts exactly the well-formed selectors: what it returns is well formed, and the canonical
  text of a well-formed selector parses back to it.\<close>

theorem selector_round_trip:
  "list_all wf_term sel \<longleftrightarrow> (\<exists>s. Parse_selector s = Inr sel \<and> Parse_selector (show_selector sel) = Inr sel)"
  using parse_show_selector [of sel] by (auto simp: Parse_selector_def split: if_splits dest: parse_terms_wf)

text \<open>A selector only narrows: another term never adds a match.\<close>

lemma Matches_append: "Matches (s @ t) labels node f \<longleftrightarrow> Matches s labels node f \<and> Matches t labels node f"
  by (simp add: Matches_def)

end
