(* ===== verification/Stream.thy ===== *)
theory Stream
  imports EventLog Selector
begin

text \<open>
  The live event stream: the delivery predicate \<open>internal/events/filter.go\<close>, and the hub, the resume
  backlog and the wake-driven drain of \<open>internal/app/eventsse/eventsse.go\<close>, which both bindings share.
  A connection is opened under the hub's lock; afterwards appends and drains interleave in any order.
  What is proved: nothing outside the subscriber's visible set is ever named, and while a connection is
  open every event recorded after its starting point is delivered, covered by a gap marker, or awaiting one.
\<close>

section \<open>The delivery predicate\<close>

text \<open>A nil \<open>canRead\<close> is None; an empty schema set imposes nothing.\<close>

record Filter =
  canRead :: "(string \<Rightarrow> bool) option"
  flt_selector :: Selector
  inSubtree :: "(string \<Rightarrow> string \<Rightarrow> bool) option"
  flt_schemas :: "string set"

definition NewFilter ::
  "(string \<Rightarrow> bool) option \<Rightarrow> Selector \<Rightarrow> (string \<Rightarrow> string \<Rightarrow> bool) option \<Rightarrow> string list \<Rightarrow> Filter" where
  "NewFilter read sel sub schemas =
     \<lparr>canRead = read, flt_selector = sel, inSubtree = sub, flt_schemas = set schemas\<rparr>"

definition Visible :: "Filter \<Rightarrow> Envelope \<Rightarrow> bool" where
  "Visible f env = (case canRead f of None \<Rightarrow> False | Some r \<Rightarrow> r (env_scope_node env))"

definition Allows :: "Filter \<Rightarrow> Envelope \<Rightarrow> bool" where
  "Allows f env =
     (if (case canRead f of None \<Rightarrow> True | Some r \<Rightarrow> \<not> r (env_scope_node env)) then False
      else if flt_schemas f \<noteq> {} \<and> env_schema env \<notin> flt_schemas f then False
      else Matches (flt_selector f) Map.empty (env_scope_node env) (inSubtree f))"

lemma Allows_Visible: "Allows f env \<Longrightarrow> Visible f env"
  by (auto simp: Allows_def Visible_def split: option.splits if_splits)

section \<open>One connection's delivery state\<close>

datatype frame = EventFrame Envelope | GapMark GapFrame

record stream =
  considered :: string
  delivered :: string
  anchor :: string
  pending :: bool
  pendingFrom :: "string option"
  armed :: bool

definition newStream :: "string \<Rightarrow> stream" where
  "newStream a = \<lparr>considered = '''', delivered = '''', anchor = a, pending = False, pendingFrom = None,
                  armed = False\<rparr>"

definition lastKnownPoint :: "stream \<Rightarrow> string option" where
  "lastKnownPoint st =
     (if delivered st \<noteq> '''' then Some (delivered st)
      else if anchor st \<noteq> '''' then Some (anchor st)
      else None)"

definition markLoss :: "stream \<Rightarrow> stream" where
  "markLoss st = (if pending st then st else st\<lparr>pending := True, pendingFrom := lastKnownPoint st\<rparr>)"

definition resolveLoss :: "string \<Rightarrow> stream \<Rightarrow> GapFrame \<times> stream" where
  "resolveLoss toID st =
     (BufferExceededGap (pendingFrom st) toID, st\<lparr>pending := False, pendingFrom := None, armed := False\<rparr>)"

definition arm :: "stream \<Rightarrow> stream" where
  "arm st = (if pending st \<and> \<not> armed st then st\<lparr>armed := True\<rparr> else st)"

text \<open>
  A sink accepts or refuses a frame, given the frames it was handed before; a refused frame ends the
  delivery with an error.  The result is the stream, the frames accepted, whether anything was written,
  and whether a frame was refused.
\<close>

type_synonym sink = "frame list \<Rightarrow> frame \<Rightarrow> bool"

fun deliver_events ::
  "sink \<Rightarrow> Filter \<Rightarrow> Envelope list \<Rightarrow> stream \<Rightarrow> frame list \<Rightarrow> stream \<times> frame list \<times> bool" where
  "deliver_events sk flt [] st out = (st, out, False)"
| "deliver_events sk flt (env # envs) st out =
     (let st = st\<lparr>considered := env_id env\<rparr> in
      if \<not> Allows flt env then deliver_events sk flt envs st out
      else if \<not> sk out (EventFrame env) then (st, out, True)
      else deliver_events sk flt envs (st\<lparr>delivered := env_id env\<rparr>) (out @ [EventFrame env]))"

definition deliverBacklog ::
  "sink \<Rightarrow> Filter \<Rightarrow> string \<Rightarrow> ResumeOutcome \<Rightarrow> stream \<Rightarrow> stream \<times> frame list \<times> bool" where
  "deliverBacklog sk flt head outcome st =
     (case outcome_result outcome of
        Fresh \<Rightarrow> deliver_events sk flt (backlog outcome) (st\<lparr>considered := head\<rparr>) []
      | Resumed \<Rightarrow> deliver_events sk flt (backlog outcome) (st\<lparr>considered := anchor st\<rparr>) []
      | Gap \<Rightarrow>
          let g = GapMark (the (outcome_gap outcome)) in
          if \<not> sk [] g then (st, [], True)
          else deliver_events sk flt (backlog outcome) (st\<lparr>considered := resume_at outcome\<rparr>) [g])"

text \<open>The body of the drain loop, and the loop.\<close>

definition consider_env ::
  "sink \<Rightarrow> Filter \<Rightarrow> Envelope \<Rightarrow> stream \<Rightarrow> frame list \<Rightarrow> bool \<Rightarrow> stream \<times> frame list \<times> bool \<times> bool" where
  "consider_env sk flt env st out wrote =
     (let st = st\<lparr>considered := env_id env\<rparr>;
          loss = (pending st \<and> Visible flt env);
          (g, st') = resolveLoss (env_id env) st
      in if loss \<and> \<not> sk out (GapMark g) then (st', out, wrote, True)
         else
           let st = (if loss then st' else st);
               out = (if loss then out @ [GapMark g] else out);
               wrote = (wrote \<or> loss)
           in if \<not> Allows flt env then (st, out, wrote, False)
              else if \<not> sk out (EventFrame env) then (st, out, wrote, True)
              else (st\<lparr>delivered := env_id env\<rparr>, out @ [EventFrame env], True, False))"

fun drain_tail ::
  "sink \<Rightarrow> Filter \<Rightarrow> Envelope list \<Rightarrow> stream \<Rightarrow> frame list \<Rightarrow> bool \<Rightarrow> stream \<times> frame list \<times> bool \<times> bool" where
  "drain_tail sk flt [] st out wrote = (st, out, wrote, False)"
| "drain_tail sk flt (env # envs) st out wrote =
     (case consider_env sk flt env st out wrote of
        (st, out, wrote, failed) \<Rightarrow>
          if failed then (st, out, wrote, True) else drain_tail sk flt envs st out wrote)"

definition drainOnce ::
  "'l Log \<Rightarrow> 'l \<Rightarrow> sink \<Rightarrow> Filter \<Rightarrow> stream \<Rightarrow> frame list \<Rightarrow> stream \<times> frame list \<times> bool \<times> bool" where
  "drainOnce L l sk flt st out =
     (let evicted = log_EvictedAfter L l (considered st); tail = log_After L l (considered st);
          st = (if evicted then markLoss st else st)
      in case drain_tail sk flt tail st out False of
           (st, out, wrote, failed) \<Rightarrow> if failed then (st, out, wrote, True) else (arm st, out, wrote, False))"

section \<open>The hub and a session\<close>

text \<open>
  The hub with one subscriber: its log, the subscriber's wake flag (a channel of capacity one), the
  stream, the frames written so far and whether the connection is still open.
\<close>

record session =
  hub_log :: EventLog
  wake :: bool
  strm :: stream
  written :: "frame list"
  opened :: bool

definition hub_Append :: "Envelope \<Rightarrow> session \<Rightarrow> session" where
  "hub_Append env s = s\<lparr>hub_log := Append env (hub_log s), wake := True\<rparr>"

definition subscribe ::
  "EventLog \<Rightarrow> string \<Rightarrow> Filter \<Rightarrow> sink \<Rightarrow> ResumeError + session" where
  "subscribe l resumeFrom flt sk =
     (case ResolveVisible memory_log l resumeFrom (Some (Visible flt)) of
        Inl e \<Rightarrow> Inl e
      | Inr outcome \<Rightarrow>
          (case deliverBacklog sk flt (HeadID l) outcome (newStream resumeFrom) of
             (st, out, failed) \<Rightarrow>
               Inr \<lparr>hub_log = l, wake = False, strm = st, written = out, opened = (\<not> failed)\<rparr>))"

definition on_wake :: "Filter \<Rightarrow> sink \<Rightarrow> session \<Rightarrow> session" where
  "on_wake flt sk s =
     (case drainOnce memory_log (hub_log s) sk flt (strm s) (written s) of
        (st, out, wrote, failed) \<Rightarrow>
          s\<lparr>wake := False, strm := st, written := out, opened := (\<not> failed)\<rparr>)"

text \<open>
  A session over the history \<open>es0\<close> recorded before it was opened and the history \<open>es\<close> recorded since.
  Ids are recorded in increasing order, as the generator hands them out.
\<close>

inductive session_reaches ::
  "Filter \<Rightarrow> sink \<Rightarrow> int \<Rightarrow> string \<Rightarrow> Envelope list \<Rightarrow> Envelope list \<Rightarrow> session \<Rightarrow> bool"
  for flt sk r i es0 where
  subscribing: "subscribe (history r es0) i flt sk = Inr s \<Longrightarrow> session_reaches flt sk r i es0 [] s"
| recording: "session_reaches flt sk r i es0 es s \<Longrightarrow> env_id env \<noteq> [] \<Longrightarrow>
    \<forall>j \<in> ids (es0 @ es). j < env_id env \<Longrightarrow>
    session_reaches flt sk r i es0 (es @ [env]) (hub_Append env s)"
| waking: "session_reaches flt sk r i es0 es s \<Longrightarrow> opened s \<Longrightarrow> wake s \<Longrightarrow>
    session_reaches flt sk r i es0 es (on_wake flt sk s)"
| expiring: "session_reaches flt sk r i es0 es s \<Longrightarrow> opened s \<Longrightarrow> armed (strm s) \<Longrightarrow>
    session_reaches flt sk r i es0 es (s\<lparr>opened := False\<rparr>)"

section \<open>What the deliveries keep\<close>

text \<open>An event is accounted for: delivered, inside a gap marked, or inside a loss still to be marked.\<close>

definition after_point :: "string option \<Rightarrow> string \<Rightarrow> bool" where
  "after_point f i = (case f of None \<Rightarrow> True | Some x \<Rightarrow> x < i)"

definition covers :: "GapFrame \<Rightarrow> string \<Rightarrow> bool" where
  "covers g i \<longleftrightarrow> after_point (from_id g) i \<and> i < to_id g"

definition accounted :: "frame list \<Rightarrow> stream \<Rightarrow> Envelope \<Rightarrow> bool" where
  "accounted out st e \<longleftrightarrow>
     EventFrame e \<in> set out \<or> (\<exists>g. GapMark g \<in> set out \<and> covers g (env_id e)) \<or>
     (pending st \<and> after_point (pendingFrom st) (env_id e))"

text \<open>What a frame discloses must be visible.\<close>

definition discloses_visible :: "Filter \<Rightarrow> string set \<Rightarrow> frame \<Rightarrow> bool" where
  "discloses_visible flt known fr =
     (case fr of
        EventFrame e \<Rightarrow> Allows flt e
      | GapMark g \<Rightarrow> to_id g \<in> known)"

lemma deliver_events_out:
  "deliver_events sk flt envs st out = (st', out', failed) \<Longrightarrow> set out \<subseteq> set out'"
  by (induction sk flt envs st out rule: deliver_events.induct) (auto simp: Let_def split: if_splits)

lemma deliver_events_all:
  "deliver_events sk flt envs st out = (st', out', False) \<Longrightarrow>
     (\<forall>e \<in> set envs. Allows flt e \<longrightarrow> EventFrame e \<in> set out') \<and> pending st' = pending st \<and>
     pendingFrom st' = pendingFrom st \<and> anchor st' = anchor st \<and>
     considered st' = (if envs = [] then considered st else env_id (last envs))"
proof (induction sk flt envs st out rule: deliver_events.induct)
  case (2 sk flt env envs st out)
  then show ?case
    using deliver_events_out [of sk flt envs "st\<lparr>considered := env_id env, delivered := env_id env\<rparr>"
        "out @ [EventFrame env]" st' out' False]
    by (auto simp: Let_def split: if_splits)
qed simp

lemma deliver_events_shown:
  "deliver_events sk flt envs st out = (st', out', failed) \<Longrightarrow>
     anchor st' = anchor st \<and> (\<forall>fr \<in> set out'. fr \<in> set out \<or> discloses_visible flt K fr)"
proof (induction sk flt envs st out rule: deliver_events.induct)
  case (2 sk flt env envs st out)
  then show ?case by (fastforce simp: Let_def discloses_visible_def split: if_splits)
qed simp

lemma deliver_events_delivered:
  "deliver_events sk flt envs st out = (st', out', failed) \<Longrightarrow>
     sorted_wrt (<) (map env_id envs) \<Longrightarrow> (\<forall>e \<in> set envs. considered st \<le> env_id e) \<Longrightarrow>
     delivered st \<le> considered st \<Longrightarrow> delivered st' \<le> considered st' \<and> considered st \<le> considered st'"
proof (induction sk flt envs st out rule: deliver_events.induct)
  case (2 sk flt env envs st out)
  then have "considered st \<le> env_id env" "\<forall>e \<in> set envs. env_id env \<le> env_id e"
    "delivered st \<le> env_id env" by (auto simp: less_imp_le)
  with 2 show ?case by (auto simp: Let_def split: if_splits)
qed simp

lemma resolve_accounts:
  assumes "accounted out st e" "env_id e < i"
  shows "accounted (out @ [GapMark (fst (resolveLoss i st))]) (snd (resolveLoss i st)) e"
  using assms by (auto simp: accounted_def resolveLoss_def covers_def BufferExceededGap_def after_point_def)

lemma consider_env_cases:
  assumes "consider_env sk flt env st out w = (st', out', w', failed)"
  shows "considered st' = env_id env \<and> anchor st' = anchor st \<and> set out \<subseteq> set out' \<and>
    (\<forall>fr \<in> set out'. fr \<in> set out \<or> discloses_visible flt {i. Visible flt env \<and> i = env_id env} fr) \<and>
    (delivered st' = delivered st \<or> delivered st' = env_id env) \<and>
    (pendingFrom st' = pendingFrom st \<or> pendingFrom st' = None) \<and>
    (\<not> failed \<and> Allows flt env \<longrightarrow> EventFrame env \<in> set out') \<and>
    (\<forall>e. \<not> failed \<and> accounted out st e \<and> env_id e < env_id env \<longrightarrow> accounted out' st' e)"
proof -
  have acc: "accounted out st' e" if "accounted out st e" "pending st' = pending st" "pendingFrom st' = pendingFrom st"
    for e st' out using that by (simp add: accounted_def)
  have add: "accounted (out @ xs) st e" if "accounted out st e" for e st out xs
    using that by (auto simp: accounted_def)
  have gap: "accounted (out @ GapMark (BufferExceededGap (pendingFrom st) (env_id env)) # xs) st' e"
    if "accounted out st e" "env_id e < env_id env" for e st' xs
    using that by (auto simp: accounted_def covers_def BufferExceededGap_def after_point_def)
  show ?thesis
  proof (cases "pending st \<and> Visible flt env")
    case True
    let ?g = "GapMark (BufferExceededGap (pendingFrom st) (env_id env))"
    let ?st = "st\<lparr>considered := env_id env, pending := False, pendingFrom := None, armed := False\<rparr>"
    have "consider_env sk flt env st out w =
        (if \<not> sk out ?g then (?st, out, w, True)
         else if \<not> Allows flt env then (?st, out @ [?g], True, False)
         else if \<not> sk (out @ [?g]) (EventFrame env) then (?st, out @ [?g], True, True)
         else (?st\<lparr>delivered := env_id env\<rparr>, out @ [?g, EventFrame env], True, False))"
      using True by (simp add: consider_env_def Let_def resolveLoss_def)
    moreover have "discloses_visible flt {i. Visible flt env \<and> i = env_id env} ?g"
      using True by (simp add: discloses_visible_def BufferExceededGap_def)
    ultimately show ?thesis
      using assms True
      by (auto simp: gap gap [where xs = "[]", simplified] discloses_visible_def [of flt _ "EventFrame _"]
          split: if_splits)
  next
    case False
    then have "consider_env sk flt env st out w =
        (let st = st\<lparr>considered := env_id env\<rparr> in
         if \<not> Allows flt env then (st, out, w, False)
         else if \<not> sk out (EventFrame env) then (st, out, w, True)
         else (st\<lparr>delivered := env_id env\<rparr>, out @ [EventFrame env], True, False))"
      by (auto simp: consider_env_def Let_def resolveLoss_def)
    then show ?thesis
      using assms by (auto simp: Let_def discloses_visible_def acc add split: if_splits)
  qed
qed

lemma drain_tail_cases:
  assumes "drain_tail sk flt es st out w = (st', out', w', failed)" "sorted_wrt (<) (map env_id es)"
    "\<forall>x \<in> set es. considered st < env_id x"
  shows "anchor st' = anchor st \<and> set out \<subseteq> set out' \<and> considered st \<le> considered st' \<and>
    (\<forall>fr \<in> set out'. fr \<in> set out \<or> discloses_visible flt {i. \<exists>x \<in> set es. Visible flt x \<and> i = env_id x} fr) \<and>
    (delivered st \<le> considered st \<longrightarrow> delivered st' \<le> considered st') \<and>
    (pendingFrom st' = pendingFrom st \<or> pendingFrom st' = None) \<and>
    (\<not> failed \<longrightarrow> considered st' = (if es = [] then considered st else env_id (last es)) \<and>
       (\<forall>x \<in> set es. Allows flt x \<longrightarrow> EventFrame x \<in> set out') \<and>
       (\<forall>e. accounted out st e \<and> (\<forall>x \<in> set es. env_id e < env_id x) \<longrightarrow> accounted out' st' e))"
  using assms
proof (induction es arbitrary: st out w)
  case (Cons env es)
  obtain st1 out1 w1 f1 where c: "consider_env sk flt env st out w = (st1, out1, w1, f1)"
    by (cases "consider_env sk flt env st out w")
  note c1 = consider_env_cases [OF c]
  have sub: "discloses_visible flt {i. \<exists>x \<in> set (env # es). Visible flt x \<and> i = env_id x} fr"
    if "discloses_visible flt {i. Visible flt env \<and> i = env_id env} fr \<or>
      discloses_visible flt {i. \<exists>x \<in> set es. Visible flt x \<and> i = env_id x} fr" for fr
    using that by (auto simp: discloses_visible_def split: frame.splits)
  show ?case
  proof (cases f1)
    case True
    then have r: "st' = st1" "out' = out1" "failed" using Cons.prems(1) c by auto
    have "considered st \<le> considered st1" "delivered st \<le> considered st \<longrightarrow> delivered st1 \<le> considered st1"
      using c1 Cons.prems(3) by (simp add: less_imp_le, metis list.set_intros(1) order.order_iff_strict order.trans)
    moreover have "\<forall>fr \<in> set out1. fr \<in> set out \<or>
        discloses_visible flt {i. \<exists>x \<in> set (env # es). Visible flt x \<and> i = env_id x} fr"
      using c1 sub by blast
    ultimately show ?thesis using c1 r by simp
  next
    case False
    have d: "drain_tail sk flt es st1 out1 w1 = (st', out', w', failed)" using Cons.prems(1) c False by simp
    have srt: "sorted_wrt (<) (map env_id es)" "\<forall>x \<in> set es. considered st1 < env_id x"
      using Cons.prems(2) c1 by simp_all
    note IH = Cons.IH [OF d srt]
    show ?thesis
    proof (intro conjI impI)
      have "considered st \<le> considered st1" using c1 Cons.prems(3) by (simp add: less_imp_le)
      then show "considered st \<le> considered st'" using IH by (meson order_trans)
      show "\<forall>fr \<in> set out'. fr \<in> set out \<or>
          discloses_visible flt {i. \<exists>x \<in> set (env # es). Visible flt x \<and> i = env_id x} fr"
        using c1 IH sub by blast
      show "anchor st' = anchor st" using c1 IH by simp
      show "set out \<subseteq> set out'" using c1 IH by (meson subset_trans)
      show "pendingFrom st' = pendingFrom st \<or> pendingFrom st' = None"
        using c1 IH by metis
      show "delivered st' \<le> considered st'" if "delivered st \<le> considered st"
      proof -
        have "delivered st1 \<le> considered st1"
          using that c1 \<open>considered st \<le> considered st1\<close> by (metis order_refl order_trans)
        then show ?thesis using IH by blast
      qed
      assume nf: "\<not> failed"
      show "considered st' = (if env # es = [] then considered st else env_id (last (env # es)))"
        using IH nf c1 by simp
      show "\<forall>x \<in> set (env # es). Allows flt x \<longrightarrow> EventFrame x \<in> set out'"
        using IH nf c1 False by (metis set_ConsD subsetD)
      show "\<forall>e. accounted out st e \<and> (\<forall>x \<in> set (env # es). env_id e < env_id x) \<longrightarrow> accounted out' st' e"
        using IH nf c1 False by (metis list.set_intros(1,2))
    qed
  qed
qed simp

section \<open>A session accounts for everything\<close>

definition start_of :: "int \<Rightarrow> string \<Rightarrow> Envelope list \<Rightarrow> string" where
  "start_of r i es0 = (if i = [] then HeadID (history r es0) else i)"

definition recorded :: "Envelope list \<Rightarrow> Envelope set" where
  "recorded es = first_recorded es ` ids es"

definition seen_ids :: "Filter \<Rightarrow> Envelope list \<Rightarrow> string set" where
  "seen_ids flt es = {env_id x | x. x \<in> set es \<and> Visible flt x}"

definition live_inv :: "Filter \<Rightarrow> int \<Rightarrow> string \<Rightarrow> Envelope list \<Rightarrow> Envelope list \<Rightarrow> session \<Rightarrow> bool" where
  "live_inv flt r i es0 es s \<longleftrightarrow>
     (let st = strm s; start = start_of r i es0; all = es0 @ es in
      start \<le> considered st \<and> delivered st \<le> considered st \<and> i \<le> considered st \<and>
      (considered st = [] \<or> considered st \<in> ids all) \<and>
      (\<forall>x. pendingFrom st = Some x \<longrightarrow> x \<le> considered st) \<and>
      (\<not> wake s \<longrightarrow> (\<forall>j \<in> ids all. j \<le> considered st)) \<and>
      (\<forall>e \<in> recorded all. Allows flt e \<longrightarrow> start < env_id e \<longrightarrow> env_id e \<le> considered st \<longrightarrow>
         accounted (written s) st e))"

definition session_inv :: "Filter \<Rightarrow> int \<Rightarrow> string \<Rightarrow> Envelope list \<Rightarrow> Envelope list \<Rightarrow> session \<Rightarrow> bool" where
  "session_inv flt r i es0 es s \<longleftrightarrow>
     hub_log s = history r (es0 @ es) \<and> anchor (strm s) = i \<and>
     (\<forall>fr \<in> set (written s). discloses_visible flt (seen_ids flt (es0 @ es)) fr) \<and>
     (opened s \<longrightarrow> live_inv flt r i es0 es s)"

lemma recorded_mem: "e \<in> recorded es \<Longrightarrow> e \<in> set es \<and> env_id e \<in> ids es \<and> first_recorded es (env_id e) = e"
  by (auto simp: recorded_def first_recorded_id)

lemma discloses_mono: "discloses_visible flt A fr \<Longrightarrow> A \<subseteq> B \<Longrightarrow> discloses_visible flt B fr"
  by (auto simp: discloses_visible_def split: frame.splits)

lemma first_recorded_snoc:
  "first_recorded (es @ [e]) j = (if j \<in> ids es then first_recorded es j else the (find (\<lambda>x. env_id x = j) [e]))"
proof (cases "j \<in> ids es")
  case True
  then have "find (\<lambda>e. env_id e = j) es \<noteq> None" by (auto simp: ids_def find_None_iff)
  with True show ?thesis by (auto simp: first_recorded_def find_append)
next
  case False
  then have "find (\<lambda>e. env_id e = j) es = None" by (auto simp: ids_def find_None_iff image_iff)
  with False show ?thesis by (auto simp: first_recorded_def find_append)
qed

lemma recorded_snoc:
  "\<forall>j \<in> ids es. j < env_id e \<Longrightarrow> recorded (es @ [e]) = insert e (recorded es)"
  by (auto simp: recorded_def ids_snoc first_recorded_snoc)

lemma inv_recording:
  assumes "session_inv flt r i es0 es s" "env_id env \<noteq> []" "\<forall>j \<in> ids (es0 @ es). j < env_id env"
  shows "session_inv flt r i es0 (es @ [env]) (hub_Append env s)"
proof -
  have h: "hub_log (hub_Append env s) = history r (es0 @ es @ [env])"
    using assms(1) by (simp add: hub_Append_def history_def session_inv_def)
  have seen: "seen_ids flt (es0 @ es) \<subseteq> seen_ids flt (es0 @ es @ [env])" by (auto simp: seen_ids_def)
  have rec: "recorded (es0 @ es @ [env]) = insert env (recorded (es0 @ es))"
    using recorded_snoc [OF assms(3)] by simp
  have idsn: "ids (es0 @ es @ [env]) = insert (env_id env) (ids (es0 @ es))"
    using ids_snoc [of "es0 @ es" env] by simp
  have "live_inv flt r i es0 (es @ [env]) (hub_Append env s)" if "live_inv flt r i es0 es s"
  proof -
    have "[] < env_id env" using assms(2) by (cases "env_id env") simp_all
    then have "considered (strm s) < env_id env" using that assms(3) by (auto simp: live_inv_def Let_def)
    then show ?thesis using that by (auto simp: live_inv_def Let_def hub_Append_def rec idsn)
  qed
  then show ?thesis
    using assms(1) h seen by (auto simp: session_inv_def hub_Append_def intro: discloses_mono)
qed

lemma mark_accounts: "accounted out st e \<Longrightarrow> accounted out (markLoss st) e"
  by (auto simp: accounted_def markLoss_def)

lemma lastKnownPoint_le:
  "lastKnownPoint st = Some x \<Longrightarrow> delivered st \<le> c \<Longrightarrow> anchor st \<le> c \<Longrightarrow> x \<le> c"
  by (auto simp: lastKnownPoint_def split: if_splits)

lemma last_tail_max:
  assumes "j \<in> ids es" "c < j"
  shows "After (history r es) c \<noteq> [] \<and> j \<le> env_id (last (After (history r es) c))"
proof -
  let ?h = "HeadID (history r es)" and ?T = "filter (\<lambda>j. c < j) (kept_ids r (ids es))"
  have h: "?h \<in> set ?T" "j \<le> ?h" using HeadID_max [OF assms(1), of r] assms(2) by auto
  then have ne: "?T \<noteq> []" by force
  have "sorted ?T" using kept_sorted [of r "ids es"] sorted_wrt_filter strict_sorted_imp_sorted by blast
  then have "?h \<le> last ?T" using le_last_sorted h(1) by blast
  moreover have "env_id (last (After (history r es) c)) = last ?T"
    using ne last_in_set [OF ne] kept_in_ids first_recorded_id(2) by (auto simp: After_history last_map)
  ultimately show ?thesis using h(2) ne by (auto simp: After_history)
qed

lemma inv_waking:
  assumes inv: "session_inv flt r i es0 es s" and op: "opened s"
  shows "session_inv flt r i es0 es (on_wake flt sk s)"
proof -
  let ?all = "es0 @ es" and ?c = "considered (strm s)" and ?l = "history r (es0 @ es)"
  let ?K = "kept_ids r (ids ?all)" and ?T = "After ?l ?c"
  define st0 where "st0 = (if EvictedAfter ?l ?c then markLoss (strm s) else strm s)"
  have l: "hub_log s = ?l" and live: "live_inv flt r i es0 es s" and an: "anchor (strm s) = i"
    using inv op by (auto simp: session_inv_def)
  obtain st out w failed where d: "drain_tail sk flt ?T st0 (written s) False = (st, out, w, failed)"
    by (cases "drain_tail sk flt ?T st0 (written s) False")
  have ow: "on_wake flt sk s =
      s\<lparr>wake := False, strm := (if failed then st else arm st), written := out, opened := (\<not> failed)\<rparr>"
    using d by (simp add: on_wake_def drainOnce_def Let_def memory_log_def l st0_def)
  have c0: "considered st0 = ?c" "anchor st0 = i" "delivered st0 = delivered (strm s)"
    using an by (auto simp: st0_def markLoss_def)
  have T: "?T = map (first_recorded ?all) (filter (\<lambda>j. ?c < j) ?K)" by (rule After_history)
  have Tids: "env_id x \<in> set ?K \<and> ?c < env_id x \<and> x \<in> set ?all" if "x \<in> set ?T" for x
  proof -
    from that obtain j where j: "x = first_recorded ?all j" "?c < j" "j \<in> set ?K" by (auto simp: T)
    show ?thesis using first_recorded_id [OF kept_in_ids [OF j(3)]] j by simp
  qed
  have Tsorted: "sorted_wrt (<) (map env_id ?T)"
    using memory.entries_sorted [OF history_ordered, of r ?all]
    by (simp add: After_filter history_ordered sorted_wrt_map sorted_wrt_filter)
  note D = drain_tail_cases [OF d Tsorted, unfolded c0]
  have above: "\<forall>x \<in> set ?T. ?c < env_id x" using Tids by blast
  note D = D [OF above]
  have arm_same: "considered (arm st) = considered st" "anchor (arm st) = anchor st"
    "delivered (arm st) = delivered st" "pendingFrom (arm st) = pendingFrom st"
    "accounted out (arm st) e = accounted out st e" for e
    by (simp_all add: arm_def accounted_def)
  have sub: "{j. \<exists>x \<in> set ?T. Visible flt x \<and> j = env_id x} \<subseteq> seen_ids flt ?all"
    using Tids unfolding seen_ids_def by blast
  have shown: "\<forall>fr \<in> set out. discloses_visible flt (seen_ids flt ?all) fr"
  proof
    fix fr assume "fr \<in> set out"
    then have "fr \<in> set (written s) \<or> discloses_visible flt {j. \<exists>x \<in> set ?T. Visible flt x \<and> j = env_id x} fr"
      using D by blast
    then show "discloses_visible flt (seen_ids flt ?all) fr"
      using discloses_mono [OF _ sub] inv by (auto simp: session_inv_def)
  qed
  have live': "live_inv flt r i es0 es (on_wake flt sk s)" if nf: "\<not> failed"
  proof -
    note L = live [unfolded live_inv_def Let_def]
    have c1: "considered st = (if ?T = [] then ?c else env_id (last ?T))" using D nf by auto
    have pf0: "\<forall>x. pendingFrom st0 = Some x \<longrightarrow> x \<le> ?c"
      using L an lastKnownPoint_le [of "strm s"] by (auto simp: st0_def markLoss_def)
    have in_ids: "considered st = [] \<or> considered st \<in> ids ?all"
      using L c1 Tids kept_in_ids last_in_set by (metis (no_types, lifting))
    have top: "\<forall>j \<in> ids ?all. j \<le> considered st"
    proof
      fix j assume j: "j \<in> ids ?all"
      have "?c \<le> considered st" using D by blast
      then show "j \<le> considered st"
        using last_tail_max [OF j, of ?c r] c1 by (cases "?c < j") auto
    qed
    have acc: "accounted out st e"
      if e: "e \<in> recorded ?all" "Allows flt e" "start_of r i es0 < env_id e" for e
    proof -
      note m = recorded_mem [OF e(1)]
      have keep: "accounted out st e" if "accounted (written s) st0 e" "\<forall>x \<in> set ?T. env_id e < env_id x"
        using that D nf by blast
      consider (old) "env_id e \<le> ?c" | (kept) "?c < env_id e" "env_id e \<in> set ?K"
        | (dropped) "?c < env_id e" "env_id e \<in> set (dropped_ids r (ids ?all))" "\<forall>k \<in> set ?K. env_id e < k"
        using kept_or_dropped [of "env_id e" ?all r] m not_le by blast
      then show ?thesis
      proof cases
        case old
        then have "accounted (written s) (strm s) e" using L e by blast
        then have "accounted (written s) st0 e" by (simp add: st0_def mark_accounts)
        then show ?thesis using keep old above by (meson le_less_trans)
      next
        case kept
        then have "e \<in> set ?T" using m by (force simp: T)
        then show ?thesis using D nf e(2) by (auto simp: accounted_def)
      next
        case dropped
        then have "st0 = markLoss (strm s)" using EvictedAfter_history by (auto simp: st0_def)
        then have "pending st0" by (simp add: markLoss_def)
        moreover have "after_point (pendingFrom st0) (env_id e)"
          using pf0 dropped(1) by (auto simp: after_point_def split: option.split)
        ultimately have "accounted (written s) st0 e" by (simp add: accounted_def)
        then show ?thesis using keep dropped(3) Tids by blast
      qed
    qed
    have cst: "?c \<le> considered st" using D by blast
    have "pendingFrom st = pendingFrom st0 \<or> pendingFrom st = None" using D by (elim conjE) assumption
    note cst this
    moreover have "delivered st \<le> considered st" using D L by blast
    moreover have "start_of r i es0 \<le> considered st" by (rule order_trans [OF _ cst]) (use L in simp)
    moreover have "i \<le> considered st" by (rule order_trans [OF _ cst]) (use L in simp)
    moreover have "x \<le> considered st" if "pendingFrom st = Some x" for x
      by (rule order_trans [OF _ cst]) (use calculation(2) that pf0 in auto)
    ultimately show ?thesis
      using nf in_ids top acc unfolding live_inv_def Let_def ow by (simp add: arm_same)
  qed
  show ?thesis
    using shown live' l D by (auto simp: session_inv_def ow arm_same)
qed


lemma sorted_ids_map:
  assumes "set js \<subseteq> ids es" "sorted_wrt (<) js"
  shows "sorted_wrt (<) (map env_id (map (first_recorded es) js))"
proof -
  have "map env_id (map (first_recorded es) js) = js"
    using assms(1) first_recorded_id(2) by (auto simp: comp_def intro!: map_idI)
  then show ?thesis using assms(2) by simp
qed

text \<open>The backlog of an outcome, seen from a point \<open>c\<close> that is recorded or the empty id: all of the history above it.\<close>

lemma backlog_delivers:
  assumes d: "deliver_events sk flt (map (first_recorded es) js) st out = (st', out', False)"
    and js: "js = filter P (sorted_list_of_set (ids es))" "\<forall>j. c < j \<longrightarrow> P j" "\<forall>j. P j \<longrightarrow> c \<le> j"
    and st: "considered st = c" "c \<in> ids es" "delivered st = []"
  shows "c \<le> considered st' \<and> considered st' \<in> ids es \<and> delivered st' \<le> considered st' \<and>
    (\<forall>j \<in> ids es. j \<le> considered st') \<and>
    (\<forall>e \<in> recorded es. Allows flt e \<longrightarrow> P (env_id e) \<longrightarrow> EventFrame e \<in> set out')"
proof -
  have sub: "set js \<subseteq> ids es" by (auto simp: js(1) ids_def)
  have srt: "sorted_wrt (<) js" by (simp add: js(1) sorted_wrt_filter)
  have srt': "sorted_wrt (<) (map env_id (map (first_recorded es) js))" by (rule sorted_ids_map [OF sub srt])
  have ge: "\<forall>e \<in> set (map (first_recorded es) js). considered st \<le> env_id e"
    using js(3) sub st(1) by (auto simp: js(1) first_recorded_id(2))
  note A = deliver_events_all [OF d] and B = deliver_events_delivered [OF d srt' ge]
  have c1: "considered st' = (if js = [] then c else last js)"
  proof (cases "js = []")
    case False
    then have "last js \<in> ids es" using sub by auto
    then show ?thesis using A False by (simp add: last_map first_recorded_id(2))
  qed (use A st(1) in simp)
  have top: "j \<le> considered st'" if "j \<in> ids es" for j
  proof (cases "c < j")
    case True
    then have "j \<in> set js" using js(2) that by (simp add: js(1) ids_def)
    moreover have "sorted js" using srt strict_sorted_imp_sorted by blast
    ultimately show ?thesis using le_last_sorted c1 by fastforce
  next
    case False
    then have "j \<le> c" by simp
    also have "c \<le> considered st'" using B st(1,3) by simp
    finally show ?thesis .
  qed
  have "considered st' \<in> ids es" using c1 sub st(2) last_in_set [of js] by (auto split: if_splits)
  moreover have "\<forall>e \<in> recorded es. Allows flt e \<longrightarrow> P (env_id e) \<longrightarrow> EventFrame e \<in> set out'"
  proof (intro ballI impI)
    fix e assume e: "e \<in> recorded es" "Allows flt e" "P (env_id e)"
    then have "e \<in> set (map (first_recorded es) js)"
      using recorded_mem [OF e(1)] by (force simp: js(1) ids_def)
    then show "EventFrame e \<in> set out'" using A e(2) by blast
  qed
  ultimately show ?thesis using top B st by simp
qed

lemma inv_subscribing:
  assumes "subscribe (history r es0) i flt sk = Inr s"
  shows "session_inv flt r i es0 [] s"
proof -
  let ?l = "history r es0" and ?st = "newStream i"
  obtain outcome where o: "ResolveVisible memory_log ?l i (Some (Visible flt)) = Inr outcome"
    using assms by (auto simp: subscribe_def split: sum.splits)
  obtain st out failed where d: "deliverBacklog sk flt (HeadID ?l) outcome ?st = (st, out, failed)"
    by (cases "deliverBacklog sk flt (HeadID ?l) outcome ?st")
  have s: "s = \<lparr>hub_log = ?l, wake = False, strm = st, written = out, opened = (\<not> failed)\<rparr>"
    using assms o d by (simp add: subscribe_def)
  show ?thesis
  proof (cases "i = []")
    case True
    then have "outcome_result outcome = Fresh" "backlog outcome = []"
      using o by (auto simp: ResolveVisible_def)
    then have st: "st = ?st\<lparr>considered := HeadID ?l\<rparr>" "out = []" "\<not> failed"
      using d by (auto simp: deliverBacklog_def)
    have h: "HeadID ?l = [] \<or> HeadID ?l \<in> ids es0"
    proof (cases "ids es0 = {}")
      case True
      then have "es0 = []" by (simp add: ids_def)
      then show ?thesis by (simp add: history_def NewEventLog_def HeadID_def)
    qed (use HeadID_max(2) kept_in_ids in blast)
    then show ?thesis
      using True st HeadID_max(1) [of _ es0 r]
      by (auto simp: session_inv_def live_inv_def s newStream_def start_of_def Let_def)
  next
    case False
    note R = resume_outcome [OF o, simplified, OF False]
    show ?thesis
    proof (cases "outcome_result outcome")
      case Fresh
      then show ?thesis using R by simp
    next
      case Resumed
      then have i: "i \<in> ids es0"
        and b: "backlog outcome = map (first_recorded es0) (filter (\<lambda>j. i < j) (sorted_list_of_set (ids es0)))"
        using R by auto
      have d': "deliver_events sk flt (backlog outcome) (?st\<lparr>considered := i\<rparr>) [] = (st, out, failed)"
        using d Resumed by (simp add: deliverBacklog_def newStream_def)
      have "live_inv flt r i es0 [] s" if "\<not> failed"
      proof -
        have d2: "deliver_events sk flt (backlog outcome) (?st\<lparr>considered := i\<rparr>) [] = (st, out, False)"
          using d' that by simp
        have BD: "i \<le> considered st \<and> considered st \<in> ids es0 \<and> delivered st \<le> considered st \<and>
            (\<forall>j \<in> ids es0. j \<le> considered st) \<and>
            (\<forall>e \<in> recorded es0. Allows flt e \<longrightarrow> i < env_id e \<longrightarrow> EventFrame e \<in> set out)"
          by (rule backlog_delivers [OF d2 [unfolded b] refl]) (use i in \<open>auto simp: newStream_def\<close>)
        then show ?thesis
          using False deliver_events_all [OF d2]
          by (simp add: live_inv_def s start_of_def Let_def newStream_def accounted_def)
      qed
      then show ?thesis
        using deliver_events_shown [OF d', of "seen_ids flt es0"] by (auto simp: session_inv_def s newStream_def)
    next
      case Gap
      let ?a = "resume_at outcome" and ?g = "GapMark (the (outcome_gap outcome))"
      have R': "i < ?a" "Visible flt (first_recorded es0 ?a)" "?a \<in> ids es0"
        "outcome_gap outcome = Some \<lparr>from_id = Some i, to_id = ?a, gap_reason = ''retention_expired''\<rparr>"
        "backlog outcome = map (first_recorded es0) (filter (\<lambda>j. ?a \<le> j) (sorted_list_of_set (ids es0)))"
        using R Gap by auto
      have g: "discloses_visible flt (seen_ids flt es0) ?g"
        using R'(2-4) first_recorded_id [OF R'(3)]
        by (auto simp: discloses_visible_def seen_ids_def intro: exI [of _ "first_recorded es0 (resume_at outcome)"])
      show ?thesis
      proof (cases "sk [] ?g")
        case False
        then have "st = ?st" "out = []" "failed" using d Gap by (auto simp: deliverBacklog_def)
        then show ?thesis by (simp add: session_inv_def s newStream_def)
      next
        case True
        then have d': "deliver_events sk flt (backlog outcome) (?st\<lparr>considered := ?a\<rparr>) [?g] = (st, out, failed)"
          using d Gap by (simp add: deliverBacklog_def)
        have gin: "?g \<in> set out" using deliver_events_out [OF d'] by simp
        have "live_inv flt r i es0 [] s" if "\<not> failed"
        proof -
          have d2: "deliver_events sk flt (backlog outcome) (?st\<lparr>considered := ?a\<rparr>) [?g] = (st, out, False)"
            using d' that by simp
          have BD: "?a \<le> considered st \<and> considered st \<in> ids es0 \<and> delivered st \<le> considered st \<and>
              (\<forall>j \<in> ids es0. j \<le> considered st) \<and>
              (\<forall>e \<in> recorded es0. Allows flt e \<longrightarrow> ?a \<le> env_id e \<longrightarrow> EventFrame e \<in> set out)"
            by (rule backlog_delivers [OF d2 [unfolded R'(5)] refl]) (use R'(3) in \<open>auto simp: newStream_def\<close>)
          have acc: "accounted out st e" if e: "e \<in> recorded es0" "Allows flt e" "i < env_id e" for e
          proof (cases "env_id e < ?a")
            case True
            then have "covers (the (outcome_gap outcome)) (env_id e)"
              using e(3) R'(4) by (simp add: covers_def after_point_def)
            then show ?thesis using gin by (auto simp: accounted_def)
          next
            case False
            then show ?thesis using BD e(1,2) by (simp add: accounted_def)
          qed
          show ?thesis
            using BD R'(1) acc \<open>i \<noteq> []\<close> deliver_events_all [OF d2]
            by (auto simp: live_inv_def s start_of_def Let_def newStream_def intro: order_trans less_imp_le)
        qed
        then show ?thesis
          using deliver_events_shown [OF d', of "seen_ids flt es0"] g by (auto simp: session_inv_def s newStream_def)
      qed
    qed
  qed
qed

lemma session_reaches_inv:
  "session_reaches flt sk r i es0 es s \<Longrightarrow> session_inv flt r i es0 es s"
proof (induction rule: session_reaches.induct)
  case (subscribing s)
  then show ?case by (rule inv_subscribing)
next
  case (recording es s env)
  then show ?case by (intro inv_recording)
next
  case (waking es s)
  then show ?case by (intro inv_waking)
next
  case (expiring es s)
  then show ?case by (simp add: session_inv_def)
qed



definition demo_filter :: Filter where
  "demo_filter = NewFilter (Some (\<lambda>n. n = ''n'')) [] None []"

definition demo_sink :: sink where
  "demo_sink out fr = True"

definition demo_a :: Envelope where "demo_a = demo_envelope (demo_ulid CHR ''1'') ''n''"

definition demo_b :: Envelope where "demo_b = demo_envelope (demo_ulid CHR ''2'') ''n''"

definition demo_opened :: session where
  "demo_opened = \<lparr>hub_log = NewEventLog 1, wake = False, strm = newStream '''', written = [], opened = True\<rparr>"

definition demo_session :: session where
  "demo_session = on_wake demo_filter demo_sink (hub_Append demo_b (hub_Append demo_a demo_opened))"

lemma demo_reaches: "session_reaches demo_filter demo_sink 1 '''' [] [demo_a, demo_b] demo_session"
proof -
  have "subscribe (history 1 []) '''' demo_filter demo_sink = Inr demo_opened" by code_simp
  then have 1: "session_reaches demo_filter demo_sink 1 '''' [] [] demo_opened" by (rule subscribing)
  have 2: "session_reaches demo_filter demo_sink 1 '''' [] ([] @ [demo_a]) (hub_Append demo_a demo_opened)"
    by (rule recording [OF 1]; code_simp)
  have 3: "session_reaches demo_filter demo_sink 1 '''' [] (([] @ [demo_a]) @ [demo_b])
      (hub_Append demo_b (hub_Append demo_a demo_opened))"
    by (rule recording [OF 2]; code_simp)
  show ?thesis
    unfolding demo_session_def
    by (rule waking [OF 3, simplified]) (simp_all add: hub_Append_def demo_opened_def)
qed

text \<open>With a horizon of one, the first of two events recorded between two drains is lost, and a gap marks it.\<close>

lemma demo_written:
  "written demo_session =
     [GapMark \<lparr>from_id = None, to_id = demo_ulid CHR ''2'', gap_reason = ''buffer_exceeded''\<rparr>, EventFrame demo_b]"
  by code_simp

lemma demo_open: "opened demo_session" "\<not> wake demo_session"
  by code_simp+



end
