(* ===== verification/Access.thy ===== *)
theory Access
  imports ScopeTree Stream
begin

text \<open>
  Role bindings, \<open>internal/app/auth/role.go\<close>, and the delivery filter of a principal,
  \<open>filterFor\<close> in \<open>internal/app/eventsse/eventsse.go\<close>: the role at a node is that of the nearest ancestor
  carrying a binding, write authority implies read authority, and a subscriber's filter reads nothing its
  bindings do not reach.
\<close>

type_synonym Role = string

definition roleRank :: "Role \<rightharpoonup> nat" where
  "roleRank = [''viewer'' \<mapsto> 1, ''operator'' \<mapsto> 2, ''admin'' \<mapsto> 3, ''owner'' \<mapsto> 4]"

definition ValidRole :: "Role \<Rightarrow> bool" where
  "ValidRole r \<longleftrightarrow> roleRank r \<noteq> None"

definition AtLeast :: "Role \<Rightarrow> Role \<Rightarrow> bool" where
  "AtLeast r mn =
     (case roleRank r of None \<Rightarrow> False
      | Some have \<Rightarrow> (case roleRank mn of None \<Rightarrow> False | Some want \<Rightarrow> want \<le> have))"

definition RootScopeNode :: string where
  "RootScopeNode = ''*''"

record Binding =
  b_id :: string
  b_principal :: string
  b_node :: string
  b_role :: Role
  b_created :: int

definition add_binding :: "Binding \<Rightarrow> (string \<rightharpoonup> Role) \<Rightarrow> (string \<rightharpoonup> Role)" where
  "add_binding b m =
     (case m (b_node b) of
        Some cur \<Rightarrow> if AtLeast cur (b_role b) then m else m(b_node b \<mapsto> b_role b)
      | None \<Rightarrow> m(b_node b \<mapsto> b_role b))"

fun first_bound :: "(string \<rightharpoonup> Role) \<Rightarrow> string list \<Rightarrow> Role option" where
  "first_bound m [] = m RootScopeNode"
| "first_bound m (node # nodes) = (case m node of Some r \<Rightarrow> Some r | None \<Rightarrow> first_bound m nodes)"

definition Resolve_role :: "Binding list \<Rightarrow> string list \<Rightarrow> Role option" where
  "Resolve_role bindings ancestors = first_bound (fold add_binding bindings Map.empty) ancestors"

definition CanRead :: "Binding list \<Rightarrow> string list \<Rightarrow> bool" where
  "CanRead bindings ancestors =
     (case Resolve_role bindings ancestors of None \<Rightarrow> False | Some r \<Rightarrow> AtLeast r ''viewer'')"

definition CanWrite :: "Binding list \<Rightarrow> string list \<Rightarrow> bool" where
  "CanWrite bindings ancestors =
     (case Resolve_role bindings ancestors of None \<Rightarrow> False | Some r \<Rightarrow> AtLeast r ''operator'')"

text \<open>\<open>best\<close> is None until a recognised role is found.\<close>

definition better_role :: "Binding \<Rightarrow> Role option \<Rightarrow> Role option" where
  "better_role b best =
     (if \<not> ValidRole (b_role b) then best
      else case best of None \<Rightarrow> Some (b_role b)
           | Some r \<Rightarrow> if AtLeast (b_role b) r then Some (b_role b) else best)"

definition Effective :: "Binding list \<Rightarrow> Role option" where
  "Effective bindings = fold better_role bindings None"

definition RequiredRole :: "string \<Rightarrow> Role" where
  "RequiredRole method = (if method \<in> {''GET'', ''HEAD'', ''OPTIONS''} then ''viewer'' else ''operator'')"

definition isMutatingMethod :: "string \<Rightarrow> bool" where
  "isMutatingMethod method \<longleftrightarrow> method \<notin> {''GET'', ''HEAD'', ''OPTIONS''}"

text \<open>The filter of a principal over the nodes the platform holds; \<open>canRead\<close> is memoised there, which a pure
  function need not be.\<close>

definition filterFor :: "ScopeNode list \<Rightarrow> Binding list \<Rightarrow> Selector \<Rightarrow> string list \<Rightarrow> Filter" where
  "filterFor nodes bindings sel schemas =
     (let t = fst (BuildScopeTree nodes) in
      NewFilter (Some (\<lambda>node. CanRead bindings (AncestorChain t node))) sel
        (Some (\<lambda>ancestor node. ancestor \<noteq> node \<and> ancestor \<in> set (AncestorChain t node))) schemas)"

section \<open>The nearest binding\<close>

text \<open>The strongest of the roles bound at a node.\<close>

definition strongest_at :: "Binding list \<Rightarrow> string \<Rightarrow> Role option" where
  "strongest_at bindings node = Effective (filter (\<lambda>b. b_node b = node) bindings)"

lemma roleRank_inj: "roleRank r = Some k \<Longrightarrow> roleRank s = Some k \<Longrightarrow> r = s"
  by (auto simp: roleRank_def split: if_splits)

lemma AtLeast_antisym: "AtLeast r s \<Longrightarrow> AtLeast s r \<Longrightarrow> r = s"
  by (auto simp: AtLeast_def split: option.splits dest: roleRank_inj)

lemma AtLeast_total: "ValidRole r \<Longrightarrow> ValidRole s \<Longrightarrow> AtLeast r s \<or> AtLeast s r"
  by (auto simp: AtLeast_def ValidRole_def)

lemma AtLeast_trans: "AtLeast r s \<Longrightarrow> AtLeast s u \<Longrightarrow> AtLeast r u"
  by (auto simp: AtLeast_def split: option.splits)

lemma fold_bindings_at:
  assumes "\<forall>b \<in> set bs. ValidRole (b_role b)" "\<forall>r. m node = Some r \<longrightarrow> ValidRole r"
  shows "fold add_binding bs m node = fold better_role (filter (\<lambda>b. b_node b = node) bs) (m node)"
  using assms
proof (induction bs arbitrary: m)
  case (Cons b bs)
  have "add_binding b m node = (if b_node b = node then better_role b (m node) else m node)"
  proof (cases "b_node b = node")
    case True
    then show ?thesis
    proof (cases "m node")
      case (Some r)
      have "AtLeast (b_role b) r \<or> AtLeast r (b_role b)"
        using Cons.prems Some AtLeast_total by auto
      then show ?thesis
        using True Some Cons.prems(1) AtLeast_antisym
        by (auto simp: add_binding_def better_role_def)
    qed (use Cons.prems(1) in \<open>simp add: add_binding_def better_role_def\<close>)
  next
    case False
    then show ?thesis by (auto simp: add_binding_def split: option.splits)
  qed
  moreover have "\<forall>r. add_binding b m node = Some r \<longrightarrow> ValidRole r"
    using Cons.prems by (auto simp: add_binding_def split: option.splits if_splits)
  ultimately show ?case using Cons.IH [of "add_binding b m"] Cons.prems(1) by auto
qed simp

lemma first_bound_find:
  "first_bound m nodes =
     (case find (\<lambda>n. m n \<noteq> None) (nodes @ [RootScopeNode]) of None \<Rightarrow> None | Some n \<Rightarrow> m n)"
  by (induction nodes) (auto split: option.splits)


definition demo_bindings :: "Binding list" where
  "demo_bindings =
     [\<lparr>b_id = ''1'', b_principal = ''p'', b_node = ''site'', b_role = ''viewer'', b_created = 0\<rparr>,
      \<lparr>b_id = ''2'', b_principal = ''p'', b_node = ''org'', b_role = ''admin'', b_created = 0\<rparr>]"


lemma CanWrite_CanRead: "CanWrite bindings ancestors \<Longrightarrow> CanRead bindings ancestors"
  by (auto simp: CanWrite_def CanRead_def AtLeast_def roleRank_def split: option.splits if_splits)

text \<open>A role name outside the four carries no authority, but a binding of such a role still replaces a valid
  one met earlier at the same node: the order of two bindings at one node matters then.\<close>

lemma unknown_role_displaces_valid:
  assumes "ValidRole r" "\<not> ValidRole s"
  shows "CanRead [\<lparr>b_id = i, b_principal = p, b_node = n, b_role = s, b_created = c\<rparr>,
                  \<lparr>b_id = j, b_principal = p, b_node = n, b_role = r, b_created = c\<rparr>] [n]"
    and "\<not> CanRead [\<lparr>b_id = j, b_principal = p, b_node = n, b_role = r, b_created = c\<rparr>,
                     \<lparr>b_id = i, b_principal = p, b_node = n, b_role = s, b_created = c\<rparr>] [n]"
  using assms
  by (auto simp: CanRead_def Resolve_role_def add_binding_def AtLeast_def ValidRole_def roleRank_def
      split: option.splits if_splits)

section \<open>A subscriber reads only what its bindings reach\<close>

lemma filterFor_Visible:
  "Visible (filterFor nodes bindings sel schemas) e \<longleftrightarrow>
     CanRead bindings (AncestorChain (fst (BuildScopeTree nodes)) (env_scope_node e))"
  by (simp add: filterFor_def NewFilter_def Visible_def Let_def)

lemma filterFor_Allows:
  "Allows (filterFor nodes bindings sel schemas) e \<Longrightarrow>
     CanRead bindings (AncestorChain (fst (BuildScopeTree nodes)) (env_scope_node e)) \<and>
     (schemas = [] \<or> env_schema e \<in> set schemas) \<and>
     Matches sel Map.empty (env_scope_node e)
       (Some (\<lambda>a n. a \<noteq> n \<and> a \<in> set (AncestorChain (fst (BuildScopeTree nodes)) n)))"
  by (auto simp: filterFor_def NewFilter_def Allows_def Let_def split: if_splits)

section \<open>Authority comes from a binding\<close>

lemma fold_bindings_source:
  "fold add_binding bs m n = Some r \<Longrightarrow> m n = Some r \<or> (\<exists>b \<in> set bs. b_node b = n \<and> b_role b = r)"
proof (induction bs arbitrary: m)
  case (Cons b bs)
  then have "add_binding b m n = Some r \<or> (\<exists>b \<in> set bs. b_node b = n \<and> b_role b = r)" by simp
  then show ?case by (auto simp: add_binding_def split: option.splits if_splits)
qed simp

lemma first_bound_source: "first_bound m ns = Some r \<Longrightarrow> \<exists>n. (n \<in> set ns \<or> n = RootScopeNode) \<and> m n = Some r"
  by (induction ns) (auto split: option.splits)

lemma CanRead_source:
  assumes "CanRead bindings ancestors"
  shows "\<exists>b \<in> set bindings. (b_node b \<in> set ancestors \<or> b_node b = RootScopeNode) \<and> AtLeast (b_role b) ''viewer''"
proof -
  obtain r where r: "first_bound (fold add_binding bindings Map.empty) ancestors = Some r" "AtLeast r ''viewer''"
    using assms by (auto simp: CanRead_def Resolve_role_def split: option.splits)
  then obtain n where "n \<in> set ancestors \<or> n = RootScopeNode" "fold add_binding bindings Map.empty n = Some r"
    using first_bound_source by blast
  then show ?thesis using fold_bindings_source r(2) by fastforce
qed

end
