(* ===== verification/Layers.thy ===== *)
theory Layers
  imports Prelude
begin

text \<open>
  Slide layers, \<open>internal/shared/wire/lease.go\<close> and \<open>derive.go\<close>: the layer and its derive spec, the gate a slide
  passes before it is served or stored, the regions of a menu, and the projection of a derived layer onto the image
  rendered from it.  Geometry is Go's \<open>int\<close>: sums wrap at 64 bits.  A refusal is the constant part of its message.
\<close>

section \<open>The data\<close>

record NavItem =
  ni_label :: string
  ni_target :: string

record DeriveFill =
  df_kind :: string
  df_from :: string
  df_to :: string
  df_angle :: int

record DeriveShadow =
  ds_dx :: int
  ds_dy :: int
  ds_blur :: int
  ds_color :: string
  ds_opacity :: int

record DeriveBorder =
  db_width :: int
  db_color :: string
  db_radius :: int

record DeriveSpec =
  sp_kind :: string
  sp_data :: string
  sp_ec :: string
  sp_text :: string
  sp_font_px :: int
  sp_font_family :: string
  sp_font_asset :: string
  sp_align :: string
  sp_valign :: string
  sp_color :: string
  sp_fill :: "DeriveFill option"
  sp_shadow :: "DeriveShadow option"
  sp_border :: "DeriveBorder option"

record Layer =
  l_kind :: string
  l_x :: int
  l_y :: int
  l_w :: int
  l_h :: int
  l_text :: string
  l_asset :: string
  l_url :: string
  l_font_px :: int
  l_color :: string
  l_align :: string
  l_target_ms :: int
  l_entity :: string
  l_value :: string
  l_ping :: string
  l_items :: "NavItem list"
  l_derive :: "DeriveSpec option"
  l_derived_from :: string

definition zero_layer :: Layer where
  "zero_layer = \<lparr>l_kind = '''', l_x = 0, l_y = 0, l_w = 0, l_h = 0, l_text = '''', l_asset = '''', l_url = '''',
     l_font_px = 0, l_color = '''', l_align = '''', l_target_ms = 0, l_entity = '''', l_value = '''',
     l_ping = '''', l_items = [], l_derive = None, l_derived_from = ''''\<rparr>"

definition SlideCanvasWidth :: int where "SlideCanvasWidth = 1920"
definition SlideCanvasHeight :: int where "SlideCanvasHeight = 1080"

section \<open>Scanning strings\<close>

definition hex_char :: "char \<Rightarrow> bool" where
  "hex_char c \<longleftrightarrow> is_digit c \<or> (97 \<le> byte_of c \<and> byte_of c \<le> 102) \<or> (65 \<le> byte_of c \<and> byte_of c \<le> 70)"

definition isHexColor :: "string \<Rightarrow> bool" where
  "isHexColor s \<longleftrightarrow> length s = 7 \<and> s ! 0 = CHR ''#'' \<and> list_all hex_char (tl s)"

definition isAssetRef :: "string \<Rightarrow> bool" where
  "isAssetRef s \<longleftrightarrow>
     take 7 s = ''sha256:'' \<and> length (drop 7 s) = 64 \<and>
     list_all (\<lambda>c. is_digit c \<or> (97 \<le> byte_of c \<and> byte_of c \<le> 102)) (drop 7 s)"

definition ping_char :: "char \<Rightarrow> nat \<Rightarrow> bool" where
  "ping_char c i \<longleftrightarrow> is_lower c \<or> is_digit c \<or> ((c = CHR ''_'' \<or> c = CHR ''-'' \<or> c = CHR ''.'') \<and> i > 0)"

definition ValidPingName :: "string \<Rightarrow> bool" where
  "ValidPingName s \<longleftrightarrow> s \<noteq> '''' \<and> length s \<le> 64 \<and> list_all (\<lambda>i. ping_char (s ! i) i) [0..<length s]"

section \<open>Refusals\<close>

text \<open>The first condition of a sequence of guarded returns that holds.\<close>

fun refuse :: "(bool \<times> string) list \<Rightarrow> string option" where
  "refuse [] = None"
| "refuse ((c, msg) # rest) = (if c then Some msg else refuse rest)"

lemma refuse_None: "refuse gs = None \<longleftrightarrow> list_all (\<lambda>g. \<not> fst g) gs"
  by (induction gs rule: refuse.induct) auto

section \<open>Derive specs\<close>

definition deriveKinds :: "string list" where
  "deriveKinds = [''qr'', ''text'', ''rect'']"

definition derive_fill_error :: "DeriveFill \<Rightarrow> string option" where
  "derive_fill_error f = refuse
     [(df_kind f \<notin> {''solid'', ''linear'', ''radial''}, ''derive fill: kind is unknown''),
      (\<not> isHexColor (df_from f), ''derive fill: from is not a hex string''),
      (df_kind f = ''solid'' \<and> df_to f \<noteq> '''', ''derive fill: a solid fill has no second stop''),
      (df_kind f = ''solid'' \<and> df_angle f \<noteq> 0, ''derive fill: a solid fill has no angle''),
      (df_kind f \<noteq> ''solid'' \<and> \<not> isHexColor (df_to f), ''derive fill: a gradient needs a second stop''),
      (df_kind f = ''radial'' \<and> df_angle f \<noteq> 0, ''derive fill: a radial gradient has no angle''),
      (df_angle f < 0 \<or> df_angle f > 359, ''derive fill: angle_deg is outside 0-359'')]"

definition derive_shadow_error :: "DeriveShadow \<Rightarrow> string option" where
  "derive_shadow_error s = refuse
     [(ds_blur s < 0, ''derive shadow: blur must not be negative''),
      (ds_color s \<noteq> '''' \<and> \<not> isHexColor (ds_color s), ''derive shadow: color is not a hex string''),
      (ds_opacity s < 0 \<or> ds_opacity s > 100, ''derive shadow: opacity_pct is outside 0-100''),
      (ds_dx s = 0 \<and> ds_dy s = 0 \<and> ds_blur s = 0, ''derive shadow: a shadow with no offset and no blur is invisible'')]"

definition derive_border_error :: "DeriveBorder \<Rightarrow> string option" where
  "derive_border_error b = refuse
     [(db_width b < 0, ''derive border: width must not be negative''),
      (db_radius b < 0, ''derive border: radius must not be negative''),
      (db_width b = 0 \<and> db_radius b = 0, ''derive border: a border with no width and no radius does nothing''),
      (db_color b \<noteq> '''' \<and> \<not> isHexColor (db_color b), ''derive border: color is not a hex string''),
      (db_width b > 0 \<and> db_color b = '''', ''derive border: a stroked border needs a color'')]"

definition derive_text_error :: "DeriveSpec \<Rightarrow> string option" where
  "derive_text_error s = refuse
     [(sp_kind s = ''qr'' \<and> sp_data s = '''', ''derive qr: data is required''),
      (sp_kind s = ''qr'' \<and> length (sp_data s) > 512, ''derive qr: data is over the limit''),
      (sp_kind s = ''qr'' \<and> sp_text s \<noteq> '''', ''derive qr: text is not used by a qr spec''),
      (sp_kind s = ''text'' \<and> sp_text s = '''', ''derive text: text is required''),
      (sp_kind s = ''text'' \<and> length (sp_text s) > 2048, ''derive text: text is over the limit''),
      (sp_kind s = ''text'' \<and> sp_data s \<noteq> '''', ''derive text: data is only used by a qr spec''),
      (sp_kind s = ''rect'' \<and> sp_text s \<noteq> '''', ''derive rect: text is not used by a rect spec''),
      (sp_kind s = ''rect'' \<and> sp_data s \<noteq> '''', ''derive rect: data is only used by a qr spec''),
      (sp_kind s = ''rect'' \<and> sp_fill s = None, ''derive rect: a fill is required''),
      (sp_ec s \<noteq> '''' \<and> sp_kind s \<noteq> ''qr'', ''ec_level is only used by a qr spec''),
      (sp_ec s \<noteq> '''' \<and> sp_ec s \<notin> {''L'', ''M'', ''Q'', ''H''}, ''ec_level is unknown''),
      (sp_font_px s < 0, ''font_px must not be negative''),
      (sp_font_px s \<noteq> 0 \<and> sp_kind s \<noteq> ''text'', ''font_px is only used by a text spec''),
      (sp_font_family s \<noteq> '''' \<and> sp_kind s \<noteq> ''text'', ''font_family is only used by a text spec''),
      (sp_font_asset s \<noteq> '''' \<and> sp_kind s \<noteq> ''text'', ''font_asset_ref is only used by a text spec''),
      (sp_align s \<noteq> '''' \<and> sp_kind s \<noteq> ''text'', ''align is only used by a text spec''),
      (sp_align s \<noteq> '''' \<and> sp_align s \<notin> {''left'', ''center'', ''right''}, ''align is unknown''),
      (sp_valign s \<noteq> '''' \<and> sp_kind s \<noteq> ''text'', ''valign is only used by a text spec''),
      (sp_valign s \<noteq> '''' \<and> sp_valign s \<notin> {''top'', ''middle'', ''bottom''}, ''valign is unknown''),
      (sp_color s \<noteq> '''' \<and> sp_kind s = ''rect'', ''derive rect: color is not used by a rect spec''),
      (sp_color s \<noteq> '''' \<and> \<not> isHexColor (sp_color s), ''color is not a hex string''),
      (sp_font_asset s \<noteq> '''' \<and> \<not> isAssetRef (sp_font_asset s), ''font_asset_ref is not a reference'')]"

definition ValidateDeriveSpec :: "DeriveSpec option \<Rightarrow> string option" where
  "ValidateDeriveSpec spec =
     (case spec of None \<Rightarrow> Some ''derive spec is required''
      | Some s \<Rightarrow>
          if sp_kind s \<notin> set deriveKinds then Some ''derive kind is unknown''
          else first_error
            [derive_text_error s,
             (case sp_fill s of None \<Rightarrow> None | Some f \<Rightarrow> derive_fill_error f),
             (case sp_shadow s of None \<Rightarrow> None | Some sh \<Rightarrow> derive_shadow_error sh),
             (case sp_border s of None \<Rightarrow> None | Some b \<Rightarrow> derive_border_error b)])"

text \<open>
  \<open>LayerDeriveState\<close> compares the layer's \<open>derived_from\<close> with the digest of its spec; the digest, a SHA-256 of
  the spec's JSON, is a parameter.
\<close>

datatype DeriveState = DerivePending | DeriveStale | DeriveCurrent

definition LayerDeriveState :: "(int \<Rightarrow> int \<Rightarrow> DeriveSpec \<Rightarrow> string) \<Rightarrow> Layer \<Rightarrow> DeriveState" where
  "LayerDeriveState digest l =
     (if l_kind l \<noteq> ''derive'' then DeriveCurrent
      else if l_asset l = '''' then DerivePending
      else if l_derived_from l \<noteq> (case l_derive l of None \<Rightarrow> '''' | Some s \<Rightarrow> digest (l_w l) (l_h l) s) then DeriveStale
      else DeriveCurrent)"

definition DeriveProjection :: "Layer \<Rightarrow> Layer option" where
  "DeriveProjection l =
     (if l_kind l \<noteq> ''derive'' then Some l
      else if l_asset l = '''' then None
      else Some (zero_layer\<lparr>l_kind := ''image'', l_x := l_x l, l_y := l_y l, l_w := l_w l, l_h := l_h l,
                  l_asset := l_asset l, l_url := l_url l\<rparr>))"

section \<open>Layers\<close>

definition slideLayerKinds :: "string list" where
  "slideLayerKinds = [''text'', ''rect'', ''image'', ''clock'', ''date'', ''countdown'', ''weather'', ''entity'',
     ''video'', ''ping'', ''nav'']"

definition authoredOnlyLayerKinds :: "string list" where
  "authoredOnlyLayerKinds = [''derive'']"

definition isSlideLayerKind :: "string \<Rightarrow> bool \<Rightarrow> bool" where
  "isSlideLayerKind kind authoring \<longleftrightarrow>
     kind \<in> set slideLayerKinds \<or> (authoring \<and> kind \<in> set authoredOnlyLayerKinds)"

definition legalLayerKinds :: "bool \<Rightarrow> string list" where
  "legalLayerKinds authoring =
     (if \<not> authoring then slideLayerKinds else slideLayerKinds @ authoredOnlyLayerKinds)"

definition LayerFetchesContent :: "string \<Rightarrow> bool" where
  "LayerFetchesContent kind \<longleftrightarrow> kind = ''image'' \<or> kind = ''video''"

definition LayerIsInteractive :: "Layer \<Rightarrow> bool" where
  "LayerIsInteractive l \<longleftrightarrow> l_ping l \<noteq> '''' \<or> l_kind l = ''nav''"

definition MinInteractiveSide :: int where "MinInteractiveSide = 48"

text \<open>Go's integer division truncates towards zero.\<close>

definition go_div :: "int \<Rightarrow> int \<Rightarrow> int" where
  "go_div a b = (if 0 \<le> a then a div b else - ((- a) div b))"

text \<open>A rectangle is x, y, width and height; a menu is cut along its longer side, the last item taking the rest.\<close>

type_synonym rect = "int \<times> int \<times> int \<times> int"

definition NavItemRects :: "Layer \<Rightarrow> rect list" where
  "NavItemRects l =
     (let n = length (l_items l) in
      if n = 0 then []
      else if l_w l \<ge> l_h l then
        (let step = go_div (l_w l) (int n) in
         map (\<lambda>i. (i64 (l_x l + step * int i), l_y l,
                  if i = n - 1 then i64 (l_w l - step * (int n - 1)) else step, l_h l)) [0..<n])
      else
        (let step = go_div (l_h l) (int n) in
         map (\<lambda>i. (l_x l, i64 (l_y l + step * int i), l_w l,
                  if i = n - 1 then i64 (l_h l - step * (int n - 1)) else step)) [0..<n]))"

definition nav_item_error :: "NavItem \<Rightarrow> string option" where
  "nav_item_error it = refuse
     [(ni_label it = '''' \<or> length (ni_label it) > 64, ''nav: item needs a label''),
      (ni_target it = '''' \<or> length (ni_target it) > 64, ''nav: item needs a target_slide_id'')]"

definition rect_too_small :: "rect \<Rightarrow> bool" where
  "rect_too_small r \<longleftrightarrow> fst (snd (snd r)) < MinInteractiveSide \<or> snd (snd (snd r)) < MinInteractiveSide"

definition geometry_error :: "Layer \<Rightarrow> string option" where
  "geometry_error l = refuse
     [(l_w l \<le> 0 \<or> l_h l \<le> 0, ''w and h must be positive''),
      (l_x l < 0 \<or> l_y l < 0, ''x and y must be non-negative''),
      (i64 (l_x l + l_w l) > SlideCanvasWidth \<or> i64 (l_y l + l_h l) > SlideCanvasHeight,
       ''geometry extends past the canvas'')]"

definition kind_error :: "bool \<Rightarrow> Layer \<Rightarrow> string option" where
  "kind_error requireContentURL l =
     (let k = l_kind l in
      if k = ''text'' then refuse [(l_text l = '''', ''text is required'')]
      else if k = ''clock'' then refuse [(l_text l = '''', ''a non-empty time format is required'')]
      else if k = ''image'' \<or> k = ''video'' then
        refuse [(l_asset l = '''', ''asset_ref is required''),
                (requireContentURL \<and> l_url l = '''', ''both asset_ref and url are required'')]
      else if k = ''rect'' then refuse [(l_color l = '''', ''color is required'')]
      else if k = ''date'' then refuse [(l_text l = '''', ''a non-empty date format is required'')]
      else if k = ''countdown'' then refuse [(l_target_ms l \<le> 0, ''a positive target_ms is required'')]
      else if k = ''weather'' then refuse [(l_text l = '''', ''a non-empty display template is required'')]
      else if k = ''entity'' then refuse [(l_entity l = '''', ''entity_id is required'')]
      else if k = ''ping'' then
        refuse [(l_text l = '''', ''a button label is required''), (l_ping l = '''', ''ping_name is required'')]
      else if k = ''nav'' then
        first_error ([refuse [(l_items l = [], ''at least one menu item is required''),
                              (length (l_items l) > 8, ''items exceed the maximum'')]] @
                     map nav_item_error (l_items l))
      else if k = ''derive'' then
        first_error [ValidateDeriveSpec (l_derive l),
          refuse [(l_asset l \<noteq> '''' \<and> \<not> isAssetRef (l_asset l), ''asset_ref is not a reference''),
                  (l_derived_from l \<noteq> '''' \<and> l_asset l = '''', ''derived_from without an asset_ref'')]]
      else None)"

definition interactive_error :: "Layer \<Rightarrow> string option" where
  "interactive_error l =
     (if \<not> LayerIsInteractive l then None
      else if l_kind l = ''nav'' then
        refuse [(list_ex rect_too_small (NavItemRects l), ''an item's region is below the minimum'')]
      else refuse [(l_w l < MinInteractiveSide \<or> l_h l < MinInteractiveSide, ''a pressable layer is below the minimum'')])"

definition stray_error :: "Layer \<Rightarrow> string option" where
  "stray_error l = refuse
     [(l_ping l \<noteq> '''' \<and> \<not> ValidPingName (l_ping l), ''ping_name is malformed''),
      (l_items l \<noteq> [] \<and> l_kind l \<noteq> ''nav'', ''only a nav layer may carry items''),
      (l_kind l \<noteq> ''derive'' \<and> l_derive l \<noteq> None, ''a derive spec is only used by a derive layer''),
      (l_kind l \<noteq> ''derive'' \<and> l_derived_from l \<noteq> '''', ''derived_from is only used by a derive layer''),
      (l_color l \<noteq> '''' \<and> \<not> isHexColor (l_color l), ''color is not a hex string'')]"

definition layer_error :: "bool \<Rightarrow> Layer \<Rightarrow> string option" where
  "layer_error requireContentURL l =
     first_error
       [refuse [(\<not> isSlideLayerKind (l_kind l) (\<not> requireContentURL), ''unknown kind'')],
        geometry_error l, kind_error requireContentURL l, interactive_error l, stray_error l]"

fun layers_error :: "bool \<Rightarrow> nat \<Rightarrow> Layer list \<Rightarrow> (nat \<times> string) option" where
  "layers_error req i [] = None"
| "layers_error req i (l # ls) =
     (case layer_error req l of Some e \<Rightarrow> Some (i, e) | None \<Rightarrow> layers_error req (Suc i) ls)"

definition validateSlideLayers :: "Layer list \<Rightarrow> bool \<Rightarrow> (nat \<times> string) option" where
  "validateSlideLayers layers requireContentURL =
     (if layers = [] then Some (0, ''slide has no layers'') else layers_error requireContentURL 0 layers)"

definition ValidateSlideLayers :: "Layer list \<Rightarrow> (nat \<times> string) option" where
  "ValidateSlideLayers layers = validateSlideLayers layers True"

definition ValidateAuthoredSlideLayers :: "Layer list \<Rightarrow> (nat \<times> string) option" where
  "ValidateAuthoredSlideLayers layers = validateSlideLayers layers False"

definition AlertSlideLayers :: "string \<Rightarrow> Layer list" where
  "AlertSlideLayers message =
     [zero_layer\<lparr>l_kind := ''rect'', l_w := SlideCanvasWidth, l_h := SlideCanvasHeight, l_color := ''#8C1C13''\<rparr>,
      zero_layer\<lparr>l_kind := ''text'', l_x := 120, l_y := 400, l_w := SlideCanvasWidth - 2 * 120, l_h := 280,
        l_text := message, l_font_px := 96, l_color := ''#FFFFFF'', l_align := ''center''\<rparr>]"


section \<open>What an accepted slide is\<close>

lemma layers_error_None: "layers_error req i ls = None \<longleftrightarrow> (\<forall>l \<in> set ls. layer_error req l = None)"
  by (induction ls arbitrary: i) (auto split: option.splits)

lemma validate_None: "validateSlideLayers ls req = None \<longleftrightarrow> ls \<noteq> [] \<and> (\<forall>l \<in> set ls. layer_error req l = None)"
  by (simp add: validateSlideLayers_def layers_error_None)

lemma layer_error_None:
  "layer_error req l = None \<longleftrightarrow> isSlideLayerKind (l_kind l) (\<not> req) \<and> geometry_error l = None \<and>
     kind_error req l = None \<and> interactive_error l = None \<and> stray_error l = None"
  by (simp add: layer_error_def refuse_None)

text \<open>The geometry check sees a wrapped sum; for sides and corners that leave the sum in range it is exact.\<close>

definition in_canvas :: "Layer \<Rightarrow> bool" where
  "in_canvas l \<longleftrightarrow> 0 < l_w l \<and> 0 < l_h l \<and> 0 \<le> l_x l \<and> 0 \<le> l_y l \<and>
     l_x l + l_w l \<le> SlideCanvasWidth \<and> l_y l + l_h l \<le> SlideCanvasHeight"

lemma geometry_exact:
  assumes "in_i64 (l_x l + l_w l)" "in_i64 (l_y l + l_h l)"
  shows "geometry_error l = None \<longleftrightarrow> in_canvas l"
  using assms by (auto simp: geometry_error_def refuse_None in_canvas_def i64_id)

text \<open>Without that bound it is not: a corner near the greatest integer passes and lies far outside.\<close>

definition far_layer :: Layer where
  "far_layer = zero_layer\<lparr>l_kind := ''text'', l_text := ''t'', l_x := 2 ^ 63 - 1, l_w := 1, l_h := 1\<rparr>"

lemma far_layer_accepted: "ValidateSlideLayers [far_layer] = None \<and> \<not> in_canvas far_layer"
  by code_simp

lemma kind_error_url:
  "kind_error True l =
     (if LayerFetchesContent (l_kind l) \<and> l_asset l \<noteq> '''' \<and> l_url l = ''''
      then Some ''both asset_ref and url are required'' else kind_error False l)"
proof (cases "LayerFetchesContent (l_kind l)")
  case True
  then have "l_kind l = ''image'' \<or> l_kind l = ''video''" by (simp add: LayerFetchesContent_def)
  then show ?thesis by (elim disjE) (simp_all add: kind_error_def LayerFetchesContent_def Let_def)
next
  case False
  then show ?thesis by (simp add: kind_error_def LayerFetchesContent_def Let_def)
qed

lemma kind_error_weaken: "kind_error True l = None \<Longrightarrow> kind_error False l = None"
  by (simp add: kind_error_url split: if_splits)

lemma kind_error_strengthen:
  "kind_error False l = None \<Longrightarrow> (LayerFetchesContent (l_kind l) \<Longrightarrow> l_url l \<noteq> '''') \<Longrightarrow> kind_error True l = None"
  by (simp add: kind_error_url)

lemma isSlideLayerKind_weaken: "isSlideLayerKind k False \<Longrightarrow> isSlideLayerKind k True"
  by (simp add: isSlideLayerKind_def)

section \<open>Projection of an authored slide\<close>

text \<open>What the projections serve of an authored slide: each derived layer as its image, a pending one dropped,
  and an URL on every layer that fetches content.\<close>

fun project_layers :: "(string \<Rightarrow> string) \<Rightarrow> Layer list \<Rightarrow> Layer list" where
  "project_layers url [] = []"
| "project_layers url (a # as) =
     (case DeriveProjection a of None \<Rightarrow> project_layers url as
      | Some l \<Rightarrow>
          (if LayerFetchesContent (l_kind l) then l\<lparr>l_url := url (l_asset l)\<rparr> else l) # project_layers url as)"

lemma projected_ok:
  assumes "layer_error False l = None" "DeriveProjection l = Some l'"
  shows "layer_error False l' = None \<and> l_kind l' \<noteq> ''derive''"
proof (cases "l_kind l = ''derive''")
  case True
  then have l': "l' = zero_layer\<lparr>l_kind := ''image'', l_x := l_x l, l_y := l_y l, l_w := l_w l, l_h := l_h l,
      l_asset := l_asset l, l_url := l_url l\<rparr>" "l_asset l \<noteq> ''''"
    using assms(2) by (auto simp: DeriveProjection_def split: if_splits)
  have "geometry_error l' = geometry_error l" by (simp add: l'(1) geometry_error_def)
  moreover have "kind_error False l' = None" "interactive_error l' = None" "stray_error l' = None"
      "isSlideLayerKind (l_kind l') True"
    using l'(2) by (simp_all add: l'(1) kind_error_def refuse_None interactive_error_def LayerIsInteractive_def
        stray_error_def zero_layer_def isSlideLayerKind_def slideLayerKinds_def)
  ultimately show ?thesis using assms(1) l'(1) by (simp add: layer_error_None)
next
  case False
  then show ?thesis using assms by (simp add: DeriveProjection_def)
qed

lemma NavItemRects_url: "NavItemRects (l\<lparr>l_url := u\<rparr>) = NavItemRects l"
  by (cases l) (hypsubst, unfold NavItemRects_def Layer.select_convs Layer.update_convs, rule refl)

lemma url_change:
  "geometry_error (l\<lparr>l_url := u\<rparr>) = geometry_error l" "kind_error False (l\<lparr>l_url := u\<rparr>) = kind_error False l"
  "interactive_error (l\<lparr>l_url := u\<rparr>) = interactive_error l" "stray_error (l\<lparr>l_url := u\<rparr>) = stray_error l"
  by (simp_all add: geometry_error_def kind_error_def interactive_error_def LayerIsInteractive_def stray_error_def
      NavItemRects_url Let_def cong: if_cong)

lemma served_layer_ok:
  assumes "layer_error False l = None" "l_kind l \<noteq> ''derive''" "LayerFetchesContent (l_kind l) \<Longrightarrow> url (l_asset l) \<noteq> ''''"
  shows "layer_error True (if LayerFetchesContent (l_kind l) then l\<lparr>l_url := url (l_asset l)\<rparr> else l) = None"
proof -
  let ?l = "if LayerFetchesContent (l_kind l) then l\<lparr>l_url := url (l_asset l)\<rparr> else l"
  have k: "l_kind ?l = l_kind l" by simp
  have "layer_error False ?l = None" using assms(1) by (simp add: layer_error_None url_change)
  moreover have "LayerFetchesContent (l_kind ?l) \<Longrightarrow> l_url ?l \<noteq> ''''" unfolding k using assms(3) by simp
  moreover have "isSlideLayerKind (l_kind l) False"
    using assms(1,2) by (auto simp: layer_error_None isSlideLayerKind_def authoredOnlyLayerKinds_def)
  ultimately show ?thesis using kind_error_strengthen [of ?l] k unfolding layer_error_None by auto
qed

text \<open>A slide that passes the authoring gate, projected with an URL on every layer that fetches content, passes the
  serving gate, unless every layer of it is a derived one still to be rendered.\<close>

lemma project_layers_servable:
  assumes "ValidateAuthoredSlideLayers ls = None" "project_layers url ls \<noteq> []"
    "\<And>l p. l \<in> set ls \<Longrightarrow> DeriveProjection l = Some p \<Longrightarrow> LayerFetchesContent (l_kind p) \<Longrightarrow> url (l_asset p) \<noteq> ''''"
  shows "ValidateSlideLayers (project_layers url ls) = None"
proof -
  have ok: "\<forall>l \<in> set ls. layer_error False l = None"
    using assms(1) by (simp add: ValidateAuthoredSlideLayers_def validate_None)
  have "\<forall>l' \<in> set (project_layers url as). layer_error True l' = None" if "set as \<subseteq> set ls" for as
    using that
  proof (induction as)
    case (Cons a as)
    show ?case
    proof (cases "DeriveProjection a")
      case (Some p)
      have "layer_error False p = None \<and> l_kind p \<noteq> ''derive''" using projected_ok [OF _ Some] ok Cons.prems by simp
      then have "layer_error True (if LayerFetchesContent (l_kind p) then p\<lparr>l_url := url (l_asset p)\<rparr> else p) = None"
        using served_layer_ok [of p url] assms(3) [OF _ Some] Cons.prems by simp
      then show ?thesis using Cons Some by simp
    qed (use Cons in simp)
  qed simp
  from this [OF subset_refl] show ?thesis using assms(2) by (simp add: ValidateSlideLayers_def validate_None)
qed

lemma served_gate_is_stricter: "ValidateSlideLayers ls = None \<Longrightarrow> ValidateAuthoredSlideLayers ls = None"
  using kind_error_weaken isSlideLayerKind_weaken
  by (auto simp: ValidateSlideLayers_def ValidateAuthoredSlideLayers_def validate_None layer_error_None)

lemma alert_slide_valid: "message \<noteq> '''' \<Longrightarrow> ValidateSlideLayers (AlertSlideLayers message) = None"
  unfolding ValidateSlideLayers_def validate_None layer_error_None AlertSlideLayers_def
  by (simp add: isSlideLayerKind_def slideLayerKinds_def geometry_error_def refuse_None zero_layer_def
      SlideCanvasWidth_def SlideCanvasHeight_def i64_def kind_error_def interactive_error_def LayerIsInteractive_def
      stray_error_def isHexColor_def hex_char_def is_digit_def byte_of_def)


section \<open>The regions of a menu\<close>

lemma go_div_pos: "0 \<le> a \<Longrightarrow> go_div a b = a div b"
  by (simp add: go_div_def)

text \<open>The pixels of a rectangle.\<close>

definition pixels :: "rect \<Rightarrow> (int \<times> int) set" where
  "pixels r = (case r of (x, y, w, h) \<Rightarrow> {x..<x + w} \<times> {y..<y + h})"

definition layer_pixels :: "Layer \<Rightarrow> (int \<times> int) set" where
  "layer_pixels l = pixels (l_x l, l_y l, l_w l, l_h l)"

lemma pixels_apart:
  "x + w \<le> x' \<Longrightarrow> pixels (x, y, w, h) \<inter> pixels (x', y', w', h') = {}"
  "y + h \<le> y' \<Longrightarrow> pixels (x, y, w, h) \<inter> pixels (x', y', w', h') = {}"
  by (auto simp: pixels_def)

text \<open>Cutting a side of length \<open>len\<close> from \<open>start\<close> into \<open>n\<close> spans, the last taking what the division leaves.\<close>

definition part_of :: "int \<Rightarrow> int \<Rightarrow> nat \<Rightarrow> nat \<Rightarrow> int \<times> int" where
  "part_of start len n i =
     (start + len div int n * int i, if i = n - 1 then len - len div int n * (int n - 1) else len div int n)"

lemma cut_next: "Suc i < n \<Longrightarrow> fst (part_of s t n i) + snd (part_of s t n i) = fst (part_of s t n (Suc i))"
  by (auto simp: part_of_def algebra_simps)

lemma cut_last: "0 < n \<Longrightarrow> fst (part_of s t n (n - 1)) + snd (part_of s t n (n - 1)) = s + t"
  by (simp add: part_of_def of_nat_diff algebra_simps)

lemma cut_covers:
  assumes "0 < n" "0 \<le> t" "s \<le> p" "p < s + t"
  shows "\<exists>i<n. fst (part_of s t n i) \<le> p \<and> p < fst (part_of s t n i) + snd (part_of s t n i)"
proof -
  have "\<exists>i<n. p < fst (part_of s t n i) + snd (part_of s t n i)"
    using cut_last [OF assms(1), of s t] assms(1,4) by (intro exI [of _ "n - 1"]) simp
  then obtain i where i: "i < n" "p < fst (part_of s t n i) + snd (part_of s t n i)"
      "\<And>j. j < i \<Longrightarrow> \<not> (j < n \<and> p < fst (part_of s t n j) + snd (part_of s t n j))"
    using exists_least_iff [of "\<lambda>i. i < n \<and> p < fst (part_of s t n i) + snd (part_of s t n i)"] by blast
  have "fst (part_of s t n i) \<le> p"
  proof (cases i)
    case 0
    then show ?thesis using assms(3) by (simp add: part_of_def)
  next
    case (Suc j)
    then show ?thesis using i cut_next [of j n s t] by force
  qed
  then show ?thesis using i by blast
qed

lemma cut_apart:
  assumes "i < j" "j < n" "0 \<le> t"
  shows "fst (part_of s t n i) + snd (part_of s t n i) \<le> fst (part_of s t n j)"
proof -
  have "t div int n * int (Suc i) \<le> t div int n * int j"
    using assms by (intro mult_left_mono) (auto simp: pos_imp_zdiv_nonneg_iff)
  moreover have "i \<noteq> n - 1" using assms by simp
  ultimately show ?thesis by (simp add: part_of_def algebra_simps)
qed

lemma cut_snd_nonneg:
  assumes "i < n" "0 \<le> t"
  shows "0 \<le> snd (part_of s t n i)"
proof -
  have q: "0 \<le> t div int n" using assms by (simp add: pos_imp_zdiv_nonneg_iff)
  then have "t div int n * (int n - 1) \<le> t div int n * int n" by (intro mult_left_mono) auto
  also have "t div int n * int n = t - t mod int n" by (rule minus_mod_eq_div_mult [symmetric])
  also have "\<dots> \<le> t" using pos_mod_sign [of "int n" t] assms(1) by simp
  finally show ?thesis using q by (simp add: part_of_def)
qed

lemma cut_within:
  assumes "i < n" "0 \<le> t"
  shows "s \<le> fst (part_of s t n i)" "fst (part_of s t n i) + snd (part_of s t n i) \<le> s + t"
proof -
  have "0 \<le> t div int n * int i" using assms by (simp add: pos_imp_zdiv_nonneg_iff)
  then show "s \<le> fst (part_of s t n i)" by (simp add: part_of_def)
  show "fst (part_of s t n i) + snd (part_of s t n i) \<le> s + t"
  proof (cases "i = n - 1")
    case True
    then show ?thesis using cut_last [of n s t] assms(1) by simp
  next
    case False
    then have "fst (part_of s t n i) + snd (part_of s t n i) \<le> fst (part_of s t n (n - 1))"
      using cut_apart [of i "n - 1" n t s] assms by simp
    moreover have "0 \<le> snd (part_of s t n (n - 1))" using cut_snd_nonneg [of "n - 1" n t s] assms by simp
    ultimately show ?thesis using cut_last [of n s t] assms(1) by simp
  qed
qed

lemma in_i64_small: "0 \<le> x \<Longrightarrow> x \<le> 10000 \<Longrightarrow> in_i64 x"
  by (simp add: in_i64_def)

lemma NavItemRects_cut:
  assumes "in_canvas l" "l_items l \<noteq> []"
  shows "NavItemRects l =
    (let n = length (l_items l) in
     if l_w l \<ge> l_h l then map (\<lambda>i. (fst (part_of (l_x l) (l_w l) n i), l_y l, snd (part_of (l_x l) (l_w l) n i), l_h l)) [0..<n]
     else map (\<lambda>i. (l_x l, fst (part_of (l_y l) (l_h l) n i), l_w l, snd (part_of (l_y l) (l_h l) n i))) [0..<n])"
proof -
  let ?n = "length (l_items l)"
  have small: "0 \<le> l_x l" "0 \<le> l_y l" "0 < l_w l" "0 < l_h l" "l_x l + l_w l \<le> 1920" "l_y l + l_h l \<le> 1080"
    using assms(1) by (simp_all add: in_canvas_def SlideCanvasWidth_def SlideCanvasHeight_def)
  have wrap: "i64 (fst (part_of s t ?n i)) = fst (part_of s t ?n i) \<and> i64 (snd (part_of s t ?n (?n - 1))) = snd (part_of s t ?n (?n - 1))"
    if "i < ?n" "0 \<le> s" "0 < t" "s + t \<le> 1920" for s t i
  proof -
    have "0 \<le> snd (part_of s t ?n i)" if "i < ?n" for i
      using cut_snd_nonneg [of i ?n t s] that \<open>0 < t\<close> by simp
    then show ?thesis
      using cut_within [of i ?n t s] cut_within [of "?n - 1" ?n t s] that
      by (intro conjI i64_id in_i64_small) force+
  qed
  have "i64 (l_x l + go_div (l_w l) (int ?n) * int i) = fst (part_of (l_x l) (l_w l) ?n i)"
    "(if i = ?n - 1 then i64 (l_w l - go_div (l_w l) (int ?n) * (int ?n - 1)) else go_div (l_w l) (int ?n)) =
       snd (part_of (l_x l) (l_w l) ?n i)"
    "i64 (l_y l + go_div (l_h l) (int ?n) * int i) = fst (part_of (l_y l) (l_h l) ?n i)"
    "(if i = ?n - 1 then i64 (l_h l - go_div (l_h l) (int ?n) * (int ?n - 1)) else go_div (l_h l) (int ?n)) =
       snd (part_of (l_y l) (l_h l) ?n i)"
    if "i < ?n" for i
    using wrap [OF that, of "l_x l" "l_w l"] wrap [OF that, of "l_y l" "l_h l"] small
    by (simp_all add: part_of_def go_div_pos)
  then show ?thesis using assms(2) by (simp add: NavItemRects_def Let_def)
qed

text \<open>The regions of a menu tile it: every pixel of the layer belongs to exactly one item's region, and no
  region reaches outside the layer.\<close>

theorem menu_regions_tile:
  assumes "in_canvas l" "l_items l \<noteq> []"
  shows "\<Union> (pixels ` set (NavItemRects l)) = layer_pixels l \<and>
    (\<forall>i j. i < j \<and> j < length (l_items l) \<longrightarrow>
       pixels (NavItemRects l ! i) \<inter> pixels (NavItemRects l ! j) = {}) \<and>
    length (NavItemRects l) = length (l_items l)"
proof -
  let ?n = "length (l_items l)"
  have pos: "0 < ?n" "0 \<le> l_w l" "0 \<le> l_h l" using assms by (simp_all add: in_canvas_def)
  have tile: "(\<Union>i<?n. {fst (part_of s t ?n i)..<fst (part_of s t ?n i) + snd (part_of s t ?n i)}) = {s..<s + t}"
    if "0 \<le> t" for s t
    using cut_covers [OF pos(1) that, of s] cut_within [OF _ that, of _ ?n s] by fastforce
  show ?thesis
  proof (cases "l_w l \<ge> l_h l")
    case True
    then have r: "NavItemRects l =
        map (\<lambda>i. (fst (part_of (l_x l) (l_w l) ?n i), l_y l, snd (part_of (l_x l) (l_w l) ?n i), l_h l)) [0..<?n]"
      using NavItemRects_cut [OF assms] by (simp add: Let_def)
    have "\<Union> (pixels ` set (NavItemRects l)) =
        (\<Union>i<?n. {fst (part_of (l_x l) (l_w l) ?n i)..<fst (part_of (l_x l) (l_w l) ?n i) + snd (part_of (l_x l) (l_w l) ?n i)}) \<times>
        {l_y l..<l_y l + l_h l}"
      by (auto simp: r pixels_def)
    then have "\<Union> (pixels ` set (NavItemRects l)) = layer_pixels l"
      unfolding tile [OF pos(2)] by (simp add: layer_pixels_def pixels_def)
    moreover have "pixels (NavItemRects l ! i) \<inter> pixels (NavItemRects l ! j) = {}" if "i < j" "j < ?n" for i j
      using pixels_apart(1) [OF cut_apart [OF that pos(2)]] that by (simp add: r)
    ultimately show ?thesis by (simp add: r)
  next
    case False
    then have r: "NavItemRects l =
        map (\<lambda>i. (l_x l, fst (part_of (l_y l) (l_h l) ?n i), l_w l, snd (part_of (l_y l) (l_h l) ?n i))) [0..<?n]"
      using NavItemRects_cut [OF assms] by (simp add: Let_def)
    have "\<Union> (pixels ` set (NavItemRects l)) = {l_x l..<l_x l + l_w l} \<times>
        (\<Union>i<?n. {fst (part_of (l_y l) (l_h l) ?n i)..<fst (part_of (l_y l) (l_h l) ?n i) + snd (part_of (l_y l) (l_h l) ?n i)})"
      by (auto simp: r pixels_def)
    then have "\<Union> (pixels ` set (NavItemRects l)) = layer_pixels l"
      unfolding tile [OF pos(3)] by (simp add: layer_pixels_def pixels_def)
    moreover have "pixels (NavItemRects l ! i) \<inter> pixels (NavItemRects l ! j) = {}" if "i < j" "j < ?n" for i j
      using pixels_apart(2) [OF cut_apart [OF that pos(3)]] that by (simp add: r)
    ultimately show ?thesis by (simp add: r)
  qed
qed


section \<open>Examples\<close>

definition demo_menu :: Layer where
  "demo_menu = zero_layer\<lparr>l_kind := ''nav'', l_x := 10, l_y := 20, l_w := 100, l_h := 200,
     l_items := [\<lparr>ni_label = ''a'', ni_target = ''1''\<rparr>, \<lparr>ni_label = ''b'', ni_target = ''2''\<rparr>,
                 \<lparr>ni_label = ''c'', ni_target = ''3''\<rparr>]\<rparr>"

theorem menu_regions_tile_witness:
  "pixels (NavItemRects demo_menu ! 0) \<inter> pixels (NavItemRects demo_menu ! 2) = {} \<and>
   NavItemRects demo_menu = [(10, 20, 100, 66), (10, 86, 100, 66), (10, 152, 100, 68)]"
proof
  have "in_canvas demo_menu" "l_items demo_menu \<noteq> []" "length (l_items demo_menu) = 3" by code_simp+
  then show "pixels (NavItemRects demo_menu ! 0) \<inter> pixels (NavItemRects demo_menu ! 2) = {}"
    using menu_regions_tile [of demo_menu] by simp
  show "NavItemRects demo_menu = [(10, 20, 100, 66), (10, 86, 100, 66), (10, 152, 100, 68)]" by code_simp
qed

definition demo_slide :: "Layer list" where
  "demo_slide =
     [demo_menu,
      zero_layer\<lparr>l_kind := ''image'', l_w := 5, l_h := 5, l_asset := ''a''\<rparr>,
      zero_layer\<lparr>l_kind := ''derive'', l_w := 5, l_h := 5,
        l_derive := Some \<lparr>sp_kind = ''qr'', sp_data = ''d'', sp_ec = '''', sp_text = '''', sp_font_px = 0,
          sp_font_family = '''', sp_font_asset = '''', sp_align = '''', sp_valign = '''', sp_color = '''',
          sp_fill = None, sp_shadow = None, sp_border = None\<rparr>\<rparr>]"

lemma demo_slide_accepted: "ValidateAuthoredSlideLayers demo_slide = None"
  by code_simp

end
