(* ===== verification/Dayparts.thy ===== *)
theory Dayparts
  imports ScopeTree Schedule Layers "HOL-Library.Product_Lexorder" "HOL-Library.Multiset"
begin

text \<open>
  The parameters of a preset command are parsed JSON, so two texts of one value are not told apart.
  The scheduling core of \<open>internal/datamodel\<close>: the rows (\<open>rows.go\<close>), the declared coverage of a daypart
  and the overlap check (\<open>daypart.go\<close>), membership at an instant (\<open>holding.go\<close>), the resolution of a
  node's governing state across schedules (\<open>resolve.go\<close>), and preset transitions (\<open>preset.go\<close>).  An
  instant is in Unix milliseconds; the zone database is the parameter \<open>LoadLocation\<close>.  Of the rows' fields
  those no operation of these files reads (external ids, labels, revisions and timestamps of schedules,
  playlists, casts, validity windows and fallbacks) are left out; a preset batch and a daypart keep theirs, which the carry
  decision compares.
\<close>

section \<open>Rows\<close>

record Slide =
  sl_layers :: "Layer list"

record PlaylistItem =
  pi_source :: string
  pi_asset :: string
  pi_content_type :: string
  pi_pack :: string
  pi_content :: string
  pi_duration_s :: "int option"
  pi_slide :: "Slide option"
  pi_cast :: string

record Playlist =
  pl_id :: string
  pl_scope_node :: string
  pl_name :: string
  pl_items :: "PlaylistItem list"

definition PlaylistSources :: "string list" where
  "PlaylistSources = [''asset'', ''playable'', ''slide'', ''cast'']"

record CastSlide =
  cs_id :: string
  cs_duration_ms :: int
  cs_layers :: "Layer list"

record CastRow =
  ca_id :: string
  ca_scope_node :: string
  ca_name :: string
  ca_slides :: "CastSlide list"
  ca_default_ms :: int
  ca_template :: bool

definition SlideDwellMS :: "CastSlide \<Rightarrow> CastRow \<Rightarrow> int \<Rightarrow> int" where
  "SlideDwellMS slide cast_row itemDurationMS =
     (if cs_duration_ms slide > 0 then cs_duration_ms slide
      else if itemDurationMS > 0 then itemDurationMS
      else if ca_default_ms cast_row > 0 then ca_default_ms cast_row
      else 0)"

record ScheduleRow =
  sch_id :: string
  sch_scope_node :: string
  sch_name :: string
  sch_fallback_id :: string
  sch_priority :: "int option"
  sch_misfire :: string

definition EffectivePriority :: "ScheduleRow \<Rightarrow> int" where
  "EffectivePriority s = (case sch_priority s of None \<Rightarrow> 0 | Some p \<Rightarrow> p)"

record ValidityWindow =
  vw_id :: string
  vw_schedule_id :: string
  vw_scope_node :: string
  vw_starts_at :: "int option"
  vw_ends_at :: "int option"

record Daypart =
  dp_id :: string
  dp_schedule_id :: string
  dp_scope_node :: string
  dp_days :: "int list"
  dp_start :: string
  dp_end :: string
  dp_power :: string
  dp_playlist :: string
  dp_preset :: string
  dp_misfire :: string
  dp_name :: string
  dp_revision :: int
  dp_created :: int
  dp_updated :: int

definition Daypart_EffectiveMisfire :: "Daypart \<Rightarrow> ScheduleRow \<Rightarrow> string" where
  "Daypart_EffectiveMisfire d owning =
     (if dp_misfire d \<noteq> '''' then dp_misfire d
      else if sch_misfire owning \<noteq> '''' then sch_misfire owning
      else ''catch_up_once'')"

definition Schedule_EffectiveMisfire :: "ScheduleRow \<Rightarrow> string" where
  "Schedule_EffectiveMisfire s = (if sch_misfire s \<noteq> '''' then sch_misfire s else ''catch_up_once'')"

record Fallback =
  fb_id :: string
  fb_scope_node :: string
  fb_name :: string
  fb_power :: string
  fb_playlist :: string

record PresetCommand =
  pc_entity :: string
  pc_command :: string
  pc_params :: "json option"

record CommandResult =
  cr_target :: string
  cr_command :: string
  cr_ok :: bool
  cr_error :: string

record PresetBatchOutcome =
  pbo_outcome :: string
  pbo_results :: "CommandResult list"
  pbo_evaluated_at :: int

record PresetBatch =
  pb_id :: string
  pb_scope_node :: string
  pb_name :: string
  pb_commands :: "PresetCommand list"
  pb_last_outcome :: "PresetBatchOutcome option"
  pb_external_id :: string
  pb_labels :: "(string \<rightharpoonup> string) option"
  pb_revision :: int
  pb_created :: int
  pb_updated :: int

record RowSet =
  rs_playlists :: "Playlist list"
  rs_casts :: "CastRow list"
  rs_schedules :: "ScheduleRow list"
  rs_windows :: "ValidityWindow list"
  rs_dayparts :: "Daypart list"
  rs_fallbacks :: "Fallback list"
  rs_presets :: "PresetBatch list"

record RowStore =
  st_tree :: ScopeTree
  st_rows :: RowSet

section \<open>Declared coverage\<close>

definition secondsPerDay :: int where
  "secondsPerDay = 24 * 60 * 60"

record segment =
  seg_weekday :: int
  seg_from :: int
  seg_until :: int

definition two_digits :: "string \<Rightarrow> int option" where
  "two_digits p =
     (if length p \<noteq> 2 \<or> \<not> is_digit (p ! 0) \<or> \<not> is_digit (p ! 1) then None
      else Some (int (digit_val (p ! 0)) * 10 + int (digit_val (p ! 1))))"

definition parseTimeOfDay :: "string \<Rightarrow> int option" where
  "parseTimeOfDay s =
     (case split_on CHR '':'' s of
        [a, b, c] \<Rightarrow>
          (case (two_digits a, two_digits b, two_digits c) of
             (Some h, Some m, Some sec) \<Rightarrow>
               if h > 23 \<or> m > 59 \<or> sec > 59 then None else Some (h * 3600 + m * 60 + sec)
           | _ \<Rightarrow> None)
      | _ \<Rightarrow> None)"

definition segments_of_day :: "int \<Rightarrow> int \<Rightarrow> int \<Rightarrow> segment list" where
  "segments_of_day start en day =
     (if day < 0 \<or> day > 6 then []
      else if en > start then [\<lparr>seg_weekday = day, seg_from = start, seg_until = en\<rparr>]
      else
        (if start < secondsPerDay then [\<lparr>seg_weekday = day, seg_from = start, seg_until = secondsPerDay\<rparr>] else []) @
        (if en > 0 then [\<lparr>seg_weekday = (day + 1) mod 7, seg_from = 0, seg_until = en\<rparr>] else []))"

definition daypartSegments :: "Daypart \<Rightarrow> segment list option" where
  "daypartSegments d =
     (case (parseTimeOfDay (dp_start d), parseTimeOfDay (dp_end d)) of
        (Some start, Some en) \<Rightarrow> Some (concat (map (segments_of_day start en) (dp_days d)))
      | _ \<Rightarrow> None)"

definition segmentsIntersect :: "segment \<Rightarrow> segment \<Rightarrow> bool" where
  "segmentsIntersect a b \<longleftrightarrow>
     seg_weekday a = seg_weekday b \<and> seg_from a < seg_until b \<and> seg_from b < seg_until a"

text \<open>The schedules in the order of their first daypart, and the pairwise comparison within one of them.\<close>

fun first_seen :: "string list \<Rightarrow> string list \<Rightarrow> string list" where
  "first_seen seen [] = []"
| "first_seen seen (x # xs) = (if x \<in> set seen then first_seen seen xs else x # first_seen (x # seen) xs)"

definition segs_overlap :: "segment list \<Rightarrow> segment list \<Rightarrow> bool" where
  "segs_overlap as bs = list_ex (\<lambda>a. list_ex (segmentsIntersect a) bs) as"

fun group_overlaps :: "segment list list \<Rightarrow> bool" where
  "group_overlaps [] = False"
| "group_overlaps (as # rest) = (list_ex (segs_overlap as) rest \<or> group_overlaps rest)"

definition segments_or_none :: "Daypart \<Rightarrow> segment list" where
  "segments_or_none d = (case daypartSegments d of None \<Rightarrow> [] | Some segs \<Rightarrow> segs)"

definition ValidateNoOverlap :: "Daypart list \<Rightarrow> dm_error option" where
  "ValidateNoOverlap dayparts =
     (if list_ex (\<lambda>sid. group_overlaps (map segments_or_none (filter (\<lambda>d. dp_schedule_id d = sid) dayparts)))
           (first_seen [] (map dp_schedule_id dayparts))
      then Some (dm_err ''dayparts'' ''DAYPART_OVERLAP'') else None)"

section \<open>Membership at an instant\<close>

definition weekday :: "zone \<Rightarrow> int \<Rightarrow> int" where
  "weekday z tMs = (local_day z (tMs div 1000) + 4) mod 7"

definition Holds :: "Daypart \<Rightarrow> zone option \<Rightarrow> int \<Rightarrow> bool" where
  "Holds dp loc tMs =
     (case loc of None \<Rightarrow> False
      | Some z \<Rightarrow>
          (case daypartSegments dp of None \<Rightarrow> False
           | Some segs \<Rightarrow>
               let wd = weekday z tMs; c = local_clock z (tMs div 1000);
                   sod = (c div 3600) * 3600 + (c div 60 mod 60) * 60 + c mod 60
               in list_ex (\<lambda>s. seg_weekday s = wd \<and> sod \<ge> seg_from s \<and> sod < seg_until s) segs))"

fun HoldingDaypart :: "ScheduleRow \<Rightarrow> Daypart list \<Rightarrow> zone option \<Rightarrow> int \<Rightarrow> Daypart option" where
  "HoldingDaypart s [] loc tMs = None"
| "HoldingDaypart s (d # ds) loc tMs =
     (if dp_schedule_id d \<noteq> sch_id s then HoldingDaypart s ds loc tMs
      else if Holds d loc tMs then Some d
      else HoldingDaypart s ds loc tMs)"

section \<open>Resolution across schedules\<close>

record EffectiveState =
  ef_daypart :: "Daypart option"
  ef_fallback :: "Fallback option"
  ef_display :: string
  ef_playlist :: string
  ef_schedule :: string

definition inForce :: "ValidityWindow list \<Rightarrow> int \<Rightarrow> bool" where
  "inForce windows tMs =
     (if windows = [] then True
      else list_ex (\<lambda>w. (case vw_starts_at w of None \<Rightarrow> True | Some a \<Rightarrow> tMs \<ge> a) \<and>
                        (case vw_ends_at w of None \<Rightarrow> True | Some b \<Rightarrow> tMs < b)) windows)"

text \<open>\<open>distByNode\<close>: the index of a node in the chain.\<close>

definition distByNode :: "string list \<Rightarrow> string \<Rightarrow> nat option" where
  "distByNode chain = map_of (rev (zip chain [0..<length chain]))"

text \<open>The precedence order as a sort key: priority descending, distance and id ascending.\<close>

definition precedence :: "ScheduleRow \<times> nat \<Rightarrow> int \<times> nat \<times> string" where
  "precedence sd = (- EffectivePriority (fst sd), snd sd, sch_id (fst sd))"

definition applicable :: "RowStore \<Rightarrow> string \<Rightarrow> int \<Rightarrow> (ScheduleRow \<times> nat) list" where
  "applicable store node tMs =
     concat (map (\<lambda>s. case distByNode (AncestorChain (st_tree store) node) (sch_scope_node s) of
         None \<Rightarrow> []
       | Some k \<Rightarrow>
           if inForce (filter (\<lambda>w. vw_schedule_id w = sch_id s) (rs_windows (st_rows store))) tMs
           then [(s, k)] else []) (rs_schedules (st_rows store)))"

definition ApplicableSchedules :: "RowStore \<Rightarrow> string \<Rightarrow> int \<Rightarrow> ScheduleRow list" where
  "ApplicableSchedules store node tMs =
     (if AncestorChain (st_tree store) node = [] then []
      else map fst (sort_key precedence (applicable store node tMs)))"

definition projectDisplay :: "string \<Rightarrow> string \<Rightarrow> string \<times> string" where
  "projectDisplay pw playlist = (if pw = ''on'' then (''content'', playlist) else (''blank'', ''''))"

definition findFallback :: "Fallback list \<Rightarrow> string \<Rightarrow> Fallback option" where
  "findFallback fbs i = find (\<lambda>f. fb_id f = i) fbs"

fun daypart_layer :: "ScheduleRow list \<Rightarrow> Daypart list \<Rightarrow> zone option \<Rightarrow> int \<Rightarrow> EffectiveState option" where
  "daypart_layer [] ds loc tMs = None"
| "daypart_layer (s # ss) ds loc tMs =
     (case HoldingDaypart s ds loc tMs of
        Some dp \<Rightarrow>
          (case projectDisplay (dp_power dp) (dp_playlist dp) of (display, playlist) \<Rightarrow>
             Some \<lparr>ef_daypart = Some dp, ef_fallback = None, ef_display = display, ef_playlist = playlist,
                   ef_schedule = sch_id s\<rparr>)
      | None \<Rightarrow> daypart_layer ss ds loc tMs)"

fun fallback_layer :: "ScheduleRow list \<Rightarrow> Fallback list \<Rightarrow> EffectiveState option" where
  "fallback_layer [] fbs = None"
| "fallback_layer (s # ss) fbs =
     (if sch_fallback_id s = '''' then fallback_layer ss fbs
      else case findFallback fbs (sch_fallback_id s) of
        Some fb \<Rightarrow>
          (case projectDisplay (fb_power fb) (fb_playlist fb) of (display, playlist) \<Rightarrow>
             Some \<lparr>ef_daypart = None, ef_fallback = Some fb, ef_display = display, ef_playlist = playlist,
                   ef_schedule = sch_id s\<rparr>)
      | None \<Rightarrow> fallback_layer ss fbs)"

definition Resolve_state ::
  "(string \<Rightarrow> zone option) \<Rightarrow> RowStore \<Rightarrow> string \<Rightarrow> int \<Rightarrow> dm_error + EffectiveState" where
  "Resolve_state LoadLocation store node tMs =
     (case EffectiveTZ (st_tree store) node of
        Inl e \<Rightarrow> Inl e
      | Inr (tz, _, _) \<Rightarrow>
          (case LoadLocation tz of
             None \<Rightarrow> Inl (dm_err ''tz'' ''EFFECTIVE_GEO_UNRESOLVED'')
           | Some loc \<Rightarrow>
               let schedules = ApplicableSchedules store node tMs in
               (case daypart_layer schedules (rs_dayparts (st_rows store)) (Some loc) tMs of
                  Some st \<Rightarrow> Inr st
                | None \<Rightarrow>
                    (case fallback_layer schedules (rs_fallbacks (st_rows store)) of
                       Some st \<Rightarrow> Inr st
                     | None \<Rightarrow> Inr \<lparr>ef_daypart = None, ef_fallback = None, ef_display = ''blank'',
                                    ef_playlist = '''', ef_schedule = ''''\<rparr>))))"

section \<open>Preset transitions\<close>

record PresetFire =
  pf_daypart :: string
  pf_batch :: string

definition effectiveDaypartID :: "EffectiveState option \<Rightarrow> string" where
  "effectiveDaypartID s =
     (case s of None \<Rightarrow> '''' | Some st \<Rightarrow> (case ef_daypart st of None \<Rightarrow> '''' | Some d \<Rightarrow> dp_id d))"

definition PresetTransition :: "EffectiveState option \<Rightarrow> EffectiveState option \<Rightarrow> PresetFire option" where
  "PresetTransition prev cur =
     (let curID = effectiveDaypartID cur in
      if curID = '''' then None
      else if curID = effectiveDaypartID prev then None
      else let batch = dp_preset (the (ef_daypart (the cur))) in
           if batch = '''' then None else Some \<lparr>pf_daypart = curID, pf_batch = batch\<rparr>)"

definition sameDaypart :: "Daypart option \<Rightarrow> Daypart option \<Rightarrow> bool" where
  "sameDaypart prev cur =
     (case (prev, cur) of
        (Some a, Some b) \<Rightarrow>
          a\<lparr>dp_revision := 0, dp_created := 0, dp_updated := 0\<rparr> =
          b\<lparr>dp_revision := 0, dp_created := 0, dp_updated := 0\<rparr>
      | (None, None) \<Rightarrow> True
      | _ \<Rightarrow> False)"

definition samePresetBatch :: "PresetBatch option \<Rightarrow> PresetBatch option \<Rightarrow> bool" where
  "samePresetBatch prev cur =
     (case (prev, cur) of
        (Some a, Some b) \<Rightarrow>
          a\<lparr>pb_last_outcome := None, pb_revision := 0, pb_created := 0, pb_updated := 0\<rparr> =
          b\<lparr>pb_last_outcome := None, pb_revision := 0, pb_created := 0, pb_updated := 0\<rparr>
      | (None, None) \<Rightarrow> True
      | _ \<Rightarrow> False)"

definition store_daypart :: "RowStore \<Rightarrow> string \<Rightarrow> Daypart option" where
  "store_daypart store i = find (\<lambda>d. dp_id d = i) (rs_dayparts (st_rows store))"

definition store_presetBatch :: "RowStore \<Rightarrow> string \<Rightarrow> PresetBatch option" where
  "store_presetBatch store i = find (\<lambda>p. pb_id p = i) (rs_presets (st_rows store))"

definition MayCarryAcrossApply :: "EffectiveState option \<Rightarrow> PresetBatch option \<Rightarrow> RowStore \<Rightarrow> bool" where
  "MayCarryAcrossApply prev prevBatch applied =
     (case prev of
        None \<Rightarrow> False
      | Some st \<Rightarrow>
          (case ef_daypart st of
             None \<Rightarrow> True
           | Some d \<Rightarrow>
               (case store_daypart applied (dp_id d) of
                  None \<Rightarrow> False
                | Some cur \<Rightarrow>
                    if \<not> sameDaypart (Some d) (Some cur) then False
                    else if dp_preset cur = '''' then True
                    else samePresetBatch prevBatch (store_presetBatch applied (dp_preset cur)))))"

definition classifyOutcome :: "CommandResult list \<Rightarrow> string" where
  "classifyOutcome results =
     (let anyOK = list_ex cr_ok results; anyFail = list_ex (\<lambda>r. \<not> cr_ok r) results in
      if anyOK \<and> anyFail then ''partial'' else if anyFail then ''failed'' else ''complete'')"

definition BatchOutcome :: "CommandResult list \<Rightarrow> int \<Rightarrow> PresetBatchOutcome" where
  "BatchOutcome results evaluatedAt =
     \<lparr>pbo_outcome = classifyOutcome results, pbo_results = results, pbo_evaluated_at = evaluatedAt\<rparr>"

section \<open>The overlap check\<close>

text \<open>The local seconds of the week a daypart declares.\<close>

definition declares :: "Daypart \<Rightarrow> int \<Rightarrow> int \<Rightarrow> bool" where
  "declares d w s \<longleftrightarrow> (\<exists>g \<in> set (segments_or_none d). seg_weekday g = w \<and> seg_from g \<le> s \<and> s < seg_until g)"

lemma parseTimeOfDay_range: "parseTimeOfDay s = Some t \<Longrightarrow> 0 \<le> t \<and> t < secondsPerDay"
  by (auto simp: parseTimeOfDay_def two_digits_def secondsPerDay_def split: list.splits option.splits if_splits)

lemma segments_nonempty:
  assumes "g \<in> set (segments_or_none d)"
  shows "seg_from g < seg_until g"
  using assms parseTimeOfDay_range [of "dp_start d"] parseTimeOfDay_range [of "dp_end d"]
  by (auto simp: segments_or_none_def daypartSegments_def segments_of_day_def split: option.splits if_splits)

lemma segs_overlap_declares:
  "segs_overlap (segments_or_none a) (segments_or_none b) \<longleftrightarrow> (\<exists>w s. declares a w s \<and> declares b w s)"
proof
  assume "segs_overlap (segments_or_none a) (segments_or_none b)"
  then obtain g h where g: "g \<in> set (segments_or_none a)" "h \<in> set (segments_or_none b)" "segmentsIntersect g h"
    by (auto simp: segs_overlap_def list_ex_iff)
  have "declares a (seg_weekday g) (max (seg_from g) (seg_from h))"
    unfolding declares_def using g segments_nonempty by (intro bexI [of _ g]) (auto simp: segmentsIntersect_def)
  moreover have "declares b (seg_weekday g) (max (seg_from g) (seg_from h))"
    unfolding declares_def using g segments_nonempty by (intro bexI [of _ h]) (auto simp: segmentsIntersect_def)
  ultimately show "\<exists>w s. declares a w s \<and> declares b w s" by blast
next
  assume "\<exists>w s. declares a w s \<and> declares b w s"
  then obtain g h s where g: "g \<in> set (segments_or_none a)" "h \<in> set (segments_or_none b)"
      "seg_weekday g = seg_weekday h" "seg_from g \<le> s" "s < seg_until g" "seg_from h \<le> s" "s < seg_until h"
    by (auto simp: declares_def)
  then have "segmentsIntersect g h" by (simp add: segmentsIntersect_def)
  then show "segs_overlap (segments_or_none a) (segments_or_none b)"
    using g(1,2) by (auto simp: segs_overlap_def list_ex_iff)
qed

lemma group_overlaps_sorted: "group_overlaps xs \<longleftrightarrow> \<not> sorted_wrt (\<lambda>a b. \<not> segs_overlap a b) xs"
  by (induction xs) (auto simp: list_ex_iff)

lemma first_seen_set: "set (first_seen seen xs) = set xs - set seen"
  by (induction xs arbitrary: seen) auto

lemma sorted_wrt_by_key:
  "(\<forall>k \<in> f ` set xs. sorted_wrt P (filter (\<lambda>x. f x = k) xs)) \<longleftrightarrow> sorted_wrt (\<lambda>a b. f a = f b \<longrightarrow> P a b) xs"
proof (induction xs)
  case (Cons x xs)
  have "(\<forall>k \<in> f ` set (x # xs). sorted_wrt P (filter (\<lambda>y. f y = k) (x # xs))) \<longleftrightarrow>
      (\<forall>y \<in> set xs. f x = f y \<longrightarrow> P x y) \<and> (\<forall>k \<in> f ` set xs. sorted_wrt P (filter (\<lambda>y. f y = k) xs)) \<and>
      sorted_wrt P (filter (\<lambda>y. f y = f x) xs)"
    by (auto split: if_splits)
  moreover have "sorted_wrt P (filter (\<lambda>y. f y = f x) xs)"
    if "\<forall>k \<in> f ` set xs. sorted_wrt P (filter (\<lambda>y. f y = k) xs)"
  proof (cases "f x \<in> f ` set xs")
    case False
    then have "filter (\<lambda>y. f y = f x) xs = []" by (auto simp: filter_empty_conv image_iff)
    then show ?thesis by simp
  qed (use that in blast)
  ultimately show ?case using Cons.IH by auto
qed simp

lemma ValidateNoOverlap_sorted:
  "ValidateNoOverlap ds = None \<longleftrightarrow>
     sorted_wrt (\<lambda>a b. dp_schedule_id a = dp_schedule_id b \<longrightarrow> \<not> (\<exists>w s. declares a w s \<and> declares b w s)) ds"
  by (subst sorted_wrt_by_key [symmetric])
     (simp add: ValidateNoOverlap_def list_ex_iff first_seen_set group_overlaps_sorted sorted_wrt_map
       segs_overlap_declares)

text \<open>C37. The overlap check is exact: it reports an overlap precisely when two dayparts of one schedule, at
  different positions of the list, both declare some second of some weekday.\<close>

theorem overlap_check_exact:
  "ValidateNoOverlap ds \<noteq> None \<longleftrightarrow>
     (\<exists>i j w s. i < j \<and> j < length ds \<and> dp_schedule_id (ds ! i) = dp_schedule_id (ds ! j) \<and>
        declares (ds ! i) w s \<and> declares (ds ! j) w s)"
  unfolding ValidateNoOverlap_sorted sorted_wrt_iff_nth_less by auto

section \<open>One daypart holds\<close>

lemma Holds_declares: "Holds d loc t \<Longrightarrow> \<exists>z. loc = Some z \<and> declares d (weekday z t)
    ((local_clock z (t div 1000) div 3600) * 3600 + (local_clock z (t div 1000) div 60 mod 60) * 60 +
     local_clock z (t div 1000) mod 60)"
  by (auto simp: Holds_def declares_def segments_or_none_def list_ex_iff Let_def split: option.splits)

lemma HoldingDaypart_find:
  "HoldingDaypart s ds loc t = find (\<lambda>d. dp_schedule_id d = sch_id s \<and> Holds d loc t) ds"
  by (induction ds) auto

lemma no_overlap_unique:
  assumes "ValidateNoOverlap ds = None" "d \<in> set ds" "e \<in> set ds"
    "dp_schedule_id d = dp_schedule_id e" "Holds d loc t" "Holds e loc t"
  shows "d = e"
proof (rule ccontr)
  assume "d \<noteq> e"
  obtain w s where "declares d w s \<and> declares e w s"
    using Holds_declares [OF assms(5)] Holds_declares [OF assms(6)] by auto
  moreover obtain i j where "i < length ds" "ds ! i = d" "j < length ds" "ds ! j = e" "i \<noteq> j"
    using assms(2,3) \<open>d \<noteq> e\<close> by (metis in_set_conv_nth)
  ultimately have "ValidateNoOverlap ds \<noteq> None"
    using assms(4) unfolding ValidateNoOverlap_sorted sorted_wrt_iff_nth_less by (metis linorder_neqE_nat)
  then show False using assms(1) by simp
qed

lemma find_unique_set:
  assumes "set xs = set ys" "\<And>x y. x \<in> set xs \<Longrightarrow> y \<in> set xs \<Longrightarrow> P x \<Longrightarrow> P y \<Longrightarrow> x = y"
  shows "find P xs = find P ys"
proof (cases "find P xs")
  case None
  then show ?thesis using assms(1) by (metis find_None_iff)
next
  case (Some x)
  then have x: "x \<in> set xs" "P x" by (auto simp: find_Some_iff)
  obtain y where y: "find P ys = Some y" using x assms(1) by (cases "find P ys") (auto simp: find_None_iff)
  then have "y \<in> set ys" "P y" by (auto simp: find_Some_iff)
  then show ?thesis using assms x y Some by simp
qed

lemma HoldingDaypart_set:
  assumes "set ds = set es" "ValidateNoOverlap ds = None"
  shows "HoldingDaypart s ds loc t = HoldingDaypart s es loc t"
  unfolding HoldingDaypart_find
  by (rule find_unique_set [OF assms(1)]) (use no_overlap_unique [OF assms(2)] in auto)


section \<open>Resolution does not depend on the order of the rows\<close>

text \<open>Two row stores over one tree that hold the same rows in possibly different order.\<close>

definition same_rows :: "RowStore \<Rightarrow> RowStore \<Rightarrow> bool" where
  "same_rows a b \<longleftrightarrow>
     st_tree a = st_tree b \<and>
     mset (rs_schedules (st_rows a)) = mset (rs_schedules (st_rows b)) \<and>
     set (rs_windows (st_rows a)) = set (rs_windows (st_rows b)) \<and>
     set (rs_dayparts (st_rows a)) = set (rs_dayparts (st_rows b)) \<and>
     set (rs_fallbacks (st_rows a)) = set (rs_fallbacks (st_rows b))"

definition keyed_rows :: "RowStore \<Rightarrow> bool" where
  "keyed_rows a \<longleftrightarrow> distinct (map sch_id (rs_schedules (st_rows a))) \<and>
     distinct (map fb_id (rs_fallbacks (st_rows a))) \<and> ValidateNoOverlap (rs_dayparts (st_rows a)) = None"

lemma inForce_set: "set ws = set vs \<Longrightarrow> inForce (filter P ws) t = inForce (filter P vs) t"
  by (auto simp: inForce_def list_ex_iff filter_empty_conv)

lemma applicable_mset:
  assumes "same_rows a b"
  shows "mset (applicable a node t) = mset (applicable b node t)"
proof -
  define f where "f = (\<lambda>s :: ScheduleRow. case distByNode (AncestorChain (st_tree a) node) (sch_scope_node s) of
         None \<Rightarrow> []
       | Some k \<Rightarrow>
           if inForce (filter (\<lambda>w. vw_schedule_id w = sch_id s) (rs_windows (st_rows a))) t
           then [(s, k)] else [])"
  have "applicable b node t = concat (map f (rs_schedules (st_rows b)))"
    using assms inForce_set [of "rs_windows (st_rows a)" "rs_windows (st_rows b)"]
    by (auto simp: f_def applicable_def same_rows_def cong: option.case_cong intro!: arg_cong [of _ _ concat])
  moreover have "applicable a node t = concat (map f (rs_schedules (st_rows a)))"
    by (simp add: f_def applicable_def)
  moreover have "mset (concat (map f xs)) = \<Sum>\<^sub># (image_mset (mset \<circ> f) (mset xs))" for xs
    by (induction xs) (simp_all add: comp_def)
  ultimately show ?thesis using assms by (simp add: same_rows_def)
qed

lemma applicable_schedule: "p \<in> set (applicable a node t) \<Longrightarrow> fst p \<in> set (rs_schedules (st_rows a)) \<and>
    distByNode (AncestorChain (st_tree a) node) (sch_scope_node (fst p)) = Some (snd p)"
  by (auto simp: applicable_def split: option.splits if_splits)

lemma precedence_inj:
  assumes "distinct (map sch_id (rs_schedules (st_rows a)))"
  shows "inj_on precedence (set (applicable a node t))"
proof (rule inj_onI)
  fix p q assume p: "p \<in> set (applicable a node t)" "q \<in> set (applicable a node t)" "precedence p = precedence q"
  then have "sch_id (fst p) = sch_id (fst q)" "snd p = snd q" by (simp_all add: precedence_def)
  moreover have "inj_on sch_id (set (rs_schedules (st_rows a)))" using assms by (simp add: distinct_map)
  ultimately show "p = q" using p applicable_schedule by (metis inj_onD prod_eqI)
qed

lemma ApplicableSchedules_same:
  assumes "same_rows a b" "distinct (map sch_id (rs_schedules (st_rows a)))"
  shows "ApplicableSchedules a node t = ApplicableSchedules b node t"
proof -
  have "sort_key precedence (applicable a node t) = sort_key precedence (applicable b node t)"
    by (rule sort_key_inj_key_eq)
       (use applicable_mset [OF assms(1)] precedence_inj [OF assms(2)] in simp_all)
  then show ?thesis using assms(1) by (simp add: ApplicableSchedules_def same_rows_def)
qed

lemma daypart_layer_set:
  assumes "set ds = set es" "ValidateNoOverlap ds = None"
  shows "daypart_layer ss ds loc t = daypart_layer ss es loc t"
  by (induction ss) (simp_all add: HoldingDaypart_set [OF assms] cong: option.case_cong)

lemma fallback_layer_set:
  assumes "set fs = set gs" "distinct (map fb_id fs)"
  shows "fallback_layer ss fs = fallback_layer ss gs"
proof -
  have "findFallback fs i = findFallback gs i" for i
    unfolding findFallback_def
    by (rule find_unique_set [OF assms(1)]) (use assms(2) in \<open>auto simp: distinct_map dest: inj_onD\<close>)
  then show ?thesis by (induction ss) (simp_all cong: option.case_cong)
qed

text \<open>C20. What a node shows is a function of the rows the platform holds, not of the order in which it holds
  them: two stores with the same rows resolve every node at every instant alike, provided ids are unique and no
  two dayparts of a schedule overlap.\<close>

theorem resolution_ignores_row_order:
  assumes "same_rows a b" "keyed_rows a"
  shows "Resolve_state LoadLocation a node t = Resolve_state LoadLocation b node t"
proof -
  have "ApplicableSchedules a node t = ApplicableSchedules b node t"
    "daypart_layer ss (rs_dayparts (st_rows a)) loc t = daypart_layer ss (rs_dayparts (st_rows b)) loc t"
    "fallback_layer ss (rs_fallbacks (st_rows a)) = fallback_layer ss (rs_fallbacks (st_rows b))" for ss loc
    using assms ApplicableSchedules_same daypart_layer_set fallback_layer_set
    by (auto simp: same_rows_def keyed_rows_def)
  moreover have "st_tree a = st_tree b" using assms(1) by (simp add: same_rows_def)
  ultimately show ?thesis unfolding Resolve_state_def by (simp cong: sum.case_cong option.case_cong)
qed

section \<open>The governing schedule\<close>

lemma daypart_layer_first:
  "daypart_layer ss ds loc t =
     (case find (\<lambda>s. HoldingDaypart s ds loc t \<noteq> None) ss of
        None \<Rightarrow> None
      | Some s \<Rightarrow> (case HoldingDaypart s ds loc t of
            None \<Rightarrow> None
          | Some d \<Rightarrow> Some \<lparr>ef_daypart = Some d, ef_fallback = None,
              ef_display = fst (projectDisplay (dp_power d) (dp_playlist d)),
              ef_playlist = snd (projectDisplay (dp_power d) (dp_playlist d)), ef_schedule = sch_id s\<rparr>))"
proof (induction ss)
  case (Cons s ss)
  then show ?case by (cases "HoldingDaypart s ds loc t") (simp_all add: split_beta)
qed simp

lemma fallback_layer_no_daypart: "fallback_layer ss fs = Some st \<Longrightarrow> ef_daypart st = None"
  by (induction ss) (auto split: option.splits if_splits prod.splits)

lemma sorted_find_least:
  fixes f :: "'a \<Rightarrow> 'k::linorder"
  assumes "find P (map g (sort_key f xs)) = Some y"
  shows "\<exists>x \<in> set xs. g x = y \<and> P y \<and> (\<forall>x' \<in> set xs. P (g x') \<longrightarrow> f x \<le> f x')"
proof -
  obtain i where i: "i < length xs" "P (g (sort_key f xs ! i))" "y = g (sort_key f xs ! i)"
      "\<forall>j<i. \<not> P (g (sort_key f xs ! j))"
    using assms unfolding find_Some_iff by auto
  have "f (sort_key f xs ! i) \<le> f x'" if "x' \<in> set xs" "P (g x')" for x'
  proof -
    have "x' \<in> set (sort_key f xs)" using that(1) by simp
    then obtain j where j: "j < length xs" "sort_key f xs ! j = x'"
      unfolding in_set_conv_nth by auto
    then have "i \<le> j" using i(4) that(2) by (meson not_le)
    then show ?thesis using sorted_nth_mono [of "map f (sort_key f xs)" i j] i(1) j by simp
  qed
  moreover have "sort_key f xs ! i \<in> set xs" using nth_mem [of i "sort_key f xs"] i(1) by simp
  ultimately show ?thesis using i by blast
qed

text \<open>When a daypart governs a node it belongs to an applicable schedule, holds at that instant, and no
  applicable schedule of higher precedence (priority, then nearness, then id) has a daypart that holds; and a
  daypart governs whenever any applicable schedule has one that holds, whatever the fallbacks are.\<close>

theorem governing_daypart:
  assumes "Resolve_state LoadLocation a node t = Inr st"
  shows "\<exists>z. (\<forall>d. ef_daypart st = Some d \<longrightarrow>
      (\<exists>p \<in> set (applicable a node t). ef_schedule st = sch_id (fst p) \<and> dp_schedule_id d = sch_id (fst p) \<and>
          d \<in> set (rs_dayparts (st_rows a)) \<and> Holds d (Some z) t \<and>
          (\<forall>q \<in> set (applicable a node t). precedence q < precedence p \<longrightarrow>
             \<not> (\<exists>e \<in> set (rs_dayparts (st_rows a)). dp_schedule_id e = sch_id (fst q) \<and> Holds e (Some z) t)))) \<and>
    (ef_daypart st = None \<longrightarrow>
       \<not> (\<exists>q \<in> set (applicable a node t). \<exists>e \<in> set (rs_dayparts (st_rows a)).
            dp_schedule_id e = sch_id (fst q) \<and> Holds e (Some z) t))"
proof -
  let ?ds = "rs_dayparts (st_rows a)"
  obtain tz x y z where tz: "EffectiveTZ (st_tree a) node = Inr (tz, x, y)" "LoadLocation tz = Some z"
    using assms by (auto simp: Resolve_state_def split: sum.splits option.splits)
  let ?P = "\<lambda>s. HoldingDaypart s ?ds (Some z) t \<noteq> None"
  have P: "?P s \<longleftrightarrow> (\<exists>e \<in> set ?ds. dp_schedule_id e = sch_id s \<and> Holds e (Some z) t)" for s
    by (auto simp: HoldingDaypart_find find_None_iff)
  have chain: "applicable a node t = []" if "AncestorChain (st_tree a) node = []"
    using that by (simp add: applicable_def distByNode_def)
  have sch: "ApplicableSchedules a node t = map fst (sort_key precedence (applicable a node t))"
    using chain by (auto simp: ApplicableSchedules_def)
  show ?thesis
  proof (intro exI [of _ z] conjI allI impI)
    fix d assume d: "ef_daypart st = Some d"
    then have "daypart_layer (ApplicableSchedules a node t) ?ds (Some z) t = Some st"
      using assms tz fallback_layer_no_daypart by (auto simp: Resolve_state_def Let_def split: option.splits)
    then obtain s where s: "find ?P (ApplicableSchedules a node t) = Some s"
        "HoldingDaypart s ?ds (Some z) t = Some d" "ef_schedule st = sch_id s"
      using d by (auto simp: daypart_layer_first split: option.splits)
    then obtain p where p: "p \<in> set (applicable a node t)" "fst p = s"
        "\<forall>q \<in> set (applicable a node t). ?P (fst q) \<longrightarrow> precedence p \<le> precedence q"
      using sorted_find_least [of ?P fst precedence "applicable a node t" s] unfolding sch by blast
    have "d \<in> set ?ds \<and> dp_schedule_id d = sch_id s \<and> Holds d (Some z) t"
      using s(2) by (auto simp: HoldingDaypart_find find_Some_iff)
    then show "\<exists>p \<in> set (applicable a node t). ef_schedule st = sch_id (fst p) \<and> dp_schedule_id d = sch_id (fst p) \<and>
          d \<in> set ?ds \<and> Holds d (Some z) t \<and>
          (\<forall>q \<in> set (applicable a node t). precedence q < precedence p \<longrightarrow>
             \<not> (\<exists>e \<in> set ?ds. dp_schedule_id e = sch_id (fst q) \<and> Holds e (Some z) t))"
      using p s(3) P by (metis leD)
  next
    assume "ef_daypart st = None"
    then have "daypart_layer (ApplicableSchedules a node t) ?ds (Some z) t = None"
      using assms tz by (auto simp: Resolve_state_def Let_def daypart_layer_first split: option.splits)
    then have "find ?P (ApplicableSchedules a node t) = None"
      by (auto simp: daypart_layer_first find_Some_iff split: option.splits)
    then have "\<not> (\<exists>q \<in> set (applicable a node t). ?P (fst q))"
      unfolding sch by (auto simp: find_None_iff)
    then show "\<not> (\<exists>q \<in> set (applicable a node t). \<exists>e \<in> set ?ds.
            dp_schedule_id e = sch_id (fst q) \<and> Holds e (Some z) t)"
      using P by blast
  qed
qed


section \<open>Carrying a baseline across an apply\<close>

lemma find_by_key: "find (\<lambda>x. f x = k) xs = Some y \<Longrightarrow> f y = k"
  by (auto simp: find_Some_iff)

lemma samePresetBatch_commands:
  assumes "samePresetBatch p q"
  shows "map_option pb_commands q = map_option pb_commands p"
proof (cases p; cases q)
  fix a b assume pq: "p = Some a" "q = Some b"
  then have "a\<lparr>pb_last_outcome := None, pb_revision := 0, pb_created := 0, pb_updated := 0\<rparr> =
      b\<lparr>pb_last_outcome := None, pb_revision := 0, pb_created := 0, pb_updated := 0\<rparr>"
    using assms by (simp add: samePresetBatch_def)
  from arg_cong [OF this, of pb_commands] show ?thesis using pq by simp
qed (use assms in \<open>simp_all add: samePresetBatch_def\<close>)

text \<open>A baseline is carried across an apply only when nothing it could fire has changed: the daypart it was
  in is stored unchanged but for its revision and timestamps, and the batch that daypart binds, if any, holds the
  same commands as before; no transition into that daypart then fires again.\<close>

theorem carry_keeps_what_fires:
  assumes "MayCarryAcrossApply (Some prev) prevBatch applied" "ef_daypart prev = Some d"
    "ef_daypart cur = store_daypart applied (dp_id d)"
  shows "\<exists>e. ef_daypart cur = Some e \<and> dp_id e = dp_id d \<and> dp_days e = dp_days d \<and>
      dp_start e = dp_start d \<and> dp_end e = dp_end d \<and> dp_preset e = dp_preset d \<and>
      (dp_preset e = '''' \<or>
        map_option pb_commands (store_presetBatch applied (dp_preset e)) = map_option pb_commands prevBatch) \<and>
      PresetTransition (Some prev) (Some cur) = None"
proof -
  obtain e where e: "store_daypart applied (dp_id d) = Some e" "sameDaypart (Some d) (Some e)"
      "dp_preset e = '''' \<or> samePresetBatch prevBatch (store_presetBatch applied (dp_preset e))"
    using assms(1,2) by (auto simp: MayCarryAcrossApply_def split: option.splits if_splits)
  have same: "dp_days e = dp_days d \<and> dp_start e = dp_start d \<and> dp_end e = dp_end d \<and> dp_preset e = dp_preset d
      \<and> dp_id e = dp_id d"
    using e(2) by (cases d; cases e) (simp add: sameDaypart_def)
  have "dp_preset e = '''' \<or>
      map_option pb_commands (store_presetBatch applied (dp_preset e)) = map_option pb_commands prevBatch"
    using e(3) samePresetBatch_commands by blast
  moreover have cur: "ef_daypart cur = Some e" using assms(3) e(1) by simp
  moreover have "PresetTransition (Some prev) (Some cur) = None"
    using same assms(2) cur by (simp add: PresetTransition_def effectiveDaypartID_def Let_def)
  ultimately show ?thesis using same by blast
qed

lemma batch_outcome_failed: "pbo_outcome (BatchOutcome rs t) = ''complete'' \<longleftrightarrow> (\<forall>r \<in> set rs. cr_ok r)"
  by (auto simp: BatchOutcome_def classifyOutcome_def Let_def list_ex_iff)

section \<open>A store to try them on\<close>

definition demo_daypart :: "char \<Rightarrow> string \<Rightarrow> string \<Rightarrow> string \<Rightarrow> string \<Rightarrow> Daypart" where
  "demo_daypart c sid a b batch =
     \<lparr>dp_id = [c], dp_schedule_id = sid, dp_scope_node = ''x'', dp_days = [4], dp_start = a, dp_end = b,
      dp_power = ''on'', dp_playlist = ''p'', dp_preset = batch, dp_misfire = '''', dp_name = '''',
      dp_revision = 1, dp_created = 0, dp_updated = 0\<rparr>"

definition demo_schedule :: "string \<Rightarrow> int option \<Rightarrow> ScheduleRow" where
  "demo_schedule i p =
     \<lparr>sch_id = i, sch_scope_node = replicate 25 (CHR ''0'') @ ''2'', sch_name = i, sch_fallback_id = '''',
      sch_priority = p, sch_misfire = ''''\<rparr>"

definition demo_batch :: PresetBatch where
  "demo_batch = \<lparr>pb_id = ''b'', pb_scope_node = ''x'', pb_name = ''b'',
     pb_commands = [\<lparr>pc_entity = ''e'', pc_command = ''on'', pc_params = None\<rparr>], pb_last_outcome = None,
     pb_external_id = '''', pb_labels = None, pb_revision = 1, pb_created = 0, pb_updated = 0\<rparr>"

definition demo_rows :: "bool \<Rightarrow> RowStore" where
  "demo_rows r =
     \<lparr>st_tree = index_nodes demo_nodes,
      st_rows = \<lparr>rs_playlists = [], rs_casts = [], rs_schedules = (if r then rev else id) [demo_schedule ''s'' None, demo_schedule ''t'' (Some 1)],
        rs_windows = [],
        rs_dayparts = (if r then rev else id)
          [demo_daypart CHR ''1'' ''s'' ''09:00:00'' ''17:00:00'' '''',
           demo_daypart CHR ''2'' ''s'' ''17:00:00'' ''09:00:00'' '''',
           demo_daypart CHR ''3'' ''t'' ''10:00:00'' ''11:00:00'' ''b''],
        rs_fallbacks = [], rs_presets = [demo_batch]\<rparr>\<rparr>"

definition demo_site :: string where
  "demo_site = replicate 25 (CHR ''0'') @ ''2''"

lemma demo_no_overlap: "ValidateNoOverlap (rs_dayparts (st_rows (demo_rows False))) = None"
  by code_simp

lemma demo_keyed: "keyed_rows (demo_rows False)"
  using demo_no_overlap by (simp add: keyed_rows_def demo_rows_def demo_schedule_def)

lemma demo_overlap:
  "ValidateNoOverlap [demo_daypart CHR ''1'' ''s'' ''09:00:00'' ''17:00:00'' '''',
     demo_daypart CHR ''2'' ''s'' ''16:00:00'' ''16:00:00'' ''''] \<noteq> None"
  by code_simp

theorem resolution_ignores_row_order_witness:
  "Resolve_state (\<lambda>_. Some (fixed_zone 0)) (demo_rows False) demo_site 36000000 =
   Resolve_state (\<lambda>_. Some (fixed_zone 0)) (demo_rows True) demo_site 36000000"
  by (rule resolution_ignores_row_order [OF _ demo_keyed]) (auto simp: same_rows_def demo_rows_def)

lemma demo_resolves:
  "(case Resolve_state (\<lambda>_. Some (fixed_zone 0)) (demo_rows False) demo_site 36000000 of
      Inl e \<Rightarrow> False | Inr st \<Rightarrow> ef_schedule st = ''t'' \<and> map_option dp_id (ef_daypart st) = Some ''3'')"
  by code_simp

theorem governing_daypart_witness:
  "\<exists>(d :: Daypart) p. dp_id d = ''3'' \<and> p \<in> set (applicable (demo_rows False) demo_site 36000000) \<and> sch_id (fst p) = ''t'' \<and>
     dp_schedule_id d = ''t''"
proof -
  obtain st d where st: "Resolve_state (\<lambda>_. Some (fixed_zone 0)) (demo_rows False) demo_site 36000000 = Inr st"
      "ef_schedule st = ''t''" "ef_daypart st = Some d" "dp_id d = ''3''"
    using demo_resolves by (auto split: sum.splits)
  from governing_daypart [OF st(1)] have "\<exists>p \<in> set (applicable (demo_rows False) demo_site 36000000).
      ef_schedule st = sch_id (fst p) \<and> dp_schedule_id d = sch_id (fst p)"
    using st(3) by blast
  then obtain p where p: "p \<in> set (applicable (demo_rows False) demo_site 36000000)" "sch_id (fst p) = ''t''"
      "dp_schedule_id d = ''t''"
    unfolding st(2) by metis
  show ?thesis by (rule exI [of _ d], rule exI [of _ p]) (simp add: p st(4))
qed

theorem carry_keeps_what_fires_witness:
  "PresetTransition
     (Some \<lparr>ef_daypart = Some (demo_daypart CHR ''3'' ''t'' ''10:00:00'' ''11:00:00'' ''b''), ef_fallback = None,
       ef_display = ''content'', ef_playlist = ''p'', ef_schedule = ''t''\<rparr>)
     (Some \<lparr>ef_daypart = store_daypart (demo_rows True) ''3'', ef_fallback = None,
       ef_display = ''content'', ef_playlist = ''p'', ef_schedule = ''t''\<rparr>) = None"
proof -
  let ?d = "demo_daypart CHR ''3'' ''t'' ''10:00:00'' ''11:00:00'' ''b''"
  let ?st = "\<lambda>d. \<lparr>ef_daypart = d, ef_fallback = None, ef_display = ''content'', ef_playlist = ''p'',
    ef_schedule = ''t''\<rparr>"
  have "MayCarryAcrossApply (Some (?st (Some ?d))) (Some demo_batch) (demo_rows True)"
    by (simp add: MayCarryAcrossApply_def store_daypart_def store_presetBatch_def demo_rows_def demo_daypart_def
        demo_batch_def sameDaypart_def samePresetBatch_def)
  moreover have "dp_id ?d = ''3''" by (simp add: demo_daypart_def)
  ultimately show ?thesis
    using carry_keeps_what_fires [of "?st (Some ?d)" _ _ ?d "?st (store_daypart (demo_rows True) ''3'')"] by auto
qed


end
