(* ===== verification/Variables.thy ===== *)
theory Variables
  imports Dayparts
begin

text \<open>
  Platform variables, \<open>internal/datamodel/variable.go\<close>: the gate of a row's name and value, and the
  resolution of a name at a node, which takes the nearest ancestor that declares it and, among the rows of
  that ancestor, the one with the least id.  Values are the decoded values of \<open>GoValue\<close>.
\<close>

section \<open>Rows and their validation\<close>

record Variable =
  v_id :: string
  v_scope_node :: string
  v_name :: string
  v_value :: gval

text \<open>The regular expression \<open>^[a-z][a-z0-9_]{0,63}$\<close>.\<close>

definition ValidVariableName :: "string \<Rightarrow> bool" where
  "ValidVariableName name =
     (case name of [] \<Rightarrow> False
      | c # cs \<Rightarrow> is_lower c \<and> length cs \<le> 63 \<and> list_all (\<lambda>x. is_lower x \<or> is_digit x \<or> x = CHR ''_'') cs)"

fun ValidVariableValue :: "gval \<Rightarrow> bool" where
  "ValidVariableValue (GStr _) = True"
| "ValidVariableValue (GBool _) = True"
| "ValidVariableValue (GNum _) = True"
| "ValidVariableValue (GInt _) = True"
| "ValidVariableValue _ = False"

definition ValidateVariableBody :: "json \<Rightarrow> dm_error list" where
  "ValidateVariableBody body =
     (if \<not> jstruct_ok body then [dm_err '''' ''VARIABLE_VALUE_INVALID'']
      else
        (case draw (jfield body ''name'') of
           None \<Rightarrow> [dm_err ''name'' ''VARIABLE_NAME_INVALID'']
         | Some j \<Rightarrow>
             if \<not> str_ok j then [dm_err ''name'' ''VARIABLE_NAME_INVALID'']
             else if \<not> ValidVariableName (dstr '''' [j]) then [dm_err ''name'' ''VARIABLE_NAME_INVALID'']
             else []) @
        (case draw (jfield body ''value'') of
           None \<Rightarrow> [dm_err ''value'' ''VARIABLE_VALUE_INVALID'']
         | Some j \<Rightarrow>
             (case jdecode j of
                None \<Rightarrow> [dm_err ''value'' ''VARIABLE_VALUE_INVALID'']
              | Some v \<Rightarrow> if \<not> ValidVariableValue v then [dm_err ''value'' ''VARIABLE_VALUE_INVALID''] else [])))"

section \<open>Resolution\<close>

fun least_row :: "string \<Rightarrow> string \<Rightarrow> Variable list \<Rightarrow> Variable option \<Rightarrow> Variable option" where
  "least_row name ancestor [] best = best"
| "least_row name ancestor (r # rs) best =
     (if v_name r \<noteq> name \<or> v_scope_node r \<noteq> ancestor then least_row name ancestor rs best
      else case best of
          None \<Rightarrow> least_row name ancestor rs (Some r)
        | Some b \<Rightarrow> least_row name ancestor rs (if v_id r < v_id b then Some r else best))"

fun nearest_row :: "string list \<Rightarrow> string \<Rightarrow> Variable list \<Rightarrow> Variable option" where
  "nearest_row [] name rows = None"
| "nearest_row (a # as) name rows =
     (case least_row name a rows None of Some v \<Rightarrow> Some v | None \<Rightarrow> nearest_row as name rows)"

definition EffectiveVariable :: "ScopeTree \<Rightarrow> string \<Rightarrow> string \<Rightarrow> Variable list \<Rightarrow> Variable option" where
  "EffectiveVariable tree node name rows = nearest_row (AncestorChain tree node) name rows"

fun collect_rows ::
  "ScopeTree \<Rightarrow> string \<Rightarrow> Variable list \<Rightarrow> string list \<Rightarrow> Variable list \<Rightarrow> (string \<rightharpoonup> gval) \<Rightarrow> (string \<rightharpoonup> gval)" where
  "collect_rows tree node all_rows seen [] out = out"
| "collect_rows tree node all_rows seen (r # rs) out =
     (if v_scope_node r \<notin> set (AncestorChain tree node) \<or> v_name r \<in> set seen
      then collect_rows tree node all_rows seen rs out
      else collect_rows tree node all_rows (v_name r # seen) rs
        (case EffectiveVariable tree node (v_name r) all_rows of
           Some v \<Rightarrow> out(v_name r \<mapsto> v_value v)
         | None \<Rightarrow> out))"

definition EffectiveVariables :: "ScopeTree \<Rightarrow> string \<Rightarrow> Variable list \<Rightarrow> (string \<rightharpoonup> gval)" where
  "EffectiveVariables tree node rows =
     (if AncestorChain tree node = [] then Map.empty else collect_rows tree node rows [] rows Map.empty)"

section \<open>What the resolution returns\<close>

definition declared_at :: "string \<Rightarrow> string \<Rightarrow> Variable list \<Rightarrow> Variable set" where
  "declared_at name a rows = {r \<in> set rows. v_name r = name \<and> v_scope_node r = a}"

lemma least_row_result:
  "least_row name a rows best = res \<Longrightarrow>
     (res = None \<longleftrightarrow> best = None \<and> declared_at name a rows = {}) \<and>
     (\<forall>v. res = Some v \<longrightarrow> (best = Some v \<or> v \<in> declared_at name a rows) \<and>
        (\<forall>b. best = Some b \<longrightarrow> v_id v \<le> v_id b) \<and> (\<forall>r \<in> declared_at name a rows. v_id v \<le> v_id r))"
proof (induction rows arbitrary: best)
  case (Cons r rs)
  show ?case
  proof (cases "v_name r = name \<and> v_scope_node r = a")
    case True
    define best' where "best' = (case best of None \<Rightarrow> Some r | Some b \<Rightarrow> if v_id r < v_id b then Some r else Some b)"
    have "least_row name a rs best' = res"
      using Cons.prems True by (auto simp: best'_def split: option.splits)
    from Cons.IH [OF this] show ?thesis
      using True by (cases best) (auto simp: declared_at_def best'_def split: if_splits)
  next
    case False
    have "least_row name a rs best = res" using Cons.prems False by auto
    moreover have "declared_at name a (r # rs) = declared_at name a rs" using False by (auto simp: declared_at_def)
    ultimately show ?thesis using Cons.IH [of best] by simp
  qed
qed (auto simp: declared_at_def)

lemma nearest_row_None: "nearest_row as name rows = None \<longleftrightarrow> (\<forall>a \<in> set as. declared_at name a rows = {})"
proof (induction as)
  case (Cons a as)
  then show ?case
    using least_row_result [OF refl, of name a rows None]
    by (cases "least_row name a rows None") auto
qed simp

lemma nearest_row_Some:
  assumes "nearest_row as name rows = Some v"
  shows "\<exists>xs ys a. as = xs @ a # ys \<and> (\<forall>x \<in> set xs. declared_at name x rows = {}) \<and>
      v \<in> declared_at name a rows \<and> (\<forall>r \<in> declared_at name a rows. v_id v \<le> v_id r)"
  using assms
proof (induction as)
  case (Cons a as)
  show ?case
  proof (cases "least_row name a rows None")
    case None
    then have none: "declared_at name a rows = {}" using least_row_result [OF None] by auto
    obtain xs ys b where "as = xs @ b # ys" "\<forall>x \<in> set xs. declared_at name x rows = {}"
        "v \<in> declared_at name b rows" "\<forall>r \<in> declared_at name b rows. v_id v \<le> v_id r"
      using None Cons by auto
    then show ?thesis
      using none by (intro exI [of _ "a # xs"] exI [of _ ys] exI [of _ b]) simp
  next
    case (Some u)
    then have "v \<in> declared_at name a rows" "\<forall>r \<in> declared_at name a rows. v_id v \<le> v_id r"
      using least_row_result [OF Some] Cons.prems by auto
    then show ?thesis by (intro exI [of _ "[]"] exI [of _ as] exI [of _ a]) simp
  qed
qed simp

text \<open>A variable's value at a node is that of the row with the least id at the nearest node of the ancestor
  chain that declares the name; it is undeclared exactly when no node of the chain declares it.\<close>

theorem variable_nearest_declaration:
  "(case EffectiveVariable tree node name rows of
      None \<Rightarrow> (\<forall>a \<in> set (AncestorChain tree node). declared_at name a rows = {})
    | Some v \<Rightarrow> (\<exists>xs ys a. AncestorChain tree node = xs @ a # ys \<and>
        (\<forall>x \<in> set xs. declared_at name x rows = {}) \<and> v \<in> declared_at name a rows \<and>
        (\<forall>r \<in> declared_at name a rows. v_id v \<le> v_id r)))"
  using nearest_row_Some [of "AncestorChain tree node" name rows]
  by (simp add: EffectiveVariable_def nearest_row_None split: option.split)

lemma collect_rows_get:
  "collect_rows tree node all_rows seen rs out name =
     (if name \<notin> set seen \<and> (\<exists>r \<in> set rs. v_name r = name \<and> v_scope_node r \<in> set (AncestorChain tree node)) \<and>
         EffectiveVariable tree node name all_rows \<noteq> None
      then map_option v_value (EffectiveVariable tree node name all_rows) else out name)"
  by (induction rs arbitrary: seen out) (auto split: option.splits)

text \<open>The table of a node's variables agrees with the resolution of each single name: it holds a name exactly
  when the name resolves, with the value it resolves to.\<close>

theorem variable_table_agrees:
  "EffectiveVariables tree node rows name = map_option v_value (EffectiveVariable tree node name rows)"
proof (cases "EffectiveVariable tree node name rows")
  case None
  then show ?thesis by (simp add: EffectiveVariables_def collect_rows_get)
next
  case (Some v)
  then obtain xs ys a where "AncestorChain tree node = xs @ a # ys" "v \<in> declared_at name a rows"
    using nearest_row_Some unfolding EffectiveVariable_def by blast
  then have "AncestorChain tree node \<noteq> []"
    and "\<exists>r \<in> set rows. v_name r = name \<and> v_scope_node r \<in> set (AncestorChain tree node)"
    by (auto simp: declared_at_def)
  then show ?thesis using Some by (simp add: EffectiveVariables_def collect_rows_get)
qed

lemma valid_name_length: "ValidVariableName s \<Longrightarrow> 1 \<le> length s \<and> length s \<le> 64"
  by (auto simp: ValidVariableName_def split: list.splits)

text \<open>The gate lets through exactly the objects whose name matches the grammar and whose value decodes to a
  scalar; each of the two fields is reported on its own.\<close>

theorem variable_gate_exact:
  "ValidateVariableBody body = [] \<longleftrightarrow>
     jstruct_ok body \<and>
     (\<exists>n. draw (jfield body ''name'') = Some (JStr n) \<and> ValidVariableName n) \<and>
     (\<exists>j v. draw (jfield body ''value'') = Some j \<and> jdecode j = Some v \<and> ValidVariableValue v)"
proof -
  have "str_ok j \<and> ValidVariableName (dstr '''' [j]) \<longleftrightarrow> (\<exists>n. j = JStr n \<and> ValidVariableName n)" for j
    by (cases j) (auto simp: ValidVariableName_def)
  then show ?thesis
    by (auto simp: ValidateVariableBody_def split: option.splits if_splits)
qed

text \<open>Two declarations of one name, at the site and at the org: the screen reads the site's.\<close>

definition demo_variables :: "Variable list" where
  "demo_variables =
     [\<lparr>v_id = ''1'', v_scope_node = replicate 25 (CHR ''0'') @ ''1'', v_name = ''x'', v_value = GStr ''org''\<rparr>,
      \<lparr>v_id = ''3'', v_scope_node = replicate 25 (CHR ''0'') @ ''2'', v_name = ''x'', v_value = GStr ''late''\<rparr>,
      \<lparr>v_id = ''2'', v_scope_node = replicate 25 (CHR ''0'') @ ''2'', v_name = ''x'', v_value = GStr ''site''\<rparr>]"

lemma demo_chain:
  "AncestorChain (index_nodes demo_nodes) (replicate 25 (CHR ''0'') @ ''4'') =
     [replicate 25 (CHR ''0'') @ ''4'', replicate 25 (CHR ''0'') @ ''3'', replicate 25 (CHR ''0'') @ ''2'',
      replicate 25 (CHR ''0'') @ ''1'']"
  by code_simp

lemma demo_effective:
  "map_option v_id (EffectiveVariable (index_nodes demo_nodes) (replicate 25 (CHR ''0'') @ ''4'') ''x'' demo_variables) =
     Some ''2''"
  by code_simp

theorem variable_nearest_declaration_witness:
  "\<exists>v a. EffectiveVariable (index_nodes demo_nodes) (replicate 25 (CHR ''0'') @ ''4'') ''x'' demo_variables = Some v \<and>
     v_id v = ''2'' \<and> v \<in> declared_at ''x'' a demo_variables"
proof -
  obtain v where "EffectiveVariable (index_nodes demo_nodes) (replicate 25 (CHR ''0'') @ ''4'') ''x'' demo_variables = Some v"
      "v_id v = ''2''"
    using demo_effective by auto
  with variable_nearest_declaration [of "index_nodes demo_nodes" "replicate 25 (CHR ''0'') @ ''4''" "''x''" demo_variables]
  show ?thesis by auto
qed


end
