(* ===== verification/ContentURL.thy ===== *)
theory ContentURL
  imports Prelude
begin

text \<open>
  Signed content URLs, \<open>internal/feeder/contenturl/contenturl.go\<close>: the statement a signature covers, minting and
  verification.  HMAC-SHA256 is the parameter \<open>hmac\<close> of key and message; a query is its values before they are
  encoded.  The key file is I/O and is not modelled.
\<close>

datatype url_error = ErrMalformed | ErrExpired | ErrSignatureInvalid | ErrNoKey

definition is_lower_hex :: "char \<Rightarrow> bool" where
  "is_lower_hex c \<longleftrightarrow> is_digit c \<or> (97 \<le> byte_of c \<and> byte_of c \<le> 102)"

definition isLowerHex :: "string \<Rightarrow> bool" where
  "isLowerHex s \<longleftrightarrow> s \<noteq> '''' \<and> list_all is_lower_hex s"

definition format_int :: "int \<Rightarrow> string" where
  "format_int n = (if n < 0 then CHR ''-'' # show_nat (nat (- n)) else show_nat (nat n))"

definition statement :: "string \<Rightarrow> int \<Rightarrow> string" where
  "statement hexDigest expiresAtMs =
     ''waiveo-content-url/1'' @ [CHR 0x0A] @ hexDigest @ [CHR 0x0A] @ format_int expiresAtMs"

text \<open>Package \<open>encoding/hex\<close>.\<close>

definition hex_digit :: "nat \<Rightarrow> char" where
  "hex_digit n = char_of (if n < 10 then 48 + n else 87 + n)"

definition hex_encode :: "string \<Rightarrow> string" where
  "hex_encode s = concat (map (\<lambda>c. [hex_digit (byte_of c div 16), hex_digit (byte_of c mod 16)]) s)"

definition hex_value :: "char \<Rightarrow> nat option" where
  "hex_value c =
     (if is_digit c then Some (byte_of c - 48)
      else if 97 \<le> byte_of c \<and> byte_of c \<le> 102 then Some (byte_of c - 87)
      else if 65 \<le> byte_of c \<and> byte_of c \<le> 70 then Some (byte_of c - 55) else None)"

fun hex_decode :: "string \<Rightarrow> string option" where
  "hex_decode [] = Some []"
| "hex_decode [_] = None"
| "hex_decode (a # b # s) =
     (case (hex_value a, hex_value b) of
        (Some x, Some y) \<Rightarrow> map_option (\<lambda>r. char_of (16 * x + y) # r) (hex_decode s)
      | _ \<Rightarrow> None)"

record query_values =
  q_exp :: string
  q_sig :: string

definition signed_values :: "(string \<Rightarrow> string \<Rightarrow> string) \<Rightarrow> string \<Rightarrow> string \<Rightarrow> int \<Rightarrow> url_error + query_values" where
  "signed_values hmac key hexDigest expiresAtMs =
     (if key = '''' then Inl ErrNoKey
      else if \<not> isLowerHex hexDigest then Inl ErrMalformed
      else if expiresAtMs \<le> 0 then Inl ErrMalformed
      else Inr \<lparr>q_exp = format_int expiresAtMs, q_sig = hex_encode (hmac key (statement hexDigest expiresAtMs))\<rparr>)"

definition encode_query :: "query_values \<Rightarrow> string" where
  "encode_query q = ''exp='' @ q_exp q @ ''&sig='' @ q_sig q"

definition Sign :: "(string \<Rightarrow> string \<Rightarrow> string) \<Rightarrow> string \<Rightarrow> string \<Rightarrow> int \<Rightarrow> url_error + string" where
  "Sign hmac key hexDigest expiresAtMs = map_sum id encode_query (signed_values hmac key hexDigest expiresAtMs)"

definition PathPrefix :: string where "PathPrefix = ''/content/''"

definition UnsignedURL :: "string \<Rightarrow> string \<Rightarrow> string" where
  "UnsignedURL base hexDigest = base @ PathPrefix @ hexDigest"

definition signed_URL :: "(string \<Rightarrow> string \<Rightarrow> string) \<Rightarrow> string \<Rightarrow> string \<Rightarrow> string \<Rightarrow> int \<Rightarrow> url_error + string" where
  "signed_URL hmac base key hexDigest expiresAtMs =
     map_sum id (\<lambda>q. UnsignedURL base hexDigest @ ''?'' @ q) (Sign hmac key hexDigest expiresAtMs)"

text \<open>A signer; the time to live is a \<open>time.Duration\<close>, in nanoseconds.\<close>

record Signer =
  sg_base :: string
  sg_key :: string
  sg_ttl :: int
  sg_now :: int

definition Signs :: "Signer \<Rightarrow> bool" where
  "Signs s \<longleftrightarrow> sg_key s \<noteq> ''''"

definition trim_ref :: "string \<Rightarrow> string" where
  "trim_ref r = (if take 7 r = ''sha256:'' then drop 7 r else r)"

definition Mint :: "(string \<Rightarrow> string \<Rightarrow> string) \<Rightarrow> Signer \<Rightarrow> string \<Rightarrow> string \<times> int" where
  "Mint hmac s assetRef =
     (if sg_base s = '''' then ('''', 0)
      else let hexDigest = trim_ref assetRef in
        if \<not> Signs s then (UnsignedURL (sg_base s) hexDigest, 0)
        else if sg_ttl s \<le> 0 \<or> sg_now s \<le> 0 then ('''', 0)
        else let expiresAtMs = i64 (sg_now s + sg_ttl s div 1000000) in
          case signed_URL hmac (sg_base s) (sg_key s) hexDigest expiresAtMs of
            Inl _ \<Rightarrow> ('''', 0)
          | Inr url \<Rightarrow> (url, expiresAtMs))"

definition Verify :: "(string \<Rightarrow> string \<Rightarrow> string) \<Rightarrow> string \<Rightarrow> string \<Rightarrow> query_values \<Rightarrow> int \<Rightarrow> url_error option" where
  "Verify hmac key hexDigest q nowMs =
     (if key = '''' then Some ErrNoKey
      else if \<not> isLowerHex hexDigest then Some ErrMalformed
      else if q_exp q = '''' \<or> q_sig q = '''' then Some ErrMalformed
      else case atoi (q_exp q) of None \<Rightarrow> Some ErrMalformed
      | Some expiresAtMs \<Rightarrow>
          (case hex_decode (q_sig q) of None \<Rightarrow> Some ErrMalformed
           | Some got \<Rightarrow>
               if got \<noteq> hmac key (statement hexDigest expiresAtMs) then Some ErrSignatureInvalid
               else if nowMs > expiresAtMs then Some ErrExpired
               else None))"

definition ServeTTL :: int where "ServeTTL = 24 * 60 * 60 * 1000000000"

section \<open>Hexadecimal\<close>

lemma hex_value_digit: "n < 16 \<Longrightarrow> hex_value (hex_digit n) = Some n"
  by (simp add: hex_value_def hex_digit_def is_digit_def byte_of_def)

lemma byte_of_less: "byte_of c < 256"
  by (simp add: byte_of_def)

lemma hex_decode_encode: "hex_decode (hex_encode s) = Some s"
proof (induction s)
  case (Cons c s)
  have "byte_of c div 16 < 16" "byte_of c mod 16 < 16" using byte_of_less [of c] by simp_all
  moreover have "char_of (16 * (byte_of c div 16) + byte_of c mod 16) = c"
    by (simp add: byte_of_def mult.commute div_mult_mod_eq)
  ultimately show ?case using Cons by (simp add: hex_encode_def hex_value_digit)
qed (simp add: hex_encode_def)

lemma hex_encode_nonempty: "hex_encode s = [] \<longleftrightarrow> s = []"
  by (cases s) (simp_all add: hex_encode_def)

section \<open>The statement binds asset and deadline\<close>

lemma digits_no_newline: "\<forall>c \<in> set s. is_digit c \<Longrightarrow> CHR 0x0A \<notin> set s"
  by (auto simp: is_digit_def byte_of_def)

lemma lower_hex_no_newline: "isLowerHex s \<Longrightarrow> CHR 0x0A \<notin> set s"
  by (auto simp: isLowerHex_def is_lower_hex_def is_digit_def byte_of_def list_all_iff)

lemma show_nat_no_minus: "show_nat k \<noteq> CHR ''-'' # s"
proof
  assume "show_nat k = CHR ''-'' # s"
  then have "is_digit CHR ''-''" using show_nat_digits [of k] by simp
  then show False by (simp add: is_digit_def byte_of_def)
qed

lemma format_int_inj: "format_int m = format_int n \<Longrightarrow> m = n"
proof (cases "m < 0"; cases "n < 0")
  assume f: "format_int m = format_int n" and "m < 0" "n < 0"
  then have "show_nat (nat (- m)) = show_nat (nat (- n))" by (simp only: format_int_def if_True list.inject)
  then show "m = n" using \<open>m < 0\<close> \<open>n < 0\<close> by (simp add: show_nat_inj)
next
  assume f: "format_int m = format_int n" and "\<not> m < 0" "\<not> n < 0"
  then have "show_nat (nat m) = show_nat (nat n)" by (simp only: format_int_def if_False)
  then show "m = n" using \<open>\<not> m < 0\<close> \<open>\<not> n < 0\<close> by (simp add: show_nat_inj)
next
  assume "format_int m = format_int n" and "m < 0" "\<not> n < 0"
  then have "show_nat (nat n) = CHR ''-'' # show_nat (nat (- m))" by (simp only: format_int_def if_False if_True)
  then show "m = n" by (simp only: show_nat_no_minus)
next
  assume "format_int m = format_int n" and "\<not> m < 0" "n < 0"
  then have "show_nat (nat m) = CHR ''-'' # show_nat (nat (- n))" by (simp only: format_int_def if_False if_True)
  then show "m = n" by (simp only: show_nat_no_minus)
qed

lemma sep_append_inj: "c \<notin> set xs \<Longrightarrow> c \<notin> set ys \<Longrightarrow> xs @ c # a = ys @ c # b \<Longrightarrow> xs = ys \<and> a = b"
proof (induction xs arbitrary: ys)
  case Nil
  then show ?case by (cases ys) auto
next
  case (Cons x xs)
  then show ?case by (cases ys) auto
qed

lemma statement_inj:
  assumes "isLowerHex d" "isLowerHex d'" "statement d e = statement d' e'"
  shows "d = d' \<and> e = e'"
proof -
  have "d @ CHR 0x0A # format_int e = d' @ CHR 0x0A # format_int e'" using assms(3) by (simp add: statement_def)
  from sep_append_inj [OF lower_hex_no_newline [OF assms(1)] lower_hex_no_newline [OF assms(2)] this]
  show ?thesis using format_int_inj by blast
qed

text \<open>A signed content URL serves its own asset until its own deadline: verification of what was minted succeeds
  up to the expiry and reports it expired afterwards.\<close>

theorem minted_url_verifies:
  assumes "signed_values hmac key d e = Inr q" "in_i64 e" "hmac key (statement d e) \<noteq> ''''"
  shows "Verify hmac key d q now = (if now \<le> e then None else Some ErrExpired)"
proof -
  have e: "key \<noteq> ''''" "isLowerHex d" "0 < e" "q = \<lparr>q_exp = format_int e, q_sig = hex_encode (hmac key (statement d e))\<rparr>"
    using assms(1) by (auto simp: signed_values_def split: if_splits)
  have "atoi (show_nat (nat e)) = Some e"
    using atoi_show_nat [of "nat e"] e(3) assms(2) by (simp add: in_i64_def)
  then show ?thesis
    using e assms(3) by (simp add: Verify_def format_int_def hex_decode_encode hex_encode_nonempty)
qed

text \<open>C28. A signature is bound to the asset and the deadline it was minted for: a query accepted for an asset either
  is for exactly that asset and deadline, or its statement is another one whose mac happens to be the same.\<close>

theorem signature_binds_asset_and_deadline:
  assumes "signed_values hmac key d e = Inr q" "Verify hmac key d' \<lparr>q_exp = x, q_sig = q_sig q\<rparr> now = None"
  shows "d' = d \<and> atoi x = Some e \<and> now \<le> e \<or>
    (statement d' (the (atoi x)) \<noteq> statement d e \<and> hmac key (statement d' (the (atoi x))) = hmac key (statement d e))"
proof -
  have q: "isLowerHex d" "q_sig q = hex_encode (hmac key (statement d e))"
    using assms(1) by (auto simp: signed_values_def split: if_splits)
  obtain e' where v: "isLowerHex d'" "atoi x = Some e'" "now \<le> e'"
      "hmac key (statement d e) = hmac key (statement d' e')"
    using assms(2) q(2) by (auto simp: Verify_def hex_decode_encode split: if_splits option.splits)
  then show ?thesis using statement_inj [OF q(1) v(1)] by (cases "statement d e = statement d' e'") auto
qed

text \<open>A mac for examples: the key, the length of the message and its last byte.\<close>

definition demo_mac :: "string \<Rightarrow> string \<Rightarrow> string" where
  "demo_mac key m = key @ [char_of (length m), last m]"

theorem minted_url_verifies_witness:
  "Verify demo_mac ''k'' ''ab'' \<lparr>q_exp = ''1000'', q_sig = ''6b1c30''\<rparr> 1000 = None \<and>
   Verify demo_mac ''k'' ''ab'' \<lparr>q_exp = ''1000'', q_sig = ''6b1c30''\<rparr> 1001 = Some ErrExpired"
proof -
  have "signed_values demo_mac ''k'' ''ab'' 1000 = Inr \<lparr>q_exp = ''1000'', q_sig = ''6b1c30''\<rparr>"
    "demo_mac ''k'' (statement ''ab'' 1000) \<noteq> ''''"
    by code_simp+
  then show ?thesis using minted_url_verifies [of demo_mac "''k''" "''ab''" 1000] by (simp add: in_i64_def)
qed

theorem signature_binds_asset_and_deadline_witness:
  "atoi ''+1000'' = Some 1000"
proof -
  have s: "signed_values demo_mac ''k'' ''ab'' 1000 = Inr \<lparr>q_exp = ''1000'', q_sig = ''6b1c30''\<rparr>" by code_simp
  have "Verify demo_mac ''k'' ''ab'' \<lparr>q_exp = ''+1000'', q_sig = ''6b1c30''\<rparr> 999 = None" by code_simp
  moreover have "statement ''ab'' (the (atoi ''+1000'')) = statement ''ab'' 1000" by code_simp
  ultimately show ?thesis
    using signature_binds_asset_and_deadline [OF s, of "''ab''" "''+1000''" 999] by simp
qed


end
