(* ===== verification/Decode.thy ===== *)
theory Decode
  imports GoValue
begin

text \<open>
  Field decoders of \<open>encoding/json\<close> used by the row gates, over the field lists of \<open>GoValue\<close>: each field of a struct
  has a check of its JSON type and a value.  A nested struct, slice or map that occurs twice under one key is read
  as its last occurrence.
\<close>

definition fields_ok :: "json \<Rightarrow> (string \<times> (json \<Rightarrow> bool)) list \<Rightarrow> bool" where
  "fields_ok j fs \<longleftrightarrow> jstruct_ok j \<and> list_all (\<lambda>(n, ok). list_all ok (jfield j n)) fs"

definition str_of :: "json \<Rightarrow> string \<Rightarrow> string" where
  "str_of j n = dstr '''' (jfield j n)"

definition int_of_field :: "json \<Rightarrow> string \<Rightarrow> int" where
  "int_of_field j n = dint 0 (jfield j n)"

fun bool_ok :: "json \<Rightarrow> bool" where
  "bool_ok (JBool _) = True"
| "bool_ok JNull = True"
| "bool_ok _ = False"

fun dbool :: "bool \<Rightarrow> json list \<Rightarrow> bool" where
  "dbool b [] = b"
| "dbool b (JBool c # vs) = dbool c vs"
| "dbool b (_ # vs) = dbool b vs"

definition bool_of :: "json \<Rightarrow> string \<Rightarrow> bool" where
  "bool_of j n = dbool False (jfield j n)"

text \<open>A slice whose elements pass a check; the elements of the last value.\<close>

fun slice_ok :: "(json \<Rightarrow> bool) \<Rightarrow> json \<Rightarrow> bool" where
  "slice_ok ok (JArr xs) = list_all ok xs"
| "slice_ok ok JNull = True"
| "slice_ok ok _ = False"

definition slice_of :: "json \<Rightarrow> string \<Rightarrow> json list" where
  "slice_of j n = (case draw (jfield j n) of Some (JArr xs) \<Rightarrow> xs | _ \<Rightarrow> [])"

text \<open>An element of an \<open>[]int\<close>; \<open>null\<close> is zero.\<close>

definition int_elem :: "json \<Rightarrow> int" where
  "int_elem v = dint 0 [v]"

text \<open>A pointer to a struct: \<open>null\<close> is nil.\<close>

definition ptr_ok :: "(json \<Rightarrow> bool) \<Rightarrow> json \<Rightarrow> bool" where
  "ptr_ok ok v \<longleftrightarrow> v = JNull \<or> ok v"

definition ptr_of :: "(json \<Rightarrow> 'a) \<Rightarrow> json \<Rightarrow> string \<Rightarrow> 'a option" where
  "ptr_of dec j n = (case draw (jfield j n) of None \<Rightarrow> None | Some JNull \<Rightarrow> None | Some v \<Rightarrow> Some (dec v))"

text \<open>A \<open>map[string]string\<close>; nil when absent or \<open>null\<close>.\<close>

fun labels_ok :: "json \<Rightarrow> bool" where
  "labels_ok (JObj kvs) = list_all (\<lambda>kv. str_ok (snd kv)) kvs"
| "labels_ok JNull = True"
| "labels_ok _ = False"

definition labels_of :: "json \<Rightarrow> string \<Rightarrow> (string \<rightharpoonup> string) option" where
  "labels_of j n =
     (case draw (jfield j n) of
        Some (JObj kvs) \<Rightarrow> Some (map_of (rev (map (\<lambda>kv. (fst kv, dstr '''' [snd kv])) kvs)))
      | _ \<Rightarrow> None)"

lemma fields_ok_Nil: "fields_ok j [] \<longleftrightarrow> jstruct_ok j"
  by (simp add: fields_ok_def)

end
