(* ===== verification/Identity.thy ===== *)
theory Identity
  imports ScopeTree Decode
begin

text \<open>
  Identity rows, \<open>internal/datamodel/identityrows.go\<close>: screens with their override and devices with their
  entities, the gate of a batch of them, and whether an override applies at an instant.
\<close>

record ScreenOverride =
  ov_mode :: string
  ov_cast :: string
  ov_message :: string
  ov_expires_at :: int
  ov_set_at :: int

record ScreenRow =
  sc_id :: string
  sc_scope_node :: string
  sc_name :: string
  sc_device :: "string option"
  sc_override :: "ScreenOverride option"

record DeviceEntity =
  en_id :: string
  en_class :: string
  en_enabled :: bool
  en_hidden :: bool
  en_display_name :: string
  en_category :: string

record DeviceRow =
  de_id :: string
  de_scope_node :: string
  de_name :: string
  de_driver :: string
  de_native_id :: string
  de_poll_s :: "int option"
  de_entities :: "DeviceEntity list"

text \<open>An instant in Unix milliseconds; no expiry is zero.\<close>

definition Applies :: "ScreenOverride option \<Rightarrow> int \<Rightarrow> bool" where
  "Applies ovr tMs = (case ovr of None \<Rightarrow> False | Some ov \<Rightarrow> ov_expires_at ov = 0 \<or> ov_expires_at ov > tMs)"

definition ValidateScreenOverride :: "ScreenOverride option \<Rightarrow> dm_error list" where
  "ValidateScreenOverride ovr =
     (case ovr of None \<Rightarrow> []
      | Some ov \<Rightarrow>
          let invalid = [dm_err ''override'' ''SCREEN_OVERRIDE_INVALID''] in
          if ov_mode ov \<noteq> ''play'' \<and> ov_mode ov \<noteq> ''alert'' then invalid
          else if blank (ov_cast ov) = blank (ov_message ov) then invalid
          else if ov_message ov \<noteq> '''' \<and> ov_mode ov \<noteq> ''alert'' then invalid
          else if ov_message ov \<noteq> '''' \<and> length (runes_of (ov_message ov)) > 200 then invalid
          else if ov_expires_at ov < 0 then invalid
          else [])"

definition checkPlacementAndName :: "string \<Rightarrow> string \<Rightarrow> dm_error list" where
  "checkPlacementAndName scopeNode name =
     (if blank scopeNode then [dm_err ''scope_node'' ''ROW_SCOPE_NODE_MISSING''] else []) @
     (if blank name \<or> length (runes_of name) > 200 then [dm_err ''name'' ''ROW_NAME_INVALID''] else [])"

definition entity_field :: "nat \<Rightarrow> string \<Rightarrow> string" where
  "entity_field i f = ''entities['' @ show_nat i @ '']'' @ f"

fun entity_errors :: "nat \<Rightarrow> string list \<Rightarrow> DeviceEntity list \<Rightarrow> dm_error list" where
  "entity_errors i seen [] = []"
| "entity_errors i seen (e # es) =
     (let (errs, seen') =
        (if blank (en_id e) then ([dm_err (entity_field i ''.entity_id'') ''ENTITY_ID_MISSING''], seen)
         else if \<not> Valid (en_id e) then ([dm_err (entity_field i ''.entity_id'') ''ENTITY_ID_INVALID''], seen)
         else if en_id e \<in> set seen then ([dm_err (entity_field i ''.entity_id'') ''ENTITY_ID_DUPLICATE''], seen)
         else ([], en_id e # seen))
      in errs @
         (if blank (en_class e) then [dm_err (entity_field i ''.device_class'') ''DEVICE_CLASS_MISSING''] else []) @
         (if en_category e \<notin> {''primary'', ''diagnostic''}
          then [dm_err (entity_field i ''.category'') ''ENTITY_CATEGORY_INVALID''] else []) @
         entity_errors (Suc i) seen' es)"

text \<open>The tuples claimed so far are keyed by driver and native id joined with a zero byte.\<close>

definition tuple_key :: "DeviceRow \<Rightarrow> string" where
  "tuple_key d = de_driver d @ [CHR 0x00] @ de_native_id d"

definition checkDeviceEntry :: "DeviceRow \<Rightarrow> string list \<Rightarrow> dm_error list \<times> string list" where
  "checkDeviceEntry d tuples =
     (let claims = (de_driver d \<noteq> '''' \<and> de_native_id d \<noteq> ''''); dup = (claims \<and> tuple_key d \<in> set tuples) in
      ((if blank (de_driver d) then [dm_err ''driver'' ''DEVICE_IDENTITY_INCOMPLETE''] else []) @
       (if blank (de_native_id d) then [dm_err ''native_id'' ''DEVICE_IDENTITY_INCOMPLETE''] else []) @
       (if dup then [dm_err ''native_id'' ''DEVICE_IDENTITY_DUPLICATE''] else []) @
       (case de_poll_s d of None \<Rightarrow> []
        | Some s \<Rightarrow> if s \<le> 0 then [dm_err ''poll_cadence_seconds'' ''POLL_CADENCE_INVALID''] else []) @
       entity_errors 0 [] (de_entities d),
       if claims \<and> \<not> dup then tuple_key d # tuples else tuples))"

section \<open>Decoding\<close>

definition override_ok :: "json \<Rightarrow> bool" where
  "override_ok j = fields_ok j [(''mode'', str_ok), (''cast_id'', str_ok), (''message'', str_ok),
     (''expires_at'', int_ok), (''set_at'', int_ok)]"

definition decode_override :: "json \<Rightarrow> ScreenOverride" where
  "decode_override j = \<lparr>ov_mode = str_of j ''mode'', ov_cast = str_of j ''cast_id'', ov_message = str_of j ''message'',
     ov_expires_at = int_of_field j ''expires_at'', ov_set_at = int_of_field j ''set_at''\<rparr>"

definition decode_screen :: "json \<Rightarrow> ScreenRow option" where
  "decode_screen j =
     (if fields_ok j [(''id'', str_ok), (''scope_node'', str_ok), (''name'', str_ok), (''device_id'', str_ok),
        (''override'', ptr_ok override_ok), (''external_id'', str_ok), (''labels'', labels_ok), (''revision'', int_ok),
        (''created_at'', int_ok), (''updated_at'', int_ok)]
      then Some \<lparr>sc_id = str_of j ''id'', sc_scope_node = str_of j ''scope_node'', sc_name = str_of j ''name'',
        sc_device = dstr_ptr None (jfield j ''device_id''), sc_override = ptr_of decode_override j ''override''\<rparr>
      else None)"

definition entity_ok :: "json \<Rightarrow> bool" where
  "entity_ok j = fields_ok j [(''entity_id'', str_ok), (''device_class'', str_ok), (''enabled'', bool_ok),
     (''hidden'', bool_ok), (''display_name'', str_ok), (''category'', str_ok)]"

definition decode_entity :: "json \<Rightarrow> DeviceEntity" where
  "decode_entity j = \<lparr>en_id = str_of j ''entity_id'', en_class = str_of j ''device_class'',
     en_enabled = bool_of j ''enabled'', en_hidden = bool_of j ''hidden'',
     en_display_name = str_of j ''display_name'', en_category = str_of j ''category''\<rparr>"

definition decode_device :: "json \<Rightarrow> DeviceRow option" where
  "decode_device j =
     (if fields_ok j [(''id'', str_ok), (''scope_node'', str_ok), (''name'', str_ok), (''driver'', str_ok),
        (''native_id'', str_ok), (''poll_cadence_seconds'', int_ok), (''entities'', slice_ok entity_ok),
        (''external_id'', str_ok), (''labels'', labels_ok), (''revision'', int_ok), (''created_at'', int_ok),
        (''updated_at'', int_ok)]
      then Some \<lparr>de_id = str_of j ''id'', de_scope_node = str_of j ''scope_node'', de_name = str_of j ''name'',
        de_driver = str_of j ''driver'', de_native_id = str_of j ''native_id'',
        de_poll_s = dint_ptr None (jfield j ''poll_cadence_seconds''),
        de_entities = map decode_entity (slice_of j ''entities'')\<rparr>
      else None)"

section \<open>The gate\<close>

definition id_error :: "string \<Rightarrow> string \<Rightarrow> dm_error list" where
  "id_error i field = (case CheckRowID i field of None \<Rightarrow> [] | Some e \<Rightarrow> [e])"

definition malformed :: dm_error where
  "malformed = dm_err '''' ''ROW_MALFORMED''"

fun gate_devices :: "string list \<Rightarrow> json list \<Rightarrow> DeviceRow list \<times> dm_error list" where
  "gate_devices tuples [] = ([], [])"
| "gate_devices tuples (j # js) =
     (case decode_device j of
        None \<Rightarrow> (case gate_devices tuples js of (ds, errs) \<Rightarrow> (ds, malformed # errs))
      | Some d \<Rightarrow>
          (case checkDeviceEntry d tuples of (es, tuples') \<Rightarrow>
             (case gate_devices tuples' js of (ds, errs) \<Rightarrow>
                (d # ds, id_error (de_id d) ''id'' @ checkPlacementAndName (de_scope_node d) (de_name d) @ es @ errs))))"

fun gate_screens :: "string list \<Rightarrow> json list \<Rightarrow> ScreenRow list \<times> dm_error list" where
  "gate_screens deviceIDs [] = ([], [])"
| "gate_screens deviceIDs (j # js) =
     (case gate_screens deviceIDs js of (ss, errs) \<Rightarrow>
        (case decode_screen j of
           None \<Rightarrow> (ss, malformed # errs)
         | Some s \<Rightarrow>
             (s # ss,
              id_error (sc_id s) ''id'' @ checkPlacementAndName (sc_scope_node s) (sc_name s) @
              ValidateScreenOverride (sc_override s) @
              (case sc_device s of None \<Rightarrow> []
               | Some d \<Rightarrow> if d \<notin> set deviceIDs then [dm_err ''device_id'' ''REFERENCE_INVALID''] else []) @ errs)))"

definition ValidateIdentityRows :: "json list \<Rightarrow> json list \<Rightarrow> (ScreenRow list \<times> DeviceRow list) \<times> dm_error list" where
  "ValidateIdentityRows screens devices =
     (case gate_devices [] devices of (ds, derrs) \<Rightarrow>
        (case gate_screens (map de_id ds) screens of (ss, serrs) \<Rightarrow> ((ss, ds), derrs @ serrs)))"

section \<open>What an accepted batch is\<close>

lemma entity_errors_None:
  "entity_errors i seen es = [] \<longleftrightarrow>
     distinct (map en_id es) \<and> set (map en_id es) \<inter> set seen = {} \<and>
     list_all (\<lambda>e. \<not> blank (en_id e) \<and> Valid (en_id e) \<and> \<not> blank (en_class e) \<and>
       en_category e \<in> {''primary'', ''diagnostic''}) es"
  by (induction i seen es rule: entity_errors.induct) (auto simp: Let_def split: if_splits)

definition device_ok :: "DeviceRow \<Rightarrow> bool" where
  "device_ok d \<longleftrightarrow> Valid (de_id d) \<and> \<not> blank (de_scope_node d) \<and> \<not> blank (de_name d) \<and>
     length (runes_of (de_name d)) \<le> 200 \<and> \<not> blank (de_driver d) \<and> \<not> blank (de_native_id d) \<and>
     (case de_poll_s d of None \<Rightarrow> True | Some s \<Rightarrow> 0 < s) \<and> distinct (map en_id (de_entities d)) \<and>
     list_all (\<lambda>e. \<not> blank (en_id e) \<and> Valid (en_id e) \<and> \<not> blank (en_class e) \<and>
       en_category e \<in> {''primary'', ''diagnostic''}) (de_entities d)"

lemma blank_Nil: "blank ''''"
  by (simp add: blank_def runes_of_def)

lemma checkDeviceEntry_None:
  assumes "checkDeviceEntry d tuples = ([], tuples')"
  shows "tuple_key d \<notin> set tuples \<and> tuples' = tuple_key d # tuples"
proof -
  have "de_driver d \<noteq> ''''" "de_native_id d \<noteq> ''''"
    using assms blank_Nil by (auto simp: checkDeviceEntry_def Let_def split: if_splits)
  then show ?thesis using assms by (auto simp: checkDeviceEntry_def Let_def split: if_splits)
qed

lemma gate_devices_ok:
  assumes "gate_devices tuples js = (ds, [])"
  shows "length ds = length js \<and> list_all device_ok ds \<and> distinct (map tuple_key ds) \<and>
     set (map tuple_key ds) \<inter> set tuples = {} \<and> list_all2 (\<lambda>j d. decode_device j = Some d) js ds"
  using assms
proof (induction tuples js arbitrary: ds rule: gate_devices.induct)
  case (2 tuples j js)
  obtain d where d: "decode_device j = Some d"
    using 2(3) by (auto split: option.splits prod.splits)
  obtain es tuples' where c: "checkDeviceEntry d tuples = (es, tuples')" by force
  obtain ds' errs where g: "gate_devices tuples' js = (ds', errs)" by force
  have eq: "ds = d # ds'" "es = []" "errs = []" "id_error (de_id d) ''id'' = []"
      "checkPlacementAndName (de_scope_node d) (de_name d) = []"
    using 2(3) by (auto simp: d c g)
  have t: "tuple_key d \<notin> set tuples \<and> tuples' = tuple_key d # tuples"
    using checkDeviceEntry_None c eq(2) by simp
  have "device_ok d"
    using eq c by (auto simp: device_ok_def checkDeviceEntry_def checkPlacementAndName_def id_error_def CheckRowID_def
        entity_errors_None Let_def split: if_splits option.splits)
  then show ?case using 2(2) [OF d c [symmetric], of ds'] g eq t d by auto
qed simp

lemma gate_screens_ok:
  assumes "gate_screens ids js = (ss, [])"
  shows "length ss = length js \<and> list_all2 (\<lambda>j s. decode_screen j = Some s) js ss \<and>
    list_all (\<lambda>s. Valid (sc_id s) \<and> ValidateScreenOverride (sc_override s) = [] \<and>
      (case sc_device s of None \<Rightarrow> True | Some d \<Rightarrow> d \<in> set ids)) ss"
  using assms
proof (induction js arbitrary: ss)
  case (Cons j js)
  obtain ss' errs where g: "gate_screens ids js = (ss', errs)" by force
  then obtain s where s: "decode_screen j = Some s" using Cons.prems by (auto split: option.splits)
  have "ss = s # ss'" "errs = []" "id_error (sc_id s) ''id'' = []" "ValidateScreenOverride (sc_override s) = []"
      "(case sc_device s of None \<Rightarrow> True | Some d \<Rightarrow> d \<in> set ids)"
    using Cons.prems by (auto simp: g s split: option.splits if_splits)
  then show ?case using Cons.IH [of ss'] g s by (auto simp: id_error_def CheckRowID_def split: option.splits if_splits)
qed simp

lemma tuple_key_eq: "de_driver d = de_driver e \<Longrightarrow> de_native_id d = de_native_id e \<Longrightarrow> tuple_key d = tuple_key e"
  by (simp add: tuple_key_def)

text \<open>C27. A batch of identity rows that raises no error keeps every row it was given, adopts no physical device
  twice, gives every device complete and unambiguous entities, and leaves no screen with a device that is not in
  the batch.\<close>

theorem identity_gate_sound:
  assumes "ValidateIdentityRows screens devices = ((ss, ds), [])"
  shows "length ss = length screens \<and> length ds = length devices \<and> list_all device_ok ds \<and>
    (\<forall>i j. i < j \<and> j < length ds \<longrightarrow> (de_driver (ds ! i), de_native_id (ds ! i)) \<noteq> (de_driver (ds ! j), de_native_id (ds ! j))) \<and>
    (\<forall>s \<in> set ss. ValidateScreenOverride (sc_override s) = [] \<and>
       (case sc_device s of None \<Rightarrow> True | Some i \<Rightarrow> \<exists>d \<in> set ds. de_id d = i))"
proof -
  have g: "gate_devices [] devices = (ds, [])" "gate_screens (map de_id ds) screens = (ss, [])"
    using assms by (auto simp: ValidateIdentityRows_def split: prod.splits)
  note D = gate_devices_ok [OF g(1)] and S = gate_screens_ok [OF g(2)]
  have "(de_driver (ds ! i), de_native_id (ds ! i)) \<noteq> (de_driver (ds ! j), de_native_id (ds ! j))" if "i < j" "j < length ds" for i j
  proof
    assume "(de_driver (ds ! i), de_native_id (ds ! i)) = (de_driver (ds ! j), de_native_id (ds ! j))"
    then have "map tuple_key ds ! i = map tuple_key ds ! j" using that tuple_key_eq [of "ds ! i" "ds ! j"] by simp
    moreover have "distinct (map tuple_key ds)" using D by blast
    ultimately show False using that by (simp add: distinct_conv_nth)
  qed
  moreover have "\<exists>d \<in> set ds. de_id d = i" if "s \<in> set ss" "sc_device s = Some i" for s i
    using S that by (fastforce simp: list_all_iff)
  moreover have "ValidateScreenOverride (sc_override s) = [] \<and>
      (case sc_device s of None \<Rightarrow> True | Some i \<Rightarrow> \<exists>d \<in> set ds. de_id d = i)" if "s \<in> set ss" for s
    using S that calculation by (cases "sc_device s") (simp_all add: list_all_iff)
  ultimately show ?thesis using D S by blast
qed

text \<open>The joined key is not injective: a zero byte in a name lets two different tuples collide.\<close>

lemma tuple_key_collides:
  "\<exists>d e. tuple_key d = tuple_key e \<and> de_driver d \<noteq> de_driver e"
proof -
  let ?d = "\<lambda>a b. \<lparr>de_id = '''', de_scope_node = '''', de_name = '''', de_driver = a, de_native_id = b, de_poll_s = None, de_entities = []\<rparr>"
  have "tuple_key (?d ''a'' [CHR ''b'', CHR 0x00, CHR ''c'']) = tuple_key (?d [CHR ''a'', CHR 0x00, CHR ''b''] ''c'')"
    by (simp add: tuple_key_def)
  moreover have "de_driver (?d ''a'' [CHR ''b'', CHR 0x00, CHR ''c'']) \<noteq> de_driver (?d [CHR ''a'', CHR 0x00, CHR ''b''] ''c'')"
    by simp
  ultimately show ?thesis by blast
qed

text \<open>An accepted override may name a cast that is only white space beside a message; the message is then never
  shown, because the projection looks at the cast first.\<close>

lemma blank_cast_accepted:
  "ValidateScreenOverride (Some \<lparr>ov_mode = ''alert'', ov_cast = '' '', ov_message = ''m'', ov_expires_at = 0, ov_set_at = 0\<rparr>) = []"
  by (simp add: ValidateScreenOverride_def blank_def runes_of_def rune_space_def byte_of_def Let_def)


definition demo_device :: "string \<Rightarrow> json" where
  "demo_device native =
     JObj [(''id'', JStr (replicate 26 (CHR ''0''))), (''scope_node'', JStr ''n''), (''name'', JStr ''d''),
       (''driver'', JStr ''ecp''), (''native_id'', JStr native)]"

lemma demo_device_decoded:
  "decode_device (demo_device native) =
     Some \<lparr>de_id = replicate 26 (CHR ''0''), de_scope_node = ''n'', de_name = ''d'', de_driver = ''ecp'',
       de_native_id = native, de_poll_s = None, de_entities = []\<rparr>"
  by (simp add: decode_device_def demo_device_def fields_ok_def decode_simps str_of_def slice_of_def)

lemma demo_not_blank: "\<not> blank ''n''" "\<not> blank ''d''" "\<not> blank ''ecp''" "\<not> blank ''1''"
  by (simp_all add: blank_def runes_of_def rune_space_def byte_of_def)

theorem identity_gate_sound_witness:
  "\<exists>ds. ValidateIdentityRows [] [demo_device ''1''] = (([], ds), []) \<and> list_all device_ok ds \<and> length ds = 1"
proof -
  have "Valid (replicate 26 (CHR ''0''))" by code_simp
  then have "\<exists>ds. ValidateIdentityRows [] [demo_device ''1''] = (([], ds), [])"
    by (simp add: ValidateIdentityRows_def demo_device_decoded checkDeviceEntry_def id_error_def CheckRowID_def
        checkPlacementAndName_def demo_not_blank tuple_key_def Let_def runes_of_def byte_of_def)
  then show ?thesis using identity_gate_sound by fastforce
qed


end
