(* ===== verification/Programs.thy ===== *)
theory Programs
  imports Dayparts ContentURL Identity
begin

text \<open>
  What a screen is given to play.  The app derives a program per screen (\<open>internal/feeder/snapshot/screenprograms.go\<close>)
  and the relay re-resolves it at every tick (\<open>internal/relay/schedulehost/schedulehost.go\<close>); both project the
  playlist of the governing daypart into content, expand casts into slides, replace derived layers by their
  images, mint a URL for every asset, and drop a slide the layer gate refuses.  HMAC-SHA256 (\<open>hmac\<close>), the digest of
  a program's JSON (\<open>digest\<close>) and the zone database are parameters.
\<close>

section \<open>Content\<close>

record LeaseContent =
  lc_type :: string
  lc_asset :: string
  lc_url :: string
  lc_expires :: int
  lc_duration_ms :: int
  lc_slide :: string
  lc_layers :: "Layer list"

record ContentRef =
  xr_asset :: string
  xr_url :: string
  xr_expires :: int
  xr_type :: string
  xr_duration_ms :: int
  xr_slide :: string
  xr_layers :: "Layer list"

definition zero_lease :: LeaseContent where
  "zero_lease = \<lparr>lc_type = '''', lc_asset = '''', lc_url = '''', lc_expires = 0, lc_duration_ms = 0, lc_slide = '''',
     lc_layers = []\<rparr>"

definition zero_ref :: ContentRef where
  "zero_ref = \<lparr>xr_asset = '''', xr_url = '''', xr_expires = 0, xr_type = '''', xr_duration_ms = 0, xr_slide = '''',
     xr_layers = []\<rparr>"

definition item_duration :: "PlaylistItem \<Rightarrow> int" where
  "item_duration it = (case pi_duration_s it of None \<Rightarrow> 0 | Some d \<Rightarrow> if d \<noteq> 0 then i64 (d * 1000) else 0)"

section \<open>The relay's projection\<close>

definition urlFor :: "(string \<Rightarrow> string \<Rightarrow> string) \<Rightarrow> Signer \<Rightarrow> string \<Rightarrow> string" where
  "urlFor hmac sign assetRef = fst (Mint hmac sign assetRef)"

definition relay_resolveLayers :: "(string \<Rightarrow> string \<Rightarrow> string) \<Rightarrow> Signer \<Rightarrow> Layer list \<Rightarrow> Layer list option" where
  "relay_resolveLayers hmac sign authored =
     (let layers = project_layers (urlFor hmac sign) authored in
      if ValidateSlideLayers layers \<noteq> None then None else Some layers)"

definition relay_resolveSlideLayers :: "(string \<Rightarrow> string \<Rightarrow> string) \<Rightarrow> Signer \<Rightarrow> Slide option \<Rightarrow> Layer list option" where
  "relay_resolveSlideLayers hmac sign slide =
     (case slide of None \<Rightarrow> None | Some s \<Rightarrow> relay_resolveLayers hmac sign (sl_layers s))"

definition leaseContentTypeFor :: "string \<Rightarrow> string" where
  "leaseContentTypeFor authored = (if authored = '''' then ''image'' else authored)"

fun relay_slides :: "(string \<Rightarrow> string \<Rightarrow> string) \<Rightarrow> Signer \<Rightarrow> CastRow \<Rightarrow> int \<Rightarrow> CastSlide list \<Rightarrow> LeaseContent list" where
  "relay_slides hmac sign c dur [] = []"
| "relay_slides hmac sign c dur (s # ss) =
     (case relay_resolveLayers hmac sign (cs_layers s) of
        None \<Rightarrow> relay_slides hmac sign c dur ss
      | Some layers \<Rightarrow>
          zero_lease\<lparr>lc_type := ''slide'', lc_layers := layers, lc_duration_ms := SlideDwellMS s c dur, lc_slide := cs_id s\<rparr>
            # relay_slides hmac sign c dur ss)"

definition relay_castContent :: "(string \<Rightarrow> string \<Rightarrow> string) \<Rightarrow> RowStore \<Rightarrow> string \<Rightarrow> int \<Rightarrow> Signer \<Rightarrow> LeaseContent list" where
  "relay_castContent hmac store castID dur sign =
     (if castID = '''' then []
      else case find (\<lambda>c. ca_id c = castID) (rs_casts (st_rows store)) of
        None \<Rightarrow> [] | Some c \<Rightarrow> relay_slides hmac sign c dur (ca_slides c))"

definition relay_item :: "(string \<Rightarrow> string \<Rightarrow> string) \<Rightarrow> RowStore \<Rightarrow> Signer \<Rightarrow> PlaylistItem \<Rightarrow> LeaseContent list" where
  "relay_item hmac store sign it =
     (if pi_source it = ''cast'' then relay_castContent hmac store (pi_cast it) (item_duration it) sign
      else if pi_source it = ''slide'' then
        (case relay_resolveSlideLayers hmac sign (pi_slide it) of None \<Rightarrow> []
         | Some layers \<Rightarrow> [zero_lease\<lparr>lc_type := ''slide'', lc_layers := layers, lc_duration_ms := item_duration it\<rparr>])
      else if pi_asset it = '''' then []
      else [zero_lease\<lparr>lc_type := leaseContentTypeFor (pi_content_type it), lc_asset := pi_asset it,
              lc_url := urlFor hmac sign (pi_asset it), lc_duration_ms := item_duration it\<rparr>])"

definition relay_playlistContent :: "(string \<Rightarrow> string \<Rightarrow> string) \<Rightarrow> RowStore \<Rightarrow> string \<Rightarrow> Signer \<Rightarrow> LeaseContent list" where
  "relay_playlistContent hmac store playlistID sign =
     (if playlistID = '''' then []
      else case find (\<lambda>p. pl_id p = playlistID) (rs_playlists (st_rows store)) of
        None \<Rightarrow> [] | Some p \<Rightarrow> concat (map (relay_item hmac store sign) (pl_items p)))"

definition relay_programRevisionFor :: "EffectiveState \<Rightarrow> string" where
  "relay_programRevisionFor st =
     (case ef_daypart st of Some d \<Rightarrow> ef_schedule st @ '':dp:'' @ dp_id d
      | None \<Rightarrow> (case ef_fallback st of Some f \<Rightarrow> ef_schedule st @ '':fb:'' @ fb_id f | None \<Rightarrow> ''terminal:blank''))"

record served_program =
  sv_revision :: string
  sv_priority :: string
  sv_display :: string
  sv_content :: "LeaseContent list"

definition projectState :: "(string \<Rightarrow> string \<Rightarrow> string) \<Rightarrow> RowStore \<Rightarrow> EffectiveState \<Rightarrow> Signer \<Rightarrow> served_program" where
  "projectState hmac store st sign =
     \<lparr>sv_revision = relay_programRevisionFor st, sv_priority = ''scheduled'', sv_display = ef_display st,
      sv_content = (if ef_display st = ''content'' then relay_playlistContent hmac store (ef_playlist st) sign else [])\<rparr>"

definition relay_signer :: "string \<Rightarrow> string \<Rightarrow> int \<Rightarrow> Signer" where
  "relay_signer origin key nowMs = \<lparr>sg_base = origin, sg_key = key, sg_ttl = ServeTTL, sg_now = nowMs\<rparr>"

definition ProjectLease ::
  "(string \<Rightarrow> string \<Rightarrow> string) \<Rightarrow> (string \<Rightarrow> zone option) \<Rightarrow> RowStore \<Rightarrow> string \<Rightarrow> int \<Rightarrow> string \<Rightarrow> string \<Rightarrow>
     dm_error + served_program" where
  "ProjectLease hmac LoadLocation store node nowMs origin key =
     (case Resolve_state LoadLocation store node nowMs of Inl e \<Rightarrow> Inl e
      | Inr st \<Rightarrow> Inr (projectState hmac store st (relay_signer origin key nowMs)))"

definition Governs :: "RowStore \<Rightarrow> string \<Rightarrow> bool" where
  "Governs store node =
     (let chain = AncestorChain (st_tree store) node in
      chain \<noteq> [] \<and> list_ex (\<lambda>s. sch_scope_node s \<in> set chain) (rs_schedules (st_rows store)))"

section \<open>The app's projection\<close>

text \<open>The loop also keeps the expiry of the last URL it minted.\<close>

fun mint_layers :: "(string \<Rightarrow> string \<times> int) \<Rightarrow> Layer list \<Rightarrow> int \<Rightarrow> Layer list \<times> int" where
  "mint_layers mnt [] expiresAt = ([], expiresAt)"
| "mint_layers mnt (a # as) expiresAt =
     (case DeriveProjection a of None \<Rightarrow> mint_layers mnt as expiresAt
      | Some l \<Rightarrow>
          if LayerFetchesContent (l_kind l) then
            (case mnt (l_asset l) of (url, e) \<Rightarrow>
              (case mint_layers mnt as e of (ls, e') \<Rightarrow> (l\<lparr>l_url := url\<rparr> # ls, e')))
          else (case mint_layers mnt as expiresAt of (ls, e') \<Rightarrow> (l # ls, e')))"

definition app_resolveLayers :: "(string \<Rightarrow> string \<Rightarrow> string) \<Rightarrow> Signer \<Rightarrow> Layer list \<Rightarrow> (Layer list \<times> int) option" where
  "app_resolveLayers hmac sign authored =
     (case mint_layers (Mint hmac sign) authored 0 of (layers, expiresAt) \<Rightarrow>
        if ValidateSlideLayers layers \<noteq> None then None else Some (layers, expiresAt))"

definition app_resolveSlideLayers :: "(string \<Rightarrow> string \<Rightarrow> string) \<Rightarrow> Signer \<Rightarrow> Slide option \<Rightarrow> (Layer list \<times> int) option" where
  "app_resolveSlideLayers hmac sign slide =
     (case slide of None \<Rightarrow> None | Some s \<Rightarrow> app_resolveLayers hmac sign (sl_layers s))"

fun app_slides :: "(string \<Rightarrow> string \<Rightarrow> string) \<Rightarrow> Signer \<Rightarrow> CastRow \<Rightarrow> int \<Rightarrow> CastSlide list \<Rightarrow> ContentRef list" where
  "app_slides hmac sign c dur [] = []"
| "app_slides hmac sign c dur (s # ss) =
     (case app_resolveLayers hmac sign (cs_layers s) of
        None \<Rightarrow> app_slides hmac sign c dur ss
      | Some (layers, expiresAt) \<Rightarrow>
          zero_ref\<lparr>xr_type := ''slide'', xr_layers := layers, xr_expires := expiresAt,
            xr_duration_ms := SlideDwellMS s c dur, xr_slide := cs_id s\<rparr> # app_slides hmac sign c dur ss)"

definition app_castContent :: "(string \<Rightarrow> string \<Rightarrow> string) \<Rightarrow> RowStore \<Rightarrow> string \<Rightarrow> int \<Rightarrow> Signer \<Rightarrow> ContentRef list" where
  "app_castContent hmac store castID dur sign =
     (if castID = '''' then []
      else case find (\<lambda>c. ca_id c = castID) (rs_casts (st_rows store)) of
        None \<Rightarrow> [] | Some c \<Rightarrow> app_slides hmac sign c dur (ca_slides c))"

definition app_item :: "(string \<Rightarrow> string \<Rightarrow> string) \<Rightarrow> RowStore \<Rightarrow> Signer \<Rightarrow> PlaylistItem \<Rightarrow> ContentRef list" where
  "app_item hmac store sign it =
     (if pi_source it = ''cast'' then app_castContent hmac store (pi_cast it) (item_duration it) sign
      else if pi_source it = ''slide'' then
        (case app_resolveSlideLayers hmac sign (pi_slide it) of None \<Rightarrow> []
         | Some (layers, expiresAt) \<Rightarrow>
             [zero_ref\<lparr>xr_type := ''slide'', xr_layers := layers, xr_expires := expiresAt,
                xr_duration_ms := item_duration it\<rparr>])
      else if pi_asset it = '''' then []
      else (case Mint hmac sign (pi_asset it) of (url, expiresAt) \<Rightarrow>
             [zero_ref\<lparr>xr_asset := pi_asset it, xr_url := url, xr_type := pi_content_type it,
                xr_expires := expiresAt, xr_duration_ms := item_duration it\<rparr>]))"

definition app_playlistContent :: "(string \<Rightarrow> string \<Rightarrow> string) \<Rightarrow> RowStore \<Rightarrow> string \<Rightarrow> Signer \<Rightarrow> ContentRef list" where
  "app_playlistContent hmac store playlistID sign =
     (if playlistID = '''' then []
      else case find (\<lambda>p. pl_id p = playlistID) (rs_playlists (st_rows store)) of
        None \<Rightarrow> [] | Some p \<Rightarrow> concat (map (app_item hmac store sign) (pl_items p)))"

record ScreenProgram =
  sp_screen :: string
  sp_revision :: string
  sp_priority :: string
  sp_display :: string
  sp_content :: "ContentRef list"
  sp_pinned :: bool

definition overrideProgram :: "(string \<Rightarrow> string \<Rightarrow> string) \<Rightarrow> ScreenRow \<Rightarrow> ScreenOverride \<Rightarrow> RowStore \<Rightarrow> Signer \<Rightarrow> ScreenProgram" where
  "overrideProgram hmac screen ovr store sign =
     \<lparr>sp_screen = sc_id screen, sp_revision = '''',
      sp_priority = (if ov_mode ovr = ''alert'' then ''preempt'' else ''scheduled''),
      sp_display = ''content'',
      sp_content =
        (if ov_cast ovr \<noteq> '''' then app_castContent hmac store (ov_cast ovr) 0 sign
         else if ov_message ovr \<noteq> '''' then
           (case app_resolveLayers hmac sign (AlertSlideLayers (ov_message ovr)) of
              Some (layers, expiresAt) \<Rightarrow>
                [zero_ref\<lparr>xr_type := ''slide'', xr_layers := layers, xr_expires := expiresAt\<rparr>]
            | None \<Rightarrow> [])
         else []),
      sp_pinned = True\<rparr>"

text \<open>\<open>strings.Index\<close>: the first position at which the pattern starts.\<close>

fun index_of :: "string \<Rightarrow> string \<Rightarrow> nat option" where
  "index_of pat s =
     (if take (length pat) s = pat then Some 0
      else case s of [] \<Rightarrow> None | c # cs \<Rightarrow> map_option Suc (index_of pat cs))"

declare index_of.simps [simp del]

definition withoutMintedQuery :: "string \<Rightarrow> string" where
  "withoutMintedQuery raw =
     (case index_of PathPrefix raw of None \<Rightarrow> raw
      | Some i \<Rightarrow> (case index_of ''?'' (drop i raw) of None \<Rightarrow> raw | Some q \<Rightarrow> take (i + q) raw))"

definition revision_layer :: "Layer \<Rightarrow> Layer" where
  "revision_layer l = (if LayerFetchesContent (l_kind l) then l\<lparr>l_url := withoutMintedQuery (l_url l)\<rparr> else l)"

definition revision_ref :: "ContentRef \<Rightarrow> ContentRef" where
  "revision_ref c = c\<lparr>xr_url := withoutMintedQuery (xr_url c), xr_expires := 0, xr_layers := map revision_layer (xr_layers c)\<rparr>"

definition revisionContent :: "ContentRef list \<Rightarrow> ContentRef list" where
  "revisionContent content = map revision_ref content"

text \<open>The digest of the JSON of display, priority and content.\<close>

definition app_programRevisionFor :: "(string \<times> string \<times> ContentRef list \<Rightarrow> string) \<Rightarrow> ScreenProgram \<Rightarrow> string" where
  "app_programRevisionFor digest prog = digest (sp_display prog, sp_priority prog, revisionContent (sp_content prog))"

definition programFor ::
  "(string \<Rightarrow> string \<Rightarrow> string) \<Rightarrow> (string \<times> string \<times> ContentRef list \<Rightarrow> string) \<Rightarrow> ScreenRow \<Rightarrow> EffectiveState \<Rightarrow>
     RowStore \<Rightarrow> Signer \<Rightarrow> int \<Rightarrow> ScreenProgram" where
  "programFor hmac digest screen st store sign nowMs =
     (let prog =
        (if Applies (sc_override screen) nowMs then overrideProgram hmac screen (the (sc_override screen)) store sign
         else \<lparr>sp_screen = sc_id screen, sp_revision = '''', sp_priority = ''scheduled'', sp_display = ef_display st,
            sp_content = (if ef_display st = ''content'' then app_playlistContent hmac store (ef_playlist st) sign else []),
            sp_pinned = False\<rparr>)
      in prog\<lparr>sp_revision := app_programRevisionFor digest prog\<rparr>)"

text \<open>The programs of all screens, over the resolution store; a screen that does not resolve reports its error.\<close>

fun screen_programs ::
  "(string \<Rightarrow> string \<Rightarrow> string) \<Rightarrow> (string \<times> string \<times> ContentRef list \<Rightarrow> string) \<Rightarrow> (string \<Rightarrow> zone option) \<Rightarrow>
     RowStore \<Rightarrow> Signer \<Rightarrow> int \<Rightarrow> ScreenRow list \<Rightarrow> ScreenProgram list \<times> dm_error list" where
  "screen_programs hmac digest LoadLocation store sign nowMs [] = ([], [])"
| "screen_programs hmac digest LoadLocation store sign nowMs (s # ss) =
     (case screen_programs hmac digest LoadLocation store sign nowMs ss of (ps, es) \<Rightarrow>
        (case Resolve_state LoadLocation store (sc_scope_node s) nowMs of
           Inl e \<Rightarrow> (ps, e # es)
         | Inr st \<Rightarrow> (programFor hmac digest s st store sign nowMs # ps, es)))"

definition DeriveScreenPrograms ::
  "(string \<Rightarrow> string \<Rightarrow> string) \<Rightarrow> (string \<times> string \<times> ContentRef list \<Rightarrow> string) \<Rightarrow> (string \<Rightarrow> zone option) \<Rightarrow>
     RowStore \<times> dm_error list \<Rightarrow> ScreenRow list \<Rightarrow> Signer \<Rightarrow> int \<Rightarrow> ScreenProgram list \<times> dm_error list" where
  "DeriveScreenPrograms hmac digest LoadLocation resolution screens sign nowMs =
     (if screens = [] then ([], [])
      else case screen_programs hmac digest LoadLocation (fst resolution) (sign\<lparr>sg_now := nowMs\<rparr>) nowMs screens of
        (ps, es) \<Rightarrow> (ps, snd resolution @ es))"


section \<open>The two projections agree\<close>

text \<open>How an app content reference is served by the relay: an unstated type is an image, and a Lease item carries no
  expiry of its own.\<close>

definition to_lease :: "ContentRef \<Rightarrow> LeaseContent" where
  "to_lease c = \<lparr>lc_type = leaseContentTypeFor (xr_type c), lc_asset = xr_asset c, lc_url = xr_url c, lc_expires = 0,
     lc_duration_ms = xr_duration_ms c, lc_slide = xr_slide c, lc_layers = xr_layers c\<rparr>"

lemma mint_layers_project: "fst (mint_layers mnt as e) = project_layers (\<lambda>a. fst (mnt a)) as"
  by (induction as arbitrary: e) (simp_all add: split_beta split: option.split)

lemma urlFor_Mint: "urlFor hmac sign = (\<lambda>a. fst (Mint hmac sign a))"
  by (simp add: urlFor_def fun_eq_iff)

lemma resolveLayers_agree: "relay_resolveLayers hmac sign ls = map_option fst (app_resolveLayers hmac sign ls)"
  by (simp add: app_resolveLayers_def relay_resolveLayers_def urlFor_Mint split_beta
      flip: mint_layers_project [of "Mint hmac sign" ls 0])

lemma resolveSlideLayers_agree:
  "relay_resolveSlideLayers hmac sign s = map_option fst (app_resolveSlideLayers hmac sign s)"
  by (simp add: relay_resolveSlideLayers_def app_resolveSlideLayers_def resolveLayers_agree split: option.split)

lemma slides_agree: "relay_slides hmac sign c dur ss = map to_lease (app_slides hmac sign c dur ss)"
  by (induction ss)
     (auto simp: resolveLayers_agree to_lease_def leaseContentTypeFor_def zero_lease_def zero_ref_def split: option.split)

lemma castContent_agree: "relay_castContent hmac store i dur sign = map to_lease (app_castContent hmac store i dur sign)"
  by (simp add: relay_castContent_def app_castContent_def slides_agree split: option.split)

lemma item_agree: "relay_item hmac store sign it = map to_lease (app_item hmac store sign it)"
  by (auto simp: relay_item_def app_item_def castContent_agree resolveSlideLayers_agree to_lease_def
      leaseContentTypeFor_def zero_lease_def zero_ref_def urlFor_def split: option.split prod.split)

text \<open>For one store, playlist and signer the relay projects exactly the items the app projects, in the same order, with
  the same URLs, layers and dwell times; only an unstated content type becomes an image.\<close>

lemma projections_agree:
  "relay_playlistContent hmac store i sign = map to_lease (app_playlistContent hmac store i sign)"
  by (simp add: relay_playlistContent_def app_playlistContent_def item_agree [abs_def] comp_def map_concat split: option.split)

section \<open>Only valid slides are served\<close>

definition served_ok :: "LeaseContent \<Rightarrow> bool" where
  "served_ok c \<longleftrightarrow>
     ValidateSlideLayers (lc_layers c) = None \<and> lc_type c = ''slide'' \<or> lc_layers c = [] \<and> lc_asset c \<noteq> []"

lemma relay_resolveLayers_valid: "relay_resolveLayers hmac sign ls = Some layers \<Longrightarrow> ValidateSlideLayers layers = None"
  by (cases "ValidateSlideLayers (project_layers (urlFor hmac sign) ls)")
     (simp_all add: relay_resolveLayers_def Let_def)

lemma relay_slides_ok: "list_all served_ok (relay_slides hmac sign ca dur ss)"
  by (induction ss) (simp_all add: served_ok_def zero_lease_def relay_resolveLayers_valid split: option.split)

lemma relay_item_ok: "list_all served_ok (relay_item hmac store sign it)"
  by (simp add: relay_item_def relay_castContent_def relay_slides_ok relay_resolveSlideLayers_def served_ok_def
      zero_lease_def relay_resolveLayers_valid split: option.split)

lemma relay_playlist_ok: "list_all served_ok (relay_playlistContent hmac store i sign)"
  using relay_item_ok by (auto simp: relay_playlistContent_def list_all_iff split: option.split)

text \<open>A player is never handed a malformed slide: every item the relay serves is a slide whose layers pass the
  serving gate, or an asset reference.\<close>

theorem served_content_is_valid:
  "list_all served_ok (sv_content (projectState hmac store st sign))"
  by (simp add: projectState_def relay_playlist_ok)

section \<open>The relay's resolver\<close>

text \<open>
  The resolver of one screen: what it resolved last, and the calls it made on the player server and on the command
  sink, newest last.  The sink answers a command given the commands dispatched before.
\<close>

datatype resolver_effect =
    SetProgram int string served_program
  | DispatchPreset string string "(string \<times> gval) list"

type_synonym preset_sink = "resolver_effect list \<Rightarrow> string \<Rightarrow> string \<Rightarrow> (string \<times> gval) list \<Rightarrow> string option"

record Resolver =
  rv_store :: RowStore
  rv_node :: string
  rv_served :: string
  rv_server :: bool
  rv_origin :: string
  rv_key :: string
  rv_generation :: int
  rv_prev :: "EffectiveState option"
  rv_last_ms :: int
  rv_trace :: "resolver_effect list"

definition NewResolver ::
  "RowStore \<Rightarrow> string \<Rightarrow> string \<Rightarrow> bool \<Rightarrow> int \<Rightarrow> string \<Rightarrow> string \<Rightarrow> Resolver" where
  "NewResolver store node screenID server generation origin key =
     \<lparr>rv_store = store, rv_node = node, rv_served = screenID, rv_server = server, rv_origin = origin, rv_key = key,
      rv_generation = generation, rv_prev = None, rv_last_ms = 0, rv_trace = []\<rparr>"

definition ResolveNow ::
  "(string \<Rightarrow> string \<Rightarrow> string) \<Rightarrow> (string \<Rightarrow> zone option) \<Rightarrow> int \<Rightarrow> Resolver \<Rightarrow> dm_error + PresetFire option \<times> Resolver" where
  "ResolveNow hmac LoadLocation nowMs r =
     (case Resolve_state LoadLocation (rv_store r) (rv_node r) nowMs of
        Inl e \<Rightarrow> Inl e
      | Inr st \<Rightarrow>
          let prog = projectState hmac (rv_store r) st (relay_signer (rv_origin r) (rv_key r) nowMs);
              tr = (if rv_server r \<and> rv_served r \<noteq> ''''
                    then rv_trace r @ [SetProgram (rv_generation r) (rv_served r) prog] else rv_trace r)
          in Inr (PresetTransition (rv_prev r) (Some st), r\<lparr>rv_prev := Some st, rv_last_ms := nowMs, rv_trace := tr\<rparr>))"

record CarriedBaseline =
  cb_state :: EffectiveState
  cb_batch :: "PresetBatch option"

definition CarryState :: "Resolver \<Rightarrow> CarriedBaseline option" where
  "CarryState r =
     (case rv_prev r of None \<Rightarrow> None
      | Some st \<Rightarrow>
          Some \<lparr>cb_state = st,
            cb_batch = (case ef_daypart st of None \<Rightarrow> None
              | Some d \<Rightarrow> if dp_preset d \<noteq> '''' then store_presetBatch (rv_store r) (dp_preset d) else None)\<rparr>)"

definition AdoptCarriedState :: "CarriedBaseline option \<Rightarrow> Resolver \<Rightarrow> Resolver" where
  "AdoptCarriedState carried r =
     (case carried of None \<Rightarrow> r
      | Some c \<Rightarrow>
          if \<not> MayCarryAcrossApply (Some (cb_state c)) (cb_batch c) (rv_store r) then r
          else if rv_prev r \<noteq> None then r
          else r\<lparr>rv_prev := Some (cb_state c)\<rparr>)"

definition decodeParams :: "json option \<Rightarrow> (string \<times> gval) list option" where
  "decodeParams raw =
     (case raw of None \<Rightarrow> Some []
      | Some j \<Rightarrow> (case jdecode j of Some GNil \<Rightarrow> Some [] | Some (GObj kvs) \<Rightarrow> Some kvs | _ \<Rightarrow> None))"

fun dispatch_presets ::
  "preset_sink \<Rightarrow> PresetCommand list \<Rightarrow> resolver_effect list \<Rightarrow> CommandResult list \<times> resolver_effect list" where
  "dispatch_presets sink [] tr = ([], tr)"
| "dispatch_presets sink (cmd # cmds) tr =
     (case decodeParams (pc_params cmd) of
        None \<Rightarrow>
          (case dispatch_presets sink cmds tr of (rs, tr') \<Rightarrow>
             (\<lparr>cr_target = pc_entity cmd, cr_command = pc_command cmd, cr_ok = False, cr_error = ''params''\<rparr> # rs, tr'))
      | Some params \<Rightarrow>
          (let err = sink tr (pc_entity cmd) (pc_command cmd) params in
           case dispatch_presets sink cmds (tr @ [DispatchPreset (pc_entity cmd) (pc_command cmd) params]) of
             (rs, tr') \<Rightarrow>
               (\<lparr>cr_target = pc_entity cmd, cr_command = pc_command cmd, cr_ok = (err = None),
                  cr_error = (case err of None \<Rightarrow> '''' | Some e \<Rightarrow> e)\<rparr> # rs, tr')))"

definition no_outcome :: PresetBatchOutcome where
  "no_outcome = \<lparr>pbo_outcome = '''', pbo_results = [], pbo_evaluated_at = 0\<rparr>"

definition FirePreset :: "preset_sink \<Rightarrow> PresetFire option \<Rightarrow> Resolver \<Rightarrow> PresetBatchOutcome \<times> Resolver" where
  "FirePreset sink fire r =
     (case fire of None \<Rightarrow> (no_outcome, r)
      | Some f \<Rightarrow>
          (case store_presetBatch (rv_store r) (pf_batch f) of
             None \<Rightarrow> (BatchOutcome [] (rv_last_ms r), r)
           | Some b \<Rightarrow>
               (case dispatch_presets sink (pb_commands b) (rv_trace r) of (rs, tr) \<Rightarrow>
                  (BatchOutcome rs (rv_last_ms r), r\<lparr>rv_trace := tr\<rparr>))))"

definition misfireFor :: "RowStore \<Rightarrow> string \<Rightarrow> string" where
  "misfireFor store daypartID =
     (case store_daypart store daypartID of
        None \<Rightarrow> ''catch_up_once''
      | Some d \<Rightarrow>
          (case find (\<lambda>s. sch_id s = dp_schedule_id d) (rs_schedules (st_rows store)) of
             Some s \<Rightarrow> Daypart_EffectiveMisfire d s
           | None \<Rightarrow>
               if dp_misfire d \<noteq> '''' then dp_misfire d else ''catch_up_once''))"

definition Tick_resolver :: "(string \<Rightarrow> string \<Rightarrow> string) \<Rightarrow> (string \<Rightarrow> zone option) \<Rightarrow> preset_sink \<Rightarrow> int \<Rightarrow> Resolver \<Rightarrow> Resolver" where
  "Tick_resolver hmac LoadLocation sink nowMs r =
     (case ResolveNow hmac LoadLocation nowMs r of Inl _ \<Rightarrow> r
      | Inr (fired, r') \<Rightarrow> snd (FirePreset sink fired r'))"

definition TickBoot :: "(string \<Rightarrow> string \<Rightarrow> string) \<Rightarrow> (string \<Rightarrow> zone option) \<Rightarrow> preset_sink \<Rightarrow> int \<Rightarrow> Resolver \<Rightarrow> Resolver" where
  "TickBoot hmac LoadLocation sink nowMs r =
     (case ResolveNow hmac LoadLocation nowMs r of Inl _ \<Rightarrow> r
      | Inr (fired, r') \<Rightarrow>
          (case fired of None \<Rightarrow> snd (FirePreset sink fired r')
           | Some f \<Rightarrow> if misfireFor (rv_store r') (pf_daypart f) = ''skip'' then r' else snd (FirePreset sink fired r')))"

fun Loop :: "(string \<Rightarrow> string \<Rightarrow> string) \<Rightarrow> (string \<Rightarrow> zone option) \<Rightarrow> preset_sink \<Rightarrow> int list \<Rightarrow> Resolver \<Rightarrow> Resolver" where
  "Loop hmac LoadLocation sink [] r = r"
| "Loop hmac LoadLocation sink (t # ts) r = Loop hmac LoadLocation sink ts (Tick_resolver hmac LoadLocation sink t r)"


section \<open>What is accepted is served\<close>

lemma Mint_url:
  assumes "sg_base sign \<noteq> ''''" "sg_key sign = '''' \<or>
     0 < sg_ttl sign \<and> 0 < sg_now sign \<and> in_i64 (sg_now sign + sg_ttl sign div 1000000) \<and> isLowerHex (trim_ref a)"
  shows "urlFor hmac sign a \<noteq> ''''"
proof (cases "sg_key sign = ''''")
  case True
  then show ?thesis using assms(1) by (simp add: urlFor_def Mint_def Signs_def UnsignedURL_def)
next
  case False
  then have "0 < sg_now sign + sg_ttl sign div 1000000" "i64 (sg_now sign + sg_ttl sign div 1000000) =
      sg_now sign + sg_ttl sign div 1000000"
    using assms(2) by (auto simp: i64_id intro: add_pos_nonneg)
  then show ?thesis
    using assms False by (auto simp: urlFor_def Mint_def Signs_def signed_URL_def Sign_def signed_values_def UnsignedURL_def Let_def)
qed

lemma accepted_slide_resolves:
  assumes "ValidateAuthoredSlideLayers ls = None" "project_layers (urlFor hmac sign) ls \<noteq> []"
    "sg_base sign \<noteq> ''''" "0 < sg_ttl sign" "0 < sg_now sign" "in_i64 (sg_now sign + sg_ttl sign div 1000000)"
    "\<forall>l \<in> set ls. l_asset l \<noteq> '''' \<longrightarrow> isLowerHex (trim_ref (l_asset l))"
  shows "relay_resolveLayers hmac sign ls = Some (project_layers (urlFor hmac sign) ls)"
proof -
  have url: "urlFor hmac sign (l_asset p) \<noteq> ''''"
    if "l \<in> set ls" "DeriveProjection l = Some p" "LayerFetchesContent (l_kind p)" for l p
  proof -
    have "layer_error False l = None"
      using assms(1) that(1) by (simp add: ValidateAuthoredSlideLayers_def validate_None)
    then have "layer_error False p = None" using projected_ok that(2) by blast
    then have "l_asset p \<noteq> ''''"
      using that(3) by (auto simp: layer_error_None kind_error_def LayerFetchesContent_def Let_def split: if_splits)
    moreover have "l_asset p = l_asset l" using that(2) by (auto simp: DeriveProjection_def split: if_splits)
    ultimately show ?thesis using Mint_url [OF assms(3)] assms(4-7) that(1) by simp
  qed
  have "ValidateSlideLayers (project_layers (urlFor hmac sign) ls) = None"
    using project_layers_servable [OF assms(1,2)] url by blast
  then show ?thesis by (simp add: relay_resolveLayers_def Let_def)
qed

text \<open>A reference that is no hash passes the authoring gate, and the whole slide is dropped when it is served.\<close>

lemma foreign_reference_drops_slide:
  "ValidateAuthoredSlideLayers [zero_layer\<lparr>l_kind := ''image'', l_w := 9, l_h := 9, l_asset := ''logo.png''\<rparr>] = None \<and>
   relay_resolveLayers hmac (relay_signer ''http://r'' ''k'' now)
     [zero_layer\<lparr>l_kind := ''image'', l_w := 9, l_h := 9, l_asset := ''logo.png''\<rparr>] = None"
proof -
  have "\<not> isLowerHex (trim_ref ''logo.png'')" by code_simp
  then have "urlFor hmac (relay_signer ''http://r'' ''k'' now) ''logo.png'' = ''''"
    by (simp add: urlFor_def Mint_def relay_signer_def Signs_def signed_URL_def Sign_def signed_values_def Let_def)
  then have "project_layers (urlFor hmac (relay_signer ''http://r'' ''k'' now))
      [zero_layer\<lparr>l_kind := ''image'', l_w := 9, l_h := 9, l_asset := ''logo.png''\<rparr>] =
      [zero_layer\<lparr>l_kind := ''image'', l_w := 9, l_h := 9, l_asset := ''logo.png''\<rparr>]"
    by (simp add: DeriveProjection_def LayerFetchesContent_def zero_layer_def)
  moreover have "ValidateSlideLayers [zero_layer\<lparr>l_kind := ''image'', l_w := 9, l_h := 9, l_asset := ''logo.png''\<rparr>] \<noteq> None"
    "ValidateAuthoredSlideLayers [zero_layer\<lparr>l_kind := ''image'', l_w := 9, l_h := 9, l_asset := ''logo.png''\<rparr>] = None"
    by code_simp+
  ultimately show ?thesis by (simp only: relay_resolveLayers_def Let_def if_True simp_thms)
qed


definition hex_slide :: "Layer list" where
  "hex_slide =
     [zero_layer\<lparr>l_kind := ''text'', l_w := 9, l_h := 9, l_text := ''t''\<rparr>,
      zero_layer\<lparr>l_kind := ''image'', l_w := 5, l_h := 5, l_asset := ''sha256:ab''\<rparr>]"

section \<open>The revision of a program\<close>

text \<open>A signer whose deadline is a positive instant in range.\<close>

definition signer_live :: "Signer \<Rightarrow> bool" where
  "signer_live s \<longleftrightarrow> 0 < sg_ttl s \<and> 0 < sg_now s \<and> in_i64 (sg_now s + sg_ttl s div 1000000)"

definition same_origin :: "Signer \<Rightarrow> Signer \<Rightarrow> bool" where
  "same_origin s s' \<longleftrightarrow> sg_base s = sg_base s' \<and> sg_key s = sg_key s' \<and> signer_live s \<and> signer_live s'"

lemma index_of_fits: "index_of pat s = Some i \<Longrightarrow> i + length pat \<le> length s"
proof (induction s arbitrary: i)
  case Nil
  then show ?case by (subst (asm) index_of.simps) (auto split: if_splits)
next
  case (Cons c s)
  show ?case
  proof (cases "take (length pat) (c # s) = pat")
    case True
    then have "length pat \<le> length (c # s)" by (metis length_take min.cobounded1)
    then show ?thesis using Cons.prems True by (subst (asm) index_of.simps) simp
  next
    case False
    then show ?thesis using Cons by (subst (asm) (2) index_of.simps) auto
  qed
qed

lemma index_of_append: "index_of pat s = Some i \<Longrightarrow> index_of pat (s @ t) = Some i"
proof (induction s arbitrary: i)
  case Nil
  then show ?case by (subst (asm) index_of.simps) (auto simp: index_of.simps [of "[]"] split: if_splits)
next
  case (Cons c s)
  have take: "take (length pat) ((c # s) @ t) = take (length pat) (c # s)"
    using index_of_fits [OF Cons.prems] by (cases pat) simp_all
  show ?case
  proof (cases "take (length pat) (c # s) = pat")
    case True
    then have "i = 0" using Cons.prems by (subst (asm) index_of.simps) simp
    then show ?thesis using True take by (subst index_of.simps) simp
  next
    case False
    then obtain j where j: "index_of pat s = Some j" "i = Suc j"
      using Cons.prems by (subst (asm) index_of.simps) auto
    have "index_of pat (c # (s @ t)) = Some (Suc j)"
      using Cons.IH [OF j(1)] False take by (subst index_of.simps) simp
    then show ?thesis using j(2) by simp
  qed
qed

lemma index_of_occurs: "\<exists>i. index_of pat (a @ pat) = Some i \<and> i \<le> length a"
proof (induction a)
  case Nil
  then show ?case by (subst index_of.simps) simp
next
  case (Cons c a)
  then obtain i where "index_of pat (a @ pat) = Some i" "i \<le> length a" by blast
  then show ?case by (subst index_of.simps) auto
qed

text \<open>The query of a minted URL does not reach the revision.\<close>

lemma withoutMintedQuery_signed:
  "withoutMintedQuery (UnsignedURL base d @ ''?'' @ q) = withoutMintedQuery (UnsignedURL base d @ ''?'')"
proof -
  obtain i where i: "index_of PathPrefix (base @ PathPrefix) = Some i" "i \<le> length base"
    using index_of_occurs by blast
  define p where "p = drop i (base @ PathPrefix @ d)"
  obtain j where j: "index_of ''?'' (p @ ''?'') = Some j" "j \<le> length p" using index_of_occurs by blast
  have cut: "drop i (UnsignedURL base d @ ''?'' @ r) = (p @ ''?'') @ r" for r
    using i(2) by (simp add: UnsignedURL_def p_def)
  have at_i: "index_of PathPrefix (UnsignedURL base d @ ''?'' @ r) = Some i" for r
    using index_of_append [OF i(1), of "d @ ''?'' @ r"] by (simp add: UnsignedURL_def)
  have len: "i + j \<le> length (UnsignedURL base d)" using j(2) i(2) by (simp add: p_def UnsignedURL_def)
  have "withoutMintedQuery (UnsignedURL base d @ ''?'' @ r) = take (i + j) (UnsignedURL base d @ ''?'' @ r)" for r
    by (simp only: withoutMintedQuery_def at_i cut option.case index_of_append [OF j(1)])
  then have "withoutMintedQuery (UnsignedURL base d @ ''?'' @ r) = take (i + j) (UnsignedURL base d)" for r
    using len by simp
  from this [of q] this [of "[]"] show ?thesis by simp
qed

text \<open>What a live signer mints.\<close>

lemma urlFor_live:
  assumes "signer_live s"
  shows "urlFor hmac s a =
    (if sg_base s = '''' then '''' else if sg_key s = '''' then UnsignedURL (sg_base s) (trim_ref a)
     else if \<not> isLowerHex (trim_ref a) then ''''
     else UnsignedURL (sg_base s) (trim_ref a) @ ''?'' @
       encode_query \<lparr>q_exp = format_int (sg_now s + sg_ttl s div 1000000),
         q_sig = hex_encode (hmac (sg_key s) (statement (trim_ref a) (sg_now s + sg_ttl s div 1000000)))\<rparr>)"
proof -
  have "0 \<le> sg_ttl s div 1000000" using assms by (simp add: signer_live_def pos_imp_zdiv_nonneg_iff)
  then have "\<not> sg_now s + sg_ttl s div 1000000 \<le> 0" "i64 (sg_now s + sg_ttl s div 1000000) = sg_now s + sg_ttl s div 1000000"
    using assms unfolding signer_live_def by (simp_all add: i64_id)
  then show ?thesis
    using assms by (simp add: signer_live_def urlFor_def Mint_def Signs_def signed_URL_def Sign_def signed_values_def Let_def)
qed

lemma minted_alike:
  assumes "same_origin s s'"
  shows "withoutMintedQuery (urlFor hmac s a) = withoutMintedQuery (urlFor hmac s' a)"
    and "urlFor hmac s a = '''' \<longleftrightarrow> urlFor hmac s' a = ''''"
proof -
  have s: "sg_base s = sg_base s'" "sg_key s = sg_key s'" "signer_live s" "signer_live s'"
    using assms by (simp_all add: same_origin_def)
  show "withoutMintedQuery (urlFor hmac s a) = withoutMintedQuery (urlFor hmac s' a)"
    unfolding urlFor_live [OF s(3)] urlFor_live [OF s(4)] s(1,2)
    by (simp only: withoutMintedQuery_signed split: if_split) simp
  show "urlFor hmac s a = '''' \<longleftrightarrow> urlFor hmac s' a = ''''"
    unfolding urlFor_live [OF s(3)] urlFor_live [OF s(4)] s(1,2) by (simp add: UnsignedURL_def PathPrefix_def)
qed

text \<open>The layers.\<close>

lemma layer_error_url:
  assumes "u = '''' \<longleftrightarrow> u' = ''''"
  shows "layer_error True (l\<lparr>l_url := u\<rparr>) = layer_error True (l\<lparr>l_url := u'\<rparr>)"
  using assms by (simp add: layer_error_def kind_error_url url_change)

lemma project_layers_gate:
  assumes "\<And>a. url a = '''' \<longleftrightarrow> url' a = ''''"
  shows "layers_error True i (project_layers url ls) = layers_error True i (project_layers url' ls)"
  by (induction ls arbitrary: i)
     (auto simp: layer_error_url [OF assms] split: option.split)

lemma project_layers_revised:
  assumes "\<And>a. withoutMintedQuery (url a) = withoutMintedQuery (url' a)"
  shows "map revision_layer (project_layers url ls) = map revision_layer (project_layers url' ls)"
  by (induction ls) (simp_all add: revision_layer_def assms split: option.split)

lemma resolved_alike:
  assumes "same_origin s s'"
  shows "map_option (\<lambda>r. map revision_layer (fst r)) (app_resolveLayers hmac s ls) =
    map_option (\<lambda>r. map revision_layer (fst r)) (app_resolveLayers hmac s' ls)"
proof -
  note alike = minted_alike [OF assms]
  have fst: "fst (mint_layers (Mint hmac s) ls 0) = project_layers (urlFor hmac s) ls" for s
    by (simp add: mint_layers_project urlFor_Mint)
  have "project_layers (urlFor hmac s) ls = [] \<longleftrightarrow> project_layers (urlFor hmac s') ls = []"
    using project_layers_revised [of "urlFor hmac s" "urlFor hmac s'" ls, OF alike(1)]
    by (metis map_is_Nil_conv)
  then have "ValidateSlideLayers (project_layers (urlFor hmac s) ls) =
      ValidateSlideLayers (project_layers (urlFor hmac s') ls)"
    using project_layers_gate [of "urlFor hmac s" "urlFor hmac s'", OF alike(2)]
    by (simp add: ValidateSlideLayers_def validateSlideLayers_def)
  then show ?thesis
    using project_layers_revised [of "urlFor hmac s" "urlFor hmac s'" ls, OF alike(1)]
    by (simp add: app_resolveLayers_def split_beta fst)
qed

lemma resolved_alike_cases:
  assumes "same_origin s s'"
  obtains "app_resolveLayers hmac s ls = None" "app_resolveLayers hmac s' ls = None"
  | l e l' e' where "app_resolveLayers hmac s ls = Some (l, e)" "app_resolveLayers hmac s' ls = Some (l', e')"
      "map revision_layer l = map revision_layer l'"
  using resolved_alike [OF assms, of hmac ls]
  by (cases "app_resolveLayers hmac s ls"; cases "app_resolveLayers hmac s' ls") auto

lemma slides_alike:
  assumes "same_origin s s'"
  shows "revisionContent (app_slides hmac s c dur ss) = revisionContent (app_slides hmac s' c dur ss)"
proof (induction ss)
  case (Cons x ss)
  show ?case
    by (cases rule: resolved_alike_cases [OF assms, of hmac "cs_layers x"])
       (use Cons in \<open>simp_all add: revisionContent_def revision_ref_def zero_ref_def\<close>)
qed (simp add: revisionContent_def)

lemma castContent_alike:
  assumes "same_origin s s'"
  shows "revisionContent (app_castContent hmac store i dur s) = revisionContent (app_castContent hmac store i dur s')"
  by (simp add: app_castContent_def slides_alike [OF assms] split: option.split)

lemma one_slide_alike:
  assumes "same_origin s s'"
  shows "revisionContent (case app_resolveLayers hmac s ls of None \<Rightarrow> []
      | Some (layers, e) \<Rightarrow> [r\<lparr>xr_layers := layers, xr_expires := e\<rparr>]) =
    revisionContent (case app_resolveLayers hmac s' ls of None \<Rightarrow> []
      | Some (layers, e) \<Rightarrow> [r\<lparr>xr_layers := layers, xr_expires := e\<rparr>])"
  by (cases rule: resolved_alike_cases [OF assms, of hmac ls]) (simp_all add: revisionContent_def revision_ref_def)

lemma item_alike:
  assumes "same_origin s s'"
  shows "revisionContent (app_item hmac store s it) = revisionContent (app_item hmac store s' it)"
proof -
  consider "pi_source it = ''cast''" | "pi_source it = ''slide''" "pi_slide it = None"
    | sl where "pi_source it = ''slide''" "pi_slide it = Some sl"
    | "pi_source it \<noteq> ''cast''" "pi_source it \<noteq> ''slide''" by blast
  then show ?thesis
  proof cases
    case (3 sl)
    have "revisionContent (app_item hmac store s it) = revisionContent (app_item hmac store s' it)"
      by (cases rule: resolved_alike_cases [OF assms, of hmac "sl_layers sl"])
         (simp_all add: 3 app_item_def app_resolveSlideLayers_def revisionContent_def revision_ref_def zero_ref_def)
    then show ?thesis .
  next
    case 4
    then show ?thesis
      using minted_alike(1) [OF assms, of hmac "pi_asset it"]
      by (simp add: app_item_def revisionContent_def split_beta revision_ref_def zero_ref_def urlFor_def)
  qed (simp_all add: app_item_def castContent_alike [OF assms] app_resolveSlideLayers_def)
qed

lemma playlist_alike:
  assumes "same_origin s s'"
  shows "revisionContent (app_playlistContent hmac store i s) = revisionContent (app_playlistContent hmac store i s')"
proof -
  have "revisionContent (concat (map (app_item hmac store s) its)) =
      revisionContent (concat (map (app_item hmac store s') its))" for its
    by (induction its) (simp_all add: revisionContent_def item_alike [OF assms, unfolded revisionContent_def])
  then show ?thesis by (simp add: app_playlistContent_def split: option.split)
qed

lemma override_alike:
  assumes "same_origin s s'"
  shows "revisionContent (sp_content (overrideProgram hmac screen ovr store s)) =
    revisionContent (sp_content (overrideProgram hmac screen ovr store s'))"
  using castContent_alike [OF assms] one_slide_alike [OF assms, where r = "zero_ref\<lparr>xr_type := ''slide''\<rparr>"]
  by (simp add: overrideProgram_def zero_ref_def)



section \<open>The resolver over its ticks\<close>

text \<open>What is specified: the states a sequence of instants resolves to, those of them that enter another daypart
  than the one before, and the commands the batch of a daypart stands for.\<close>

definition resolved :: "(string \<Rightarrow> zone option) \<Rightarrow> Resolver \<Rightarrow> int list \<Rightarrow> EffectiveState list" where
  "resolved LoadLocation r ts =
     concat (map (\<lambda>t. case Resolve_state LoadLocation (rv_store r) (rv_node r) t of Inl _ \<Rightarrow> [] | Inr st \<Rightarrow> [st]) ts)"

definition enters :: "EffectiveState option \<times> EffectiveState \<Rightarrow> bool" where
  "enters ab \<longleftrightarrow> effectiveDaypartID (Some (snd ab)) \<noteq> '''' \<and>
     effectiveDaypartID (fst ab) \<noteq> effectiveDaypartID (Some (snd ab))"

definition entered :: "EffectiveState option \<Rightarrow> EffectiveState list \<Rightarrow> EffectiveState list" where
  "entered prev sts = map snd (filter enters (zip (prev # map Some sts) sts))"

definition command_effects :: "PresetCommand list \<Rightarrow> resolver_effect list" where
  "command_effects cmds =
     concat (map (\<lambda>c. case decodeParams (pc_params c) of None \<Rightarrow> []
       | Some ps \<Rightarrow> [DispatchPreset (pc_entity c) (pc_command c) ps]) cmds)"

definition batch_effects :: "RowStore \<Rightarrow> string \<Rightarrow> resolver_effect list" where
  "batch_effects store i =
     (case store_presetBatch store i of None \<Rightarrow> [] | Some b \<Rightarrow> command_effects (pb_commands b))"

definition preset_effects :: "RowStore \<Rightarrow> EffectiveState \<Rightarrow> resolver_effect list" where
  "preset_effects store st =
     (case ef_daypart st of None \<Rightarrow> []
      | Some d \<Rightarrow> if dp_preset d = '''' then [] else batch_effects store (dp_preset d))"

fun is_dispatch :: "resolver_effect \<Rightarrow> bool" where
  "is_dispatch (DispatchPreset _ _ _) = True"
| "is_dispatch (SetProgram _ _ _) = False"

definition dispatched :: "Resolver \<Rightarrow> resolver_effect list" where
  "dispatched r = filter is_dispatch (rv_trace r)"

lemma snd_dispatch_presets: "snd (dispatch_presets sink cmds tr) = tr @ command_effects cmds"
  by (induction cmds arbitrary: tr) (simp_all add: command_effects_def split_beta Let_def split: option.split)

lemma command_effects_dispatch: "filter is_dispatch (command_effects cmds) = command_effects cmds"
  by (induction cmds) (simp_all add: command_effects_def split: option.split)

lemma batch_effects_dispatch: "filter is_dispatch (batch_effects store i) = batch_effects store i"
  by (simp add: batch_effects_def command_effects_dispatch split: option.split)

lemma FirePreset_effects:
  "snd (FirePreset sink fire r) =
     r\<lparr>rv_trace := rv_trace r @ (case fire of None \<Rightarrow> [] | Some f \<Rightarrow> batch_effects (rv_store r) (pf_batch f))\<rparr>"
  by (simp add: FirePreset_def batch_effects_def split_beta snd_dispatch_presets split: option.split)

lemma transition_effects:
  "(case PresetTransition prev (Some st) of None \<Rightarrow> [] | Some f \<Rightarrow> batch_effects store (pf_batch f)) =
     (if enters (prev, st) then preset_effects store st else [])"
  by (auto simp: PresetTransition_def enters_def preset_effects_def effectiveDaypartID_def Let_def split: option.split)

lemma Tick_state:
  "rv_store (Tick_resolver hmac LL sink t r) = rv_store r \<and> rv_node (Tick_resolver hmac LL sink t r) = rv_node r"
  by (simp add: Tick_resolver_def ResolveNow_def FirePreset_effects Let_def split: sum.split)

lemma Tick_error: "Resolve_state LL (rv_store r) (rv_node r) t = Inl e \<Longrightarrow> Tick_resolver hmac LL sink t r = r"
  by (simp add: Tick_resolver_def ResolveNow_def)

lemma Tick_resolver_ok:
  assumes "Resolve_state LL (rv_store r) (rv_node r) t = Inr st"
  shows "rv_prev (Tick_resolver hmac LL sink t r) = Some st \<and>
    dispatched (Tick_resolver hmac LL sink t r) =
      dispatched r @ (if enters (rv_prev r, st) then preset_effects (rv_store r) st else [])"
proof -
  have pe: "filter is_dispatch (preset_effects store st) = preset_effects store st" for store
    by (simp add: preset_effects_def batch_effects_dispatch split: option.split)
  show ?thesis
    by (simp add: Tick_resolver_def ResolveNow_def assms FirePreset_effects Let_def dispatched_def transition_effects pe
        del: map_append)
qed

text \<open>C16. A preset fires once on entering a daypart and never again while it holds: over any sequence of ticks, the
  commands sent are those of the batches of the resolved states that enter another daypart than the state before
  them, in order, whatever the sink answers; an instant that does not resolve sends nothing and is not a
  departure.\<close>

theorem presets_fire_on_entry:
  "dispatched (Loop hmac LL sink ts r) =
     dispatched r @ concat (map (preset_effects (rv_store r)) (entered (rv_prev r) (resolved LL r ts)))"
proof (induction ts arbitrary: r)
  case (Cons t ts)
  let ?r = "Tick_resolver hmac LL sink t r"
  have same: "rv_store ?r = rv_store r" "resolved LL ?r ts = resolved LL r ts"
    using Tick_state [of hmac LL sink t r] by (simp_all add: resolved_def)
  show ?case
  proof (cases "Resolve_state LL (rv_store r) (rv_node r) t")
    case (Inl e)
    then show ?thesis using Cons [of r] Tick_error [OF Inl] by (simp add: resolved_def)
  next
    case (Inr st)
    then have "resolved LL r (t # ts) = st # resolved LL r ts" by (simp add: resolved_def)
    then show ?thesis using Cons [of ?r] Tick_resolver_ok [OF Inr, of hmac sink] same by (simp add: entered_def)
  qed
qed (simp add: resolved_def entered_def)


text \<open>The carried baseline is still what the applied store holds.\<close>

definition carries :: "Resolver \<Rightarrow> RowStore \<Rightarrow> bool" where
  "carries old store =
     (case rv_prev old of None \<Rightarrow> False
      | Some st \<Rightarrow>
          (case ef_daypart st of None \<Rightarrow> True
           | Some d \<Rightarrow> sameDaypart (Some d) (store_daypart store (dp_id d)) \<and>
               (dp_preset d = '''' \<or>
                 samePresetBatch (store_presetBatch (rv_store old) (dp_preset d)) (store_presetBatch store (dp_preset d)))))"

definition applied_resolver :: "Resolver \<Rightarrow> RowStore \<Rightarrow> string \<Rightarrow> string \<Rightarrow> bool \<Rightarrow> int \<Rightarrow> string \<Rightarrow> string \<Rightarrow> Resolver" where
  "applied_resolver old store node screen server generation origin key =
     AdoptCarriedState (CarryState old) (NewResolver store node screen server generation origin key)"


text \<open>A screen that plays an asset and a slide.\<close>

definition demo_screen :: ScreenRow where
  "demo_screen = \<lparr>sc_id = ''w'', sc_scope_node = ''x'', sc_name = ''w'', sc_device = None, sc_override = None\<rparr>"

definition demo_item :: PlaylistItem where
  "demo_item = \<lparr>pi_source = ''asset'', pi_asset = ''sha256:ab'', pi_content_type = '''', pi_pack = '''', pi_content = '''',
     pi_duration_s = Some 5, pi_slide = Some \<lparr>sl_layers = hex_slide\<rparr>, pi_cast = ''''\<rparr>"

definition demo_store :: RowStore where
  "demo_store = (demo_rows False)\<lparr>st_rows := (st_rows (demo_rows False))\<lparr>rs_playlists :=
     [\<lparr>pl_id = ''p'', pl_scope_node = ''x'', pl_name = ''p'', pl_items = [demo_item, demo_item\<lparr>pi_source := ''slide''\<rparr>]\<rparr>]\<rparr>\<rparr>"

definition demo_digest :: "string \<times> string \<times> ContentRef list \<Rightarrow> string" where
  "demo_digest v = fst v @ fst (snd v) @ concat (map (\<lambda>c. xr_url c @ concat (map l_url (xr_layers c))) (snd (snd v)))"

definition demo_playing :: EffectiveState where
  "demo_playing = \<lparr>ef_daypart = None, ef_fallback = None, ef_display = ''content'', ef_playlist = ''p'', ef_schedule = ''''\<rparr>"


end
