(* ===== verification/RowGates.thy ===== *)
theory RowGates
  imports Programs
begin

text \<open>
  The gate of the scheduling rows, \<open>internal/datamodel/validate.go\<close>, with the decoders of \<open>rows.go\<close>: per-row checks,
  the slide layer gate with its menu targets, references between rows, and the stores the app and the relay build
  from a snapshot (\<open>snapshot/screenprograms.go\<close>, \<open>schedulehost/schedulehost.go\<close>).  Rows are parsed JSON; a
  message text is omitted.
\<close>

section \<open>Decoding\<close>

definition nav_item_ok :: "json \<Rightarrow> bool" where
  "nav_item_ok j = fields_ok j [(''label'', str_ok), (''target_slide_id'', str_ok)]"

definition decode_nav_item :: "json \<Rightarrow> NavItem" where
  "decode_nav_item j = \<lparr>ni_label = str_of j ''label'', ni_target = str_of j ''target_slide_id''\<rparr>"

definition fill_ok :: "json \<Rightarrow> bool" where
  "fill_ok j = fields_ok j [(''kind'', str_ok), (''from'', str_ok), (''to'', str_ok), (''angle_deg'', int_ok)]"

definition decode_fill :: "json \<Rightarrow> DeriveFill" where
  "decode_fill j = \<lparr>df_kind = str_of j ''kind'', df_from = str_of j ''from'', df_to = str_of j ''to'',
     df_angle = int_of_field j ''angle_deg''\<rparr>"

definition shadow_ok :: "json \<Rightarrow> bool" where
  "shadow_ok j = fields_ok j [(''dx'', int_ok), (''dy'', int_ok), (''blur'', int_ok), (''color'', str_ok),
     (''opacity_pct'', int_ok)]"

definition decode_shadow :: "json \<Rightarrow> DeriveShadow" where
  "decode_shadow j = \<lparr>ds_dx = int_of_field j ''dx'', ds_dy = int_of_field j ''dy'', ds_blur = int_of_field j ''blur'',
     ds_color = str_of j ''color'', ds_opacity = int_of_field j ''opacity_pct''\<rparr>"

definition border_ok :: "json \<Rightarrow> bool" where
  "border_ok j = fields_ok j [(''width'', int_ok), (''color'', str_ok), (''radius'', int_ok)]"

definition decode_border :: "json \<Rightarrow> DeriveBorder" where
  "decode_border j = \<lparr>db_width = int_of_field j ''width'', db_color = str_of j ''color'', db_radius = int_of_field j ''radius''\<rparr>"

definition derive_ok :: "json \<Rightarrow> bool" where
  "derive_ok j = fields_ok j [(''kind'', str_ok), (''data'', str_ok), (''ec_level'', str_ok), (''text'', str_ok),
     (''font_px'', int_ok), (''font_family'', str_ok), (''font_asset_ref'', str_ok), (''align'', str_ok),
     (''valign'', str_ok), (''color'', str_ok), (''fill'', ptr_ok fill_ok), (''shadow'', ptr_ok shadow_ok),
     (''border'', ptr_ok border_ok)]"

definition decode_derive :: "json \<Rightarrow> DeriveSpec" where
  "decode_derive j = \<lparr>sp_kind = str_of j ''kind'', sp_data = str_of j ''data'', sp_ec = str_of j ''ec_level'',
     sp_text = str_of j ''text'', sp_font_px = int_of_field j ''font_px'', sp_font_family = str_of j ''font_family'',
     sp_font_asset = str_of j ''font_asset_ref'', sp_align = str_of j ''align'', sp_valign = str_of j ''valign'',
     sp_color = str_of j ''color'', sp_fill = ptr_of decode_fill j ''fill'', sp_shadow = ptr_of decode_shadow j ''shadow'',
     sp_border = ptr_of decode_border j ''border''\<rparr>"

definition layer_ok :: "json \<Rightarrow> bool" where
  "layer_ok j = fields_ok j [(''kind'', str_ok), (''x'', int_ok), (''y'', int_ok), (''w'', int_ok), (''h'', int_ok),
     (''text'', str_ok), (''asset_ref'', str_ok), (''url'', str_ok), (''font_px'', int_ok), (''color'', str_ok),
     (''align'', str_ok), (''target_ms'', int_ok), (''entity_id'', str_ok), (''value'', str_ok), (''ping_name'', str_ok),
     (''items'', slice_ok nav_item_ok), (''derive'', ptr_ok derive_ok), (''derived_from'', str_ok)]"

definition decode_layer :: "json \<Rightarrow> Layer" where
  "decode_layer j = \<lparr>l_kind = str_of j ''kind'', l_x = int_of_field j ''x'', l_y = int_of_field j ''y'',
     l_w = int_of_field j ''w'', l_h = int_of_field j ''h'', l_text = str_of j ''text'', l_asset = str_of j ''asset_ref'',
     l_url = str_of j ''url'', l_font_px = int_of_field j ''font_px'', l_color = str_of j ''color'',
     l_align = str_of j ''align'', l_target_ms = int_of_field j ''target_ms'', l_entity = str_of j ''entity_id'',
     l_value = str_of j ''value'', l_ping = str_of j ''ping_name'',
     l_items = map decode_nav_item (slice_of j ''items''), l_derive = ptr_of decode_derive j ''derive'',
     l_derived_from = str_of j ''derived_from''\<rparr>"

definition slide_ok :: "json \<Rightarrow> bool" where
  "slide_ok j = fields_ok j [(''layers'', slice_ok layer_ok)]"

definition decode_slide :: "json \<Rightarrow> Slide" where
  "decode_slide j = \<lparr>sl_layers = map decode_layer (slice_of j ''layers'')\<rparr>"

definition item_ok :: "json \<Rightarrow> bool" where
  "item_ok j = fields_ok j [(''source'', str_ok), (''asset_ref'', str_ok), (''content_type'', str_ok), (''pack_id'', str_ok),
     (''content_id'', str_ok), (''duration_seconds'', int_ok), (''slide'', ptr_ok slide_ok), (''cast_id'', str_ok)]"

definition decode_item :: "json \<Rightarrow> PlaylistItem" where
  "decode_item j = \<lparr>pi_source = str_of j ''source'', pi_asset = str_of j ''asset_ref'',
     pi_content_type = str_of j ''content_type'', pi_pack = str_of j ''pack_id'', pi_content = str_of j ''content_id'',
     pi_duration_s = dint_ptr None (jfield j ''duration_seconds''), pi_slide = ptr_of decode_slide j ''slide'',
     pi_cast = str_of j ''cast_id''\<rparr>"

text \<open>The bookkeeping fields every row may carry.\<close>

definition stamp_fields :: "(string \<times> (json \<Rightarrow> bool)) list" where
  "stamp_fields = [(''revision'', int_ok), (''created_at'', int_ok), (''updated_at'', int_ok)]"

definition book_fields :: "(string \<times> (json \<Rightarrow> bool)) list" where
  "book_fields = [(''external_id'', str_ok), (''labels'', labels_ok)] @ stamp_fields"

definition decode_playlist :: "json \<Rightarrow> Playlist option" where
  "decode_playlist j =
     (if fields_ok j ([(''id'', str_ok), (''scope_node'', str_ok), (''name'', str_ok), (''items'', slice_ok item_ok)] @ book_fields)
      then Some \<lparr>pl_id = str_of j ''id'', pl_scope_node = str_of j ''scope_node'', pl_name = str_of j ''name'',
        pl_items = map decode_item (slice_of j ''items'')\<rparr>
      else None)"

definition cast_slide_ok :: "json \<Rightarrow> bool" where
  "cast_slide_ok j = fields_ok j [(''id'', str_ok), (''duration_ms'', int_ok), (''layers'', slice_ok layer_ok)]"

definition decode_cast_slide :: "json \<Rightarrow> CastSlide" where
  "decode_cast_slide j = \<lparr>cs_id = str_of j ''id'', cs_duration_ms = int_of_field j ''duration_ms'',
     cs_layers = map decode_layer (slice_of j ''layers'')\<rparr>"

definition decode_cast :: "json \<Rightarrow> CastRow option" where
  "decode_cast j =
     (if fields_ok j ([(''id'', str_ok), (''scope_node'', str_ok), (''name'', str_ok), (''slides'', slice_ok cast_slide_ok),
        (''default_duration_ms'', int_ok), (''template'', bool_ok)] @ book_fields)
      then Some \<lparr>ca_id = str_of j ''id'', ca_scope_node = str_of j ''scope_node'', ca_name = str_of j ''name'',
        ca_slides = map decode_cast_slide (slice_of j ''slides''), ca_default_ms = int_of_field j ''default_duration_ms'',
        ca_template = bool_of j ''template''\<rparr>
      else None)"

definition decode_schedule :: "json \<Rightarrow> ScheduleRow option" where
  "decode_schedule j =
     (if fields_ok j ([(''id'', str_ok), (''scope_node'', str_ok), (''name'', str_ok), (''fallback_id'', str_ok),
        (''priority'', int_ok), (''misfire'', str_ok)] @ book_fields)
      then Some \<lparr>sch_id = str_of j ''id'', sch_scope_node = str_of j ''scope_node'', sch_name = str_of j ''name'',
        sch_fallback_id = str_of j ''fallback_id'', sch_priority = dint_ptr None (jfield j ''priority''),
        sch_misfire = str_of j ''misfire''\<rparr>
      else None)"

definition decode_window :: "json \<Rightarrow> ValidityWindow option" where
  "decode_window j =
     (if fields_ok j ([(''id'', str_ok), (''schedule_id'', str_ok), (''scope_node'', str_ok), (''starts_at'', int_ok),
        (''ends_at'', int_ok)] @ stamp_fields)
      then Some \<lparr>vw_id = str_of j ''id'', vw_schedule_id = str_of j ''schedule_id'', vw_scope_node = str_of j ''scope_node'',
        vw_starts_at = dint_ptr None (jfield j ''starts_at''), vw_ends_at = dint_ptr None (jfield j ''ends_at'')\<rparr>
      else None)"

definition decode_daypart :: "json \<Rightarrow> Daypart option" where
  "decode_daypart j =
     (if fields_ok j ([(''id'', str_ok), (''schedule_id'', str_ok), (''scope_node'', str_ok),
        (''days_of_week'', slice_ok int_ok), (''start_time'', str_ok), (''end_time'', str_ok), (''display_power'', str_ok),
        (''playlist_id'', str_ok), (''preset_batch_id'', str_ok), (''misfire'', str_ok), (''name'', str_ok)] @ stamp_fields)
      then Some \<lparr>dp_id = str_of j ''id'', dp_schedule_id = str_of j ''schedule_id'', dp_scope_node = str_of j ''scope_node'',
        dp_days = map int_elem (slice_of j ''days_of_week''), dp_start = str_of j ''start_time'',
        dp_end = str_of j ''end_time'', dp_power = str_of j ''display_power'', dp_playlist = str_of j ''playlist_id'',
        dp_preset = str_of j ''preset_batch_id'', dp_misfire = str_of j ''misfire'', dp_name = str_of j ''name'',
        dp_revision = int_of_field j ''revision'', dp_created = int_of_field j ''created_at'',
        dp_updated = int_of_field j ''updated_at''\<rparr>
      else None)"

definition decode_fallback :: "json \<Rightarrow> Fallback option" where
  "decode_fallback j =
     (if fields_ok j ([(''id'', str_ok), (''scope_node'', str_ok), (''name'', str_ok), (''display_power'', str_ok),
        (''playlist_id'', str_ok)] @ book_fields)
      then Some \<lparr>fb_id = str_of j ''id'', fb_scope_node = str_of j ''scope_node'', fb_name = str_of j ''name'',
        fb_power = str_of j ''display_power'', fb_playlist = str_of j ''playlist_id''\<rparr>
      else None)"

definition command_ok :: "json \<Rightarrow> bool" where
  "command_ok j = fields_ok j [(''entity_id'', str_ok), (''command'', str_ok)]"

definition decode_command :: "json \<Rightarrow> PresetCommand" where
  "decode_command j = \<lparr>pc_entity = str_of j ''entity_id'', pc_command = str_of j ''command'',
     pc_params = draw (jfield j ''params'')\<rparr>"

definition result_ok :: "json \<Rightarrow> bool" where
  "result_ok j = fields_ok j [(''target'', str_ok), (''command'', str_ok), (''ok'', bool_ok), (''error'', str_ok)]"

definition decode_result :: "json \<Rightarrow> CommandResult" where
  "decode_result j = \<lparr>cr_target = str_of j ''target'', cr_command = str_of j ''command'', cr_ok = bool_of j ''ok'',
     cr_error = str_of j ''error''\<rparr>"

definition outcome_ok :: "json \<Rightarrow> bool" where
  "outcome_ok j = fields_ok j [(''outcome'', str_ok), (''results'', slice_ok result_ok), (''evaluated_at'', int_ok)]"

definition decode_outcome :: "json \<Rightarrow> PresetBatchOutcome" where
  "decode_outcome j = \<lparr>pbo_outcome = str_of j ''outcome'', pbo_results = map decode_result (slice_of j ''results''),
     pbo_evaluated_at = int_of_field j ''evaluated_at''\<rparr>"

definition decode_batch :: "json \<Rightarrow> PresetBatch option" where
  "decode_batch j =
     (if fields_ok j ([(''preset_id'', str_ok), (''scope_node'', str_ok), (''name'', str_ok), (''commands'', slice_ok command_ok),
        (''last_outcome'', ptr_ok outcome_ok)] @ book_fields)
      then Some \<lparr>pb_id = str_of j ''preset_id'', pb_scope_node = str_of j ''scope_node'', pb_name = str_of j ''name'',
        pb_commands = map decode_command (slice_of j ''commands''), pb_last_outcome = ptr_of decode_outcome j ''last_outcome'',
        pb_external_id = str_of j ''external_id'', pb_labels = labels_of j ''labels'', pb_revision = int_of_field j ''revision'',
        pb_created = int_of_field j ''created_at'', pb_updated = int_of_field j ''updated_at''\<rparr>
      else None)"

text \<open>A \<open>*float64\<close> field.\<close>

fun float_ok :: "json \<Rightarrow> bool" where
  "float_ok (JNum s) = (parse_float s \<noteq> None)"
| "float_ok JNull = True"
| "float_ok _ = False"

fun dfloat_ptr :: "f64 option \<Rightarrow> json list \<Rightarrow> f64 option" where
  "dfloat_ptr p [] = p"
| "dfloat_ptr p (JNum s # vs) = dfloat_ptr (case parse_float s of Some x \<Rightarrow> Some x | None \<Rightarrow> p) vs"
| "dfloat_ptr p (JNull # vs) = dfloat_ptr None vs"
| "dfloat_ptr p (_ # vs) = dfloat_ptr p vs"

definition decode_node :: "json \<Rightarrow> ScopeNode option" where
  "decode_node j =
     (if fields_ok j ([(''id'', str_ok), (''kind'', str_ok), (''parent_id'', str_ok), (''name'', str_ok), (''tz'', str_ok),
        (''lat'', float_ok), (''long'', float_ok), (''account_state'', str_ok)] @ book_fields)
      then Some \<lparr>nd_id = str_of j ''id'', nd_kind = str_of j ''kind'', nd_parent = dstr_ptr None (jfield j ''parent_id''),
        nd_name = str_of j ''name'', nd_tz = dstr_ptr None (jfield j ''tz''), nd_lat = dfloat_ptr None (jfield j ''lat''),
        nd_long = dfloat_ptr None (jfield j ''long''), nd_account_state = str_of j ''account_state'',
        nd_entitlements = draw (jfield j ''entitlements'')\<rparr>
      else None)"

section \<open>Row checks\<close>

text \<open>\<open>strings.TrimSpace\<close>: the runes of a text with the bytes they take, without the white space at both ends.\<close>

fun rune_chunks :: "nat \<Rightarrow> nat list \<Rightarrow> (nat list \<times> nat) list" where
  "rune_chunks k [] = []"
| "rune_chunks 0 (b # bs) = []"
| "rune_chunks (Suc k) (b # bs) =
     (case first_rune (b # bs) of (w, r) \<Rightarrow> (b # take (w - 1) bs, r) # rune_chunks k (drop (w - 1) bs))"

definition TrimSpace :: "string \<Rightarrow> string" where
  "TrimSpace s =
     (let space = (\<lambda>c. rune_space (snd c)); cs = rune_chunks (length s) (map byte_of s) in
      map char_of (concat (map fst (rev (dropWhile space (rev (dropWhile space cs)))))))"

definition packOwnershipFields :: "string list" where
  "packOwnershipFields = [''pack_id'', ''owner_pack'']"

definition validDisplayPower :: "string \<Rightarrow> bool" where
  "validDisplayPower s \<longleftrightarrow> s \<in> {''on'', ''off'', ''blank''}"

definition validMisfire :: "string \<Rightarrow> bool" where
  "validMisfire s \<longleftrightarrow> s \<in> {''catch_up_once'', ''skip'', ''fire_each''}"

definition checkRowPlacement :: "string \<Rightarrow> dm_error list" where
  "checkRowPlacement scopeNode = (if blank scopeNode then [dm_err ''scope_node'' ''ROW_SCOPE_NODE_MISSING''] else [])"

fun days_scan :: "int list \<Rightarrow> int list \<Rightarrow> dm_error list" where
  "days_scan seen [] = []"
| "days_scan seen (d # ds) =
     (if d < 0 \<or> d > 6 then [dm_err ''days_of_week'' ''DAYPART_DAYS_INVALID'']
      else if d \<in> set seen then [dm_err ''days_of_week'' ''DAYPART_DAYS_INVALID'']
      else days_scan (d # seen) ds)"

definition checkDaysOfWeek :: "int list \<Rightarrow> dm_error list" where
  "checkDaysOfWeek days =
     (if days = [] then [dm_err ''days_of_week'' ''DAYPART_DAYS_INVALID''] else days_scan [] days)"

fun checkPackOwnership :: "json \<Rightarrow> dm_error option" where
  "checkPackOwnership (JObj kvs) =
     map_option (\<lambda>f. dm_err f ''SCHEDULER_ROW_PACK_OWNED'') (find (\<lambda>f. jlookup kvs f \<noteq> None) packOwnershipFields)"
| "checkPackOwnership _ = None"

section \<open>Slides and their menus\<close>

definition indexed_field :: "string \<Rightarrow> nat \<Rightarrow> string \<Rightarrow> string" where
  "indexed_field base i rest = base @ ''['' @ show_nat i @ '']'' @ rest"

text \<open>The menu targets of a slide outside a cast are nil.\<close>

record slideLayerGate =
  sg_field :: string
  sg_code :: string
  sg_nav :: "string list option"

fun nav_item_targets :: "slideLayerGate \<Rightarrow> string list \<Rightarrow> nat \<Rightarrow> nat \<Rightarrow> NavItem list \<Rightarrow> dm_error list" where
  "nav_item_targets g targets li ii [] = []"
| "nav_item_targets g targets li ii (it # its) =
     (if ni_target it = '''' \<or> ni_target it \<in> set targets then []
      else [dm_err (sg_field g @ indexed_field ''.layers'' li (indexed_field ''.items'' ii ''.target_slide_id''))
              ''CAST_NAV_TARGET_UNKNOWN'']) @ nav_item_targets g targets li (Suc ii) its"

fun nav_layer_targets :: "slideLayerGate \<Rightarrow> nat \<Rightarrow> Layer list \<Rightarrow> dm_error list" where
  "nav_layer_targets g li [] = []"
| "nav_layer_targets g li (l # ls) =
     (if l_kind l \<noteq> ''nav'' then []
      else case sg_nav g of None \<Rightarrow> [dm_err (sg_field g @ indexed_field ''.layers'' li '''') (sg_code g)]
      | Some targets \<Rightarrow> nav_item_targets g targets li 0 (l_items l)) @ nav_layer_targets g (Suc li) ls"

definition checkNavTargets :: "slideLayerGate \<Rightarrow> Layer list \<Rightarrow> dm_error list" where
  "checkNavTargets g layers = nav_layer_targets g 0 layers"

definition gate_check :: "slideLayerGate \<Rightarrow> Layer list \<Rightarrow> dm_error list" where
  "gate_check g layers =
     (if ValidateAuthoredSlideLayers layers \<noteq> None then [dm_err (sg_field g @ ''.layers'') (sg_code g)] else []) @
     checkNavTargets g layers"

definition item_slide_errors :: "nat \<Rightarrow> PlaylistItem \<Rightarrow> dm_error list" where
  "item_slide_errors i it =
     (case pi_slide it of
        None \<Rightarrow>
          if pi_source it = ''slide'' then [dm_err (indexed_field ''items'' i ''.slide'') ''PLAYLIST_ITEM_SLIDE_INVALID''] else []
      | Some s \<Rightarrow>
          if pi_source it \<noteq> ''slide'' then [dm_err (indexed_field ''items'' i ''.slide'') ''PLAYLIST_ITEM_SLIDE_INVALID'']
          else gate_check \<lparr>sg_field = indexed_field ''items'' i ''.slide'', sg_code = ''PLAYLIST_ITEM_SLIDE_LAYERS_INVALID'',
            sg_nav = None\<rparr> (sl_layers s))"

definition item_type_errors :: "nat \<Rightarrow> PlaylistItem \<Rightarrow> dm_error list" where
  "item_type_errors i it =
     (let invalid = [dm_err (indexed_field ''items'' i ''.content_type'') ''PLAYLIST_ITEM_CONTENT_TYPE_INVALID''] in
      if pi_content_type it = '''' then []
      else if pi_content_type it \<noteq> ''image'' \<and> pi_content_type it \<noteq> ''video'' then invalid
      else if pi_source it \<noteq> ''asset'' then invalid
      else [])"

fun playlist_item_errors :: "nat \<Rightarrow> PlaylistItem list \<Rightarrow> dm_error list" where
  "playlist_item_errors i [] = []"
| "playlist_item_errors i (it # its) =
     (if pi_source it \<notin> set PlaylistSources
      then [dm_err (indexed_field ''items'' i ''.source'') ''PLAYLIST_ITEM_SOURCE_INVALID'']
      else item_slide_errors i it @ item_type_errors i it) @ playlist_item_errors (Suc i) its"

definition checkPlaylistItems :: "PlaylistItem list \<Rightarrow> dm_error list" where
  "checkPlaylistItems items = playlist_item_errors 0 items"

definition declared_ids :: "CastSlide list \<Rightarrow> string list" where
  "declared_ids slides = filter (\<lambda>i. i \<noteq> '''') (map (\<lambda>s. TrimSpace (cs_id s)) slides)"

fun cast_slide_errors :: "string list \<Rightarrow> nat \<Rightarrow> string list \<Rightarrow> CastSlide list \<Rightarrow> dm_error list" where
  "cast_slide_errors declared i seen [] = []"
| "cast_slide_errors declared i seen (s # ss) =
     (let refused = (TrimSpace (cs_id s) = '''' \<or> cs_id s \<in> set seen) in
      (if refused then [dm_err (indexed_field ''slides'' i ''.id'') ''CAST_SLIDE_ID_INVALID''] else []) @
      (if cs_duration_ms s < 0 then [dm_err (indexed_field ''slides'' i ''.duration_ms'') ''CAST_SLIDE_DURATION_INVALID''] else []) @
      gate_check \<lparr>sg_field = indexed_field ''slides'' i '''', sg_code = ''CAST_SLIDE_LAYERS_INVALID'', sg_nav = Some declared\<rparr>
        (cs_layers s) @
      cast_slide_errors declared (Suc i) (if refused then seen else cs_id s # seen) ss)"

definition checkCastSlides :: "CastSlide list \<Rightarrow> dm_error list" where
  "checkCastSlides slides =
     (if slides = [] then [dm_err ''slides'' ''CAST_SLIDES_EMPTY''] else cast_slide_errors (declared_ids slides) 0 [] slides)"

section \<open>The rows of each kind\<close>

definition playlist_errors :: "Playlist \<Rightarrow> dm_error list" where
  "playlist_errors v = id_error (pl_id v) ''id'' @ checkRowPlacement (pl_scope_node v) @ checkPlaylistItems (pl_items v)"

definition cast_errors :: "CastRow \<Rightarrow> dm_error list" where
  "cast_errors v = id_error (ca_id v) ''id'' @ checkRowPlacement (ca_scope_node v) @
     (if blank (ca_name v) then [dm_err ''name'' ''CAST_NAME_MISSING''] else []) @
     (if ca_default_ms v < 0 then [dm_err ''default_duration_ms'' ''CAST_DEFAULT_DURATION_INVALID''] else []) @
     checkCastSlides (ca_slides v)"

definition misfire_error :: "string \<Rightarrow> dm_error list" where
  "misfire_error m = (if m \<noteq> '''' \<and> \<not> validMisfire m then [dm_err ''misfire'' ''MISFIRE_INVALID''] else [])"

definition schedule_errors :: "ScheduleRow \<Rightarrow> dm_error list" where
  "schedule_errors v = id_error (sch_id v) ''id'' @ misfire_error (sch_misfire v) @ checkRowPlacement (sch_scope_node v)"

definition window_errors :: "ValidityWindow \<Rightarrow> dm_error list" where
  "window_errors v = id_error (vw_id v) ''id'' @
     (case (vw_starts_at v, vw_ends_at v) of
        (Some a, Some b) \<Rightarrow> if b \<le> a then [dm_err ''ends_at'' ''VALIDITY_WINDOW_RANGE_INVALID''] else []
      | _ \<Rightarrow> []) @ checkRowPlacement (vw_scope_node v)"

definition power_error :: "string \<Rightarrow> dm_error list" where
  "power_error p = (if \<not> validDisplayPower p then [dm_err ''display_power'' ''DISPLAY_POWER_INVALID''] else [])"

definition time_error :: "string \<Rightarrow> string \<Rightarrow> dm_error list" where
  "time_error field s = (if parseTimeOfDay s = None then [dm_err field ''DAYPART_TIME_INVALID''] else [])"

definition daypart_errors :: "Daypart \<Rightarrow> dm_error list" where
  "daypart_errors v = id_error (dp_id v) ''id'' @ power_error (dp_power v) @ misfire_error (dp_misfire v) @
     time_error ''start_time'' (dp_start v) @ time_error ''end_time'' (dp_end v) @ checkDaysOfWeek (dp_days v) @
     checkRowPlacement (dp_scope_node v)"

definition fallback_errors :: "Fallback \<Rightarrow> dm_error list" where
  "fallback_errors v = id_error (fb_id v) ''id'' @ power_error (fb_power v) @ checkRowPlacement (fb_scope_node v)"

definition batch_errors :: "PresetBatch \<Rightarrow> dm_error list" where
  "batch_errors v = id_error (pb_id v) ''preset_id'' @
     (if pb_commands v = [] then [dm_err ''commands'' ''PRESET_BATCH_COMMANDS_EMPTY''] else []) @
     checkRowPlacement (pb_scope_node v)"

text \<open>The loop over the raw rows of a kind: a pack-owned or malformed row is left out, any other is kept with its errors.\<close>

fun gate_rows :: "(json \<Rightarrow> 'a option) \<Rightarrow> ('a \<Rightarrow> dm_error list) \<Rightarrow> json list \<Rightarrow> 'a list \<times> dm_error list" where
  "gate_rows dec check [] = ([], [])"
| "gate_rows dec check (r # rs) =
     (case gate_rows dec check rs of (vs, errs) \<Rightarrow>
        (case checkPackOwnership r of Some e \<Rightarrow> (vs, e # errs)
         | None \<Rightarrow> (case dec r of None \<Rightarrow> (vs, malformed # errs) | Some v \<Rightarrow> (v # vs, check v @ errs))))"


section \<open>References between rows\<close>

text \<open>The schedule of an id: the last row that has it.\<close>

definition scheduleByID :: "RowSet \<Rightarrow> string \<Rightarrow> ScheduleRow option" where
  "scheduleByID rs i = find (\<lambda>s. sch_id s = i) (rev (rs_schedules rs))"

fun cast_reference_errors :: "RowSet \<Rightarrow> nat \<Rightarrow> PlaylistItem list \<Rightarrow> dm_error list" where
  "cast_reference_errors rs i [] = []"
| "cast_reference_errors rs i (it # its) =
     (if pi_source it \<noteq> ''cast'' then []
      else if pi_cast it = '''' \<or> pi_cast it \<notin> set (map ca_id (rs_casts rs))
      then [dm_err (indexed_field ''items'' i ''.cast_id'') ''REFERENCE_INVALID'']
      else if pi_cast it \<in> set (map ca_id (filter ca_template (rs_casts rs)))
      then [dm_err (indexed_field ''items'' i ''.cast_id'') ''CAST_TEMPLATE_NOT_SCHEDULABLE'']
      else []) @ cast_reference_errors rs (Suc i) its"

definition dangling :: "string \<Rightarrow> string \<Rightarrow> string list \<Rightarrow> dm_error list" where
  "dangling field i ids = (if i \<noteq> '''' \<and> i \<notin> set ids then [dm_err field ''REFERENCE_INVALID''] else [])"

definition owner_errors :: "RowSet \<Rightarrow> string \<Rightarrow> string \<Rightarrow> dm_error list" where
  "owner_errors rs schedule scopeNode =
     (case scheduleByID rs schedule of
        None \<Rightarrow> [dm_err ''schedule_id'' ''REFERENCE_INVALID'']
      | Some owning \<Rightarrow>
          if scopeNode \<noteq> sch_scope_node owning then [dm_err ''scope_node'' ''SCOPE_NODE_MISMATCH''] else [])"

definition validateReferences :: "RowSet \<Rightarrow> dm_error list" where
  "validateReferences rs =
     (let playlistIDs = map pl_id (rs_playlists rs) in
      concat (map (\<lambda>p. cast_reference_errors rs 0 (pl_items p)) (rs_playlists rs)) @
      concat (map (\<lambda>s. dangling ''fallback_id'' (sch_fallback_id s) (map fb_id (rs_fallbacks rs))) (rs_schedules rs)) @
      concat (map (\<lambda>f. dangling ''playlist_id'' (fb_playlist f) playlistIDs) (rs_fallbacks rs)) @
      concat (map (\<lambda>d. owner_errors rs (dp_schedule_id d) (dp_scope_node d) @
        dangling ''playlist_id'' (dp_playlist d) playlistIDs @
        dangling ''preset_batch_id'' (dp_preset d) (map pb_id (rs_presets rs))) (rs_dayparts rs)) @
      concat (map (\<lambda>w. owner_errors rs (vw_schedule_id w) (vw_scope_node w)) (rs_windows rs)))"

section \<open>The gate and the stores\<close>

record RawRows =
  raw_playlists :: "json list"
  raw_casts :: "json list"
  raw_schedules :: "json list"
  raw_windows :: "json list"
  raw_dayparts :: "json list"
  raw_fallbacks :: "json list"
  raw_presets :: "json list"

definition ValidateRows :: "RawRows \<Rightarrow> RowSet \<times> dm_error list" where
  "ValidateRows raw =
     (let (ps, e1) = gate_rows decode_playlist playlist_errors (raw_playlists raw);
          (cs, e2) = gate_rows decode_cast cast_errors (raw_casts raw);
          (ss, e3) = gate_rows decode_schedule schedule_errors (raw_schedules raw);
          (ws, e4) = gate_rows decode_window window_errors (raw_windows raw);
          (ds, e5) = gate_rows decode_daypart daypart_errors (raw_dayparts raw);
          (fs, e6) = gate_rows decode_fallback fallback_errors (raw_fallbacks raw);
          (bs, e7) = gate_rows decode_batch batch_errors (raw_presets raw);
          rs = \<lparr>rs_playlists = ps, rs_casts = cs, rs_schedules = ss, rs_windows = ws, rs_dayparts = ds,
                rs_fallbacks = fs, rs_presets = bs\<rparr>
      in (rs, e1 @ e2 @ e3 @ e4 @ e5 @ e6 @ e7 @ validateReferences rs @
           (case ValidateNoOverlap ds of None \<Rightarrow> [] | Some e \<Rightarrow> [e])))"

text \<open>A snapshot's schedule section: the raw rows and the raw scope nodes.\<close>

record ScheduleSection = RawRows +
  sec_nodes :: "json list"

fun decode_nodes :: "json list \<Rightarrow> ScopeNode list \<times> dm_error list" where
  "decode_nodes [] = ([], [])"
| "decode_nodes (r # rs) =
     (case decode_nodes rs of (ns, errs) \<Rightarrow>
        (case decode_node r of None \<Rightarrow> (ns, dm_err ''scope_nodes'' ''ROW_MALFORMED'' # errs) | Some n \<Rightarrow> (n # ns, errs)))"

definition BuildStore :: "ScheduleSection \<Rightarrow> RowStore \<times> dm_error list" where
  "BuildStore sec =
     (let (nodes, errs) = decode_nodes (sec_nodes sec);
          (tree, treeErrs) = BuildScopeTree nodes;
          (rows, rowErrs) = ValidateRows (RawRows.truncate sec)
      in (\<lparr>st_tree = tree, st_rows = rows\<rparr>, errs @ treeErrs @ rowErrs))"

definition resolutionStore :: "ScopeNode list \<Rightarrow> RawRows \<Rightarrow> RowStore \<times> dm_error list" where
  "resolutionStore nodes raw =
     (let (tree, treeErrs) = BuildScopeTree nodes; (rows, rowErrs) = ValidateRows raw
      in (\<lparr>st_tree = tree, st_rows = rows\<rparr>, treeErrs @ rowErrs))"

section \<open>What an accepted batch is\<close>

lemma gate_rows_kept:
  assumes "gate_rows dec check raws = (vs, [])"
  shows "list_all2 (\<lambda>r v. dec r = Some v \<and> checkPackOwnership r = None \<and> check v = []) raws vs"
  using assms
proof (induction raws arbitrary: vs)
  case (Cons r raws)
  obtain vs' errs where g: "gate_rows dec check raws = (vs', errs)" by force
  then show ?case using Cons.prems Cons.IH by (auto split: option.splits)
qed simp

lemma gate_rows_decoded:
  assumes "gate_rows dec check raws = (vs, [])"
  shows "list_all2 (\<lambda>r v. dec r = Some v) raws vs"
  using gate_rows_kept [OF assms] by (rule list_all2_mono) blast

lemma gate_rows_checked:
  assumes "gate_rows dec check raws = (vs, [])" "v \<in> set vs"
  shows "check v = []"
  using gate_rows_kept [OF assms(1)] assms(2) by (auto simp: list_all2_conv_all_nth in_set_conv_nth)

lemma ValidateRows_clean:
  assumes "ValidateRows raw = (rs, [])"
  shows "gate_rows decode_playlist playlist_errors (raw_playlists raw) = (rs_playlists rs, [])"
    "gate_rows decode_cast cast_errors (raw_casts raw) = (rs_casts rs, [])"
    "gate_rows decode_schedule schedule_errors (raw_schedules raw) = (rs_schedules rs, [])"
    "gate_rows decode_window window_errors (raw_windows raw) = (rs_windows rs, [])"
    "gate_rows decode_daypart daypart_errors (raw_dayparts raw) = (rs_dayparts rs, [])"
    "gate_rows decode_fallback fallback_errors (raw_fallbacks raw) = (rs_fallbacks rs, [])"
    "gate_rows decode_batch batch_errors (raw_presets raw) = (rs_presets rs, [])"
    "validateReferences rs = []" "ValidateNoOverlap (rs_dayparts rs) = None"
  using assms by (auto simp: ValidateRows_def Let_def split: prod.splits option.splits)

lemma dangling_None: "dangling field i ids = [] \<longleftrightarrow> i = '''' \<or> i \<in> set ids"
  by (simp add: dangling_def)

lemma find_in: "find P xs = Some x \<Longrightarrow> x \<in> set xs \<and> P x"
  by (induction xs) (auto split: if_splits)

lemma scheduleByID_in: "scheduleByID rs i = Some s \<Longrightarrow> s \<in> set (rs_schedules rs) \<and> sch_id s = i"
  using find_in [of _ "rev (rs_schedules rs)" s] by (auto simp: scheduleByID_def)

lemma owner_None: "owner_errors rs i n = [] \<Longrightarrow> \<exists>s \<in> set (rs_schedules rs). sch_id s = i \<and> sch_scope_node s = n"
proof (cases "scheduleByID rs i")
  case (Some s)
  assume "owner_errors rs i n = []"
  then have "sch_scope_node s = n" using Some by (simp add: owner_errors_def split: if_splits)
  then show ?thesis using scheduleByID_in [OF Some] by blast
qed (simp add: owner_errors_def)

lemma cast_reference_None:
  "cast_reference_errors rs i its = [] \<longleftrightarrow>
     (\<forall>it \<in> set its. pi_source it = ''cast'' \<longrightarrow>
        pi_cast it \<noteq> '''' \<and> (\<exists>c \<in> set (rs_casts rs). ca_id c = pi_cast it) \<and>
        \<not> (\<exists>c \<in> set (rs_casts rs). ca_template c \<and> ca_id c = pi_cast it))"
proof (induction its arbitrary: i)
  case (Cons it its)
  have step: "cast_reference_errors rs i (it # its) = [] \<longleftrightarrow>
      (pi_source it = ''cast'' \<longrightarrow> \<not> (pi_cast it = '''' \<or> pi_cast it \<notin> set (map ca_id (rs_casts rs))) \<and>
         pi_cast it \<notin> set (map ca_id (filter ca_template (rs_casts rs)))) \<and>
      cast_reference_errors rs (Suc i) its = []"
    unfolding cast_reference_errors.simps append_is_Nil_conv by (simp only: split: if_split) simp
  have ids: "pi_cast it \<in> set (map ca_id cs) \<longleftrightarrow> (\<exists>c \<in> set cs. ca_id c = pi_cast it)" for cs
    by (induction cs) auto
  have templates: "(\<exists>c \<in> set (filter ca_template cs). ca_id c = pi_cast it) \<longleftrightarrow>
      (\<exists>c \<in> set cs. ca_template c \<and> ca_id c = pi_cast it)" for cs
    by auto
  show ?case unfolding step Cons.IH ids templates by simp
qed simp

text \<open>Every reference leads to a row.\<close>

definition references_resolve :: "RowSet \<Rightarrow> bool" where
  "references_resolve rs \<longleftrightarrow>
     (\<forall>p \<in> set (rs_playlists rs). \<forall>it \<in> set (pl_items p). pi_source it = ''cast'' \<longrightarrow>
        (\<exists>c \<in> set (rs_casts rs). ca_id c = pi_cast it) \<and>
        (\<forall>c \<in> set (rs_casts rs). ca_id c = pi_cast it \<longrightarrow> \<not> ca_template c)) \<and>
     (\<forall>s \<in> set (rs_schedules rs). sch_fallback_id s = '''' \<or> sch_fallback_id s \<in> fb_id ` set (rs_fallbacks rs)) \<and>
     (\<forall>f \<in> set (rs_fallbacks rs). fb_playlist f = '''' \<or> fb_playlist f \<in> pl_id ` set (rs_playlists rs)) \<and>
     (\<forall>d \<in> set (rs_dayparts rs).
        (\<exists>s \<in> set (rs_schedules rs). sch_id s = dp_schedule_id d \<and> sch_scope_node s = dp_scope_node d) \<and>
        (dp_playlist d = '''' \<or> dp_playlist d \<in> pl_id ` set (rs_playlists rs)) \<and>
        (dp_preset d = '''' \<or> dp_preset d \<in> pb_id ` set (rs_presets rs))) \<and>
     (\<forall>w \<in> set (rs_windows rs). \<exists>s \<in> set (rs_schedules rs). sch_id s = vw_schedule_id w \<and> sch_scope_node s = vw_scope_node w)"

lemma validateReferences_sound: "validateReferences rs = [] \<Longrightarrow> references_resolve rs"
proof -
  assume "validateReferences rs = []"
  then have v: "\<forall>p \<in> set (rs_playlists rs). cast_reference_errors rs 0 (pl_items p) = []"
    "\<forall>s \<in> set (rs_schedules rs). dangling ''fallback_id'' (sch_fallback_id s) (map fb_id (rs_fallbacks rs)) = []"
    "\<forall>f \<in> set (rs_fallbacks rs). dangling ''playlist_id'' (fb_playlist f) (map pl_id (rs_playlists rs)) = []"
    "\<forall>d \<in> set (rs_dayparts rs). owner_errors rs (dp_schedule_id d) (dp_scope_node d) = [] \<and>
       dangling ''playlist_id'' (dp_playlist d) (map pl_id (rs_playlists rs)) = [] \<and>
       dangling ''preset_batch_id'' (dp_preset d) (map pb_id (rs_presets rs)) = []"
    "\<forall>w \<in> set (rs_windows rs). owner_errors rs (vw_schedule_id w) (vw_scope_node w) = []"
    by (simp_all add: validateReferences_def Let_def)
  show ?thesis unfolding references_resolve_def
  proof (intro conjI ballI impI)
    show "sch_fallback_id s = '''' \<or> sch_fallback_id s \<in> fb_id ` set (rs_fallbacks rs)" if "s \<in> set (rs_schedules rs)" for s
      using v(2) that by (simp add: dangling_None)
    show "fb_playlist f = '''' \<or> fb_playlist f \<in> pl_id ` set (rs_playlists rs)" if "f \<in> set (rs_fallbacks rs)" for f
      using v(3) that by (simp add: dangling_None)
    show "dp_playlist d = '''' \<or> dp_playlist d \<in> pl_id ` set (rs_playlists rs)" if "d \<in> set (rs_dayparts rs)" for d
      using v(4) that by (simp add: dangling_None)
    show "dp_preset d = '''' \<or> dp_preset d \<in> pb_id ` set (rs_presets rs)" if "d \<in> set (rs_dayparts rs)" for d
      using v(4) that by (simp add: dangling_None)
    show "\<exists>s \<in> set (rs_schedules rs). sch_id s = dp_schedule_id d \<and> sch_scope_node s = dp_scope_node d"
      if "d \<in> set (rs_dayparts rs)" for d
      using v(4) that owner_None by blast
    show "\<exists>s \<in> set (rs_schedules rs). sch_id s = vw_schedule_id w \<and> sch_scope_node s = vw_scope_node w"
      if "w \<in> set (rs_windows rs)" for w
      using v(5) that owner_None by blast
  qed (use v(1) in \<open>auto simp: cast_reference_None\<close>)
qed


lemma days_scan_None: "days_scan seen ds = [] \<longleftrightarrow> set ds \<subseteq> {0..6} \<and> distinct ds \<and> set ds \<inter> set seen = {}"
  by (induction seen ds rule: days_scan.induct) auto

lemma daypart_errors_None:
  "daypart_errors d = [] \<Longrightarrow> Valid (dp_id d) \<and> validDisplayPower (dp_power d) \<and> dp_days d \<noteq> [] \<and> distinct (dp_days d) \<and>
     set (dp_days d) \<subseteq> {0..6} \<and> parseTimeOfDay (dp_start d) \<noteq> None \<and> parseTimeOfDay (dp_end d) \<noteq> None"
  by (auto simp: daypart_errors_def power_error_def time_error_def checkDaysOfWeek_def days_scan_None id_error_def CheckRowID_def
      split: if_splits)

lemma batch_errors_None: "batch_errors b = [] \<Longrightarrow> pb_commands b \<noteq> []"
  by (simp add: batch_errors_def split: if_splits)

text \<open>C23. A batch of scheduling rows that raises no error keeps every row it was given, decoded, with none owned by a
  pack; every reference between them leads to a row, no cast template is scheduled, every daypart covers a
  non-empty set of days between two readable times of day, no two of one schedule overlap, and every preset has a
  command to send.\<close>

theorem row_gate_sound:
  assumes "ValidateRows raw = (rs, [])"
  shows "list_all2 (\<lambda>r v. decode_playlist r = Some v) (raw_playlists raw) (rs_playlists rs) \<and>
    list_all2 (\<lambda>r v. decode_cast r = Some v) (raw_casts raw) (rs_casts rs) \<and>
    list_all2 (\<lambda>r v. decode_schedule r = Some v) (raw_schedules raw) (rs_schedules rs) \<and>
    list_all2 (\<lambda>r v. decode_window r = Some v) (raw_windows raw) (rs_windows rs) \<and>
    list_all2 (\<lambda>r v. decode_daypart r = Some v) (raw_dayparts raw) (rs_dayparts rs) \<and>
    list_all2 (\<lambda>r v. decode_fallback r = Some v) (raw_fallbacks raw) (rs_fallbacks rs) \<and>
    list_all2 (\<lambda>r v. decode_batch r = Some v) (raw_presets raw) (rs_presets rs) \<and>
    (\<forall>r \<in> set (raw_playlists raw @ raw_casts raw @ raw_schedules raw @ raw_windows raw @ raw_dayparts raw @ raw_fallbacks raw @
       raw_presets raw). checkPackOwnership r = None) \<and>
    references_resolve rs \<and> ValidateNoOverlap (rs_dayparts rs) = None \<and>
    (\<forall>d \<in> set (rs_dayparts rs). dp_days d \<noteq> [] \<and> distinct (dp_days d) \<and> set (dp_days d) \<subseteq> {0..6} \<and>
       parseTimeOfDay (dp_start d) \<noteq> None \<and> parseTimeOfDay (dp_end d) \<noteq> None) \<and>
    (\<forall>b \<in> set (rs_presets rs). pb_commands b \<noteq> [])"
proof -
  note c = ValidateRows_clean [OF assms]
  note kept = gate_rows_kept [OF c(1)] gate_rows_kept [OF c(2)] gate_rows_kept [OF c(3)] gate_rows_kept [OF c(4)]
    gate_rows_kept [OF c(5)] gate_rows_kept [OF c(6)] gate_rows_kept [OF c(7)]
  have unowned: "checkPackOwnership r = None"
    if "list_all2 (\<lambda>r v. dec r = Some v \<and> checkPackOwnership r = None \<and> check v = []) raws vs" "r \<in> set raws" for dec check raws vs r
    using that by (auto simp: list_all2_conv_all_nth in_set_conv_nth)
  have "\<forall>r \<in> set (raw_playlists raw @ raw_casts raw @ raw_schedules raw @ raw_windows raw @ raw_dayparts raw @ raw_fallbacks raw @
       raw_presets raw). checkPackOwnership r = None"
    unfolding set_append ball_Un
    using unowned [OF kept(1)] unowned [OF kept(2)] unowned [OF kept(3)] unowned [OF kept(4)] unowned [OF kept(5)]
      unowned [OF kept(6)] unowned [OF kept(7)] by blast
  moreover have "\<forall>b \<in> set (rs_presets rs). pb_commands b \<noteq> []"
    using gate_rows_checked [OF c(7)] batch_errors_None by blast
  moreover have "\<forall>d \<in> set (rs_dayparts rs). dp_days d \<noteq> [] \<and> distinct (dp_days d) \<and> set (dp_days d) \<subseteq> {0..6} \<and>
       parseTimeOfDay (dp_start d) \<noteq> None \<and> parseTimeOfDay (dp_end d) \<noteq> None"
    using gate_rows_checked [OF c(5)] daypart_errors_None by blast
  moreover note decoded = gate_rows_decoded [OF c(1)] gate_rows_decoded [OF c(2)] gate_rows_decoded [OF c(3)]
    gate_rows_decoded [OF c(4)] gate_rows_decoded [OF c(5)] gate_rows_decoded [OF c(6)] gate_rows_decoded [OF c(7)]
  ultimately show ?thesis using validateReferences_sound [OF c(8)] c(9) by (intro conjI) assumption+
qed

section \<open>What an accepted snapshot resolves to\<close>

lemma daypart_layer_row:
  "daypart_layer ss ds loc t = Some st \<Longrightarrow>
     \<exists>d \<in> set ds. ef_daypart st = Some d \<and> ef_playlist st \<in> {'''', dp_playlist d}"
proof (induction ss)
  case (Cons s ss)
  show ?case
  proof (cases "HoldingDaypart s ds loc t")
    case (Some d)
    then have "d \<in> set ds" using find_in by (fastforce simp: HoldingDaypart_find)
    moreover have "ef_daypart st = Some d \<and> ef_playlist st \<in> {'''', dp_playlist d}"
      using Cons.prems Some by (auto simp: projectDisplay_def split: if_split_asm)
    ultimately show ?thesis by blast
  qed (use Cons in simp)
qed simp

lemma fallback_layer_row:
  "fallback_layer ss fs = Some st \<Longrightarrow>
     \<exists>f \<in> set fs. ef_daypart st = None \<and> ef_playlist st \<in> {'''', fb_playlist f}"
proof (induction ss)
  case (Cons s ss)
  show ?case
  proof (cases "sch_fallback_id s = '''' \<or> findFallback fs (sch_fallback_id s) = None")
    case False
    then obtain f where f: "findFallback fs (sch_fallback_id s) = Some f" by auto
    then have "f \<in> set fs" using find_in by (fastforce simp: findFallback_def)
    moreover have "ef_daypart st = None \<and> ef_playlist st \<in> {'''', fb_playlist f}"
      using Cons.prems False f by (auto simp: projectDisplay_def split: if_split_asm)
    ultimately show ?thesis by blast
  qed (use Cons in \<open>auto split: if_split_asm\<close>)
qed simp

lemma resolved_row:
  assumes "Resolve_state LL store node t = Inr st"
  shows "(\<exists>d \<in> set (rs_dayparts (st_rows store)). ef_daypart st = Some d \<and> ef_playlist st \<in> {'''', dp_playlist d}) \<or>
    (\<exists>f \<in> set (rs_fallbacks (st_rows store)). ef_daypart st = None \<and> ef_playlist st \<in> {'''', fb_playlist f}) \<or>
    ef_daypart st = None \<and> ef_playlist st = ''''"
  using assms daypart_layer_row [of "ApplicableSchedules store node t" "rs_dayparts (st_rows store)" _ t st]
    fallback_layer_row [of "ApplicableSchedules store node t" "rs_fallbacks (st_rows store)" st]
  by (auto simp: Resolve_state_def Let_def split: sum.splits option.splits prod.splits)

lemma BuildStore_clean: "BuildStore sec = (store, []) \<Longrightarrow> ValidateRows (RawRows.truncate sec) = (st_rows store, [])"
  by (auto simp: BuildStore_def Let_def split: prod.splits)

text \<open>C17. A relay that accepted its snapshot without an error never plays a reference to nothing: whatever instant and
  node it resolves, the playlist of the state is a stored one, the daypart's schedule is stored in the same node,
  and a preset the daypart binds is found when it fires and has commands.\<close>

theorem accepted_snapshot_never_dangles:
  assumes "BuildStore sec = (store, [])" "Resolve_state LL store node t = Inr st"
  shows "(ef_playlist st = '''' \<or> (\<exists>p \<in> set (rs_playlists (st_rows store)). pl_id p = ef_playlist st)) \<and>
    (case ef_daypart st of None \<Rightarrow> True
     | Some d \<Rightarrow> (\<exists>s \<in> set (rs_schedules (st_rows store)). sch_id s = dp_schedule_id d \<and> sch_scope_node s = dp_scope_node d) \<and>
         (dp_preset d = '''' \<or> (\<exists>b. store_presetBatch store (dp_preset d) = Some b \<and> pb_commands b \<noteq> [])))"
proof -
  note c = ValidateRows_clean [OF BuildStore_clean [OF assms(1)]]
  have refs: "references_resolve (st_rows store)" using validateReferences_sound c(8) by blast
  have batch: "\<exists>b. store_presetBatch store i = Some b \<and> pb_commands b \<noteq> []" if "i \<in> pb_id ` set (rs_presets (st_rows store))" for i
  proof -
    have "store_presetBatch store i \<noteq> None" using that by (auto simp: store_presetBatch_def find_None_iff)
    then obtain b where b: "store_presetBatch store i = Some b" by blast
    then have "b \<in> set (rs_presets (st_rows store))" using find_in by (fastforce simp: store_presetBatch_def)
    then show ?thesis using b gate_rows_checked [OF c(7)] batch_errors_None by blast
  qed
  from resolved_row [OF assms(2)] show ?thesis
  proof (elim disjE bexE conjE)
    fix d assume daypart: "d \<in> set (rs_dayparts (st_rows store))" "ef_daypart st = Some d" "ef_playlist st \<in> {'''', dp_playlist d}"
    then have "(\<exists>s \<in> set (rs_schedules (st_rows store)). sch_id s = dp_schedule_id d \<and> sch_scope_node s = dp_scope_node d) \<and>
        (dp_playlist d = '''' \<or> dp_playlist d \<in> pl_id ` set (rs_playlists (st_rows store))) \<and>
        (dp_preset d = '''' \<or> dp_preset d \<in> pb_id ` set (rs_presets (st_rows store)))"
      using refs unfolding references_resolve_def by blast
    then show ?thesis using daypart(2,3) batch by fastforce
  next
    fix f assume fallback: "f \<in> set (rs_fallbacks (st_rows store))" "ef_daypart st = None" "ef_playlist st \<in> {'''', fb_playlist f}"
    then have "fb_playlist f = '''' \<or> fb_playlist f \<in> pl_id ` set (rs_playlists (st_rows store))"
      using refs unfolding references_resolve_def by blast
    then show ?thesis using fallback(2,3) by auto
  qed simp
qed

section \<open>The relay serves what the app derived\<close>

lemma same_store:
  assumes "decode_nodes (sec_nodes sec) = (nodes, es)"
  shows "fst (BuildStore sec) = fst (resolutionStore nodes (RawRows.truncate sec))"
  using assms by (simp add: BuildStore_def resolutionStore_def Let_def split: prod.split)

lemma screen_programs_each:
  assumes "screen \<in> set screens"
  shows "case Resolve_state LL store (sc_scope_node screen) t of
      Inl e \<Rightarrow> e \<in> set (snd (screen_programs hmac digest LL store sign t screens))
    | Inr st \<Rightarrow> programFor hmac digest screen st store sign t \<in> set (fst (screen_programs hmac digest LL store sign t screens))"
  using assms
proof (induction screens)
  case (Cons s ss)
  then show ?case
    by (cases "s = screen"; cases "Resolve_state LL store (sc_scope_node screen) t";
        cases "Resolve_state LL store (sc_scope_node s) t") (auto split: prod.split)
qed simp

text \<open>C11. The relay shows a screen what the app derived for it: from the snapshot of the app's own rows, at one
  instant and with one key, the relay's lease of a screen that no override governs has the display, priority and
  content of the app's program, and where the screen does not resolve the relay reports an error the app reported
  too.\<close>

theorem relay_serves_what_app_derives:
  assumes "decode_nodes (sec_nodes sec) = (nodes, es)" "screen \<in> set screens" "\<not> Applies (sc_override screen) t"
  shows "case ProjectLease hmac LL (fst (BuildStore sec)) (sc_scope_node screen) t origin key of
      Inl e \<Rightarrow> e \<in> set (snd (DeriveScreenPrograms hmac digest LL (resolutionStore nodes (RawRows.truncate sec)) screens
        (relay_signer origin key t) t))
    | Inr lease \<Rightarrow> \<exists>prog \<in> set (fst (DeriveScreenPrograms hmac digest LL (resolutionStore nodes (RawRows.truncate sec)) screens
        (relay_signer origin key t) t)).
          sp_screen prog = sc_id screen \<and> sv_display lease = sp_display prog \<and> sv_priority lease = sp_priority prog \<and>
          sv_content lease = map to_lease (sp_content prog)"
proof -
  let ?store = "fst (resolutionStore nodes (RawRows.truncate sec))"
  let ?sign = "relay_signer origin key t"
  let ?node = "sc_scope_node screen"
  have now: "?sign\<lparr>sg_now := t\<rparr> = ?sign" by (simp add: relay_signer_def)
  have nonempty: "screens \<noteq> []" using assms(2) by auto
  note each = screen_programs_each [OF assms(2), where LL = LL and store = ?store and t = t and hmac = hmac and digest = digest and sign = ?sign]
  show ?thesis
  proof (cases "Resolve_state LL ?store ?node t")
    case (Inl e)
    then show ?thesis using each nonempty
      by (simp add: ProjectLease_def same_store [OF assms(1)] DeriveScreenPrograms_def now split_beta)
  next
    case (Inr st)
    have "programFor hmac digest screen st ?store ?sign t \<in>
        set (fst (DeriveScreenPrograms hmac digest LL (resolutionStore nodes (RawRows.truncate sec)) screens ?sign t))"
      using each nonempty Inr by (simp add: DeriveScreenPrograms_def now split_beta)
    moreover have "sp_screen (programFor hmac digest screen st ?store ?sign t) = sc_id screen"
      "sv_display (projectState hmac ?store st ?sign) = sp_display (programFor hmac digest screen st ?store ?sign t)"
      "sv_priority (projectState hmac ?store st ?sign) = sp_priority (programFor hmac digest screen st ?store ?sign t)"
      "sv_content (projectState hmac ?store st ?sign) = map to_lease (sp_content (programFor hmac digest screen st ?store ?sign t))"
      using assms(3) by (simp_all add: programFor_def projectState_def projections_agree Let_def)
    ultimately show ?thesis using Inr by (simp add: ProjectLease_def same_store [OF assms(1)]) blast
  qed
qed


section \<open>Accepted casts\<close>

lemma nav_item_targets_None:
  "nav_item_targets g targets li ii its = [] \<longleftrightarrow> (\<forall>it \<in> set its. ni_target it = '''' \<or> ni_target it \<in> set targets)"
  by (induction g targets li ii its rule: nav_item_targets.induct) auto

lemma nav_layer_targets_None:
  "sg_nav g = Some targets \<Longrightarrow> nav_layer_targets g li ls = [] \<Longrightarrow> l \<in> set ls \<Longrightarrow> l_kind l = ''nav'' \<Longrightarrow>
     \<forall>it \<in> set (l_items l). ni_target it = '''' \<or> ni_target it \<in> set targets"
  by (induction ls arbitrary: li) (auto simp: nav_item_targets_None)

lemma authored_nav_targets:
  assumes "ValidateAuthoredSlideLayers ls = None" "l \<in> set ls" "l_kind l = ''nav''" "it \<in> set (l_items l)"
  shows "ni_target it \<noteq> ''''"
proof -
  have "kind_error False l = None"
    using assms(1,2) by (simp add: ValidateAuthoredSlideLayers_def validate_None layer_error_None)
  then have "nav_item_error it = None" using assms(3,4) by (simp add: kind_error_def)
  then show ?thesis unfolding nav_item_error_def refuse_None by simp
qed

lemma gate_check_None:
  assumes "gate_check \<lparr>sg_field = f, sg_code = c, sg_nav = Some targets\<rparr> ls = []"
  shows "ValidateAuthoredSlideLayers ls = None \<and>
    (\<forall>l \<in> set ls. l_kind l = ''nav'' \<longrightarrow> (\<forall>it \<in> set (l_items l). ni_target it \<in> set targets))"
proof -
  have v: "ValidateAuthoredSlideLayers ls = None"
    using assms by (cases "ValidateAuthoredSlideLayers ls") (simp_all add: gate_check_def)
  have "nav_layer_targets \<lparr>sg_field = f, sg_code = c, sg_nav = Some targets\<rparr> 0 ls = []"
    using assms by (simp add: gate_check_def checkNavTargets_def)
  note targets = nav_layer_targets_None [OF slideLayerGate.select_convs(3) this]
  have "ni_target it \<in> set targets" if "l \<in> set ls" "l_kind l = ''nav''" "it \<in> set (l_items l)" for l it
    using targets [OF that(1,2)] authored_nav_targets [OF v that] that(3) by blast
  then show ?thesis using v by blast
qed

definition slide_accepted :: "string list \<Rightarrow> CastSlide \<Rightarrow> bool" where
  "slide_accepted targets s \<longleftrightarrow> TrimSpace (cs_id s) \<noteq> '''' \<and> 0 \<le> cs_duration_ms s \<and>
     ValidateAuthoredSlideLayers (cs_layers s) = None \<and>
     (\<forall>l \<in> set (cs_layers s). l_kind l = ''nav'' \<longrightarrow> (\<forall>it \<in> set (l_items l). ni_target it \<in> set targets))"

lemma cast_slide_errors_None:
  "cast_slide_errors declared i seen ss = [] \<Longrightarrow>
     distinct (map cs_id ss) \<and> set (map cs_id ss) \<inter> set seen = {} \<and> list_all (slide_accepted declared) ss"
proof (induction ss arbitrary: i seen)
  case (Cons s ss)
  have ok: "\<not> (TrimSpace (cs_id s) = '''' \<or> cs_id s \<in> set seen)" "\<not> cs_duration_ms s < 0"
    "gate_check \<lparr>sg_field = indexed_field ''slides'' i '''', sg_code = ''CAST_SLIDE_LAYERS_INVALID'', sg_nav = Some declared\<rparr>
       (cs_layers s) = []"
    using Cons.prems by (simp_all add: Let_def split: if_split_asm)
  then have "cast_slide_errors declared (Suc i) (cs_id s # seen) ss = []"
    using Cons.prems by (simp add: Let_def)
  note rest = Cons.IH [OF this]
  have "slide_accepted declared s"
    unfolding slide_accepted_def using ok(1,2) gate_check_None [OF ok(3)] by simp
  then show ?case using rest ok(1) by auto
qed simp

lemma cast_errors_None:
  assumes "cast_errors c = []"
  shows "ca_slides c \<noteq> [] \<and> distinct (map cs_id (ca_slides c)) \<and>
    list_all (slide_accepted (declared_ids (ca_slides c))) (ca_slides c)"
proof -
  have "checkCastSlides (ca_slides c) = []" using assms by (simp add: cast_errors_def)
  then have "ca_slides c \<noteq> []" "cast_slide_errors (declared_ids (ca_slides c)) 0 [] (ca_slides c) = []"
    by (simp_all add: checkCastSlides_def split: if_split_asm)
  then show ?thesis using cast_slide_errors_None by blast
qed

text \<open>The slides a signer can serve: some layer can be drawn and every content reference is a content hash.\<close>

definition drawable :: "(string \<Rightarrow> string \<Rightarrow> string) \<Rightarrow> Signer \<Rightarrow> CastSlide \<Rightarrow> bool" where
  "drawable hmac sign s \<longleftrightarrow> project_layers (urlFor hmac sign) (cs_layers s) \<noteq> [] \<and>
     list_all (\<lambda>l. l_asset l = '''' \<or> isLowerHex (trim_ref (l_asset l))) (cs_layers s)"



section \<open>A section to try them on\<close>

definition demo_id :: "char \<Rightarrow> string" where
  "demo_id c = replicate 25 (CHR ''0'') @ [c]"

definition demo_text_layer :: json where
  "demo_text_layer = JObj [(''kind'', JStr ''text''), (''w'', JNum ''100''), (''h'', JNum ''50''), (''text'', JStr ''hi'')]"

definition demo_section :: ScheduleSection where
  "demo_section =
     \<lparr>raw_playlists = [JObj [(''id'', JStr (demo_id CHR ''5'')), (''scope_node'', JStr (demo_id CHR ''2'')),
        (''items'', JArr [JObj [(''source'', JStr ''cast''), (''cast_id'', JStr (demo_id CHR ''6''))]])]],
      raw_casts = [JObj [(''id'', JStr (demo_id CHR ''6'')), (''scope_node'', JStr (demo_id CHR ''2'')), (''name'', JStr ''c''),
        (''slides'', JArr [JObj [(''id'', JStr ''s1''), (''layers'', JArr [demo_text_layer])],
                           JObj [(''id'', JStr ''s2''), (''layers'', JArr [demo_text_layer])]])]],
      raw_schedules = [JObj [(''id'', JStr (demo_id CHR ''7'')), (''scope_node'', JStr (demo_id CHR ''2''))]],
      raw_windows = [],
      raw_dayparts = [JObj [(''id'', JStr (demo_id CHR ''8'')), (''schedule_id'', JStr (demo_id CHR ''7'')),
        (''scope_node'', JStr (demo_id CHR ''2'')), (''days_of_week'', JArr [JNum ''4'']), (''start_time'', JStr ''09:00:00''),
        (''end_time'', JStr ''17:00:00''), (''display_power'', JStr ''on''), (''playlist_id'', JStr (demo_id CHR ''5''))]],
      raw_fallbacks = [], raw_presets = [],
      sec_nodes = [JObj [(''id'', JStr (demo_id CHR ''2'')), (''kind'', JStr ''site''), (''parent_id'', JStr (demo_id CHR ''1'')),
        (''name'', JStr ''n''), (''tz'', JStr ''UTC''), (''lat'', JNum ''1''), (''long'', JNum ''2'')]]\<rparr>"

lemma not_blank_ascii: "byte_of c < 128 \<Longrightarrow> \<not> rune_space (byte_of c) \<Longrightarrow> \<not> blank (c # s)"
  by (simp add: blank_def runes_of_def)

lemma TrimSpace_ascii:
  assumes "byte_of c < 128" "\<not> rune_space (byte_of c)"
  shows "TrimSpace (c # s) \<noteq> ''''"
proof -
  have keep: "rev (dropWhile P (rev (x # xs))) = x # rev (dropWhile P (rev xs))" if "\<not> P x" for P :: "nat list \<times> nat \<Rightarrow> bool" and x xs
    using that by (induction xs rule: rev_induct) auto
  show ?thesis
    using assms by (simp add: TrimSpace_def Let_def keep del: rev.simps)
qed

lemma demo_numbers: "atoi ''100'' = Some 100" "atoi ''50'' = Some 50" "atoi ''4'' = Some 4" 
  by code_simp+

lemma demo_id_Cons: "demo_id c = CHR ''0'' # replicate 24 (CHR ''0'') @ [c]"
  by (simp add: demo_id_def numeral_eq_Suc)

lemma zero_ascii: "byte_of CHR ''0'' < 128" "\<not> rune_space (byte_of CHR ''0'')"
  by (simp_all add: byte_of_def rune_space_def)

lemma demo_id_not_blank: "\<not> blank (demo_id c)"
  unfolding demo_id_Cons by (rule not_blank_ascii [OF zero_ascii])

lemmas demo_decode = demo_section_def fields_ok_def decode_simps book_fields_def stamp_fields_def int_lit_def demo_numbers
  str_of_def int_of_field_def slice_of_def bool_of_def int_elem_def

definition demo_layer :: Layer where
  "demo_layer = zero_layer\<lparr>l_kind := ''text'', l_w := 100, l_h := 50, l_text := ''hi''\<rparr>"

lemma demo_layer_decoded: "layer_ok demo_text_layer" "decode_layer demo_text_layer = demo_layer"
  by (simp_all add: demo_decode layer_ok_def demo_text_layer_def decode_layer_def demo_layer_def zero_layer_def ptr_of_def)

definition demo_cast :: CastRow where
  "demo_cast = \<lparr>ca_id = demo_id CHR ''6'', ca_scope_node = demo_id CHR ''2'', ca_name = ''c'',
     ca_slides = [\<lparr>cs_id = ''s1'', cs_duration_ms = 0, cs_layers = [demo_layer]\<rparr>,
                  \<lparr>cs_id = ''s2'', cs_duration_ms = 0, cs_layers = [demo_layer]\<rparr>], ca_default_ms = 0, ca_template = False\<rparr>"

lemma demo_cast_decoded: "map decode_cast (raw_casts demo_section) = [Some demo_cast]"
  by (simp add: demo_decode decode_cast_def cast_slide_ok_def decode_cast_slide_def demo_layer_decoded demo_cast_def)

definition demo_playlist :: Playlist where
  "demo_playlist = \<lparr>pl_id = demo_id CHR ''5'', pl_scope_node = demo_id CHR ''2'', pl_name = '''',
     pl_items = [\<lparr>pi_source = ''cast'', pi_asset = '''', pi_content_type = '''', pi_pack = '''', pi_content = '''',
       pi_duration_s = None, pi_slide = None, pi_cast = demo_id CHR ''6''\<rparr>]\<rparr>"

lemma demo_playlist_decoded: "map decode_playlist (raw_playlists demo_section) = [Some demo_playlist]"
  by (simp add: demo_decode decode_playlist_def item_ok_def decode_item_def demo_playlist_def ptr_of_def)

definition demo_sched :: ScheduleRow where
  "demo_sched = \<lparr>sch_id = demo_id CHR ''7'', sch_scope_node = demo_id CHR ''2'', sch_name = '''', sch_fallback_id = '''',
     sch_priority = None, sch_misfire = ''''\<rparr>"

lemma demo_sched_decoded: "map decode_schedule (raw_schedules demo_section) = [Some demo_sched]"
  by (simp add: demo_decode decode_schedule_def demo_sched_def)

definition demo_part :: Daypart where
  "demo_part = \<lparr>dp_id = demo_id CHR ''8'', dp_schedule_id = demo_id CHR ''7'', dp_scope_node = demo_id CHR ''2'', dp_days = [4],
     dp_start = ''09:00:00'', dp_end = ''17:00:00'', dp_power = ''on'', dp_playlist = demo_id CHR ''5'', dp_preset = '''',
     dp_misfire = '''', dp_name = '''', dp_revision = 0, dp_created = 0, dp_updated = 0\<rparr>"

lemma demo_part_decoded: "map decode_daypart (raw_dayparts demo_section) = [Some demo_part]"
  by (simp add: demo_decode decode_daypart_def demo_part_def)

lemma demo_valid: "list_all Valid (map demo_id ''25678'')"
  by code_simp

lemma demo_ids_ok: "c \<in> set ''25678'' \<Longrightarrow> id_error (demo_id c) f = []"
  using demo_valid by (auto simp: id_error_def CheckRowID_def list_all_iff)

lemma demo_layer_valid: "ValidateAuthoredSlideLayers [demo_layer] = None" "demo_layer \<noteq> x \<or> l_kind demo_layer \<noteq> ''nav''"
  by code_simp (simp add: demo_layer_def)

lemma demo_owned: "list_all (\<lambda>r. checkPackOwnership r = None) (raw_playlists demo_section @ raw_casts demo_section @
    raw_schedules demo_section @ raw_dayparts demo_section)"
  by code_simp

lemma demo_cast_ok: "cast_errors demo_cast = []"
  using TrimSpace_ascii [of "CHR ''s''"] not_blank_ascii [of "CHR ''c''" "[]"] demo_layer_valid
  by (simp add: cast_errors_def demo_cast_def demo_ids_ok checkRowPlacement_def demo_id_not_blank checkCastSlides_def
      gate_check_def checkNavTargets_def rune_space_def byte_of_def Let_def)

lemma demo_rest_ok: "playlist_errors demo_playlist = []" "schedule_errors demo_sched = []" "daypart_errors demo_part = []"
proof -
  show "playlist_errors demo_playlist = []"
    by (simp add: playlist_errors_def demo_playlist_def demo_ids_ok checkRowPlacement_def demo_id_not_blank checkPlaylistItems_def
        PlaylistSources_def item_slide_errors_def item_type_errors_def)
  show "schedule_errors demo_sched = []"
    by (simp add: schedule_errors_def demo_sched_def demo_ids_ok checkRowPlacement_def demo_id_not_blank misfire_error_def)
  have "parseTimeOfDay ''09:00:00'' \<noteq> None" "parseTimeOfDay ''17:00:00'' \<noteq> None" by code_simp+
  then show "daypart_errors demo_part = []"
    by (simp add: daypart_errors_def demo_part_def demo_ids_ok checkRowPlacement_def demo_id_not_blank misfire_error_def
        power_error_def validDisplayPower_def time_error_def checkDaysOfWeek_def)
qed

definition demo_set :: RowSet where
  "demo_set = \<lparr>rs_playlists = [demo_playlist], rs_casts = [demo_cast], rs_schedules = [demo_sched], rs_windows = [],
     rs_dayparts = [demo_part], rs_fallbacks = [], rs_presets = []\<rparr>"

lemma demo_id_nonempty: "demo_id c \<noteq> []"
  by (simp add: demo_id_def)

lemma gate_one:
  "map dec raws = [Some v] \<Longrightarrow> check v = [] \<Longrightarrow> list_all (\<lambda>r. checkPackOwnership r = None) raws \<Longrightarrow>
     gate_rows dec check raws = ([v], [])"
  by (cases raws) auto

lemma demo_references: "validateReferences demo_set = []"
  by (simp add: validateReferences_def demo_set_def demo_playlist_def demo_cast_def demo_sched_def demo_part_def
      owner_errors_def scheduleByID_def dangling_def demo_id_nonempty)

lemma demo_overlap_free: "ValidateNoOverlap [demo_part] = None"
  by code_simp

lemma demo_section_rows: "ValidateRows (RawRows.truncate demo_section) = (demo_set, [])"
proof -
  have none: "raw_windows demo_section = []" "raw_fallbacks demo_section = []" "raw_presets demo_section = []"
    by (simp_all add: demo_section_def)
  note owned = demo_owned [unfolded list_all_append]
  show ?thesis
    using owned demo_references demo_overlap_free
    by (simp add: ValidateRows_def RawRows.truncate_def none gate_one [where check = playlist_errors, OF demo_playlist_decoded demo_rest_ok(1)]
        gate_one [where check = cast_errors, OF demo_cast_decoded demo_cast_ok]
        gate_one [where check = schedule_errors, OF demo_sched_decoded demo_rest_ok(2)]
        gate_one [where check = daypart_errors, OF demo_part_decoded demo_rest_ok(3)] demo_set_def)
qed


definition demo_site_node :: ScopeNode where
  "demo_site_node = \<lparr>nd_id = demo_id CHR ''2'', nd_kind = ''site'', nd_parent = Some (demo_id CHR ''1''), nd_name = ''n'',
     nd_tz = Some ''UTC'', nd_lat = Some (Fin 1), nd_long = Some (Fin 2), nd_account_state = '''', nd_entitlements = None\<rparr>"

lemma demo_nodes_decoded: "decode_nodes (sec_nodes demo_section) = ([demo_site_node], [])"
proof -
  have "parse_float ''1'' = Some (Fin 1)" "parse_float ''2'' = Some (Fin 2)" by code_simp+
  then show ?thesis by (simp add: demo_decode decode_node_def demo_site_node_def)
qed

lemma demo_tree: "BuildScopeTree [demo_site_node] = ([(demo_id CHR ''2'', demo_site_node)], [])"
proof -
  have "validateGeo demo_site_node = []" by code_simp
  moreover have "Valid (demo_id CHR ''2'')" using demo_valid by simp
  moreover have "demo_id CHR ''1'' \<noteq> demo_id CHR ''2''" by (simp add: demo_id_def)
  ultimately show ?thesis
    using demo_name
    by (simp add: BuildScopeTree_def buildScopeTree_def node_errors_def index_nodes_def demo_site_node_def
        parent_errors_def validScopeKind_def CheckRowID_def maxScopeNodeNameLen_def)
qed


definition demo_built :: RowStore where
  "demo_built = \<lparr>st_tree = [(demo_id CHR ''2'', demo_site_node)], st_rows = demo_set\<rparr>"

lemma demo_section_built: "BuildStore demo_section = (demo_built, [])"
  by (simp add: BuildStore_def demo_nodes_decoded demo_tree demo_section_rows demo_built_def)

definition demo_utc :: "string \<Rightarrow> zone option" where
  "demo_utc = (\<lambda>_. Some (fixed_zone 0))"

lemma demo_built_resolves:
  "Resolve_state demo_utc demo_built (demo_id CHR ''2'') 36000000 =
     Inr \<lparr>ef_daypart = Some demo_part, ef_fallback = None, ef_display = ''content'', ef_playlist = demo_id CHR ''5'',
       ef_schedule = demo_id CHR ''7''\<rparr>"
  by code_simp

theorem row_gate_sound_witness:
  "references_resolve demo_set \<and> list_all2 (\<lambda>r v. decode_cast r = Some v) (raw_casts demo_section) [demo_cast]"
  using row_gate_sound [OF demo_section_rows] by (simp add: demo_set_def RawRows.truncate_def)

theorem accepted_snapshot_never_dangles_witness:
  "\<exists>p \<in> set (rs_playlists (st_rows demo_built)). pl_id p = demo_id CHR ''5''"
  using accepted_snapshot_never_dangles [OF demo_section_built demo_built_resolves] by (simp add: demo_id_nonempty)


definition site_screen :: ScreenRow where
  "site_screen = \<lparr>sc_id = ''w'', sc_scope_node = demo_id CHR ''2'', sc_name = ''w'', sc_device = None, sc_override = None\<rparr>"

theorem relay_serves_what_app_derives_witness:
  "\<exists>lease prog. ProjectLease demo_mac demo_utc demo_built (demo_id CHR ''2'') 36000000 ''http://r'' ''k'' = Inr lease \<and>
     prog \<in> set (fst (DeriveScreenPrograms demo_mac demo_digest demo_utc
       (resolutionStore [demo_site_node] (RawRows.truncate demo_section)) [site_screen] (relay_signer ''http://r'' ''k'' 36000000) 36000000)) \<and>
     sv_content lease = map to_lease (sp_content prog) \<and> sv_display lease = ''content''"
proof -
  obtain lease where l: "ProjectLease demo_mac demo_utc demo_built (demo_id CHR ''2'') 36000000 ''http://r'' ''k'' = Inr lease"
      "sv_display lease = ''content''"
    by (simp add: ProjectLease_def demo_built_resolves projectState_def)
  have s: "\<not> Applies (sc_override site_screen) 36000000" "site_screen \<in> set [site_screen]"
    and node: "sc_scope_node site_screen = demo_id CHR ''2''"
    by (simp_all add: site_screen_def Applies_def)
  from relay_serves_what_app_derives [OF demo_nodes_decoded s(2,1), where hmac = demo_mac and LL = demo_utc and
      origin = "''http://r''" and key = "''k''" and digest = demo_digest]
  show ?thesis using l node by (auto simp: demo_section_built)
qed

text \<open>Slide ids are compared trimmed for the menus and as they are everywhere else: a slide whose id begins with a space
  makes a menu acceptable that leads nowhere, and the menu that would lead to it is refused.\<close>

lemma trimmed_target_accepted:
  "\<exists>slides. checkCastSlides slides = [] \<and>
     (\<exists>s \<in> set slides. \<exists>l \<in> set (cs_layers s). l_kind l = ''nav'' \<and> (\<exists>it \<in> set (l_items l). ni_target it \<notin> cs_id ` set slides))"
proof -
  define menu where "menu = demo_menu\<lparr>l_items := [\<lparr>ni_label = ''a'', ni_target = ''1''\<rparr>]\<rparr>"
  let ?slides = "[\<lparr>cs_id = '' 1'', cs_duration_ms = 0, cs_layers = [menu]\<rparr>]"
  have "char_of (49 :: nat) = CHR ''1''" by code_simp
  then have "TrimSpace '' 1'' = ''1''"
    by (simp add: TrimSpace_def rune_space_def byte_of_def Let_def)
  moreover have "ValidateAuthoredSlideLayers [menu] = None" unfolding menu_def by code_simp
  moreover have "l_kind menu = ''nav''" "l_items menu = [\<lparr>ni_label = ''a'', ni_target = ''1''\<rparr>]"
    by (simp_all add: menu_def demo_menu_def)
  ultimately have "checkCastSlides ?slides = []"
    by (simp add: checkCastSlides_def declared_ids_def gate_check_def checkNavTargets_def Let_def)
  moreover have "ni_target (hd (l_items menu)) \<notin> cs_id ` set ?slides" "hd (l_items menu) \<in> set (l_items menu)"
    by (simp_all add: menu_def)
  ultimately show ?thesis using \<open>l_kind menu = ''nav''\<close> by (intro exI [of _ ?slides]) auto
qed

end
