(* ===== verification/Telemetry.thy ===== *)
theory Telemetry
  imports Ulid
begin

text \<open>
  The relay's telemetry, \<open>internal/relay/telemetry\<close>: the bounded buffer with its loss markers, the channel that
  pushes it upstream, and the durable store behind it (\<open>internal/relay/identity/telemetrystore.go\<close>).  A payload is
  its text, the counts of a marker are a map; a sequence number is unbounded.  The store is used through the record
  of operations the code declares as an interface, whose laws are the locale \<open>durable_store\<close>, interpreted on the
  tables of the relay's database.
\<close>

section \<open>Schemas\<close>

datatype tele_class = Durable | LatestOnly

definition schemaClass :: "(string \<times> tele_class) list" where
  "schemaClass = [(''content.played'', Durable), (''screen.interaction'', Durable), (''automation.run'', Durable),
     (''entity.state_changed'', Durable), (''device.heartbeat'', LatestOnly), (''box.vitals'', LatestOnly)]"

text \<open>An unknown schema has the zero class, which is durable, and is reported as unknown.\<close>

definition ClassOf_schema :: "string \<Rightarrow> tele_class \<times> bool" where
  "ClassOf_schema schema = (case map_of schemaClass schema of None \<Rightarrow> (Durable, False) | Some c \<Rightarrow> (c, True))"

definition durable :: "string \<Rightarrow> bool" where
  "durable schema \<longleftrightarrow> fst (ClassOf_schema schema) = Durable"

definition persisted :: "string \<Rightarrow> bool" where
  "persisted schema \<longleftrightarrow> ClassOf_schema schema = (Durable, True)"

section \<open>The data\<close>

record Entry =
  te_seq :: int
  te_schema :: string
  te_payload :: string
  te_trace :: string
  te_subject :: string
  te_at :: int

record LossMarker =
  lm_from :: int
  lm_to :: int
  lm_counts :: "string \<rightharpoonup> int"
  lm_reason :: string

record SeqRange =
  sr_from :: int
  sr_to :: int

record Ack =
  ack_through :: int
  ack_markers :: "SeqRange list"

record PushBatch =
  pb_entries :: "Entry list"
  pb_loss :: "LossMarker list"

text \<open>The operations of the durable store.\<close>

record 's durable_ops =
  ds_append :: "Entry \<Rightarrow> 's \<Rightarrow> string option \<times> 's"
  ds_evict :: "Entry \<Rightarrow> int \<Rightarrow> LossMarker list \<Rightarrow> 's \<Rightarrow> string option \<times> 's"
  ds_prune :: "int \<Rightarrow> 's \<Rightarrow> string option \<times> 's"
  ds_markers :: "LossMarker list \<Rightarrow> 's \<Rightarrow> string option \<times> 's"
  ds_save_high :: "int \<Rightarrow> 's \<Rightarrow> string option \<times> 's"
  ds_load :: "'s \<Rightarrow> string + (Entry list \<times> LossMarker list)"
  ds_high :: "'s \<Rightarrow> string + int"

record 's Buffer =
  tb_capacity :: int
  tb_next :: int
  tb_entries :: "Entry list"
  tb_markers :: "LossMarker list"
  tb_store :: "'s option"
  tb_err :: "string option"

definition NewBuffer :: "int \<Rightarrow> 's Buffer" where
  "NewBuffer capacity = \<lparr>tb_capacity = capacity, tb_next = 0, tb_entries = [], tb_markers = [], tb_store = None, tb_err = None\<rparr>"

section \<open>Recording\<close>

definition supersede :: "string \<Rightarrow> string \<Rightarrow> Entry list \<Rightarrow> Entry list" where
  "supersede schema subject entries = filter (\<lambda>e. \<not> (te_schema e = schema \<and> te_subject e = subject)) entries"

definition durableCount :: "Entry list \<Rightarrow> int" where
  "durableCount entries = int (length (filter (\<lambda>e. durable (te_schema e)) entries))"

fun lowestDurableIndex :: "Entry list \<Rightarrow> nat option" where
  "lowestDurableIndex [] = None"
| "lowestDurableIndex (e # es) = (if durable (te_schema e) then Some 0 else map_option Suc (lowestDurableIndex es))"

definition removeAt :: "nat \<Rightarrow> Entry list \<Rightarrow> Entry list" where
  "removeAt i entries = take i entries @ drop (Suc i) entries"

definition count_drop :: "string \<Rightarrow> (string \<rightharpoonup> int) \<Rightarrow> (string \<rightharpoonup> int)" where
  "count_drop schema m = m(schema \<mapsto> (case m schema of None \<Rightarrow> 0 | Some n \<Rightarrow> n) + 1)"

definition recordDrop :: "Entry \<Rightarrow> LossMarker list \<Rightarrow> LossMarker list" where
  "recordDrop e ms =
     (if ms \<noteq> [] then
        (let m = last ms in
         butlast ms @ [m\<lparr>lm_from := (if te_seq e < lm_from m then te_seq e else lm_from m),
                         lm_to := (if te_seq e > lm_to m then te_seq e else lm_to m),
                         lm_counts := count_drop (te_schema e) (lm_counts m)\<rparr>])
      else [\<lparr>lm_from = te_seq e, lm_to = te_seq e, lm_counts = [te_schema e \<mapsto> 1], lm_reason = ''buffer_exceeded''\<rparr>])"

text \<open>The eviction loop: the entries evicted, the entries kept and the markers.\<close>

function enforceCapacity :: "int \<Rightarrow> Entry list \<Rightarrow> LossMarker list \<Rightarrow> Entry list \<times> Entry list \<times> LossMarker list" where
  "enforceCapacity capacity entries ms =
     (if durableCount entries > capacity then
        (case lowestDurableIndex entries of
           None \<Rightarrow> ([], entries, ms)
         | Some i \<Rightarrow>
             (case enforceCapacity capacity (removeAt i entries) (recordDrop (entries ! i) ms) of
                (evicted, entries', ms') \<Rightarrow> (entries ! i # evicted, entries', ms')))
      else ([], entries, ms))"
  by pat_completeness auto

lemma lowestDurableIndex_less: "lowestDurableIndex entries = Some i \<Longrightarrow> i < length entries"
  by (induction entries arbitrary: i) (auto split: if_splits)

lemma removeAt_length: "i < length entries \<Longrightarrow> length (removeAt i entries) < length entries"
  by (simp add: removeAt_def)

termination enforceCapacity
  by (relation "measure (\<lambda>(c, entries, ms). length entries)") (auto simp: removeAt_length lowestDurableIndex_less)

declare enforceCapacity.simps [simp del]

definition noteStoreErr :: "string option \<Rightarrow> 's Buffer \<Rightarrow> 's Buffer" where
  "noteStoreErr err b = (if err \<noteq> None \<and> tb_err b = None then b\<lparr>tb_err := err\<rparr> else b)"

text \<open>One write through to the store, its error noted.\<close>

definition store_write :: "('s \<Rightarrow> string option \<times> 's) \<Rightarrow> 's Buffer \<Rightarrow> 's Buffer" where
  "store_write w b =
     (case tb_store b of None \<Rightarrow> b | Some s \<Rightarrow> (case w s of (err, s') \<Rightarrow> noteStoreErr err (b\<lparr>tb_store := Some s'\<rparr>)))"

definition max_seq :: "Entry list \<Rightarrow> int" where
  "max_seq es = fold (\<lambda>e m. if te_seq e > m then te_seq e else m) es 0"

definition record_write :: "'s durable_ops \<Rightarrow> Entry \<Rightarrow> Entry list \<Rightarrow> LossMarker list \<Rightarrow> 's \<Rightarrow> string option \<times> 's" where
  "record_write ops e evicted ms =
     (if evicted = [] then ds_append ops e else ds_evict ops e (max_seq evicted) ms)"

definition persistRecord :: "'s durable_ops \<Rightarrow> Entry \<Rightarrow> Entry list \<Rightarrow> 's Buffer \<Rightarrow> 's Buffer" where
  "persistRecord ops e evicted b =
     store_write (ds_save_high ops (te_seq e)) (store_write (record_write ops e evicted (tb_markers b)) b)"

text \<open>The in-memory part of a record; \<open>fresh\<close> is the id a new ULID would be.\<close>

definition record_entry :: "string \<Rightarrow> string \<Rightarrow> string \<Rightarrow> string \<Rightarrow> int \<Rightarrow> string \<Rightarrow> 's Buffer \<Rightarrow> Entry \<times> Entry list \<times> 's Buffer" where
  "record_entry fresh schema payload subject atMs traceID b =
     (let trace = (if Valid traceID then traceID else fresh);
          entries = (if fst (ClassOf_schema schema) = LatestOnly then supersede schema subject (tb_entries b) else tb_entries b);
          seq = tb_next b + 1;
          e = \<lparr>te_seq = seq, te_schema = schema, te_payload = payload, te_trace = trace, te_subject = subject, te_at = atMs\<rparr>
      in case enforceCapacity (tb_capacity b) (entries @ [e]) (tb_markers b) of
           (evicted, entries', ms) \<Rightarrow> (e, evicted, b\<lparr>tb_next := seq, tb_entries := entries', tb_markers := ms\<rparr>))"

definition RecordTraced ::
  "'s durable_ops \<Rightarrow> string \<Rightarrow> string \<Rightarrow> string \<Rightarrow> string \<Rightarrow> int \<Rightarrow> string \<Rightarrow> 's Buffer \<Rightarrow> Entry \<times> 's Buffer" where
  "RecordTraced ops fresh schema payload subject atMs traceID b =
     (case record_entry fresh schema payload subject atMs traceID b of
        (e, evicted, b') \<Rightarrow> (e, persistRecord ops e evicted b'))"

definition Record_telemetry ::
  "'s durable_ops \<Rightarrow> string \<Rightarrow> string \<Rightarrow> string \<Rightarrow> string \<Rightarrow> int \<Rightarrow> 's Buffer \<Rightarrow> Entry \<times> 's Buffer" where
  "Record_telemetry ops fresh schema payload subject atMs b = RecordTraced ops fresh schema payload subject atMs '''' b"

definition StoreErr :: "'s Buffer \<Rightarrow> string option \<times> 's Buffer" where
  "StoreErr b = (tb_err b, b\<lparr>tb_err := None\<rparr>)"

section \<open>Acknowledgement and the channel\<close>

definition marker_range :: "LossMarker \<Rightarrow> SeqRange" where
  "marker_range m = \<lparr>sr_from = lm_from m, sr_to = lm_to m\<rparr>"

definition Buffer_applyAck :: "'s durable_ops \<Rightarrow> int \<Rightarrow> SeqRange list \<Rightarrow> 's Buffer \<Rightarrow> 's Buffer" where
  "Buffer_applyAck ops through acked b =
     (let b1 = store_write (ds_prune ops through) (b\<lparr>tb_entries := filter (\<lambda>e. te_seq e > through) (tb_entries b)\<rparr>) in
      if acked = [] then b1
      else let ms = filter (\<lambda>m. marker_range m \<notin> set acked) (tb_markers b1) in
        store_write (ds_markers ops ms) (b1\<lparr>tb_markers := ms\<rparr>))"

text \<open>The exponential backoff, a duration in nanoseconds of 64 bits.\<close>

record ExponentialBackoff =
  bo_base :: int
  bo_max :: int
  bo_attempts :: int

fun backoff_double :: "int \<Rightarrow> nat \<Rightarrow> int \<Rightarrow> int \<times> bool" where
  "backoff_double mx 0 d = (d, False)"
| "backoff_double mx (Suc k) d =
     (let d' = i64 (d * 2) in if mx > 0 \<and> d' \<ge> mx then (mx, True) else backoff_double mx k d')"

definition Backoff_Next :: "ExponentialBackoff \<Rightarrow> int \<Rightarrow> int \<times> bool" where
  "Backoff_Next e attempt =
     (if bo_attempts e > 0 \<and> attempt > bo_attempts e then (0, False)
      else case backoff_double (bo_max e) (nat (attempt - 1)) (bo_base e) of
        (d, capped) \<Rightarrow> if capped then (d, True) else (if bo_max e > 0 \<and> d > bo_max e then bo_max e else d, True))"

record 's Channel =
  ch_buf :: "'s Buffer"
  ch_wait :: "int \<Rightarrow> int \<times> bool"
  ch_acked :: int

definition NewChannel :: "'s Buffer \<Rightarrow> (int \<Rightarrow> int \<times> bool) option \<Rightarrow> 's Channel" where
  "NewChannel b backoff =
     \<lparr>ch_buf = b, ch_wait = (case backoff of None \<Rightarrow> Backoff_Next \<lparr>bo_base = 0, bo_max = 0, bo_attempts = 1\<rparr> | Some w \<Rightarrow> w),
       ch_acked = 0\<rparr>"

text \<open>The snapshots taken of the buffer; copies, since records are values.\<close>

definition Pending :: "'s Buffer \<Rightarrow> Entry list" where
  "Pending b = tb_entries b"

definition PendingLossMarkers :: "'s Buffer \<Rightarrow> LossMarker list" where
  "PendingLossMarkers b = map (\<lambda>m. m) (tb_markers b)"

definition buildBatch :: "'s Channel \<Rightarrow> PushBatch" where
  "buildBatch c =
     \<lparr>pb_entries = filter (\<lambda>e. te_seq e > ch_acked c) (Pending (ch_buf c)), pb_loss = PendingLossMarkers (ch_buf c)\<rparr>"

definition Channel_applyAck :: "'s durable_ops \<Rightarrow> Ack \<Rightarrow> 's Channel \<Rightarrow> 's Channel" where
  "Channel_applyAck ops ack c =
     c\<lparr>ch_acked := (if ack_through ack > ch_acked c then ack_through ack else ch_acked c),
       ch_buf := Buffer_applyAck ops (ack_through ack) (ack_markers ack) (ch_buf c)\<rparr>"

text \<open>
  A flush.  The upstream is the list of its answers, one for each push, each with what other callers did to the
  buffer while the push was out; a flush that waits for an answer beyond the list has no result yet.
\<close>

fun Flush ::
  "'s durable_ops \<Rightarrow> int \<Rightarrow> ((string + Ack) \<times> ('s Buffer \<Rightarrow> 's Buffer)) list \<Rightarrow> 's Channel \<Rightarrow>
     ((string + Ack) \<times> 's Channel \<times> PushBatch list) option" where
  "Flush ops attempt answers c =
     (let batch = buildBatch c in
      if pb_entries batch = [] \<and> pb_loss batch = [] then Some (Inr \<lparr>ack_through = 0, ack_markers = []\<rparr>, c, [])
      else case answers of
        [] \<Rightarrow> None
      | (reply, others) # answers' \<Rightarrow>
          (let c' = c\<lparr>ch_buf := others (ch_buf c)\<rparr> in
           case reply of
             Inr ack \<Rightarrow> Some (Inr ack, Channel_applyAck ops ack c', [batch])
           | Inl err \<Rightarrow>
               if \<not> snd (ch_wait c (attempt + 1)) then Some (Inl err, c', [batch])
               else map_option (\<lambda>(r, c'', bs). (r, c'', batch # bs)) (Flush ops (attempt + 1) answers' c')))"

declare Flush.simps [simp del]

section \<open>A durable buffer\<close>

definition NewDurableBuffer :: "'s durable_ops \<Rightarrow> 's \<Rightarrow> int \<Rightarrow> string + 's Buffer" where
  "NewDurableBuffer ops s capacity =
     (case ds_load ops s of Inl e \<Rightarrow> Inl e
      | Inr (entries, ms) \<Rightarrow>
          (case ds_high ops s of Inl e \<Rightarrow> Inl e
           | Inr high \<Rightarrow>
               Inr \<lparr>tb_capacity = capacity, tb_next = fold (\<lambda>e n. if te_seq e > n then te_seq e else n) entries high,
                 tb_entries = entries, tb_markers = ms, tb_store = Some s, tb_err = None\<rparr>))"

section \<open>What the eviction does\<close>

lemma lowestDurableIndex_split:
  "lowestDurableIndex es = Some i \<Longrightarrow>
     \<exists>pre e post. es = pre @ e # post \<and> length pre = i \<and> (\<forall>x \<in> set pre. \<not> durable (te_schema x)) \<and> durable (te_schema e)"
proof (induction es arbitrary: i)
  case (Cons x es)
  show ?case
  proof (cases "durable (te_schema x)")
    case True
    then have "i = 0" using Cons.prems by simp
    then show ?thesis using True by (intro exI [of _ "[]"] exI [of _ x] exI [of _ es]) simp
  next
    case False
    then obtain j where j: "lowestDurableIndex es = Some j" "i = Suc j" using Cons.prems by auto
    from Cons.IH [OF j(1)] obtain pre e post where "es = pre @ e # post" "length pre = j"
      "\<forall>x \<in> set pre. \<not> durable (te_schema x)" "durable (te_schema e)" by blast
    then show ?thesis using False j(2) by (intro exI [of _ "x # pre"] exI [of _ e] exI [of _ post]) simp
  qed
qed simp

lemma lowestDurableIndex_None: "lowestDurableIndex es = None \<longleftrightarrow> filter (\<lambda>e. durable (te_schema e)) es = []"
  by (induction es) auto

text \<open>The entries evicted are the oldest durable ones, as many as exceed the capacity; the rest is kept in order.\<close>

lemma enforceCapacity_spec:
  assumes "enforceCapacity capacity es ms = (evicted, es', ms')"
  shows "filter (\<lambda>e. durable (te_schema e)) es = evicted @ filter (\<lambda>e. durable (te_schema e)) es' \<and>
    filter (\<lambda>e. \<not> durable (te_schema e)) es' = filter (\<lambda>e. \<not> durable (te_schema e)) es \<and>
    ms' = fold recordDrop evicted ms \<and> durableCount es' \<le> max capacity 0 \<and>
    (sorted_wrt (<) (map te_seq es) \<longrightarrow> sorted_wrt (<) (map te_seq es')) \<and> set es = set evicted \<union> set es'"
  using assms
proof (induction capacity es ms arbitrary: evicted es' ms' rule: enforceCapacity.induct)
  case (1 capacity es ms)
  show ?case
  proof (cases "durableCount es > capacity \<and> lowestDurableIndex es \<noteq> None")
    case False
    then have "durableCount es \<le> max capacity 0" by (auto simp: lowestDurableIndex_None durableCount_def)
    moreover have "evicted = []" "es' = es" "ms' = ms"
      using False 1(2) by (auto simp: enforceCapacity.simps [of capacity es] split: if_split_asm option.split_asm)
    ultimately show ?thesis by simp
  next
    case True
    then obtain i where i: "lowestDurableIndex es = Some i" by blast
    from lowestDurableIndex_split [OF i] obtain pre e post where es: "es = pre @ e # post" "length pre = i"
      "\<forall>x \<in> set pre. \<not> durable (te_schema x)" "durable (te_schema e)" by blast
    then have e: "es ! i = e" "removeAt i es = pre @ post" by (auto simp: removeAt_def)
    obtain ev ks ns where rec: "enforceCapacity capacity (pre @ post) (recordDrop e ms) = (ev, ks, ns)"
      by (metis prod_cases3)
    have out: "evicted = e # ev" "es' = ks" "ms' = ns"
      using 1(2) True by (auto simp: enforceCapacity.simps [of capacity es] i e rec)
    have "filter (\<lambda>e. durable (te_schema e)) pre = []" using es(3) by (simp add: filter_empty_conv)
    moreover have "sorted_wrt (<) (map te_seq es) \<Longrightarrow> sorted_wrt (<) (map te_seq (pre @ post))"
      by (auto simp: es(1) sorted_wrt_append)
    ultimately show ?thesis
      using 1(1) [OF _ i, of ev ks ns] True rec es(1,4) unfolding e out by auto
  qed
qed

text \<open>The number of drops of a schema the markers account for, and whether they cover a sequence number.\<close>

definition drops :: "string \<Rightarrow> LossMarker list \<Rightarrow> int" where
  "drops schema ms = sum_list (map (\<lambda>m. case lm_counts m schema of None \<Rightarrow> 0 | Some n \<Rightarrow> n) ms)"

definition covered :: "int \<Rightarrow> LossMarker list \<Rightarrow> bool" where
  "covered n ms \<longleftrightarrow> (\<exists>m \<in> set ms. lm_from m \<le> n \<and> n \<le> lm_to m)"

lemma drops_append: "drops schema (ms @ ns) = drops schema ms + drops schema ns"
  by (simp add: drops_def)

lemma covered_append: "covered n (ms @ ns) \<longleftrightarrow> covered n ms \<or> covered n ns"
  by (auto simp: covered_def)

lemma recordDrop_drops: "drops schema (recordDrop e ms) = drops schema ms + (if te_schema e = schema then 1 else 0)"
  by (cases ms rule: rev_cases)
     (auto simp: recordDrop_def Let_def drops_def count_drop_def split: option.split)

lemma recordDrop_covered: "covered n ms \<or> n = te_seq e \<Longrightarrow> covered n (recordDrop e ms)"
  by (cases ms rule: rev_cases) (auto simp: recordDrop_def Let_def covered_def)

lemma fold_recordDrop_drops:
  "drops schema (fold recordDrop es ms) = drops schema ms + int (length (filter (\<lambda>e. te_schema e = schema) es))"
  by (induction es arbitrary: ms) (simp_all add: recordDrop_drops)

lemma fold_recordDrop_covered: "covered n ms \<or> n \<in> te_seq ` set es \<Longrightarrow> covered n (fold recordDrop es ms)"
proof (induction es arbitrary: ms)
  case (Cons e es)
  then have "covered n (recordDrop e ms) \<or> n \<in> te_seq ` set es" using recordDrop_covered [of n ms e] by auto
  then show ?case using Cons.IH by simp
qed simp

section \<open>Nothing is lost silently\<close>

text \<open>What happened to a buffer: the entries recorded, those discarded because acknowledged, the markers retired.\<close>

record tele_history =
  th_recorded :: "Entry list"
  th_acked :: "Entry list"
  th_retired :: "LossMarker list"

inductive tele_reaches :: "'s durable_ops \<Rightarrow> 's Buffer \<Rightarrow> tele_history \<Rightarrow> bool" for ops where
  opened: "tb_entries b = [] \<Longrightarrow> tb_markers b = [] \<Longrightarrow>
    tele_reaches ops b \<lparr>th_recorded = [], th_acked = [], th_retired = []\<rparr>"
| recorded: "tele_reaches ops b h \<Longrightarrow> RecordTraced ops fresh schema payload subject atMs trace b = (e, b') \<Longrightarrow>
    tele_reaches ops b' (h\<lparr>th_recorded := th_recorded h @ [e]\<rparr>)"
| acked: "tele_reaches ops b h \<Longrightarrow>
    tele_reaches ops (Buffer_applyAck ops through ranges b)
      (h\<lparr>th_acked := th_acked h @ filter (\<lambda>e. te_seq e \<le> through) (tb_entries b),
         th_retired := th_retired h @ filter (\<lambda>m. marker_range m \<in> set ranges) (tb_markers b)\<rparr>)"
| polled: "tele_reaches ops b h \<Longrightarrow> tele_reaches ops (snd (StoreErr b)) h"

definition of_schema :: "string \<Rightarrow> Entry list \<Rightarrow> int" where
  "of_schema schema es = int (length (filter (\<lambda>e. te_schema e = schema) es))"

definition tele_inv :: "'s Buffer \<Rightarrow> tele_history \<Rightarrow> bool" where
  "tele_inv b h \<longleftrightarrow>
     (\<forall>e \<in> set (th_recorded h). durable (te_schema e) \<longrightarrow>
        e \<in> set (tb_entries b) \<or> e \<in> set (th_acked h) \<or> covered (te_seq e) (tb_markers b @ th_retired h)) \<and>
     (\<forall>schema. durable schema \<longrightarrow> of_schema schema (th_recorded h) =
        of_schema schema (tb_entries b) + of_schema schema (th_acked h) + drops schema (tb_markers b @ th_retired h)) \<and>
     durableCount (tb_entries b) \<le> max (tb_capacity b) 0 \<and>
     sorted_wrt (<) (map te_seq (tb_entries b)) \<and> (\<forall>e \<in> set (tb_entries b). te_seq e \<le> tb_next b)"

text \<open>The writes to the store change nothing else.\<close>

lemma store_write_core:
  "tb_entries (store_write w b) = tb_entries b \<and> tb_markers (store_write w b) = tb_markers b \<and>
   tb_next (store_write w b) = tb_next b \<and> tb_capacity (store_write w b) = tb_capacity b"
  by (simp add: store_write_def noteStoreErr_def split: option.split prod.split)

lemma persistRecord_core:
  "tb_entries (persistRecord ops e ev b) = tb_entries b \<and> tb_markers (persistRecord ops e ev b) = tb_markers b \<and>
   tb_next (persistRecord ops e ev b) = tb_next b \<and> tb_capacity (persistRecord ops e ev b) = tb_capacity b"
  by (simp add: persistRecord_def store_write_core)

lemma tele_inv_cong:
  "tb_entries b = tb_entries b' \<Longrightarrow> tb_markers b = tb_markers b' \<Longrightarrow> tb_next b = tb_next b' \<Longrightarrow> tb_capacity b = tb_capacity b' \<Longrightarrow>
     tele_inv b h \<longleftrightarrow> tele_inv b' h"
  by (simp add: tele_inv_def)

lemma of_schema_append: "of_schema schema (xs @ ys) = of_schema schema xs + of_schema schema ys"
  by (simp add: of_schema_def)

lemma of_schema_durable: "durable schema \<Longrightarrow> of_schema schema es = of_schema schema (filter (\<lambda>e. durable (te_schema e)) es)"
  by (induction es) (auto simp: of_schema_def)

lemma drops_fold: "drops schema (fold recordDrop es ms) = drops schema ms + of_schema schema es"
  by (simp add: fold_recordDrop_drops of_schema_def)

lemma kept_entries:
  assumes "fst (ClassOf_schema schema) = LatestOnly"
  shows "filter (\<lambda>e. durable (te_schema e)) (supersede schema subject es) = filter (\<lambda>e. durable (te_schema e)) es"
proof -
  have "durable (te_schema e) \<Longrightarrow> te_schema e \<noteq> schema" for e using assms by (auto simp: durable_def)
  then show ?thesis by (auto simp: supersede_def intro: filter_cong)
qed

lemma record_entry_inv:
  assumes inv: "tele_inv b h" and rec: "record_entry fresh schema payload subject atMs trace b = (e, ev, b')"
  shows "tele_inv b' (h\<lparr>th_recorded := th_recorded h @ [e]\<rparr>)"
proof -
  define entries where "entries = (if fst (ClassOf_schema schema) = LatestOnly then supersede schema subject (tb_entries b) else tb_entries b)"
  obtain es' ms' where enf: "enforceCapacity (tb_capacity b) (entries @ [e]) (tb_markers b) = (ev, es', ms')"
      and b': "b' = b\<lparr>tb_next := tb_next b + 1, tb_entries := es', tb_markers := ms'\<rparr>"
      and e: "te_seq e = tb_next b + 1" "te_schema e = schema"
    using rec by (auto simp: record_entry_def Let_def entries_def split: prod.splits)
  note spec = enforceCapacity_spec [OF enf]
  have sub: "set entries \<subseteq> set (tb_entries b)" by (auto simp: entries_def supersede_def)
  have sorted: "sorted_wrt (<) (map te_seq entries)"
    using inv by (auto simp: entries_def supersede_def tele_inv_def sorted_wrt_map intro: sorted_wrt_filter)
  have D: "filter (\<lambda>e. durable (te_schema e)) entries = filter (\<lambda>e. durable (te_schema e)) (tb_entries b)"
    using kept_entries by (auto simp: entries_def)
  have bound: "\<forall>x \<in> set entries. te_seq x \<le> tb_next b" using inv sub by (auto simp: tele_inv_def)
  have "sorted_wrt (<) (map te_seq (entries @ [e]))" using sorted bound e(1) by (fastforce simp: sorted_wrt_append)
  then have s': "sorted_wrt (<) (map te_seq es')" using spec by blast
  have keep: "x \<in> set es' \<or> covered (te_seq x) ms'"
    if "x \<in> set (tb_entries b) \<or> x = e" "durable (te_schema x)" for x
  proof -
    have "x \<in> set (filter (\<lambda>e. durable (te_schema e)) (tb_entries b @ [e]))" using that by auto
    then have "x \<in> set (filter (\<lambda>e. durable (te_schema e)) (entries @ [e]))" unfolding filter_append D .
    then have "x \<in> set (entries @ [e])" by (rule filter_is_subset [THEN subsetD])
    moreover have "set (entries @ [e]) = set ev \<union> set es'" using spec by blast
    ultimately have "x \<in> set ev \<or> x \<in> set es'" by blast
    moreover have "ms' = fold recordDrop ev (tb_markers b)" using spec by blast
    ultimately show ?thesis using fold_recordDrop_covered [of "te_seq x" "tb_markers b" ev] by blast
  qed
  have grow: "covered n (tb_markers b) \<Longrightarrow> covered n ms'" for n using spec fold_recordDrop_covered by blast
  have count: "of_schema s (tb_entries b) + of_schema s [e] + drops s (tb_markers b) = of_schema s es' + drops s ms'"
    if "durable s" for s
  proof -
    have "of_schema s (entries @ [e]) = of_schema s ev + of_schema s es'"
      using spec of_schema_durable [OF that] of_schema_append by metis
    moreover have "of_schema s entries = of_schema s (tb_entries b)" using D of_schema_durable [OF that] by metis
    ultimately show ?thesis using spec drops_fold [of s ev "tb_markers b"] by (simp add: of_schema_append)
  qed
  show ?thesis
    unfolding tele_inv_def
  proof (intro conjI ballI allI impI)
    fix x assume x: "x \<in> set (th_recorded (h\<lparr>th_recorded := th_recorded h @ [e]\<rparr>))" "durable (te_schema x)"
    then have "x \<in> set (th_recorded h) \<or> x = e" by auto
    then show "x \<in> set (tb_entries b') \<or> x \<in> set (th_acked (h\<lparr>th_recorded := th_recorded h @ [e]\<rparr>)) \<or>
        covered (te_seq x) (tb_markers b' @ th_retired (h\<lparr>th_recorded := th_recorded h @ [e]\<rparr>))"
      using keep [of x] grow [of "te_seq x"] x(2) inv by (auto simp: tele_inv_def b' covered_append)
  next
    fix s assume "durable s"
    then show "of_schema s (th_recorded (h\<lparr>th_recorded := th_recorded h @ [e]\<rparr>)) = of_schema s (tb_entries b') +
        of_schema s (th_acked (h\<lparr>th_recorded := th_recorded h @ [e]\<rparr>)) +
        drops s (tb_markers b' @ th_retired (h\<lparr>th_recorded := th_recorded h @ [e]\<rparr>))"
      using count [of s] inv by (auto simp: tele_inv_def b' of_schema_append drops_append)
  next
    show "durableCount (tb_entries b') \<le> max (tb_capacity b') 0" using spec by (simp add: b')
    show "sorted_wrt (<) (map te_seq (tb_entries b'))" using s' by (simp add: b')
    fix x assume "x \<in> set (tb_entries b')"
    then have "x \<in> set (entries @ [e])" using spec by (auto simp: b')
    then show "te_seq x \<le> tb_next b'" using bound e(1) by (auto simp: b')
  qed
qed


lemma RecordTraced_inv:
  assumes "tele_inv b h" "RecordTraced ops fresh schema payload subject atMs trace b = (e, b')"
  shows "tele_inv b' (h\<lparr>th_recorded := th_recorded h @ [e]\<rparr>)"
proof -
  obtain ev b1 where r: "record_entry fresh schema payload subject atMs trace b = (e, ev, b1)" "b' = persistRecord ops e ev b1"
    using assms(2) by (auto simp: RecordTraced_def split: prod.splits)
  show ?thesis
    using record_entry_inv [OF assms(1) r(1)] tele_inv_cong [of b1 b'] persistRecord_core [of ops e ev b1] r(2) by simp
qed

lemma applyAck_core:
  "tb_entries (Buffer_applyAck ops through ranges b) = filter (\<lambda>e. te_seq e > through) (tb_entries b) \<and>
   tb_markers (Buffer_applyAck ops through ranges b) = filter (\<lambda>m. marker_range m \<notin> set ranges) (tb_markers b) \<and>
   tb_next (Buffer_applyAck ops through ranges b) = tb_next b \<and> tb_capacity (Buffer_applyAck ops through ranges b) = tb_capacity b"
  by (simp add: Buffer_applyAck_def Let_def store_write_core)

lemma of_schema_partition: "of_schema s es = of_schema s (filter P es) + of_schema s (filter (\<lambda>e. \<not> P e) es)"
  by (induction es) (auto simp: of_schema_def)

lemma drops_partition: "drops s ms = drops s (filter P ms) + drops s (filter (\<lambda>m. \<not> P m) ms)"
  by (induction ms) (auto simp: drops_def)

lemma applyAck_inv:
  assumes "tele_inv b h"
  shows "tele_inv (Buffer_applyAck ops through ranges b)
    (h\<lparr>th_acked := th_acked h @ filter (\<lambda>e. te_seq e \<le> through) (tb_entries b),
       th_retired := th_retired h @ filter (\<lambda>m. marker_range m \<in> set ranges) (tb_markers b)\<rparr>)"
proof -
  note core = applyAck_core [of ops through ranges b]
  have cov: "covered n (tb_markers b) \<Longrightarrow>
      covered n (filter (\<lambda>m. marker_range m \<notin> set ranges) (tb_markers b)) \<or>
      covered n (filter (\<lambda>m. marker_range m \<in> set ranges) (tb_markers b))" for n
    by (auto simp: covered_def)
  have count: "of_schema s (tb_entries b) = of_schema s (filter (\<lambda>e. te_seq e > through) (tb_entries b)) +
      of_schema s (filter (\<lambda>e. te_seq e \<le> through) (tb_entries b))"
    "drops s (tb_markers b) = drops s (filter (\<lambda>m. marker_range m \<notin> set ranges) (tb_markers b)) +
      drops s (filter (\<lambda>m. marker_range m \<in> set ranges) (tb_markers b))" for s
    using of_schema_partition [of s "tb_entries b" "\<lambda>e. te_seq e > through"]
      drops_partition [of s "tb_markers b" "\<lambda>m. marker_range m \<notin> set ranges"] by (simp_all add: not_less)
  have le: "durableCount (filter (\<lambda>e. te_seq e > through) (tb_entries b)) \<le> durableCount (tb_entries b)"
    using length_filter_le [of "\<lambda>e. te_seq e > through" "filter (\<lambda>e. durable (te_schema e)) (tb_entries b)"]
    by (simp add: durableCount_def conj_commute)
  have sorted: "sorted_wrt (<) (map te_seq (tb_entries b)) \<Longrightarrow>
      sorted_wrt (<) (map te_seq (filter (\<lambda>e. te_seq e > through) (tb_entries b)))"
    by (simp add: sorted_wrt_map sorted_wrt_filter)
  show ?thesis
    unfolding tele_inv_def
  proof (intro conjI ballI allI impI, goal_cases)
    case (1 x)
    then show ?case using assms cov [of "te_seq x"] by (auto simp: tele_inv_def core covered_append)
  next
    case (2 s)
    then show ?case using assms count [of s] by (simp add: tele_inv_def core of_schema_append drops_append)
  next
    case 3
    then show ?case using assms le by (simp add: tele_inv_def core)
  next
    case 4
    then show ?case using assms sorted by (simp add: tele_inv_def core)
  next
    case (5 x)
    then show ?case using assms by (simp add: tele_inv_def core)
  qed
qed

lemma tele_reaches_inv: "tele_reaches ops b h \<Longrightarrow> tele_inv b h"
proof (induction rule: tele_reaches.induct)
  case (opened b)
  then show ?case by (simp add: tele_inv_def of_schema_def drops_def durableCount_def)
next
  case (recorded b h fresh schema payload subject atMs trace e b')
  then show ?case using RecordTraced_inv by blast
next
  case (acked b h through ranges)
  then show ?case using applyAck_inv by blast
next
  case (polled b h)
  then show ?case using tele_inv_cong [of "snd (StoreErr b)" b] by (simp add: StoreErr_def)
qed

text \<open>C21. The telemetry buffer loses nothing silently: whatever was recorded, evicted and acknowledged in whatever order,
  every durable entry is still buffered, was acknowledged, or lies in the range of a loss marker; the markers count
  exactly the entries dropped of each schema; and the buffer holds no more durable entries than its capacity.\<close>

theorem no_silent_loss:
  assumes "tele_reaches ops b h"
  shows "(\<forall>e \<in> set (th_recorded h). durable (te_schema e) \<longrightarrow>
      e \<in> set (tb_entries b) \<or> e \<in> set (th_acked h) \<or> covered (te_seq e) (tb_markers b @ th_retired h)) \<and>
    (\<forall>schema. durable schema \<longrightarrow> of_schema schema (th_recorded h) =
       of_schema schema (tb_entries b) + of_schema schema (th_acked h) + drops schema (tb_markers b @ th_retired h)) \<and>
    durableCount (tb_entries b) \<le> max (tb_capacity b) 0"
  using tele_reaches_inv [OF assms] unfolding tele_inv_def by blast


section \<open>The store behind the buffer\<close>

definition loaded :: "'s durable_ops \<Rightarrow> 's \<Rightarrow> Entry list \<Rightarrow> LossMarker list \<Rightarrow> int \<Rightarrow> bool" where
  "loaded ops s q ms high \<longleftrightarrow> ds_load ops s = Inr (q, ms) \<and> ds_high ops s = Inr high"

definition queued :: "Entry list \<Rightarrow> Entry list" where
  "queued es = filter (\<lambda>e. persisted (te_schema e)) es"

text \<open>What the store promises the buffer: a write that succeeds has its effect on what is loaded next, whole; a write
  that fails has none.\<close>

locale durable_store =
  fixes ops :: "'s durable_ops"
  assumes append_law: "loaded ops s q ms high \<Longrightarrow> \<forall>x \<in> set q. te_seq x < te_seq e \<Longrightarrow> ds_append ops e s = (None, s') \<Longrightarrow>
      loaded ops s' (q @ queued [e]) ms high"
    and evict_law: "loaded ops s q ms high \<Longrightarrow> \<forall>x \<in> set q. te_seq x < te_seq e \<Longrightarrow> length ns \<le> 1 \<Longrightarrow>
      ds_evict ops e n ns s = (None, s') \<Longrightarrow> loaded ops s' (filter (\<lambda>x. te_seq x > n) (q @ queued [e])) ns high"
    and prune_law: "loaded ops s q ms high \<Longrightarrow> ds_prune ops n s = (None, s') \<Longrightarrow>
      loaded ops s' (filter (\<lambda>x. te_seq x > n) q) ms high"
    and markers_law: "loaded ops s q ms high \<Longrightarrow> length ns \<le> 1 \<Longrightarrow> ds_markers ops ns s = (None, s') \<Longrightarrow> loaded ops s' q ns high"
    and high_law: "loaded ops s q ms high \<Longrightarrow> 0 \<le> n \<Longrightarrow> ds_save_high ops n s = (None, s') \<Longrightarrow> loaded ops s' q ms (max high n)"
    and append_fails: "loaded ops s q ms high \<Longrightarrow> ds_append ops e s = (Some err, s') \<Longrightarrow> loaded ops s' q ms high"
    and evict_fails: "loaded ops s q ms high \<Longrightarrow> ds_evict ops e n ns s = (Some err, s') \<Longrightarrow> loaded ops s' q ms high"
    and high_fails: "loaded ops s q ms high \<Longrightarrow> ds_save_high ops n s = (Some err, s') \<Longrightarrow> loaded ops s' q ms high"

text \<open>The store holds what the buffer would need again.\<close>

definition mirrors :: "'s durable_ops \<Rightarrow> 's Buffer \<Rightarrow> bool" where
  "mirrors ops b \<longleftrightarrow> (\<exists>s. tb_store b = Some s \<and> loaded ops s (queued (tb_entries b)) (tb_markers b) (tb_next b)) \<and>
     tb_err b = None \<and> length (tb_markers b) \<le> 1 \<and> sorted_wrt (<) (map te_seq (tb_entries b)) \<and>
     (\<forall>e \<in> set (tb_entries b). 0 < te_seq e \<and> te_seq e \<le> tb_next b) \<and> 0 \<le> tb_next b"

lemma recordDrop_one: "length ms \<le> 1 \<Longrightarrow> length (recordDrop e ms) \<le> 1"
  by (cases ms rule: rev_cases) (auto simp: recordDrop_def Let_def)

lemma fold_recordDrop_one: "length ms \<le> 1 \<Longrightarrow> length (fold recordDrop es ms) \<le> 1"
proof (induction es arbitrary: ms)
  case (Cons e es)
  show ?case using Cons.IH [OF recordDrop_one [OF Cons.prems]] by simp
qed simp

lemma queued_durable: "queued (filter (\<lambda>e. durable (te_schema e)) es) = queued es"
proof -
  have "persisted s \<Longrightarrow> durable s" for s by (simp add: persisted_def durable_def)
  then show ?thesis by (auto simp: queued_def intro: filter_cong)
qed

lemma queued_append: "queued (xs @ ys) = queued xs @ queued ys"
  by (simp add: queued_def)

lemma fold_max: "fold (\<lambda>e m. if te_seq e > m then te_seq e else m) es (n :: int) = Max (insert n (te_seq ` set es))"
proof (induction es arbitrary: n)
  case (Cons e es)
  have "(if te_seq e > n then te_seq e else n) = max (te_seq e) n" by simp
  then have "fold (\<lambda>e m. if te_seq e > m then te_seq e else m) (e # es) n = Max (insert (max (te_seq e) n) (te_seq ` set es))"
    using Cons.IH by simp
  also have "\<dots> = Max (insert n (te_seq ` set (e # es)))"
    by (cases "es = []") (simp_all add: max.commute max.left_commute)
  finally show ?case .
qed simp

text \<open>Pruning through the newest evicted entry removes exactly the evicted ones of what is kept durably.\<close>

lemma evicted_prefix:
  assumes "filter (\<lambda>e. durable (te_schema e)) es = evicted @ filter (\<lambda>e. durable (te_schema e)) es'"
    "sorted_wrt (<) (map te_seq es)" "\<forall>e \<in> set es. 0 < te_seq e" "evicted \<noteq> []"
  shows "filter (\<lambda>x. te_seq x > max_seq evicted) (queued es) = queued es'"
proof -
  let ?k = "filter (\<lambda>e. durable (te_schema e)) es'"
  have "sorted_wrt (<) (map te_seq (evicted @ ?k))"
    unfolding assms(1) [symmetric] using assms(2) by (simp add: sorted_wrt_map sorted_wrt_filter)
  then have less: "\<forall>x \<in> set evicted. \<forall>y \<in> set ?k. te_seq x < te_seq y" by (auto simp: sorted_wrt_append)
  have m: "max_seq evicted = Max (insert 0 (te_seq ` set evicted))" by (simp add: max_seq_def fold_max)
  have le: "te_seq x \<le> max_seq evicted" if "x \<in> set evicted" for x using that by (simp add: m)
  have gt: "max_seq evicted < te_seq y" if "y \<in> set ?k" for y
  proof -
    have "y \<in> set es" using that assms(1) by (metis Un_iff filter_is_subset set_append subsetD)
    then show ?thesis using less that assms(3) by (auto simp: m)
  qed
  have "filter (\<lambda>x. te_seq x > max_seq evicted) (queued evicted) = []"
    by (rule filter_False) (use le in \<open>fastforce simp: queued_def\<close>)
  moreover have "filter (\<lambda>x. te_seq x > max_seq evicted) (queued ?k) = queued ?k"
    by (rule filter_True) (use gt in \<open>simp add: queued_def\<close>)
  moreover have "queued es = queued evicted @ queued ?k"
    using assms(1) queued_durable [of es] by (simp add: queued_append)
  ultimately show ?thesis by (simp add: queued_durable)
qed


text \<open>The states the store can be left in by a power loss during a record.\<close>

definition record_crashes :: "'s durable_ops \<Rightarrow> Entry \<Rightarrow> Entry list \<Rightarrow> LossMarker list \<Rightarrow> 's \<Rightarrow> 's list" where
  "record_crashes ops e evicted ms s =
     (let s1 = snd (record_write ops e evicted ms s) in [s, s1, snd (ds_save_high ops (te_seq e) s1)])"

text \<open>The life of a durable buffer whose writes succeed, across restarts.\<close>

inductive durable_session :: "'s durable_ops \<Rightarrow> 's Buffer \<Rightarrow> bool" for ops where
  opened: "loaded ops s [] [] high \<Longrightarrow> 0 \<le> high \<Longrightarrow> NewDurableBuffer ops s capacity = Inr b \<Longrightarrow> durable_session ops b"
| recorded: "durable_session ops b \<Longrightarrow> RecordTraced ops fresh schema payload subject atMs trace b = (e, b') \<Longrightarrow>
    tb_err b' = None \<Longrightarrow> durable_session ops b'"
| acked: "durable_session ops b \<Longrightarrow> b' = Buffer_applyAck ops through ranges b \<Longrightarrow> tb_err b' = None \<Longrightarrow> durable_session ops b'"
| restarted: "durable_session ops b \<Longrightarrow> tb_store b = Some s \<Longrightarrow> NewDurableBuffer ops s capacity = Inr b' \<Longrightarrow>
    durable_session ops b'"

lemma store_write_store:
  "tb_store b = Some s \<Longrightarrow> tb_err b = None \<Longrightarrow>
     tb_store (store_write w b) = Some (snd (w s)) \<and> tb_err (store_write w b) = fst (w s)"
  by (cases "w s"; cases "fst (w s)") (auto simp: store_write_def noteStoreErr_def)

lemma store_write_none: "tb_err (store_write w b) = None \<Longrightarrow> tb_err b = None"
  by (cases "tb_store b") (auto simp: store_write_def noteStoreErr_def split: prod.splits if_splits)

lemma NewDurableBuffer_loaded:
  assumes "loaded ops s q ms high"
  shows "NewDurableBuffer ops s capacity = Inr \<lparr>tb_capacity = capacity, tb_next = Max (insert high (te_seq ` set q)),
    tb_entries = q, tb_markers = ms, tb_store = Some s, tb_err = None\<rparr>"
  using assms by (simp add: NewDurableBuffer_def loaded_def fold_max)

lemma record_entry_parts:
  assumes "record_entry fresh schema payload subject atMs trace b = (e, ev, b1)"
    "sorted_wrt (<) (map te_seq (tb_entries b))" "\<forall>x \<in> set (tb_entries b). 0 < te_seq x \<and> te_seq x \<le> tb_next b" "0 \<le> tb_next b"
  shows "te_seq e = tb_next b + 1 \<and> tb_next b1 = te_seq e \<and> tb_store b1 = tb_store b \<and> tb_err b1 = tb_err b \<and>
    tb_markers b1 = fold recordDrop ev (tb_markers b) \<and>
    (ev = [] \<longrightarrow> queued (tb_entries b1) = queued (tb_entries b) @ queued [e]) \<and>
    (ev \<noteq> [] \<longrightarrow> queued (tb_entries b1) = filter (\<lambda>x. te_seq x > max_seq ev) (queued (tb_entries b) @ queued [e])) \<and>
    sorted_wrt (<) (map te_seq (tb_entries b1)) \<and> (\<forall>x \<in> set (tb_entries b1). 0 < te_seq x \<and> te_seq x \<le> tb_next b1)"
proof -
  define entries where "entries = (if fst (ClassOf_schema schema) = LatestOnly then supersede schema subject (tb_entries b) else tb_entries b)"
  obtain es' ms' where enf: "enforceCapacity (tb_capacity b) (entries @ [e]) (tb_markers b) = (ev, es', ms')"
      and b1: "b1 = b\<lparr>tb_next := tb_next b + 1, tb_entries := es', tb_markers := ms'\<rparr>" and e: "te_seq e = tb_next b + 1"
    using assms(1) by (auto simp: record_entry_def Let_def entries_def split: prod.splits)
  note spec = enforceCapacity_spec [OF enf]
  have sub: "set entries \<subseteq> set (tb_entries b)" by (auto simp: entries_def supersede_def)
  have sorted: "sorted_wrt (<) (map te_seq (entries @ [e]))"
    using assms(2,3) sub e
    by (fastforce simp: entries_def supersede_def sorted_wrt_map sorted_wrt_append intro: sorted_wrt_filter)
  have pos: "\<forall>x \<in> set (entries @ [e]). 0 < te_seq x" using assms(3,4) sub e by auto
  have "queued entries = queued (tb_entries b)"
    using kept_entries queued_durable [of entries] queued_durable [of "tb_entries b"] by (auto simp: entries_def)
  then have q: "queued (entries @ [e]) = queued (tb_entries b) @ queued [e]" by (simp add: queued_append)
  have "queued es' = queued (tb_entries b) @ queued [e]" if "ev = []"
  proof -
    have "filter (\<lambda>e. durable (te_schema e)) (entries @ [e]) = filter (\<lambda>e. durable (te_schema e)) es'" using spec that by simp
    then show ?thesis using queued_durable q by metis
  qed
  moreover have "queued es' = filter (\<lambda>x. te_seq x > max_seq ev) (queued (tb_entries b) @ queued [e])" if "ev \<noteq> []"
    using evicted_prefix [OF _ sorted pos that, of es'] spec q by simp
  moreover have "sorted_wrt (<) (map te_seq es')" using spec sorted by blast
  moreover have "0 < te_seq x \<and> te_seq x \<le> tb_next b + 1" if "x \<in> set es'" for x
  proof -
    have "x \<in> set (entries @ [e])" using spec that by blast
    then show ?thesis using pos assms(3) sub e by fastforce
  qed
  ultimately show ?thesis using spec e by (simp add: b1)
qed


context durable_store
begin

lemma below_next:
  assumes "\<forall>x \<in> set (tb_entries b). 0 < te_seq x \<and> te_seq x \<le> tb_next b" "te_seq e = tb_next b + 1"
  shows "\<forall>x \<in> set (queued (tb_entries b)). te_seq x < te_seq e"
  using assms by (auto simp: queued_def)

text \<open>The one transaction of a record either stands in the store or has not happened.\<close>

lemma record_write_effect:
  assumes "mirrors ops b" "tb_store b = Some s" "record_entry fresh schema payload subject atMs trace b = (e, ev, b1)"
  shows "case record_write ops e ev (tb_markers b1) s of
      (None, s1) \<Rightarrow> loaded ops s1 (queued (tb_entries b1)) (tb_markers b1) (tb_next b)
    | (Some _, s1) \<Rightarrow> loaded ops s1 (queued (tb_entries b)) (tb_markers b) (tb_next b)"
proof -
  have m: "loaded ops s (queued (tb_entries b)) (tb_markers b) (tb_next b)" "length (tb_markers b) \<le> 1"
    "sorted_wrt (<) (map te_seq (tb_entries b))" "\<forall>x \<in> set (tb_entries b). 0 < te_seq x \<and> te_seq x \<le> tb_next b" "0 \<le> tb_next b"
    using assms(1,2) by (simp_all add: mirrors_def)
  note p = record_entry_parts [OF assms(3) m(3-5)]
  have less: "\<forall>x \<in> set (queued (tb_entries b)). te_seq x < te_seq e" using below_next m(4) p by blast
  have one: "length (tb_markers b1) \<le> 1" using p fold_recordDrop_one [OF m(2), of ev] by simp
  obtain err s1 where w: "record_write ops e ev (tb_markers b1) s = (err, s1)" by force
  show ?thesis
  proof (cases "ev = []")
    case True
    then have "tb_markers b1 = tb_markers b" using p by simp
    then show ?thesis
      using True p w append_law [OF m(1) less, of s1] append_fails [OF m(1), of e]
      by (cases err) (simp_all add: record_write_def)
  next
    case False
    then show ?thesis
      using p w evict_law [OF m(1) less one, of "max_seq ev" s1] evict_fails [OF m(1), of e "max_seq ev" "tb_markers b1"]
      by (cases err) (simp_all add: record_write_def)
  qed
qed

lemma record_mirrors:
  assumes "mirrors ops b" "RecordTraced ops fresh schema payload subject atMs trace b = (e, b')" "tb_err b' = None"
  shows "mirrors ops b'"
proof -
  obtain ev b1 where r: "record_entry fresh schema payload subject atMs trace b = (e, ev, b1)" "b' = persistRecord ops e ev b1"
    using assms(2) by (auto simp: RecordTraced_def split: prod.splits)
  obtain s where s: "tb_store b = Some s" using assms(1) by (auto simp: mirrors_def)
  have m: "tb_err b = None" "length (tb_markers b) \<le> 1"
    "sorted_wrt (<) (map te_seq (tb_entries b))" "\<forall>x \<in> set (tb_entries b). 0 < te_seq x \<and> te_seq x \<le> tb_next b" "0 \<le> tb_next b"
    using assms(1) by (simp_all add: mirrors_def)
  note p = record_entry_parts [OF r(1) m(3-5)]
  let ?w = "record_write ops e ev (tb_markers b1)"
  have b1: "tb_store b1 = Some s" "tb_err b1 = None" using p s m(1) by simp_all
  have "tb_err (store_write ?w b1) = None"
    using assms(3) store_write_none by (simp add: r(2) persistRecord_def)
  then have w: "?w s = (None, snd (?w s))" using store_write_store [OF b1, of ?w] by (cases "?w s") simp
  then have l1: "loaded ops (snd (?w s)) (queued (tb_entries b1)) (tb_markers b1) (tb_next b)"
    using record_write_effect [OF assms(1) s r(1)] by (cases "?w s") simp
  have st: "tb_store (store_write ?w b1) = Some (snd (?w s))" using store_write_store [OF b1, of ?w] by simp
  let ?h = "ds_save_high ops (te_seq e)"
  have b': "tb_store b' = Some (snd (?h (snd (?w s))))" "tb_err b' = fst (?h (snd (?w s)))"
    using store_write_store [OF st \<open>tb_err (store_write ?w b1) = None\<close>, of ?h] by (simp_all add: r(2) persistRecord_def)
  then have "?h (snd (?w s)) = (None, snd (?h (snd (?w s))))" using assms(3) by (cases "?h (snd (?w s))") simp
  moreover have "0 \<le> te_seq e" using p m(5) by simp
  ultimately have "loaded ops (snd (?h (snd (?w s)))) (queued (tb_entries b1)) (tb_markers b1) (max (tb_next b) (te_seq e))"
    using high_law [OF l1] by blast
  then have "loaded ops (snd (?h (snd (?w s)))) (queued (tb_entries b1)) (tb_markers b1) (tb_next b1)" using p by simp
  then show ?thesis
    using b' assms(3) p fold_recordDrop_one [OF m(2), of ev] persistRecord_core [of ops e ev b1] m(5)
    by (auto simp: mirrors_def r(2))
qed

lemma ack_mirrors:
  assumes "mirrors ops b" "tb_err (Buffer_applyAck ops through ranges b) = None"
  shows "mirrors ops (Buffer_applyAck ops through ranges b)"
proof -
  obtain s where s: "tb_store b = Some s" "loaded ops s (queued (tb_entries b)) (tb_markers b) (tb_next b)"
    using assms(1) by (auto simp: mirrors_def)
  let ?b0 = "b\<lparr>tb_entries := filter (\<lambda>e. te_seq e > through) (tb_entries b)\<rparr>"
  let ?b1 = "store_write (ds_prune ops through) ?b0"
  have e1: "tb_err ?b1 = None"
    using assms(2) by (auto simp: Buffer_applyAck_def Let_def split: if_split_asm dest!: store_write_none)
  have b0: "tb_store ?b0 = Some s" "tb_err ?b0 = None" using s assms(1) by (simp_all add: mirrors_def)
  have w: "ds_prune ops through s = (None, snd (ds_prune ops through s))"
    using store_write_store [OF b0, of "ds_prune ops through"] e1 by (cases "ds_prune ops through s") simp
  let ?s1 = "snd (ds_prune ops through s)"
  have l1: "loaded ops ?s1 (queued (tb_entries ?b0)) (tb_markers b) (tb_next b)"
    using prune_law [OF s(2) w] by (simp add: queued_def filter_filter conj_commute)
  have st1: "tb_store ?b1 = Some ?s1" using store_write_store [OF b0, of "ds_prune ops through"] by simp
  have "\<exists>s'. tb_store (Buffer_applyAck ops through ranges b) = Some s' \<and>
      loaded ops s' (queued (tb_entries ?b0)) (filter (\<lambda>m. marker_range m \<notin> set ranges) (tb_markers b)) (tb_next b)"
  proof (cases "ranges = []")
    case True
    then show ?thesis using st1 l1 by (simp add: Buffer_applyAck_def Let_def)
  next
    case False
    let ?ms = "filter (\<lambda>m. marker_range m \<notin> set ranges) (tb_markers b)"
    let ?b2 = "?b1\<lparr>tb_markers := ?ms\<rparr>"
    have b2: "tb_store ?b2 = Some ?s1" "tb_err ?b2 = None" using st1 e1 by simp_all
    have out: "Buffer_applyAck ops through ranges b = store_write (ds_markers ops ?ms) ?b2"
      using False by (simp add: Buffer_applyAck_def Let_def store_write_core)
    have len: "length ?ms \<le> 1" using assms(1) by (auto simp: mirrors_def intro: order_trans [OF length_filter_le])
    have w2: "ds_markers ops ?ms ?s1 = (None, snd (ds_markers ops ?ms ?s1))"
      using store_write_store [OF b2, of "ds_markers ops ?ms"] assms(2) unfolding out by (cases "ds_markers ops ?ms ?s1") simp
    show ?thesis using markers_law [OF l1 len w2] store_write_store [OF b2, of "ds_markers ops ?ms"] unfolding out by blast
  qed
  then show ?thesis
    using assms applyAck_core [of ops through ranges b]
    by (auto simp: mirrors_def sorted_wrt_map sorted_wrt_filter intro: order_trans [OF length_filter_le])
qed

lemma restart_mirrors:
  assumes "mirrors ops b" "tb_store b = Some s" "NewDurableBuffer ops s capacity = Inr b'"
  shows "mirrors ops b'"
proof -
  have l: "loaded ops s (queued (tb_entries b)) (tb_markers b) (tb_next b)" using assms(1,2) by (simp add: mirrors_def)
  have "Max (insert (tb_next b) (te_seq ` set (queued (tb_entries b)))) = tb_next b"
    using assms(1) by (intro Max_eqI) (auto simp: mirrors_def queued_def)
  then have "b' = \<lparr>tb_capacity = capacity, tb_next = tb_next b, tb_entries = queued (tb_entries b), tb_markers = tb_markers b,
      tb_store = Some s, tb_err = None\<rparr>"
    using NewDurableBuffer_loaded [OF l, of capacity] assms(3) by simp
  then show ?thesis using assms(1) l by (auto simp: mirrors_def queued_def sorted_wrt_map sorted_wrt_filter)
qed

lemma session_mirrors: "durable_session ops b \<Longrightarrow> mirrors ops b"
proof (induction rule: durable_session.induct)
  case (opened s high capacity b)
  have "b = \<lparr>tb_capacity = capacity, tb_next = high, tb_entries = [], tb_markers = [], tb_store = Some s, tb_err = None\<rparr>"
    using opened(3) NewDurableBuffer_loaded [OF opened(1), of capacity] by simp
  then show ?case using opened(1,2) by (simp add: mirrors_def queued_def)
qed (use record_mirrors ack_mirrors restart_mirrors in blast)+

lemma power_loss:
  assumes "mirrors ops b" "tb_store b = Some s" "record_entry fresh schema payload subject atMs trace b = (e, ev, b1)"
    "s' \<in> set (record_crashes ops e ev (tb_markers b1) s)"
  shows "\<exists>b'. NewDurableBuffer ops s' capacity = Inr b' \<and>
    ((tb_entries b', tb_markers b') = (queued (tb_entries b), tb_markers b) \<or>
     (tb_entries b', tb_markers b') = (queued (tb_entries b1), tb_markers b1)) \<and>
    tb_next b \<le> tb_next b' \<and> (\<forall>x \<in> set (tb_entries b'). te_seq x \<le> tb_next b')"
proof -
  let ?w = "record_write ops e ev (tb_markers b1)"
  let ?s1 = "snd (?w s)"
  let ?ok = "\<lambda>q ms. (q, ms) = (queued (tb_entries b), tb_markers b) \<or> (q, ms) = (queued (tb_entries b1), tb_markers b1)"
  have l0: "loaded ops s (queued (tb_entries b)) (tb_markers b) (tb_next b)" using assms(1,2) by (simp add: mirrors_def)
  obtain q ms where l1: "loaded ops ?s1 q ms (tb_next b)" "?ok q ms"
    using record_write_effect [OF assms(1-3)] by (cases "?w s"; cases "fst (?w s)") auto
  have pos: "0 \<le> te_seq e" using assms(1,3) by (auto simp: mirrors_def record_entry_def Let_def split: prod.splits)
  obtain err s2 where h: "ds_save_high ops (te_seq e) ?s1 = (err, s2)" by force
  have l2: "\<exists>high \<ge> tb_next b. loaded ops s2 q ms high"
  proof (cases err)
    case None
    then have "loaded ops s2 q ms (max (tb_next b) (te_seq e))" using high_law [OF l1(1) pos] h by simp
    then show ?thesis by (intro exI [of _ "max (tb_next b) (te_seq e)"]) simp
  next
    case (Some x)
    then have "loaded ops s2 q ms (tb_next b)" using high_fails [OF l1(1)] h by simp
    then show ?thesis by blast
  qed
  have "\<exists>q ms high. ?ok q ms \<and> tb_next b \<le> high \<and> loaded ops s' q ms high"
    using assms(4) l0 l1 l2 h by (auto simp: record_crashes_def Let_def)
  then obtain q' ms' high where l: "?ok q' ms'" "tb_next b \<le> high" "loaded ops s' q' ms' high" by blast
  let ?b' = "\<lparr>tb_capacity = capacity, tb_next = Max (insert high (te_seq ` set q')), tb_entries = q', tb_markers = ms',
    tb_store = Some s', tb_err = None\<rparr>"
  have "high \<le> tb_next ?b'" "\<forall>x \<in> set (tb_entries ?b'). te_seq x \<le> tb_next ?b'" by simp_all
  then have "tb_next b \<le> tb_next ?b'" "\<forall>x \<in> set (tb_entries ?b'). te_seq x \<le> tb_next ?b'"
    using order_trans [OF l(2)] by blast+
  then show ?thesis using NewDurableBuffer_loaded [OF l(3), of capacity] l(1) by (intro exI [of _ ?b']) simp
qed

end


section \<open>The relay's tables\<close>

text \<open>
  The store of \<open>internal/relay/identity/telemetrystore.go\<close>: the queue in the order of its primary key, the markers
  in the order they are loaded, and the high water.  Each statement or transaction may fail: the faults to come are a
  list, and a failed one changes nothing.
\<close>

record tele_db =
  db_queue :: "Entry list"
  db_markers :: "LossMarker list"
  db_high :: "int option"
  db_faults :: "bool list"

definition db_stmt :: "(tele_db \<Rightarrow> tele_db option) \<Rightarrow> tele_db \<Rightarrow> string option \<times> tele_db" where
  "db_stmt f db =
     (let db' = db\<lparr>db_faults := tl (db_faults db)\<rparr> in
      if db_faults db \<noteq> [] \<and> hd (db_faults db) then (Some ''io'', db')
      else case f db' of None \<Rightarrow> (Some ''constraint'', db') | Some db'' \<Rightarrow> (None, db''))"

definition sql_insert :: "Entry \<Rightarrow> tele_db \<Rightarrow> tele_db option" where
  "sql_insert e db =
     (if te_seq e \<in> te_seq ` set (db_queue db) then None else Some (db\<lparr>db_queue := insort_key te_seq e (db_queue db)\<rparr>))"

definition sql_prune :: "int \<Rightarrow> tele_db \<Rightarrow> tele_db" where
  "sql_prune n db = db\<lparr>db_queue := filter (\<lambda>e. te_seq e > n) (db_queue db)\<rparr>"

definition marker_key :: "LossMarker \<Rightarrow> int \<times> int" where
  "marker_key m = (lm_from m, lm_to m)"

definition sql_replace_markers :: "LossMarker list \<Rightarrow> tele_db \<Rightarrow> tele_db option" where
  "sql_replace_markers ms db =
     (if distinct (map marker_key ms) then Some (db\<lparr>db_markers := sort_key lm_from (sort_key lm_to ms)\<rparr>) else None)"

definition AppendTelemetry :: "Entry \<Rightarrow> tele_db \<Rightarrow> string option \<times> tele_db" where
  "AppendTelemetry e db = (if \<not> persisted (te_schema e) then (None, db) else db_stmt (sql_insert e) db)"

definition AppendWithEviction :: "Entry \<Rightarrow> int \<Rightarrow> LossMarker list \<Rightarrow> tele_db \<Rightarrow> string option \<times> tele_db" where
  "AppendWithEviction e n ms =
     db_stmt (\<lambda>db.
       case (if persisted (te_schema e) then sql_insert e db else Some db) of None \<Rightarrow> None
       | Some db1 \<Rightarrow> sql_replace_markers ms (sql_prune n db1))"

definition PruneTelemetry :: "int \<Rightarrow> tele_db \<Rightarrow> string option \<times> tele_db" where
  "PruneTelemetry n = db_stmt (\<lambda>db. Some (sql_prune n db))"

definition SaveLossMarkers :: "LossMarker list \<Rightarrow> tele_db \<Rightarrow> string option \<times> tele_db" where
  "SaveLossMarkers ms = db_stmt (sql_replace_markers ms)"

definition SaveSeqHighWater :: "int \<Rightarrow> tele_db \<Rightarrow> string option \<times> tele_db" where
  "SaveSeqHighWater n =
     db_stmt (\<lambda>db. Some (db\<lparr>db_high := (case db_high db of None \<Rightarrow> Some n | Some h \<Rightarrow> Some (if n > h then n else h))\<rparr>))"

definition LoadSeqHighWater :: "tele_db \<Rightarrow> string + int" where
  "LoadSeqHighWater db = Inr (case db_high db of None \<Rightarrow> 0 | Some h \<Rightarrow> h)"

definition LoadTelemetry :: "tele_db \<Rightarrow> string + (Entry list \<times> LossMarker list)" where
  "LoadTelemetry db = Inr (db_queue db, db_markers db)"

definition tele_ops :: "tele_db durable_ops" where
  "tele_ops = \<lparr>ds_append = AppendTelemetry, ds_evict = AppendWithEviction, ds_prune = PruneTelemetry,
     ds_markers = SaveLossMarkers, ds_save_high = SaveSeqHighWater, ds_load = LoadTelemetry, ds_high = LoadSeqHighWater\<rparr>"

lemma tele_loaded:
  "loaded tele_ops db q ms high \<longleftrightarrow> db_queue db = q \<and> db_markers db = ms \<and> (case db_high db of None \<Rightarrow> 0 | Some h \<Rightarrow> h) = high"
  by (simp add: loaded_def tele_ops_def LoadTelemetry_def LoadSeqHighWater_def)

lemma tele_ops_sel:
  "ds_append tele_ops = AppendTelemetry" "ds_evict tele_ops = AppendWithEviction" "ds_prune tele_ops = PruneTelemetry"
  "ds_markers tele_ops = SaveLossMarkers" "ds_save_high tele_ops = SaveSeqHighWater"
  by (simp_all add: tele_ops_def)

lemma insort_last: "\<forall>x \<in> set q. te_seq x < te_seq e \<Longrightarrow> insort_key te_seq e q = q @ [e]"
  by (induction q) auto

lemma db_stmt_None: "db_stmt f db = (None, db') \<Longrightarrow> f (db\<lparr>db_faults := tl (db_faults db)\<rparr>) = Some db'"
  by (auto simp: db_stmt_def Let_def split: if_splits option.splits)

lemma db_stmt_Some: "db_stmt f db = (Some err, db') \<Longrightarrow> db' = db\<lparr>db_faults := tl (db_faults db)\<rparr>"
  by (auto simp: db_stmt_def Let_def split: if_splits option.splits)

lemma sort_short: "length (ms :: LossMarker list) \<le> 1 \<Longrightarrow> sort_key f ms = ms"
  by (cases ms) (auto split: list.splits)

lemma sql_insert_new:
  "\<forall>x \<in> set (db_queue db). te_seq x < te_seq e \<Longrightarrow> sql_insert e db = Some (db\<lparr>db_queue := db_queue db @ [e]\<rparr>)"
  by (auto simp: sql_insert_def insort_last)

lemma sql_replace_one: "length ms \<le> 1 \<Longrightarrow> sql_replace_markers ms db = Some (db\<lparr>db_markers := ms\<rparr>)"
  by (cases ms) (auto simp: sql_replace_markers_def sort_short)

text \<open>The tables keep the promise.\<close>

interpretation tele: durable_store tele_ops
proof
  fix db db' :: tele_db and q ms ns high e n err
  assume l: "loaded tele_ops db q ms high"
  show "\<forall>x \<in> set q. te_seq x < te_seq e \<Longrightarrow> ds_append tele_ops e db = (None, db') \<Longrightarrow>
      loaded tele_ops db' (q @ queued [e]) ms high"
    using l sql_insert_new [of "db\<lparr>db_faults := tl (db_faults db)\<rparr>" e]
    by (auto simp: tele_loaded tele_ops_sel AppendTelemetry_def queued_def dest!: db_stmt_None split: if_splits)
  show "\<forall>x \<in> set q. te_seq x < te_seq e \<Longrightarrow> length ns \<le> 1 \<Longrightarrow> ds_evict tele_ops e n ns db = (None, db') \<Longrightarrow>
      loaded tele_ops db' (filter (\<lambda>x. te_seq x > n) (q @ queued [e])) ns high"
    using l sql_insert_new [of "db\<lparr>db_faults := tl (db_faults db)\<rparr>" e]
    by (auto simp: tele_loaded tele_ops_sel AppendWithEviction_def queued_def sql_replace_one sql_prune_def
        dest!: db_stmt_None split: if_splits)
  show "ds_prune tele_ops n db = (None, db') \<Longrightarrow> loaded tele_ops db' (filter (\<lambda>x. te_seq x > n) q) ms high"
    using l by (auto simp: tele_loaded tele_ops_sel PruneTelemetry_def sql_prune_def dest!: db_stmt_None)
  show "length ns \<le> 1 \<Longrightarrow> ds_markers tele_ops ns db = (None, db') \<Longrightarrow> loaded tele_ops db' q ns high"
    using l by (auto simp: tele_loaded tele_ops_sel SaveLossMarkers_def sql_replace_one dest!: db_stmt_None)
  show "0 \<le> n \<Longrightarrow> ds_save_high tele_ops n db = (None, db') \<Longrightarrow> loaded tele_ops db' q ms (max high n)"
    using l by (auto simp: tele_loaded tele_ops_sel SaveSeqHighWater_def dest!: db_stmt_None split: option.splits)
  show "ds_append tele_ops e db = (Some err, db') \<Longrightarrow> loaded tele_ops db' q ms high"
    using l by (auto simp: tele_loaded tele_ops_sel AppendTelemetry_def dest!: db_stmt_Some split: if_splits)
  show "ds_evict tele_ops e n ns db = (Some err, db') \<Longrightarrow> loaded tele_ops db' q ms high"
    using l by (auto simp: tele_loaded tele_ops_sel AppendWithEviction_def dest!: db_stmt_Some)
  show "ds_save_high tele_ops n db = (Some err, db') \<Longrightarrow> loaded tele_ops db' q ms high"
    using l by (auto simp: tele_loaded tele_ops_sel SaveSeqHighWater_def dest!: db_stmt_Some)
qed

text \<open>C22. A power loss costs the relay no telemetry it had taken: after any run whose writes succeeded, and whatever point
  of the next record the power fails at, the buffer reloaded from the tables holds the durable entries and markers
  of before that record or of after it, never something in between, and numbers what comes next above
  everything it kept.\<close>

theorem power_loss_recovers:
  assumes "durable_session tele_ops b" "tb_store b = Some s"
    "record_entry fresh schema payload subject atMs trace b = (e, ev, b1)"
    "s' \<in> set (record_crashes tele_ops e ev (tb_markers b1) s)"
  shows "\<exists>b'. NewDurableBuffer tele_ops s' capacity = Inr b' \<and>
    ((tb_entries b', tb_markers b') = (queued (tb_entries b), tb_markers b) \<or>
     (tb_entries b', tb_markers b') = (queued (tb_entries b1), tb_markers b1)) \<and>
    tb_next b \<le> tb_next b' \<and> (\<forall>x \<in> set (tb_entries b'). te_seq x \<le> tb_next b')"
  by (rule tele.power_loss [OF tele.session_mirrors [OF assms(1)] assms(2-4)])

lemmas tele_eval = record_entry_def RecordTraced_def persistRecord_def record_write_def store_write_def noteStoreErr_def
  NewBuffer_def ClassOf_schema_def schemaClass_def durable_def persisted_def durableCount_def removeAt_def recordDrop_def Let_def

lemma not_valid_empty: "\<not> Valid []"
  by code_simp

lemma power_loss_recovers_witness:
  "\<exists>b b'. NewDurableBuffer tele_ops \<lparr>db_queue = [], db_markers = [], db_high = None, db_faults = []\<rparr> 1 = Inr b \<and>
    NewDurableBuffer tele_ops (snd (AppendTelemetry
       \<lparr>te_seq = 1, te_schema = ''content.played'', te_payload = ''{}'', te_trace = ''u'', te_subject = ''s'', te_at = 5\<rparr>
       \<lparr>db_queue = [], db_markers = [], db_high = None, db_faults = []\<rparr>)) 1 = Inr b' \<and> tb_next b \<le> tb_next b' \<and>
    tb_markers b' = []"
proof -
  let ?s = "\<lparr>db_queue = [], db_markers = [], db_high = None, db_faults = []\<rparr>"
  let ?b = "\<lparr>tb_capacity = 1, tb_next = 0, tb_entries = [], tb_markers = [], tb_store = Some ?s, tb_err = None\<rparr>"
  let ?e = "\<lparr>te_seq = 1, te_schema = ''content.played'', te_payload = ''{}'', te_trace = ''u'', te_subject = ''s'', te_at = 5\<rparr>"
  have o: "NewDurableBuffer tele_ops ?s 1 = Inr ?b"
    by (simp add: NewDurableBuffer_def tele_ops_def LoadTelemetry_def LoadSeqHighWater_def)
  have d: "durable_session tele_ops ?b" by (rule durable_session.opened [OF _ _ o, of 0]) (simp_all add: tele_loaded)
  have s: "tb_store ?b = Some ?s" by simp
  have r: "record_entry ''u'' ''content.played'' ''{}'' ''s'' 5 [] ?b =
      (?e, [], ?b\<lparr>tb_next := 1, tb_entries := [?e]\<rparr>)"
    by (simp add: tele_eval not_valid_empty enforceCapacity.simps)
  have c: "snd (AppendTelemetry ?e ?s) \<in>
      set (record_crashes tele_ops ?e [] (tb_markers (?b\<lparr>tb_next := 1, tb_entries := [?e]\<rparr>)) ?s)"
    by (simp add: record_crashes_def record_write_def tele_ops_sel Let_def)
  from power_loss_recovers [OF d s r c, of 1] o show ?thesis by auto
qed

lemma no_silent_loss_witness:
  "\<exists>(b :: tele_db Buffer) (h :: tele_history). covered 1 (tb_markers b @ th_retired h) \<and> durableCount (tb_entries b) \<le> max (tb_capacity b) 0 \<and>
    map te_seq (tb_entries b) = [2] \<and> map te_seq (th_recorded h) = [1, 2]"
proof -
  let ?e = "\<lambda>n. \<lparr>te_seq = n, te_schema = ''content.played'', te_payload = ''{}'', te_trace = ''u'', te_subject = ''s'', te_at = 5\<rparr>"
  let ?b0 = "NewBuffer 1 :: tele_db Buffer"
  let ?b1 = "?b0\<lparr>tb_next := 1, tb_entries := [?e 1]\<rparr>"
  let ?b2 = "?b0\<lparr>tb_next := 2, tb_entries := [?e 2], tb_markers := recordDrop (?e 1) []\<rparr>"
  let ?h = "\<lparr>th_recorded = [?e 1, ?e 2], th_acked = [], th_retired = []\<rparr>"
  have r1: "RecordTraced tele_ops ''u'' ''content.played'' ''{}'' ''s'' 5 [] ?b0 = (?e 1, ?b1)"
    by (simp add: tele_eval not_valid_empty enforceCapacity.simps)
  have r2: "RecordTraced tele_ops ''u'' ''content.played'' ''{}'' ''s'' 5 [] ?b1 = (?e 2, ?b2)"
    by (simp add: tele_eval not_valid_empty enforceCapacity.simps)
  have "tele_reaches tele_ops ?b2 ?h"
    using tele_reaches.recorded [OF tele_reaches.recorded [OF tele_reaches.opened r1] r2] by (simp add: NewBuffer_def)
  note out = no_silent_loss [OF this]
  have "covered 1 (tb_markers ?b2 @ th_retired ?h)"
    using out by (auto simp: durable_def ClassOf_schema_def schemaClass_def NewBuffer_def)
  with out have all: "covered 1 (tb_markers ?b2 @ th_retired ?h) \<and> durableCount (tb_entries ?b2) \<le> max (tb_capacity ?b2) 0 \<and>
      map te_seq (tb_entries ?b2) = [2] \<and> map te_seq (th_recorded ?h) = [1, 2]" by simp
  show ?thesis by (rule exI [of _ ?b2], rule exI [of _ ?h], rule all)
qed

text \<open>
  A power loss between the append and the save of the high water leaves a stored entry above it.  The restart counts
  on from that entry, but in memory only: once the entry is acknowledged and pruned, nothing in the tables tells of
  it, and after a second restart its number is given out again, to a record the receiver takes for a duplicate.
\<close>

lemma high_water_lost:
  "let e = \<lparr>te_seq = 1, te_schema = ''content.played'', te_payload = ''{}'', te_trace = ''u'', te_subject = ''s'', te_at = 5\<rparr>;
       crashed = snd (AppendTelemetry e \<lparr>db_queue = [], db_markers = [], db_high = None, db_faults = []\<rparr>)
   in case NewDurableBuffer tele_ops crashed 9 of Inl _ \<Rightarrow> False
      | Inr b \<Rightarrow> tb_next b = 1 \<and> tb_entries b = [e] \<and>
          (case NewDurableBuffer tele_ops (the (tb_store (Buffer_applyAck tele_ops 1 [] b))) 9 of Inl _ \<Rightarrow> False
           | Inr b' \<Rightarrow> te_seq (fst (RecordTraced tele_ops ''v'' ''content.played'' ''{}'' ''t'' 6 [] b')) = 1)"
  by (simp add: tele_eval not_valid_empty enforceCapacity.simps NewDurableBuffer_def Buffer_applyAck_def tele_ops_def
      AppendTelemetry_def PruneTelemetry_def LoadTelemetry_def LoadSeqHighWater_def db_stmt_def sql_insert_def sql_prune_def)

section \<open>The waits of a retry\<close>

lemma backoff_double_value:
  assumes "0 < d" "d \<le> mx" "mx < 2 ^ 62"
  shows "(case backoff_double mx k d of (r, capped) \<Rightarrow> r) = min mx (d * 2 ^ k)"
  using assms
proof (induction k arbitrary: d)
  case (Suc k)
  have w: "i64 (d * 2) = d * 2" using Suc.prems i64_id [of "d * 2"] by (simp add: in_i64_def)
  show ?case
  proof (cases "d * 2 \<ge> mx")
    case True
    have "d * 2 * 1 \<le> d * 2 * 2 ^ k" using Suc.prems(1) by (intro mult_left_mono) simp_all
    then have "mx \<le> d * 2 ^ Suc k" using True by (simp add: mult.assoc)
    then show ?thesis using True Suc.prems w by (simp add: Let_def)
  next
    case False
    then show ?thesis using Suc.IH [of "d * 2"] Suc.prems w by (simp add: Let_def mult.assoc)
  qed
qed simp

text \<open>With a cap the wait doubles from the base up to the cap and never wraps.\<close>

lemma Backoff_Next_value:
  assumes "0 < bo_base e" "bo_base e \<le> bo_max e" "bo_max e < 2 ^ 62" "bo_attempts e = 0 \<or> attempt \<le> bo_attempts e"
  shows "Backoff_Next e attempt = (min (bo_max e) (bo_base e * 2 ^ nat (attempt - 1)), True)"
  using assms backoff_double_value [OF assms(1-3), of "nat (attempt - 1)"]
  by (auto simp: Backoff_Next_def split: prod.splits)

text \<open>Without one the doubling leaves the 64 bits: a base of a second wraps to a negative wait at the 35th attempt.\<close>

lemma Backoff_Next_wraps:
  "fst (Backoff_Next \<lparr>bo_base = 1000000000, bo_max = 0, bo_attempts = 0\<rparr> 35) < 0"
  by code_simp

text \<open>A flush that fails sends the same pending telemetry again, nothing dropped: only an acknowledgement removes it.\<close>

definition batch_empty :: "'s Channel \<Rightarrow> bool" where
  "batch_empty c \<longleftrightarrow> pb_entries (buildBatch c) = [] \<and> pb_loss (buildBatch c) = []"

lemma Flush_cases:
  "batch_empty c \<Longrightarrow> Flush ops n answers c = Some (Inr \<lparr>ack_through = 0, ack_markers = []\<rparr>, c, [])"
  "\<not> batch_empty c \<Longrightarrow> Flush ops n [] c = None"
  "\<not> batch_empty c \<Longrightarrow> Flush ops n ((Inr ack, \<lambda>b. b) # answers) c = Some (Inr ack, Channel_applyAck ops ack c, [buildBatch c])"
  "\<not> batch_empty c \<Longrightarrow> Flush ops n ((Inl e, \<lambda>b. b) # answers) c =
     (if snd (ch_wait c (n + 1)) then map_option (\<lambda>(r, c', bs). (r, c', buildBatch c # bs)) (Flush ops (n + 1) answers c)
      else Some (Inl e, c, [buildBatch c]))"
  by (auto simp: batch_empty_def Flush.simps [of ops n answers] Flush.simps [of ops n "[]"]
      Flush.simps [of ops n "(Inr ack, \<lambda>b. b) # answers"] Flush.simps [of ops n "(Inl e, \<lambda>b. b) # answers"] Let_def)

lemma Flush_failed_keeps:
  assumes "Flush ops attempt answers c = Some (Inl err, c', batches)" "\<forall>a \<in> set answers. snd a = (\<lambda>b. b)"
  shows "c' = c \<and> set batches = {buildBatch c}"
  using assms
proof (induction answers arbitrary: attempt batches)
  case Nil
  then show ?case by (cases "batch_empty c") (simp_all add: Flush_cases)
next
  case (Cons a as)
  have ne: "\<not> batch_empty c" using Cons.prems(1) by (auto simp: Flush_cases)
  obtain r where r: "a = (r, \<lambda>b. b)" using Cons.prems(2) by (cases a) simp
  obtain e where a: "a = (Inl e, \<lambda>b. b)" using Cons.prems(1) ne by (cases r) (simp_all add: r Flush_cases)
  show ?case
  proof (cases "snd (ch_wait c (attempt + 1))")
    case False
    then show ?thesis using Cons.prems(1) ne by (auto simp: a Flush_cases)
  next
    case True
    then obtain bs where "Flush ops (attempt + 1) as c = Some (Inl err, c', bs)" "batches = buildBatch c # bs"
      using Cons.prems(1) ne by (auto simp: a Flush_cases)
    then show ?thesis using Cons.IH [of "attempt + 1" bs] Cons.prems(2) by simp
  qed
qed

end
