(* ===== verification/Budget.thy ===== *)
theory Budget
  imports Prelude "HOL-Library.AList"
begin

text \<open>
  The attempt budget of \<open>internal/relay/reenroll/ratelimit.go\<close>, which the pairing endpoints spend: how many attempts
  of a source pass in any stretch of time, and how much the limiter remembers.  The map of the windows is an
  association list, its order the order an iteration meets them in; times are unbounded.
\<close>

section \<open>The attempt budget\<close>

record rl_window =
  rw_start :: int
  rw_count :: int

record RateLimiter =
  rl_limit :: int
  rl_windowMs :: int
  rl_maxKeys :: int
  rl_windows :: "(string \<times> rl_window) list"

definition NewRateLimiter :: "int \<Rightarrow> int \<Rightarrow> RateLimiter" where
  "NewRateLimiter limit windowMs = \<lparr>rl_limit = limit, rl_windowMs = windowMs, rl_maxKeys = 4096, rl_windows = []\<rparr>"

definition lapsed :: "RateLimiter \<Rightarrow> int \<Rightarrow> rl_window \<Rightarrow> bool" where
  "lapsed r nowMs w \<longleftrightarrow> nowMs - rw_start w \<ge> rl_windowMs r \<or> nowMs < rw_start w"

text \<open>The oldest window; of several of one start, the first the iteration meets.\<close>

fun oldest_window :: "(string \<times> rl_window) list \<Rightarrow> (string \<times> int) option" where
  "oldest_window [] = None"
| "oldest_window ((k, w) # ws) =
     (case oldest_window ws of None \<Rightarrow> Some (k, rw_start w)
      | Some (k', s) \<Rightarrow> if s < rw_start w then Some (k', s) else Some (k, rw_start w))"

definition evictLocked :: "int \<Rightarrow> RateLimiter \<Rightarrow> RateLimiter" where
  "evictLocked nowMs r =
     (let live = filter (\<lambda>(k, w). \<not> lapsed r nowMs w) (rl_windows r) in
      case oldest_window live of
        Some (k, s) \<Rightarrow> r\<lparr>rl_windows := (if int (length live) \<ge> rl_maxKeys r then AList.delete k live else live)\<rparr>
      | None \<Rightarrow> r\<lparr>rl_windows := live\<rparr>)"

definition Allow :: "string \<Rightarrow> int \<Rightarrow> RateLimiter \<Rightarrow> bool \<times> RateLimiter" where
  "Allow key nowMs r =
     (let tracked = map_of (rl_windows r) key;
          reset = (case tracked of None \<Rightarrow> True | Some w \<Rightarrow> lapsed r nowMs w);
          r1 = (if reset \<and> tracked = None \<and> int (length (rl_windows r)) \<ge> rl_maxKeys r then evictLocked nowMs r else r);
          w = (if reset then \<lparr>rw_start = nowMs, rw_count = 0\<rparr> else the tracked) in
      if rw_count w \<ge> rl_limit r then (False, r1\<lparr>rl_windows := AList.update key w (rl_windows r1)\<rparr>)
      else (True, r1\<lparr>rl_windows := AList.update key (w\<lparr>rw_count := rw_count w + 1\<rparr>) (rl_windows r1)\<rparr>))"

section \<open>How many attempts pass\<close>

text \<open>A sequence of attempts, with those that passed.\<close>

definition rl_step :: "string \<times> int \<Rightarrow> RateLimiter \<times> (string \<times> int) list \<Rightarrow> RateLimiter \<times> (string \<times> int) list" where
  "rl_step x st =
     (case Allow (fst x) (snd x) (fst st) of (ok, r) \<Rightarrow> (r, if ok then snd st @ [x] else snd st))"

definition passed_in :: "string \<Rightarrow> int \<Rightarrow> int \<Rightarrow> (string \<times> int) list \<Rightarrow> int" where
  "passed_in k t u al = int (length (filter (\<lambda>(k', a). k' = k \<and> t \<le> a \<and> a < u) al))"

definition window_inv :: "RateLimiter \<Rightarrow> string \<Rightarrow> (string \<times> int) list \<Rightarrow> bool" where
  "window_inv r k al \<longleftrightarrow>
     (case map_of (rl_windows r) k of None \<Rightarrow> (\<forall>a. (k, a) \<notin> set al)
      | Some w \<Rightarrow>
          (\<forall>a. (k, a) \<in> set al \<longrightarrow> a < rw_start w + rl_windowMs r) \<and>
          rw_count w = passed_in k (rw_start w) (rw_start w + rl_windowMs r) al \<and> rw_count w \<le> rl_limit r \<and>
          (\<forall>t > rw_start w - rl_windowMs r. passed_in k t (rw_start w) al \<le> rl_limit r)) \<and>
     (\<forall>t. passed_in k t (t + rl_windowMs r) al \<le> 2 * rl_limit r)"

lemma passed_in_append: "passed_in k t u (al @ [(k', a)]) = passed_in k t u al + (if k' = k \<and> t \<le> a \<and> a < u then 1 else 0)"
  by (simp add: passed_in_def)

lemma passed_in_le: "(\<And>a. (k, a) \<in> set al \<Longrightarrow> t \<le> a \<Longrightarrow> a < u \<Longrightarrow> t' \<le> a \<and> a < u') \<Longrightarrow> passed_in k t u al \<le> passed_in k t' u' al"
proof (induction al)
  case (Cons x al)
  have "passed_in k t u al \<le> passed_in k t' u' al" using Cons by simp
  then show ?case using Cons.prems [of "snd x"] by (auto simp: passed_in_def)
qed (simp add: passed_in_def)

lemma passed_in_split: "t \<le> m \<Longrightarrow> m \<le> u \<Longrightarrow> passed_in k t u al = passed_in k t m al + passed_in k m u al"
  by (induction al) (auto simp: passed_in_def)

lemma passed_in_none: "(\<And>a. (k, a) \<in> set al \<Longrightarrow> \<not> (t \<le> a \<and> a < u)) \<Longrightarrow> passed_in k t u al = 0"
  by (auto simp: passed_in_def filter_empty_conv)

lemma window_inv_other:
  "k' \<noteq> k \<Longrightarrow> map_of (rl_windows r') k = map_of (rl_windows r) k \<Longrightarrow> rl_limit r' = rl_limit r \<Longrightarrow> rl_windowMs r' = rl_windowMs r \<Longrightarrow>
     window_inv r k al \<Longrightarrow> window_inv r' k (al @ [(k', a)])"
  by (cases "map_of (rl_windows r) k") (auto simp: window_inv_def passed_in_append)

text \<open>A window that starts now.\<close>

lemma window_inv_reset:
  assumes inv: "window_inv r k al" and lim: "1 \<le> rl_limit r" and W: "0 < rl_windowMs r"
    and past: "\<forall>a. (k, a) \<in> set al \<longrightarrow> a \<le> now"
    and reset: "case map_of (rl_windows r) k of None \<Rightarrow> True | Some w \<Rightarrow> rw_start w + rl_windowMs r \<le> now"
    and r': "map_of (rl_windows r') k = Some \<lparr>rw_start = now, rw_count = 1\<rparr>" "rl_limit r' = rl_limit r" "rl_windowMs r' = rl_windowMs r"
  shows "window_inv r' k (al @ [(k, now)])"
proof -
  have before: "a < now" if "(k, a) \<in> set al" for a
    using that inv reset by (fastforce simp: window_inv_def split: option.splits)
  have before': "a < now + rl_windowMs r" if "(k, a) \<in> set al" for a using before [OF that] W by simp
  have recent: "passed_in k t now al \<le> rl_limit r" if t: "now - rl_windowMs r < t" for t
  proof (cases "map_of (rl_windows r) k")
    case None
    then have "passed_in k t now al = 0" using inv by (intro passed_in_none) (auto simp: window_inv_def)
    then show ?thesis using lim by simp
  next
    case (Some w)
    then have w: "rw_start w + rl_windowMs r \<le> now" "rw_count w \<le> rl_limit r"
      "rw_count w = passed_in k (rw_start w) (rw_start w + rl_windowMs r) al"
      "\<forall>a. (k, a) \<in> set al \<longrightarrow> a < rw_start w + rl_windowMs r"
      using inv reset by (simp_all add: window_inv_def)
    have "passed_in k t now al \<le> passed_in k (rw_start w) (rw_start w + rl_windowMs r) al"
      by (rule passed_in_le) (use w(1,4) t in auto)
    then show ?thesis using w(2,3) by simp
  qed
  have new: "passed_in k now (now + rl_windowMs r) (al @ [(k, now)]) = 1"
    using passed_in_none [of k al now "now + rl_windowMs r"] before W by (fastforce simp: passed_in_append)
  have any: "passed_in k t (t + rl_windowMs r) (al @ [(k, now)]) \<le> 2 * rl_limit r" for t
  proof (cases "t \<le> now \<and> now < t + rl_windowMs r")
    case True
    have "passed_in k t (t + rl_windowMs r) al \<le> passed_in k t now al"
      by (rule passed_in_le) (use before in auto)
    then show ?thesis using recent [of t] True lim by (simp add: passed_in_append)
  next
    case False
    then show ?thesis using inv by (auto simp: passed_in_append window_inv_def)
  qed
  show ?thesis
    using any new recent before' W lim by (auto simp: window_inv_def r' passed_in_append)
qed

lemma window_inv_count:
  assumes inv: "window_inv r k al" and w: "map_of (rl_windows r) k = Some w" "rw_count w < rl_limit r"
    and now: "rw_start w \<le> now" "now < rw_start w + rl_windowMs r"
    and r': "map_of (rl_windows r') k = Some (w\<lparr>rw_count := rw_count w + 1\<rparr>)" "rl_limit r' = rl_limit r" "rl_windowMs r' = rl_windowMs r"
  shows "window_inv r' k (al @ [(k, now)])"
proof -
  have i: "\<forall>a. (k, a) \<in> set al \<longrightarrow> a < rw_start w + rl_windowMs r"
    "rw_count w = passed_in k (rw_start w) (rw_start w + rl_windowMs r) al"
    "\<forall>t > rw_start w - rl_windowMs r. passed_in k t (rw_start w) al \<le> rl_limit r"
    using inv w(1) by (simp_all add: window_inv_def)
  have any: "passed_in k t (t + rl_windowMs r) (al @ [(k, now)]) \<le> 2 * rl_limit r" for t
  proof (cases "t \<le> now \<and> now < t + rl_windowMs r")
    case True
    have "passed_in k t (t + rl_windowMs r) al \<le> passed_in k t (rw_start w) al + rw_count w"
    proof (cases "t \<le> rw_start w")
      case le: True
      have "passed_in k t (t + rl_windowMs r) al \<le> passed_in k t (rw_start w + rl_windowMs r) al"
        by (rule passed_in_le) (use le in auto)
      then show ?thesis using passed_in_split [OF le, of "rw_start w + rl_windowMs r" k al] now i(2) by simp
    next
      case False
      have "passed_in k t (t + rl_windowMs r) al \<le> passed_in k (rw_start w) (rw_start w + rl_windowMs r) al"
        by (rule passed_in_le) (use False i(1) in auto)
      moreover have "0 \<le> passed_in k t (rw_start w) al" by (simp add: passed_in_def)
      ultimately show ?thesis using i(2) by simp
    qed
    moreover have "passed_in k t (rw_start w) al \<le> rl_limit r" using i(3) True now by simp
    ultimately show ?thesis using True w(2) by (simp add: passed_in_append)
  next
    case False
    then show ?thesis using inv by (auto simp: passed_in_append window_inv_def)
  qed
  show ?thesis
    using any i w(2) now by (auto simp: window_inv_def r' passed_in_append)
qed

lemma window_inv_cong:
  "map_of (rl_windows r') k = map_of (rl_windows r) k \<Longrightarrow> rl_limit r' = rl_limit r \<Longrightarrow> rl_windowMs r' = rl_windowMs r \<Longrightarrow>
     window_inv r k al \<Longrightarrow> window_inv r' k al"
  by (cases "map_of (rl_windows r) k") (simp_all add: window_inv_def)

text \<open>With room for the key, an attempt touches the window of its own key only.\<close>

lemma Allow_cases:
  assumes "Allow key now r = (ok, r')" "map_of (rl_windows r) key \<noteq> None \<or> int (length (rl_windows r)) < rl_maxKeys r" "1 \<le> rl_limit r"
  obtains (reset) "ok" "case map_of (rl_windows r) key of None \<Rightarrow> True | Some w \<Rightarrow> lapsed r now w"
      "r' = r\<lparr>rl_windows := AList.update key \<lparr>rw_start = now, rw_count = 1\<rparr> (rl_windows r)\<rparr>"
    | (count) w where "ok" "map_of (rl_windows r) key = Some w" "\<not> lapsed r now w" "rw_count w < rl_limit r"
      "r' = r\<lparr>rl_windows := AList.update key (w\<lparr>rw_count := rw_count w + 1\<rparr>) (rl_windows r)\<rparr>"
    | (refused) w where "\<not> ok" "map_of (rl_windows r) key = Some w" "r' = r\<lparr>rl_windows := AList.update key w (rl_windows r)\<rparr>"
proof (cases "map_of (rl_windows r) key")
  case None
  then show ?thesis using assms that(1) by (simp add: Allow_def Let_def)
next
  case (Some w)
  show ?thesis
  proof (cases "lapsed r now w")
    case True
    then show ?thesis using assms(1,3) Some that(1) by (simp add: Allow_def Let_def)
  next
    case False
    show ?thesis
    proof (cases "rw_count w < rl_limit r")
      case True
      then show ?thesis using assms(1) Some False that(2) [of w] by (simp add: Allow_def Let_def)
    next
      case full: False
      then show ?thesis using assms(1) Some False that(3) [of w] by (simp add: Allow_def Let_def)
    qed
  qed
qed

definition budget_inv :: "string set \<Rightarrow> int \<Rightarrow> RateLimiter \<Rightarrow> (string \<times> int) list \<Rightarrow> bool" where
  "budget_inv keys last_t r al \<longleftrightarrow> (\<forall>k. window_inv r k al) \<and> distinct (map fst (rl_windows r)) \<and> fst ` set (rl_windows r) \<subseteq> keys \<and>
     (\<forall>k w. map_of (rl_windows r) k = Some w \<longrightarrow> rw_start w \<le> last_t) \<and> (\<forall>(k, a) \<in> set al. a \<le> last_t) \<and> 1 \<le> rl_limit r \<and> 0 < rl_windowMs r"

lemma budget_step:
  assumes inv: "budget_inv keys last_t r al" and now: "last_t \<le> now" and key: "key \<in> keys" "finite keys" "int (card keys) \<le> rl_maxKeys r"
    and step: "Allow key now r = (ok, r')"
  shows "budget_inv keys now r' (if ok then al @ [(key, now)] else al) \<and> rl_limit r' = rl_limit r \<and> rl_windowMs r' = rl_windowMs r \<and>
    rl_maxKeys r' = rl_maxKeys r"
proof -
  have I: "window_inv r k al" for k using inv by (simp add: budget_inv_def)
  have lim: "1 \<le> rl_limit r" "0 < rl_windowMs r" using inv by (simp_all add: budget_inv_def)
  have past: "a \<le> now" if "(k, a) \<in> set al" for k a using that inv now by (fastforce simp: budget_inv_def)
  have start: "rw_start w \<le> now" if "map_of (rl_windows r) k = Some w" for k w using that inv now by (fastforce simp: budget_inv_def)
  have room: "map_of (rl_windows r) key \<noteq> None \<or> int (length (rl_windows r)) < rl_maxKeys r"
  proof (rule disjCI)
    assume "\<not> int (length (rl_windows r)) < rl_maxKeys r"
    moreover have "length (rl_windows r) = card (fst ` set (rl_windows r))"
      using inv distinct_card [of "map fst (rl_windows r)"] by (simp add: budget_inv_def)
    moreover have "fst ` set (rl_windows r) \<subseteq> keys" using inv by (simp add: budget_inv_def)
    ultimately have "fst ` set (rl_windows r) = keys"
      using card_seteq [OF key(2), of "fst ` set (rl_windows r)"] key(3) by simp
    then show "map_of (rl_windows r) key \<noteq> None" using key(1) by (simp add: map_of_eq_None_iff)
  qed
  have frame: "budget_inv keys now (r\<lparr>rl_windows := AList.update key w (rl_windows r)\<rparr>) al'"
    if "\<And>k. window_inv (r\<lparr>rl_windows := AList.update key w (rl_windows r)\<rparr>) k al'"
      "\<And>k v. map_of (AList.update key w (rl_windows r)) k = Some v \<Longrightarrow> rw_start v \<le> now" "al' = al \<or> al' = al @ [(key, now)]" for w al'
  proof -
    have "distinct (map fst (rl_windows r))" "fst ` set (rl_windows r) \<subseteq> keys" using inv by (simp_all add: budget_inv_def)
    moreover have "\<forall>(k, a) \<in> set al'. a \<le> now" using that(3) past by auto
    ultimately show ?thesis using that(1,2) lim key(1) by (simp add: budget_inv_def distinct_update dom_update)
  qed
  show ?thesis
    using step room lim(1)
  proof (cases rule: Allow_cases)
    case reset
    have "case map_of (rl_windows r) key of None \<Rightarrow> True | Some w \<Rightarrow> rw_start w + rl_windowMs r \<le> now"
      using reset(2) start [of key] by (cases "map_of (rl_windows r) key") (auto simp: lapsed_def)
    then have "window_inv r' key (al @ [(key, now)])"
      using reset(3) past by (intro window_inv_reset [OF I lim]) (auto simp: update_conv')
    moreover have "window_inv r' k (al @ [(key, now)])" if "k \<noteq> key" for k
      by (rule window_inv_other [OF that [symmetric] _ _ _ I]) (use that in \<open>simp_all add: reset(3) update_conv'\<close>)
    ultimately have "window_inv r' k (al @ [(key, now)])" for k by (cases "k = key") simp_all
    moreover have "rw_start w \<le> now" if "map_of (rl_windows r') k = Some w" for k w
      using that start by (auto simp: reset(3) update_conv' split: if_splits)
    ultimately show ?thesis
      using frame reset(1) by (simp add: reset(3))
  next
    case (count w)
    have "window_inv r' key (al @ [(key, now)])"
      using count start by (intro window_inv_count [OF I count(2)]) (auto simp: update_conv' lapsed_def)
    moreover have "window_inv r' k (al @ [(key, now)])" if "k \<noteq> key" for k
      by (rule window_inv_other [OF that [symmetric] _ _ _ I]) (use that in \<open>simp_all add: count(5) update_conv'\<close>)
    ultimately have "window_inv r' k (al @ [(key, now)])" for k by (cases "k = key") simp_all
    moreover have "rw_start v \<le> now" if "map_of (rl_windows r') k = Some v" for k v
      using that start count(2) by (auto simp: count(5) update_conv' split: if_splits)
    ultimately show ?thesis
      using frame count(1) by (simp add: count(5))
  next
    case (refused w)
    have same: "map_of (rl_windows r') = map_of (rl_windows r)" using refused(2) by (auto simp: refused(3) update_conv')
    have "window_inv r' k al" for k by (rule window_inv_cong [OF _ _ _ I]) (simp_all add: same, simp_all add: refused(3))
    then have "budget_inv keys now r' al"
      unfolding refused(3) by (intro frame) (use start same in \<open>simp_all add: refused(3)\<close>)
    then show ?thesis using refused(1,3) by simp
  qed
qed

lemma budget_run:
  assumes "budget_inv keys last_t r al" "sorted (last_t # map snd attempts)" "fst ` set attempts \<subseteq> keys" "finite keys"
    "int (card keys) \<le> rl_maxKeys r"
  shows "\<exists>now. budget_inv keys now (fst (fold rl_step attempts (r, al))) (snd (fold rl_step attempts (r, al))) \<and>
    rl_limit (fst (fold rl_step attempts (r, al))) = rl_limit r \<and> rl_windowMs (fst (fold rl_step attempts (r, al))) = rl_windowMs r"
  using assms
proof (induction attempts arbitrary: r al last_t)
  case Nil
  then show ?case by auto
next
  case (Cons x xs)
  obtain ok r' where a: "Allow (fst x) (snd x) r = (ok, r')" by force
  have s: "budget_inv keys (snd x) r' (if ok then al @ [x] else al)" "rl_limit r' = rl_limit r" "rl_windowMs r' = rl_windowMs r"
      "rl_maxKeys r' = rl_maxKeys r"
    using budget_step [OF Cons.prems(1) _ _ Cons.prems(4,5) a] Cons.prems(2,3) by auto
  have "fold rl_step (x # xs) (r, al) = fold rl_step xs (r', if ok then al @ [x] else al)" by (simp add: rl_step_def a)
  moreover have "sorted (snd x # map snd xs)" using Cons.prems(2) by simp
  ultimately show ?case using Cons.IH [OF s(1)] Cons.prems(3-5) s(2-4) by simp
qed



text \<open>The limiter never remembers more than its bound, whatever keys are made up.\<close>

lemma oldest_window_in: "oldest_window ws = Some (k, t) \<Longrightarrow> k \<in> fst ` set ws"
proof (induction ws arbitrary: k t)
  case (Cons x ws)
  obtain k' w where x: "x = (k', w)" by (cases x) simp
  show ?case using Cons by (cases "oldest_window ws") (auto simp: x split: if_splits prod.splits)
qed simp

lemma oldest_window_None: "oldest_window ws = None \<longleftrightarrow> ws = []"
proof (cases ws)
  case (Cons x xs)
  then show ?thesis by (cases x; cases "oldest_window xs") (auto split: prod.splits)
qed simp

lemma distinct_keys_filter: "distinct (map fst xs) \<Longrightarrow> distinct (map fst (filter P xs))"
  by (rule distinct_map_filter)

lemma delete_shrinks: "distinct (map fst xs) \<Longrightarrow> k \<in> fst ` set xs \<Longrightarrow> length (AList.delete k xs) < length xs"
  by (induction xs) (auto simp: AList.delete_eq intro: le_imp_less_Suc)

lemma evictLocked_room:
  assumes "distinct (map fst (rl_windows r))" "int (length (rl_windows r)) \<le> rl_maxKeys r" "1 \<le> rl_maxKeys r"
  shows "int (length (rl_windows (evictLocked now r))) < rl_maxKeys r \<and> distinct (map fst (rl_windows (evictLocked now r))) \<and>
    rl_maxKeys (evictLocked now r) = rl_maxKeys r"
proof -
  define live where "live = filter (\<lambda>(k, w). \<not> lapsed r now w) (rl_windows r)"
  have d: "distinct (map fst live)" unfolding live_def using assms(1) by (rule distinct_keys_filter)
  have len: "int (length live) \<le> rl_maxKeys r"
    using assms(2) length_filter_le [of "\<lambda>(k, w). \<not> lapsed r now w" "rl_windows r"] unfolding live_def by linarith
  show ?thesis
  proof (cases "oldest_window live")
    case None
    then have "live = []" by (simp add: oldest_window_None)
    then show ?thesis using assms(3) None unfolding evictLocked_def Let_def live_def [symmetric] by simp
  next
    case (Some x)
    obtain k t where x: "x = (k, t)" by force
    have "k \<in> fst ` set live" using oldest_window_in Some x by simp
    then have "length (AList.delete k live) < length live" by (rule delete_shrinks [OF d])
    then show ?thesis
      using d len Some x unfolding evictLocked_def Let_def live_def [symmetric] by (auto simp: distinct_delete)
  qed
qed

lemma update_length:
  "length (AList.update k v xs) = (if k \<in> fst ` set xs then length xs else Suc (length xs))"
  by (induction xs) auto

lemma limiter_memory_bounded:
  assumes "distinct (map fst (rl_windows r))" "int (length (rl_windows r)) \<le> rl_maxKeys r" "1 \<le> rl_maxKeys r"
    "Allow key now r = (ok, r')"
  shows "int (length (rl_windows r')) \<le> rl_maxKeys r' \<and> distinct (map fst (rl_windows r')) \<and> rl_maxKeys r' = rl_maxKeys r"
proof -
  let ?full = "map_of (rl_windows r) key = None \<and> int (length (rl_windows r)) \<ge> rl_maxKeys r"
  let ?r1 = "if ?full then evictLocked now r else r"
  obtain w where r': "r' = ?r1\<lparr>rl_windows := AList.update key w (rl_windows ?r1)\<rparr>"
    using assms(4) by (cases "map_of (rl_windows r) key") (auto simp: Allow_def Let_def split: if_splits)
  show ?thesis
  proof (cases ?full)
    case True
    then show ?thesis using evictLocked_room [OF assms(1-3), of now] by (simp add: r' update_length distinct_update)
  next
    case False
    then show ?thesis using assms(1,2) by (auto simp: r' update_length distinct_update map_of_eq_None_iff)
  qed
qed

end
