(* ===== verification/Pairing.thy ===== *)
theory Pairing
  imports ContentURL Budget "HOL-Library.Multiset"
begin

text \<open>
  Pairing of screens with the relay: the durable session tables (\<open>internal/relay/identity/playersession.go\<close>), the
  server's redemption of grants, sessions and revocations (\<open>internal/relay/playerserver/pairing.go\<close>), the check of a
  presented token (\<open>program.go\<close>) and the report of redemptions to the app (\<open>cmd/waiveo-relay/main.go\<close>).  Every operation
  runs under the server's lock, except a lookup, which reads the tables with the lock released: it is two steps.  A table or
  a map the code iterates is an association list.  The digest of a token is a parameter, and so are the random bytes a token
  is made of and the clock's reading at each call.
\<close>

section \<open>The durable tables\<close>

record PlayerSessionRecord =
  psr_screen :: string
  psr_expires :: int
  psr_terminated :: int

definition Terminated :: "PlayerSessionRecord \<Rightarrow> bool" where
  "Terminated r \<longleftrightarrow> psr_terminated r \<noteq> 0"

record RedemptionReport =
  rr_seq :: int
  rr_grant :: string
  rr_at :: int

text \<open>Which of the coming writes and reads fail is part of the state; a failed one changes nothing else.\<close>

record player_db =
  pd_sessions :: "(string \<times> PlayerSessionRecord) list"
  pd_redeemed :: "(string \<times> int) list"
  pd_reports :: "RedemptionReport list"
  pd_wfaults :: "bool list"
  pd_rfaults :: "bool list"

definition db_write :: "(player_db \<Rightarrow> player_db) \<Rightarrow> player_db \<Rightarrow> bool \<times> player_db" where
  "db_write f db =
     (let db' = db\<lparr>pd_wfaults := tl (pd_wfaults db)\<rparr> in
      if pd_wfaults db \<noteq> [] \<and> hd (pd_wfaults db) then (False, db') else (True, f db'))"

definition db_read :: "(player_db \<Rightarrow> 'a) \<Rightarrow> player_db \<Rightarrow> 'a option \<times> player_db" where
  "db_read f db =
     (let db' = db\<lparr>pd_rfaults := tl (pd_rfaults db)\<rparr> in
      if pd_rfaults db \<noteq> [] \<and> hd (pd_rfaults db) then (None, db') else (Some (f db'), db'))"

definition SetPlayerSession :: "string \<Rightarrow> string \<Rightarrow> int \<Rightarrow> player_db \<Rightarrow> bool \<times> player_db" where
  "SetPlayerSession tokenHash screenID expiresAt =
     db_write (\<lambda>db. db\<lparr>pd_sessions := AList.update tokenHash
       \<lparr>psr_screen = screenID, psr_expires = expiresAt, psr_terminated = 0\<rparr> (pd_sessions db)\<rparr>)"

definition PlayerSession :: "string \<Rightarrow> player_db \<Rightarrow> PlayerSessionRecord option option \<times> player_db" where
  "PlayerSession tokenHash = db_read (\<lambda>db. map_of (pd_sessions db) tokenHash)"

definition live_in :: "string set \<Rightarrow> PlayerSessionRecord \<Rightarrow> bool" where
  "live_in screens r \<longleftrightarrow> psr_terminated r = 0 \<and> psr_screen r \<in> screens"

definition terminate_rows :: "string list \<Rightarrow> int \<Rightarrow> player_db \<Rightarrow> player_db" where
  "terminate_rows ids atMs db =
     db\<lparr>pd_sessions := map (\<lambda>(h, r). (h, if live_in (set ids) r then r\<lparr>psr_terminated := atMs\<rparr> else r)) (pd_sessions db)\<rparr>"

definition terminateChunk :: nat where
  "terminateChunk = 500"

function terminate_chunks :: "string list \<Rightarrow> int \<Rightarrow> player_db \<Rightarrow> (int \<times> bool) \<times> player_db" where
  "terminate_chunks ids atMs db =
     (if ids = [] then ((0, True), db)
      else let chunk = take terminateChunk ids;
               n = int (length (filter (\<lambda>(h, r). live_in (set chunk) r) (pd_sessions db))) in
        case db_write (terminate_rows chunk atMs) db of (ok, db') \<Rightarrow>
          (case terminate_chunks (drop terminateChunk ids) atMs db' of ((n', oks), db'') \<Rightarrow>
             ((if ok then n + n' else n', ok \<and> oks), db'')))"
  by pat_completeness auto

termination terminate_chunks
  by (relation "measure (\<lambda>(ids, _, _). length ids)") (auto simp: terminateChunk_def)

declare terminate_chunks.simps [simp del]

definition TerminatePlayerSessionsForScreens :: "string list \<Rightarrow> int \<Rightarrow> player_db \<Rightarrow> (int \<times> bool) \<times> player_db" where
  "TerminatePlayerSessionsForScreens screenIDs atMs db =
     (if atMs = 0 then ((0, False), db) else terminate_chunks screenIDs atMs db)"

definition mark_redeemed :: "string \<Rightarrow> int \<Rightarrow> player_db \<Rightarrow> player_db" where
  "mark_redeemed grantID redeemedAtMs db =
     (if map_of (pd_redeemed db) grantID = None then db\<lparr>pd_redeemed := pd_redeemed db @ [(grantID, redeemedAtMs)]\<rparr> else db)"

definition MarkPairingGrantRedeemed :: "string \<Rightarrow> int \<Rightarrow> player_db \<Rightarrow> bool \<times> player_db" where
  "MarkPairingGrantRedeemed grantID redeemedAtMs = db_write (mark_redeemed grantID redeemedAtMs)"

text \<open>SQLite numbers a new row one above the largest, from one in an empty table.\<close>

definition next_rowid :: "RedemptionReport list \<Rightarrow> int" where
  "next_rowid rows = fold (\<lambda>r m. max m (rr_seq r)) rows 0 + 1"

definition add_report :: "string \<Rightarrow> int \<Rightarrow> player_db \<Rightarrow> player_db" where
  "add_report grantID redeemedAtMs db =
     db\<lparr>pd_reports := pd_reports db @ [\<lparr>rr_seq = next_rowid (pd_reports db), rr_grant = grantID, rr_at = redeemedAtMs\<rparr>]\<rparr>"

definition RecordRedemption :: "string \<Rightarrow> int \<Rightarrow> bool \<Rightarrow> player_db \<Rightarrow> bool \<times> player_db" where
  "RecordRedemption grantID redeemedAtMs oneTime =
     db_write (\<lambda>db. add_report grantID redeemedAtMs (if oneTime then mark_redeemed grantID redeemedAtMs db else db))"

definition RecordRedemptionReport :: "string \<Rightarrow> int \<Rightarrow> player_db \<Rightarrow> bool \<times> player_db" where
  "RecordRedemptionReport grantID redeemedAtMs = db_write (add_report grantID redeemedAtMs)"

definition db_PendingRedemptionReports :: "player_db \<Rightarrow> RedemptionReport list option \<times> player_db" where
  "db_PendingRedemptionReports = db_read (\<lambda>db. sort_key rr_seq (pd_reports db))"

definition db_MarkRedemptionReported :: "int \<Rightarrow> player_db \<Rightarrow> bool \<times> player_db" where
  "db_MarkRedemptionReported seq = db_write (\<lambda>db. db\<lparr>pd_reports := filter (\<lambda>r. rr_seq r \<noteq> seq) (pd_reports db)\<rparr>)"

definition PairingGrantRedeemed :: "string \<Rightarrow> player_db \<Rightarrow> bool option \<times> player_db" where
  "PairingGrantRedeemed grantID = db_read (\<lambda>db. map_of (pd_redeemed db) grantID \<noteq> None)"

section \<open>The server\<close>

record PairingGrant =
  pg_id :: string
  pg_screen :: string
  pg_relay :: string
  pg_ttl :: int
  pg_mode :: string
  pg_issuedAt :: int

record channelTokenRecord =
  ct_screen :: string
  ct_expires :: int
  ct_terminated :: bool

record redemption =
  rd_token :: string
  rd_screen :: string
  rd_issuedAt :: int
  rd_expires :: int

datatype pair_error = PairingCodeInvalid | PairingExpired | SessionPersistFailed

record pair_server =
  ps_relayID :: string
  ps_attempts :: RateLimiter
  ps_grants :: "string \<rightharpoonup> PairingGrant"
  ps_grantsGen :: int
  ps_redeemed :: "string set"
  ps_tokens :: "(string \<times> channelTokenRecord) list"
  ps_polls :: "(string \<times> redemption) list"
  ps_store :: "player_db option"
  ps_revoked :: "string set"
  ps_revokedGen :: int
  ps_pending :: "RedemptionReport list"
  ps_nextSeq :: int

definition grantIndex :: "PairingGrant list \<Rightarrow> (string \<rightharpoonup> PairingGrant)" where
  "grantIndex grants = foldl (\<lambda>m g. m(pg_id g \<mapsto> g)) Map.empty grants"

text \<open>A server on a certificate naming the relay.\<close>

definition NewServer :: "string \<Rightarrow> PairingGrant list \<Rightarrow> pair_server" where
  "NewServer relayID grants =
     \<lparr>ps_relayID = relayID, ps_attempts = NewRateLimiter 10 (15 * 60000), ps_grants = grantIndex grants, ps_grantsGen = 0,
      ps_redeemed = {}, ps_tokens = [], ps_polls = [], ps_store = None, ps_revoked = {}, ps_revokedGen = 0,
      ps_pending = [], ps_nextSeq = 0\<rparr>"

definition EnablePersistence :: "player_db \<Rightarrow> pair_server \<Rightarrow> pair_server" where
  "EnablePersistence db s = s\<lparr>ps_store := Some db\<rparr>"

definition SetPairingGrants :: "int \<Rightarrow> PairingGrant list \<Rightarrow> pair_server \<Rightarrow> pair_server" where
  "SetPairingGrants generation grants s =
     (if generation < ps_grantsGen s then s else s\<lparr>ps_grantsGen := generation, ps_grants := grantIndex grants\<rparr>)"

text \<open>The two steps of a lookup: the read, with what it found, and the fill of the cache.\<close>

definition lookup_read ::
  "(string \<Rightarrow> string) \<Rightarrow> string \<Rightarrow> pair_server \<Rightarrow> (channelTokenRecord + channelTokenRecord option) \<times> pair_server" where
  "lookup_read hash token s =
     (case map_of (ps_tokens s) token of Some r \<Rightarrow> (Inl r, s)
      | None \<Rightarrow>
          (case ps_store s of None \<Rightarrow> (Inr None, s)
           | Some db \<Rightarrow>
               (case PlayerSession (hash token) db of (res, db') \<Rightarrow>
                  (Inr (case res of
                      Some (Some d) \<Rightarrow> Some \<lparr>ct_screen = psr_screen d, ct_expires = psr_expires d, ct_terminated = Terminated d\<rparr>
                    | _ \<Rightarrow> None), s\<lparr>ps_store := Some db'\<rparr>))))"

definition lookup_fill :: "string \<Rightarrow> channelTokenRecord \<Rightarrow> pair_server \<Rightarrow> channelTokenRecord \<times> pair_server" where
  "lookup_fill token r s =
     (let r' = (if ct_screen r \<in> ps_revoked s then r\<lparr>ct_terminated := True\<rparr> else r) in
      (r', s\<lparr>ps_tokens := AList.update token r' (ps_tokens s)\<rparr>))"

definition lookupSession :: "(string \<Rightarrow> string) \<Rightarrow> string \<Rightarrow> pair_server \<Rightarrow> channelTokenRecord option \<times> pair_server" where
  "lookupSession hash token s =
     (case lookup_read hash token s of
        (Inl r, s') \<Rightarrow> (Some r, s')
      | (Inr None, s') \<Rightarrow> (None, s')
      | (Inr (Some r), s') \<Rightarrow> (case lookup_fill token r s' of (r', s'') \<Rightarrow> (Some r', s'')))"

definition LookupChannelToken :: "(string \<Rightarrow> string) \<Rightarrow> string \<Rightarrow> pair_server \<Rightarrow> (string \<times> int) option \<times> pair_server" where
  "LookupChannelToken hash token s =
     (case lookupSession hash token s of
        (Some r, s') \<Rightarrow> (if ct_terminated r then None else Some (ct_screen r, ct_expires r), s')
      | (None, s') \<Rightarrow> (None, s'))"

definition dropSessionsForLocked :: "string set \<Rightarrow> int \<Rightarrow> pair_server \<Rightarrow> bool \<times> pair_server" where
  "dropSessionsForLocked screens nowMs s =
     (if screens = {} then (True, s)
      else
        let s1 = s\<lparr>ps_tokens := map (\<lambda>(t, r).
                   (t, if ct_terminated r \<or> ct_screen r \<notin> screens then r else r\<lparr>ct_terminated := True\<rparr>)) (ps_tokens s)\<rparr> in
        case ps_store s1 of None \<Rightarrow> (True, s1)
        | Some db \<Rightarrow>
            (case TerminatePlayerSessionsForScreens (sorted_list_of_set screens) (if nowMs = 0 then 1 else nowMs) db of
               ((n, ok), db') \<Rightarrow> (ok, s1\<lparr>ps_store := Some db'\<rparr>)))"

definition SetRevokedScreens :: "int \<Rightarrow> string list \<Rightarrow> int \<Rightarrow> pair_server \<Rightarrow> bool \<times> pair_server" where
  "SetRevokedScreens generation screenIDs nowMs s =
     (if generation < ps_revokedGen s then (True, s)
      else let revoked = set (filter (\<lambda>i. i \<noteq> '''') screenIDs) in
        dropSessionsForLocked revoked nowMs (s\<lparr>ps_revokedGen := generation, ps_revoked := revoked\<rparr>))"

section \<open>Redemption\<close>

definition grantAlreadyRedeemedLocked :: "string \<Rightarrow> pair_server \<Rightarrow> bool \<times> pair_server" where
  "grantAlreadyRedeemedLocked grantID s =
     (if grantID \<in> ps_redeemed s then (True, s)
      else case ps_store s of None \<Rightarrow> (False, s)
        | Some db \<Rightarrow>
            (case PairingGrantRedeemed grantID db of (res, db') \<Rightarrow>
               if res = Some True then (True, s\<lparr>ps_store := Some db', ps_redeemed := insert grantID (ps_redeemed s)\<rparr>)
               else (False, s\<lparr>ps_store := Some db'\<rparr>)))"

definition recordRedemptionLocked :: "string \<Rightarrow> int \<Rightarrow> bool \<Rightarrow> pair_server \<Rightarrow> bool \<times> pair_server" where
  "recordRedemptionLocked grantID redeemedAtMs oneTime s =
     (case ps_store s of
        None \<Rightarrow> (True, s\<lparr>ps_nextSeq := ps_nextSeq s + 1,
          ps_pending := ps_pending s @ [\<lparr>rr_seq = ps_nextSeq s + 1, rr_grant = grantID, rr_at = redeemedAtMs\<rparr>]\<rparr>)
      | Some db \<Rightarrow> (case RecordRedemption grantID redeemedAtMs oneTime db of (ok, db') \<Rightarrow> (ok, s\<lparr>ps_store := Some db'\<rparr>)))"

definition newOpaqueToken :: "string \<Rightarrow> string \<Rightarrow> string" where
  "newOpaqueToken prefix bytes = prefix @ ''-'' @ hex_encode bytes"

text \<open>The mint of a session, the last part of a redemption.\<close>

definition mint_session ::
  "(string \<Rightarrow> string) \<Rightarrow> int \<Rightarrow> string \<Rightarrow> string \<Rightarrow> pair_server \<Rightarrow> (pair_error + redemption) \<times> pair_server" where
  "mint_session hash nowMs token screenID s =
     (let rec = \<lparr>rd_token = token, rd_screen = screenID, rd_issuedAt = nowMs, rd_expires = i64 (nowMs + 86400000)\<rparr>;
          s1 = s\<lparr>ps_tokens := AList.update token
                 \<lparr>ct_screen = screenID, ct_expires = rd_expires rec, ct_terminated = False\<rparr> (ps_tokens s)\<rparr> in
      case ps_store s1 of None \<Rightarrow> (Inr rec, s1)
      | Some db \<Rightarrow>
          (case SetPlayerSession (hash token) screenID (rd_expires rec) db of (ok, db') \<Rightarrow>
             (if ok then Inr rec else Inl SessionPersistFailed, s1\<lparr>ps_store := Some db'\<rparr>)))"

text \<open>The checks of a redemption with its consumption of the grant, up to the mint.\<close>

definition redeem_grant :: "int \<Rightarrow> PairingGrant \<Rightarrow> pair_server \<Rightarrow> (pair_error + PairingGrant) \<times> pair_server" where
  "redeem_grant nowMs g s =
     (case (if pg_mode g = ''one-time'' then grantAlreadyRedeemedLocked (pg_id g) s else (False, s)) of (already, s1) \<Rightarrow>
        if already then (Inl PairingCodeInvalid, s1)
        else if nowMs > i64 (pg_issuedAt g + i64 (pg_ttl g * 1000)) then (Inl PairingExpired, s1)
        else if pg_screen g \<noteq> '''' \<and> pg_screen g \<in> ps_revoked s1 then (Inl PairingCodeInvalid, s1)
        else
          (case recordRedemptionLocked (pg_id g) nowMs (pg_mode g = ''one-time'') s1 of (ok, s2) \<Rightarrow>
             if \<not> ok then (Inl SessionPersistFailed, s2)
             else (Inr g, if pg_mode g = ''one-time'' then s2\<lparr>ps_redeemed := insert (pg_id g) (ps_redeemed s2)\<rparr> else s2)))"

definition redeem_gate :: "int \<Rightarrow> string \<Rightarrow> pair_server \<Rightarrow> (pair_error + PairingGrant) \<times> pair_server" where
  "redeem_gate nowMs selector s =
     (if selector = '''' then (Inl PairingCodeInvalid, s)
      else case ps_grants s selector of None \<Rightarrow> (Inl PairingCodeInvalid, s)
      | Some g \<Rightarrow>
          if pg_relay g \<noteq> '''' \<and> pg_relay g \<noteq> ps_relayID s then (Inl PairingCodeInvalid, s)
          else redeem_grant nowMs g s)"

definition redeem ::
  "(string \<Rightarrow> string) \<Rightarrow> int \<Rightarrow> string \<Rightarrow> string \<Rightarrow> string \<Rightarrow> pair_server \<Rightarrow> (pair_error + redemption) \<times> pair_server" where
  "redeem hash nowMs rnd_screen rnd_token selector s =
     (case redeem_gate nowMs selector s of (Inl e, s1) \<Rightarrow> (Inl e, s1)
      | (Inr g, s1) \<Rightarrow>
          mint_session hash nowMs (newOpaqueToken ''ct'' rnd_token)
            (if pg_screen g = '''' then newOpaqueToken ''screen'' rnd_screen else pg_screen g) s1)"

section \<open>The handlers\<close>

datatype pair_answer =
    Problem int string
  | Paired redemption

definition errorCode :: "pair_error \<Rightarrow> string" where
  "errorCode e = (if e = PairingExpired then ''PAIRING_EXPIRED'' else ''PAIRING_CODE_INVALID'')"

text \<open>\<open>POST /player/v1/pair\<close>: the body is the selector it decodes to, if it decodes.\<close>

definition handlePair ::
  "(string \<Rightarrow> string) \<Rightarrow> string \<Rightarrow> int \<Rightarrow> string \<Rightarrow> string \<Rightarrow> string option \<Rightarrow> pair_server \<Rightarrow> pair_answer \<times> pair_server" where
  "handlePair hash source nowMs rnd_screen rnd_token body s =
     (case Allow source nowMs (ps_attempts s) of (allowed, r) \<Rightarrow>
        let s1 = s\<lparr>ps_attempts := r\<rparr> in
        if \<not> allowed then (Problem 429 ''UNAVAILABLE'', s1)
        else case body of None \<Rightarrow> (Problem 400 ''PAIRING_CODE_INVALID'', s1)
        | Some selector \<Rightarrow>
            (case redeem hash nowMs rnd_screen rnd_token selector s1 of
               (Inr rec, s2) \<Rightarrow> (Paired rec, s2)
             | (Inl e, s2) \<Rightarrow> (if e = SessionPersistFailed then Problem 500 ''INTERNAL'' else Problem 400 (errorCode e), s2)))"

definition handlePairStatus :: "string \<Rightarrow> int \<Rightarrow> string \<Rightarrow> pair_server \<Rightarrow> pair_answer \<times> pair_server" where
  "handlePairStatus source nowMs pollToken s =
     (case Allow source nowMs (ps_attempts s) of (allowed, r) \<Rightarrow>
        let s1 = s\<lparr>ps_attempts := r\<rparr> in
        if \<not> allowed then (Problem 429 ''UNAVAILABLE'', s1)
        else if pollToken = '''' then (Problem 400 ''PAIRING_CODE_INVALID'', s1)
        else case map_of (ps_polls s1) pollToken of
          None \<Rightarrow> (Problem 400 ''PAIRING_CODE_INVALID'', s1) | Some rec \<Rightarrow> (Paired rec, s1))"

datatype token_error = ChannelTokenInvalid | ChannelTokenRevoked | ChannelTokenExpired

text \<open>The check of a presented token, an empty one for none; the clock is read after the lookup.\<close>

definition authorizeChannelToken ::
  "(string \<Rightarrow> string) \<Rightarrow> int \<Rightarrow> string \<Rightarrow> pair_server \<Rightarrow> (token_error + string \<times> int) \<times> pair_server" where
  "authorizeChannelToken hash nowMs token s =
     (if token = '''' then (Inl ChannelTokenInvalid, s)
      else case lookupSession hash token s of
        (None, s1) \<Rightarrow> (Inl ChannelTokenInvalid, s1)
      | (Some r, s1) \<Rightarrow>
          (if ct_screen r \<in> ps_revoked s1 then Inl ChannelTokenRevoked
           else if ct_terminated r then Inl ChannelTokenInvalid
           else if nowMs > ct_expires r then Inl ChannelTokenExpired
           else Inr (ct_screen r, nowMs), s1))"

definition bearerToken :: "string \<Rightarrow> string" where
  "bearerToken h = (if take 7 h = ''Bearer '' then drop 7 h else '''')"

section \<open>The owed reports\<close>

definition PendingRedemptionReports :: "pair_server \<Rightarrow> RedemptionReport list option \<times> pair_server" where
  "PendingRedemptionReports s =
     (case ps_store s of None \<Rightarrow> (Some (ps_pending s), s)
      | Some db \<Rightarrow> (case db_PendingRedemptionReports db of (rows, db') \<Rightarrow> (rows, s\<lparr>ps_store := Some db'\<rparr>)))"

definition MarkRedemptionReported :: "int \<Rightarrow> pair_server \<Rightarrow> bool \<times> pair_server" where
  "MarkRedemptionReported seq s =
     (case ps_store s of None \<Rightarrow> (True, s\<lparr>ps_pending := filter (\<lambda>r. rr_seq r \<noteq> seq) (ps_pending s)\<rparr>)
      | Some db \<Rightarrow> (case db_MarkRedemptionReported seq db of (ok, db') \<Rightarrow> (ok, s\<lparr>ps_store := Some db'\<rparr>)))"

text \<open>The app peer's answer to a report: taken, refused as another relay's, or any other failure.\<close>

datatype report_answer = Taken | Unauthorized | ReportFailed

text \<open>One pass over what is owed; the reports sent, with their answers, in order.\<close>

fun report_rows :: "RedemptionReport list \<Rightarrow> report_answer list \<Rightarrow> pair_server \<Rightarrow> (RedemptionReport \<times> report_answer) list \<times> pair_server" where
  "report_rows [] as s = ([], s)"
| "report_rows (r # rs) [] s = ([], s)"
| "report_rows (r # rs) (a # as) s =
     (if a = ReportFailed then ([(r, a)], s)
      else case MarkRedemptionReported (rr_seq r) s of (ok, s') \<Rightarrow>
        if \<not> ok then ([(r, a)], s') else (case report_rows rs as s' of (sent, s'') \<Rightarrow> ((r, a) # sent, s'')))"

definition reportRedemptions :: "report_answer list \<Rightarrow> pair_server \<Rightarrow> (RedemptionReport \<times> report_answer) list \<times> pair_server" where
  "reportRedemptions answers s =
     (case PendingRedemptionReports s of (None, s') \<Rightarrow> ([], s') | (Some rows, s') \<Rightarrow> report_rows rows answers s')"

section \<open>A run of the relay\<close>

text \<open>What happened: the sessions minted, the tokens whose sessions were dropped, durably, the one-time grants
  consumed, the tokens seen by the server, the redemptions recorded and the reports the app peer answered.\<close>

record pair_history =
  ph_minted :: "redemption list"
  ph_dropped :: "string set"
  ph_consumed :: "string list"
  ph_seen :: "string set"
  ph_recorded :: "(string \<times> int) list"
  ph_delivered :: "(string \<times> int) list"

definition report_key :: "RedemptionReport \<Rightarrow> string \<times> int" where
  "report_key r = (rr_grant r, rr_at r)"

definition after_mint :: "PairingGrant \<Rightarrow> int \<Rightarrow> redemption \<Rightarrow> pair_history \<Rightarrow> pair_history" where
  "after_mint g nowMs rec h =
     h\<lparr>ph_minted := ph_minted h @ [rec],
       ph_consumed := (if pg_mode g = ''one-time'' then ph_consumed h @ [pg_id g] else ph_consumed h),
       ph_seen := insert (rd_token rec) (ph_seen h), ph_recorded := ph_recorded h @ [(pg_id g, nowMs)]\<rparr>"

definition after_revocation :: "int \<Rightarrow> string list \<Rightarrow> pair_server \<Rightarrow> bool \<Rightarrow> pair_history \<Rightarrow> pair_history" where
  "after_revocation generation ids s ok h =
     (if generation < ps_revokedGen s \<or> \<not> ok then h
      else h\<lparr>ph_dropped := ph_dropped h \<union> {rd_token rec | rec. rec \<in> set (ph_minted h) \<and> rd_screen rec \<in> set ids - {''''}}\<rparr>)"

definition report_delivered :: "(RedemptionReport \<times> report_answer) list \<Rightarrow> (string \<times> int) list" where
  "report_delivered sent = map (\<lambda>(r, a). report_key r) (filter (\<lambda>(r, a). a \<noteq> ReportFailed) sent)"

inductive pair_run :: "(string \<Rightarrow> string) \<Rightarrow> bool list \<Rightarrow> pair_server \<Rightarrow> pair_history \<Rightarrow> bool" for hash rfaults where
  started: "pd_sessions db = [] \<Longrightarrow> pd_redeemed db = [] \<Longrightarrow> pd_reports db = [] \<Longrightarrow> pd_rfaults db = rfaults \<Longrightarrow>
    pair_run hash rfaults (EnablePersistence db (NewServer relayID grants))
      \<lparr>ph_minted = [], ph_dropped = {}, ph_consumed = [], ph_seen = {}, ph_recorded = [], ph_delivered = []\<rparr>"
| granted: "pair_run hash rfaults s h \<Longrightarrow> pair_run hash rfaults (SetPairingGrants generation grants s) h"
| refused: "pair_run hash rfaults s h \<Longrightarrow> redeem_gate nowMs selector s = (Inl e, s') \<Longrightarrow> pair_run hash rfaults s' h"
| redeemed: "pair_run hash rfaults s h \<Longrightarrow> redeem_gate nowMs selector s = (Inr g, s1) \<Longrightarrow>
    token = newOpaqueToken ''ct'' rnd \<Longrightarrow> token \<notin> ph_seen h \<Longrightarrow> mint_session hash nowMs token screen s1 = (res, s') \<Longrightarrow>
    pair_run hash rfaults s'
      (after_mint g nowMs \<lparr>rd_token = token, rd_screen = screen, rd_issuedAt = nowMs, rd_expires = i64 (nowMs + 86400000)\<rparr> h)"
| revoked: "pair_run hash rfaults s h \<Longrightarrow> SetRevokedScreens generation ids nowMs s = (ok, s') \<Longrightarrow>
    pair_run hash rfaults s' (after_revocation generation ids s ok h)"
| presented: "pair_run hash rfaults s h \<Longrightarrow> authorizeChannelToken hash nowMs token s = (res, s') \<Longrightarrow>
    pair_run hash rfaults s' (h\<lparr>ph_seen := insert token (ph_seen h)\<rparr>)"
| reported: "pair_run hash rfaults s h \<Longrightarrow> reportRedemptions answers s = (sent, s') \<Longrightarrow>
    pair_run hash rfaults s' (h\<lparr>ph_delivered := ph_delivered h @ report_delivered sent\<rparr>)"
| restarted: "pair_run hash rfaults s h \<Longrightarrow> ps_store s = Some db \<Longrightarrow>
    pair_run hash rfaults (EnablePersistence db (NewServer relayID grants)) h"

section \<open>What a run keeps\<close>

definition session_minted :: "string \<Rightarrow> string \<Rightarrow> int \<Rightarrow> pair_history \<Rightarrow> bool" where
  "session_minted token screen expires h \<longleftrightarrow>
     (\<exists>rec \<in> set (ph_minted h). rd_token rec = token \<and> rd_screen rec = screen \<and> rd_expires rec = expires)"

definition sessions_inv :: "(string \<Rightarrow> string) \<Rightarrow> pair_server \<Rightarrow> player_db \<Rightarrow> pair_history \<Rightarrow> bool" where
  "sessions_inv hash s db h \<longleftrightarrow>
     (\<forall>t r. map_of (ps_tokens s) t = Some r \<longrightarrow>
        session_minted t (ct_screen r) (ct_expires r) h \<and> (t \<in> ph_dropped h \<longrightarrow> ct_terminated r)) \<and>
     (\<forall>x d. map_of (pd_sessions db) x = Some d \<longrightarrow>
        (\<exists>t. hash t = x \<and> session_minted t (psr_screen d) (psr_expires d) h \<and> (t \<in> ph_dropped h \<longrightarrow> Terminated d))) \<and>
     rd_token ` set (ph_minted h) \<subseteq> ph_seen h \<and> ph_dropped h \<subseteq> ph_seen h \<and> distinct (map rd_token (ph_minted h))"

definition grants_inv :: "pair_server \<Rightarrow> player_db \<Rightarrow> pair_history \<Rightarrow> bool" where
  "grants_inv s db h \<longleftrightarrow> set (ph_consumed h) \<subseteq> fst ` set (pd_redeemed db)"

definition reports_inv :: "player_db \<Rightarrow> pair_history \<Rightarrow> bool" where
  "reports_inv db h \<longleftrightarrow> distinct (map rr_seq (pd_reports db)) \<and>
     mset (ph_recorded h) \<subseteq># mset (map report_key (pd_reports db)) + mset (ph_delivered h)"

text \<open>Reads and writes of the tables.\<close>

lemma db_write_cases:
  assumes "db_write f db = (ok, db')"
  obtains "ok" "db' = f (db\<lparr>pd_wfaults := tl (pd_wfaults db)\<rparr>)" | "\<not> ok" "db' = db\<lparr>pd_wfaults := tl (pd_wfaults db)\<rparr>"
  using assms by (cases "pd_wfaults db \<noteq> [] \<and> hd (pd_wfaults db)") (simp_all add: db_write_def Let_def)

lemma map_of_rows:
  "map_of (map (\<lambda>(h, r). (h, f r)) rows) x = map_option f (map_of rows x)"
  by (induction rows) auto


lemma session_minted_after_mint:
  "session_minted t scr e (after_mint g n rec h) \<longleftrightarrow>
     session_minted t scr e h \<or> (rd_token rec = t \<and> rd_screen rec = scr \<and> rd_expires rec = e)"
  by (auto simp: session_minted_def after_mint_def)

lemma session_minted_seen: "session_minted t scr e h \<Longrightarrow> rd_token ` set (ph_minted h) \<subseteq> ph_seen h \<Longrightarrow> t \<in> ph_seen h"
  by (auto simp: session_minted_def)

text \<open>The gate of a redemption changes no session.\<close>

lemma already_redeemed_effect:
  assumes "grantAlreadyRedeemedLocked g s = (already, s')" "ps_store s = Some db"
  shows "\<exists>db'. ps_store s' = Some db' \<and> ps_tokens s' = ps_tokens s \<and> ps_grants s' = ps_grants s \<and> ps_revoked s' = ps_revoked s \<and>
    ps_redeemed s \<subseteq> ps_redeemed s' \<and> pd_sessions db' = pd_sessions db \<and> pd_redeemed db' = pd_redeemed db \<and>
    pd_reports db' = pd_reports db \<and> (pd_rfaults db = [] \<longrightarrow> pd_rfaults db' = [] \<and> (\<not> already \<longrightarrow> g \<notin> fst ` set (pd_redeemed db)))"
proof (cases "g \<in> ps_redeemed s")
  case True
  then show ?thesis using assms by (simp add: grantAlreadyRedeemedLocked_def)
next
  case False
  obtain res db' where r: "PairingGrantRedeemed g db = (res, db')" by force
  then have db': "db' = db\<lparr>pd_rfaults := tl (pd_rfaults db)\<rparr>"
    "pd_rfaults db = [] \<Longrightarrow> res = Some (g \<in> fst ` set (pd_redeemed db))"
    by (auto simp: PairingGrantRedeemed_def db_read_def Let_def map_of_eq_None_iff split: if_splits)
  show ?thesis
    using assms False r db' by (cases "res = Some True") (auto simp: grantAlreadyRedeemedLocked_def, force)
qed

lemma record_effect:
  assumes "recordRedemptionLocked g now oneTime s = (ok, s')" "ps_store s = Some db"
  shows "\<exists>db'. ps_store s' = Some db' \<and> ps_tokens s' = ps_tokens s \<and> pd_sessions db' = pd_sessions db \<and>
    pd_rfaults db' = pd_rfaults db \<and> (\<not> ok \<longrightarrow> pd_redeemed db' = pd_redeemed db \<and> pd_reports db' = pd_reports db) \<and>
    (ok \<longrightarrow> fst ` set (pd_redeemed db') = fst ` set (pd_redeemed db) \<union> (if oneTime then {g} else {}) \<and>
       pd_reports db' = pd_reports db @ [\<lparr>rr_seq = next_rowid (pd_reports db), rr_grant = g, rr_at = now\<rparr>])"
  using assms
  by (auto simp: recordRedemptionLocked_def RecordRedemption_def add_report_def mark_redeemed_def map_of_eq_None_iff
      split: prod.splits elim!: db_write_cases)

definition gate_post :: "int \<Rightarrow> player_db \<Rightarrow> player_db \<Rightarrow> pair_error + PairingGrant \<Rightarrow> bool" where
  "gate_post now db db' res \<longleftrightarrow> pd_sessions db' = pd_sessions db \<and> (pd_rfaults db = [] \<longrightarrow> pd_rfaults db' = []) \<and>
    (case res of Inl e \<Rightarrow> pd_redeemed db' = pd_redeemed db \<and> pd_reports db' = pd_reports db
     | Inr g \<Rightarrow>
         fst ` set (pd_redeemed db') = fst ` set (pd_redeemed db) \<union> (if pg_mode g = ''one-time'' then {pg_id g} else {}) \<and>
         pd_reports db' = pd_reports db @ [\<lparr>rr_seq = next_rowid (pd_reports db), rr_grant = pg_id g, rr_at = now\<rparr>] \<and>
         (pd_rfaults db = [] \<longrightarrow> pg_mode g = ''one-time'' \<longrightarrow> pg_id g \<notin> fst ` set (pd_redeemed db)))"

lemma redeem_grant_effect:
  assumes "redeem_grant now g s = (res, s')" "ps_store s = Some db"
  shows "\<exists>db'. ps_store s' = Some db' \<and> ps_tokens s' = ps_tokens s \<and> gate_post now db db' res \<and> (\<forall>g'. res = Inr g' \<longrightarrow> g' = g)"
proof -
  obtain already s1 where a: "(if pg_mode g = ''one-time'' then grantAlreadyRedeemedLocked (pg_id g) s else (False, s)) = (already, s1)"
    by force
  then obtain db1 where 1: "ps_store s1 = Some db1" "ps_tokens s1 = ps_tokens s"
    "pd_sessions db1 = pd_sessions db" "pd_redeemed db1 = pd_redeemed db"
    "pd_reports db1 = pd_reports db" "pd_rfaults db = [] \<longrightarrow> pd_rfaults db1 = []"
    "pd_rfaults db = [] \<longrightarrow> pg_mode g = ''one-time'' \<longrightarrow> \<not> already \<longrightarrow> pg_id g \<notin> fst ` set (pd_redeemed db)"
    using already_redeemed_effect [of "pg_id g" s already s1] assms(2) by (cases "pg_mode g = ''one-time''") auto
  obtain ok s2 where r: "recordRedemptionLocked (pg_id g) now (pg_mode g = ''one-time'') s1 = (ok, s2)" by force
  then obtain db2 where 2: "ps_store s2 = Some db2" "ps_tokens s2 = ps_tokens s1" "pd_sessions db2 = pd_sessions db1"
    "pd_rfaults db2 = pd_rfaults db1" "\<not> ok \<longrightarrow> pd_redeemed db2 = pd_redeemed db1 \<and> pd_reports db2 = pd_reports db1"
    "ok \<longrightarrow> fst ` set (pd_redeemed db2) = fst ` set (pd_redeemed db1) \<union> (if pg_mode g = ''one-time'' then {pg_id g} else {}) \<and>
       pd_reports db2 = pd_reports db1 @ [\<lparr>rr_seq = next_rowid (pd_reports db1), rr_grant = pg_id g, rr_at = now\<rparr>]"
    using record_effect [OF r 1(1)] by auto
  consider (refused) e where "res = Inl e" "s' = s1" | (failed) e where "res = Inl e" "s' = s2" "\<not> ok"
    | (passed) "\<not> already" "ok" "res = Inr g"
        "s' = (if pg_mode g = ''one-time'' then s2\<lparr>ps_redeemed := insert (pg_id g) (ps_redeemed s2)\<rparr> else s2)"
    using assms(1) unfolding redeem_grant_def by (auto simp: a r split: if_split_asm)
  then show ?thesis
  proof cases
    case refused
    then show ?thesis using 1 by (simp add: gate_post_def)
  next
    case failed
    then show ?thesis using 1 2 by (simp add: gate_post_def)
  next
    case passed
    then show ?thesis using 1 2 by (simp add: gate_post_def)
  qed
qed

lemma gate_effect:
  assumes "redeem_gate now selector s = (res, s')" "ps_store s = Some db"
  shows "\<exists>db'. ps_store s' = Some db' \<and> ps_tokens s' = ps_tokens s \<and> gate_post now db db' res"
proof -
  consider (plain) e where "res = Inl e" "s' = s" | (checked) g where "redeem_grant now g s = (res, s')"
    using assms(1) by (auto simp: redeem_gate_def split: if_split_asm option.split_asm)
  then show ?thesis
  proof cases
    case plain
    then show ?thesis using assms(2) by (simp add: gate_post_def)
  next
    case checked
    then show ?thesis using redeem_grant_effect [OF checked assms(2)] by blast
  qed
qed

lemma mint_effect:
  assumes "mint_session hash now token screen s = (res, s')" "ps_store s = Some db"
  shows "\<exists>db' ok. ps_store s' = Some db' \<and>
    ps_tokens s' = AList.update token \<lparr>ct_screen = screen, ct_expires = i64 (now + 86400000), ct_terminated = False\<rparr> (ps_tokens s) \<and>
    pd_redeemed db' = pd_redeemed db \<and> pd_reports db' = pd_reports db \<and> pd_rfaults db' = pd_rfaults db \<and>
    pd_sessions db' = (if ok then AList.update (hash token)
       \<lparr>psr_screen = screen, psr_expires = i64 (now + 86400000), psr_terminated = 0\<rparr> (pd_sessions db) else pd_sessions db)"
  using assms
  by (auto simp: mint_session_def Let_def SetPlayerSession_def split: prod.splits elim!: db_write_cases)

text \<open>A lookup finds in memory or loads a session the tables hold, and changes nothing else.\<close>

lemma lookup_effect:
  assumes "lookupSession hash token s = (res, s')" "ps_store s = Some db"
  shows "\<exists>db'. ps_store s' = Some db' \<and> pd_sessions db' = pd_sessions db \<and> pd_redeemed db' = pd_redeemed db \<and>
    pd_reports db' = pd_reports db \<and> (pd_rfaults db = [] \<longrightarrow> pd_rfaults db' = []) \<and> ps_revoked s' = ps_revoked s \<and>
    (case res of None \<Rightarrow> ps_tokens s' = ps_tokens s
     | Some r \<Rightarrow> (ps_tokens s' = ps_tokens s \<and> map_of (ps_tokens s) token = Some r) \<or>
         (\<exists>d. map_of (pd_sessions db) (hash token) = Some d \<and> ps_tokens s' = AList.update token r (ps_tokens s) \<and>
            ct_screen r = psr_screen d \<and> ct_expires r = psr_expires d \<and> (Terminated d \<longrightarrow> ct_terminated r)))"
proof (cases "map_of (ps_tokens s) token")
  case (Some r)
  then have "res = Some r \<and> s' = s" using assms(1) by (simp add: lookupSession_def lookup_read_def)
  then show ?thesis using assms(2) Some by simp
next
  case None
  obtain found db' where f: "PlayerSession (hash token) db = (found, db')" by force
  then have db': "db' = db\<lparr>pd_rfaults := tl (pd_rfaults db)\<rparr>"
    "found = None \<or> found = Some (map_of (pd_sessions db) (hash token))"
    by (auto simp: PlayerSession_def db_read_def Let_def split: if_splits)
  show ?thesis
  proof (cases "\<exists>d. found = Some (Some d)")
    case False
    then have "res = None \<and> s' = s\<lparr>ps_store := Some db'\<rparr>"
      using assms None f by (cases found; cases "the found") (auto simp: lookupSession_def lookup_read_def)
    then show ?thesis using db'(1) by simp
  next
    case True
    then obtain d where d: "found = Some (Some d)" by blast
    let ?r = "\<lparr>ct_screen = psr_screen d, ct_expires = psr_expires d, ct_terminated = Terminated d\<rparr>"
    have "lookupSession hash token s = (let (r', s'') = lookup_fill token ?r (s\<lparr>ps_store := Some db'\<rparr>) in (Some r', s''))"
      using assms(2) None f d by (simp add: lookupSession_def lookup_read_def)
    moreover have "map_of (pd_sessions db) (hash token) = Some d" using db'(2) d by simp
    ultimately show ?thesis using assms(1) db'(1) by (auto simp: lookup_fill_def Let_def)
  qed
qed

text \<open>Terminating sessions only ever sets their mark, and sets it on every live row of the screens when each write succeeds.\<close>

definition terminated_from :: "(string \<times> PlayerSessionRecord) list \<Rightarrow> (string \<times> PlayerSessionRecord) list \<Rightarrow> bool" where
  "terminated_from rows rows' \<longleftrightarrow>
     list_all2 (\<lambda>(x, d) (x', d'). x' = x \<and> psr_screen d' = psr_screen d \<and> psr_expires d' = psr_expires d \<and>
       (Terminated d \<longrightarrow> Terminated d')) rows rows'"

lemma terminated_from_refl: "terminated_from rows rows"
  by (auto simp: terminated_from_def list_all2_same)

lemma terminated_from_trans: "terminated_from xs ys \<Longrightarrow> terminated_from ys zs \<Longrightarrow> terminated_from xs zs"
  unfolding terminated_from_def by (rule list_all2_trans) auto

lemma terminated_from_map_of:
  "terminated_from rows rows' \<Longrightarrow> map_of rows' x = Some d' \<Longrightarrow>
     \<exists>d. map_of rows x = Some d \<and> psr_screen d' = psr_screen d \<and> psr_expires d' = psr_expires d \<and> (Terminated d \<longrightarrow> Terminated d')"
  unfolding terminated_from_def by (induction rule: list_all2_induct) (auto split: if_splits)

lemma terminated_from_set:
  assumes "terminated_from rows rows'" "(x, d') \<in> set rows'"
  shows "\<exists>d. (x, d) \<in> set rows \<and> psr_screen d' = psr_screen d \<and> (Terminated d \<longrightarrow> Terminated d')"
proof -
  obtain i where i: "i < length rows'" "rows' ! i = (x, d')" using assms(2) by (auto simp: in_set_conv_nth)
  obtain y d where d: "rows ! i = (y, d)" by force
  have "i < length rows" using i assms(1) by (simp add: terminated_from_def list_all2_lengthD)
  then show ?thesis
    using assms(1) i d nth_mem [of i rows] by (auto simp: terminated_from_def dest!: list_all2_nthD [of _ rows rows' i])
qed

lemma terminate_rows_from: "atMs \<noteq> 0 \<Longrightarrow> terminated_from (pd_sessions db) (pd_sessions (terminate_rows ids atMs db))"
  by (auto simp: terminate_rows_def terminated_from_def list_all2_map2 list_all2_same Terminated_def live_in_def)

lemma terminate_chunks_effect:
  assumes "atMs \<noteq> 0" "terminate_chunks ids atMs db = ((n, ok), db')"
  shows "terminated_from (pd_sessions db) (pd_sessions db') \<and> pd_redeemed db' = pd_redeemed db \<and> pd_reports db' = pd_reports db \<and>
    pd_rfaults db' = pd_rfaults db \<and> (ok \<longrightarrow> (\<forall>(x, d) \<in> set (pd_sessions db'). psr_screen d \<in> set ids \<longrightarrow> Terminated d))"
  using assms
proof (induction ids atMs db arbitrary: n ok db' rule: terminate_chunks.induct)
  case (1 ids m db)
  show ?case
  proof (cases "ids = []")
    case True
    then show ?thesis using 1(3) by (simp add: terminate_chunks.simps [of "[]"] terminated_from_refl)
  next
    case False
    let ?c = "take terminateChunk ids"
    obtain okc db1 where w: "db_write (terminate_rows ?c m) db = (okc, db1)" by force
    obtain n' oks db2 where rec: "terminate_chunks (drop terminateChunk ids) m db1 = ((n', oks), db2)" by (metis prod_cases3 surj_pair)
    have out: "ok = (okc \<and> oks)" "db' = db2"
      using 1(3) False by (auto simp: terminate_chunks.simps [of ids] w rec Let_def)
    note nz = 1(2)
    note ih = 1(1) [OF False refl refl w [symmetric] 1(2) rec]
    have first: "terminated_from (pd_sessions db) (pd_sessions db1) \<and> pd_redeemed db1 = pd_redeemed db \<and>
        pd_reports db1 = pd_reports db \<and> pd_rfaults db1 = pd_rfaults db \<and>
        (okc \<longrightarrow> (\<forall>(x, d) \<in> set (pd_sessions db1). psr_screen d \<in> set ?c \<longrightarrow> Terminated d))"
      using w
    proof (cases rule: db_write_cases)
      case 1
      then show ?thesis
        using terminate_rows_from [OF nz, of "db\<lparr>pd_wfaults := tl (pd_wfaults db)\<rparr>" ?c] nz
        by (auto simp: terminate_rows_def Terminated_def live_in_def split: if_splits)
    next
      case 2
      then show ?thesis by (simp add: terminated_from_refl)
    qed
    have "Terminated d" if t: "ok" "(x, d) \<in> set (pd_sessions db2)" "psr_screen d \<in> set ids" for x d
    proof (cases "psr_screen d \<in> set ?c")
      case True
      obtain d1 where "(x, d1) \<in> set (pd_sessions db1)" "psr_screen d = psr_screen d1" "Terminated d1 \<longrightarrow> Terminated d"
        using terminated_from_set ih t(2) by blast
      moreover have "\<forall>(x, d) \<in> set (pd_sessions db1). psr_screen d \<in> set ?c \<longrightarrow> Terminated d" using first t(1) out(1) by simp
      ultimately show ?thesis using True by (metis (mono_tags, lifting) case_prodD)
    next
      case False
      then have "psr_screen d \<in> set (drop terminateChunk ids)"
        using t(3) by (metis Un_iff append_take_drop_id set_append)
      then show ?thesis using ih that out(1) by fastforce
    qed
    then have "ok \<longrightarrow> (\<forall>(x, d) \<in> set (pd_sessions db2). psr_screen d \<in> set ids \<longrightarrow> Terminated d)" by blast
    moreover have "terminated_from (pd_sessions db) (pd_sessions db2)" using terminated_from_trans first ih by blast
    ultimately show ?thesis using first ih unfolding out(2) by simp
  qed
qed

text \<open>The ledger of owed reports.\<close>

lemma next_rowid_gt: "r \<in> set rows \<Longrightarrow> rr_seq r < next_rowid rows"
proof -
  have "fold (\<lambda>r m. max m (rr_seq r)) rows n = Max (insert n (rr_seq ` set rows))" for n
  proof (induction rows arbitrary: n)
    case (Cons r rs)
    then show ?case by (cases "rs = []") (simp_all add: max.commute max.left_commute)
  qed simp
  then show "r \<in> set rows \<Longrightarrow> rr_seq r < next_rowid rows" by (simp add: next_rowid_def le_imp_less_Suc order.strict_trans1)
qed

definition dropped_rows :: "string set \<Rightarrow> (string \<times> channelTokenRecord) list \<Rightarrow> (string \<times> channelTokenRecord) list" where
  "dropped_rows screens rows =
     map (\<lambda>(t, r). (t, if ct_terminated r \<or> ct_screen r \<notin> screens then r else r\<lparr>ct_terminated := True\<rparr>)) rows"

lemma drop_effect:
  assumes "dropSessionsForLocked screens nowMs s = (ok, s')" "ps_store s = Some db" "finite screens"
  shows "\<exists>db'. ps_store s' = Some db' \<and> terminated_from (pd_sessions db) (pd_sessions db') \<and> pd_redeemed db' = pd_redeemed db \<and>
    pd_reports db' = pd_reports db \<and> pd_rfaults db' = pd_rfaults db \<and>
    (ok \<longrightarrow> (\<forall>(x, d) \<in> set (pd_sessions db'). psr_screen d \<in> screens \<longrightarrow> Terminated d)) \<and>
    ps_tokens s' = dropped_rows screens (ps_tokens s)"
proof (cases "screens = {}")
  case True
  then have "ok \<and> s' = s" using assms(1) by (simp add: dropSessionsForLocked_def)
  moreover have "dropped_rows {} (ps_tokens s) = ps_tokens s" unfolding dropped_rows_def by (rule map_idI) auto
  ultimately show ?thesis using True assms(2) by (simp add: terminated_from_refl)
next
  case False
  let ?m = "if nowMs = 0 then 1 else nowMs"
  obtain n oks db' where t: "terminate_chunks (sorted_list_of_set screens) ?m db = ((n, oks), db')" by (metis prod_cases3 surj_pair)
  have m: "?m \<noteq> 0" by simp
  have T: "TerminatePlayerSessionsForScreens (sorted_list_of_set screens) ?m db = ((n, oks), db')"
    unfolding TerminatePlayerSessionsForScreens_def by (simp only: m t if_False)
  have "ok = oks \<and> s' = s\<lparr>ps_tokens := dropped_rows screens (ps_tokens s), ps_store := Some db'\<rparr>"
    using assms(1,2) False T by (simp add: dropSessionsForLocked_def dropped_rows_def Let_def)
  then show ?thesis
    using terminate_chunks_effect [OF m t] set_sorted_list_of_set [OF assms(3)] by (intro exI [of _ db']) simp
qed

lemma revoke_effect:
  assumes "SetRevokedScreens generation ids nowMs s = (ok, s')" "ps_store s = Some db" "\<not> generation < ps_revokedGen s"
  shows "\<exists>db'. ps_store s' = Some db' \<and> terminated_from (pd_sessions db) (pd_sessions db') \<and> pd_redeemed db' = pd_redeemed db \<and>
    pd_reports db' = pd_reports db \<and> pd_rfaults db' = pd_rfaults db \<and>
    (ok \<longrightarrow> (\<forall>(x, d) \<in> set (pd_sessions db'). psr_screen d \<in> set ids - {''''} \<longrightarrow> Terminated d)) \<and>
    ps_tokens s' = dropped_rows (set ids - {''''}) (ps_tokens s)"
proof -
  have eq: "set (filter (\<lambda>i. i \<noteq> '''') ids) = set ids - {''''}" by auto
  let ?s = "s\<lparr>ps_revokedGen := generation, ps_revoked := set ids - {''''}\<rparr>"
  have "dropSessionsForLocked (set ids - {''''}) nowMs ?s = (ok, s')"
    using assms(1,3) unfolding SetRevokedScreens_def eq Let_def by simp
  from drop_effect [OF this, of db] assms(2) show ?thesis by simp
qed

definition owed_or_delivered :: "RedemptionReport list \<Rightarrow> (string \<times> int) list \<Rightarrow> RedemptionReport list \<Rightarrow> bool" where
  "owed_or_delivered rows sent rows' \<longleftrightarrow> distinct (map rr_seq rows') \<and>
     mset (map report_key rows) \<subseteq># mset (map report_key rows') + mset sent"

lemma mset_remove_key:
  assumes "distinct (map f xs)" "r \<in> set xs"
  shows "mset xs = add_mset r (mset (filter (\<lambda>x. f x \<noteq> f r) xs))"
  using assms
proof (induction xs)
  case (Cons x xs)
  show ?case
  proof (cases "x = r")
    case True
    then have "filter (\<lambda>y. f y \<noteq> f r) xs = xs" using Cons.prems(1) by (intro filter_True) (auto simp: image_iff)
    then show ?thesis using True by simp
  next
    case False
    then have "f x \<noteq> f r" "r \<in> set xs" using Cons.prems by (auto simp: image_iff)
    then show ?thesis using Cons by simp
  qed
qed simp

lemma report_rows_effect:
  assumes "report_rows rs as s = (sent, s')" "ps_store s = Some db" "distinct (map rr_seq rs)" "set rs \<subseteq> set (pd_reports db)"
    "distinct (map rr_seq (pd_reports db))"
  shows "\<exists>db'. ps_store s' = Some db' \<and> pd_sessions db' = pd_sessions db \<and> pd_redeemed db' = pd_redeemed db \<and>
    pd_rfaults db' = pd_rfaults db \<and> ps_tokens s' = ps_tokens s \<and>
    owed_or_delivered (pd_reports db) (report_delivered sent) (pd_reports db')"
  using assms
proof (induction rs as s arbitrary: sent s' db rule: report_rows.induct)
  case (3 r rs a as s)
  show ?case
  proof (cases "a = ReportFailed")
    case True
    then show ?thesis using 3(2-) by (auto simp: owed_or_delivered_def report_delivered_def)
  next
    case False
    obtain ok s1 where m: "MarkRedemptionReported (rr_seq r) s = (ok, s1)" by force
    obtain db1 where db1: "ps_store s1 = Some db1" "db_MarkRedemptionReported (rr_seq r) db = (ok, db1)" "ps_tokens s1 = ps_tokens s"
      using m 3(3) by (auto simp: MarkRedemptionReported_def split: prod.splits)
    show ?thesis
    proof (cases ok)
      case no: False
      then have "sent = [(r, a)] \<and> s' = s1" using 3(2) False m by simp
      moreover have "db1 = db\<lparr>pd_wfaults := tl (pd_wfaults db)\<rparr>"
        using db1(2) no by (auto simp: db_MarkRedemptionReported_def elim!: db_write_cases)
      ultimately show ?thesis using db1 3(6) by (simp add: owed_or_delivered_def)
    next
      case yes: True
      obtain sent1 where rec: "report_rows rs as s1 = (sent1, s')" "sent = (r, a) # sent1"
        using 3(2) False m yes by (auto split: prod.splits)
      have d1: "db1 = db\<lparr>pd_wfaults := tl (pd_wfaults db), pd_reports := filter (\<lambda>x. rr_seq x \<noteq> rr_seq r) (pd_reports db)\<rparr>"
        using db1(2) yes by (auto simp: db_MarkRedemptionReported_def elim!: db_write_cases)
      have "rr_seq r \<notin> rr_seq ` set rs" using 3(4) by simp
      then have "\<forall>x \<in> set rs. rr_seq x \<noteq> rr_seq r" by (metis image_eqI)
      then have "r \<in> set (pd_reports db)" "set rs \<subseteq> set (pd_reports db1)" "distinct (map rr_seq (pd_reports db1))"
        using 3(5,6) by (auto simp: d1 distinct_map_filter)
      moreover have "distinct (map rr_seq rs)" using 3(4) by simp
      ultimately obtain db' where db': "ps_store s' = Some db'" "pd_sessions db' = pd_sessions db1" "pd_redeemed db' = pd_redeemed db1"
        "pd_rfaults db' = pd_rfaults db1" "ps_tokens s' = ps_tokens s1"
        "owed_or_delivered (pd_reports db1) (report_delivered sent1) (pd_reports db')"
        using 3(1) [OF False m [symmetric] _ rec(1) db1(1)] yes by auto
      have "mset (pd_reports db) = add_mset r (mset (pd_reports db1))"
        using mset_remove_key [OF 3(6) \<open>r \<in> set (pd_reports db)\<close>] by (simp add: d1)
      then have "mset (map report_key (pd_reports db)) = add_mset (report_key r) (mset (map report_key (pd_reports db1)))"
        unfolding mset_map by simp
      then show ?thesis using db' d1 False rec(2) db1(3) by (auto simp: owed_or_delivered_def report_delivered_def)
    qed
  qed
qed (auto simp: owed_or_delivered_def report_delivered_def)

lemma reports_effect:
  assumes "reportRedemptions answers s = (sent, s')" "ps_store s = Some db" "distinct (map rr_seq (pd_reports db))"
  shows "\<exists>db'. ps_store s' = Some db' \<and> pd_sessions db' = pd_sessions db \<and> pd_redeemed db' = pd_redeemed db \<and>
    (pd_rfaults db = [] \<longrightarrow> pd_rfaults db' = []) \<and> ps_tokens s' = ps_tokens s \<and>
    owed_or_delivered (pd_reports db) (report_delivered sent) (pd_reports db')"
proof -
  obtain rows db1 where r: "db_PendingRedemptionReports db = (rows, db1)" by force
  then have db1: "db1 = db\<lparr>pd_rfaults := tl (pd_rfaults db)\<rparr>" "rows = None \<or> rows = Some (sort_key rr_seq (pd_reports db))"
    by (auto simp: db_PendingRedemptionReports_def db_read_def Let_def split: if_splits)
  have P: "PendingRedemptionReports s = (rows, s\<lparr>ps_store := Some db1\<rparr>)" using assms(2) r by (simp add: PendingRedemptionReports_def)
  show ?thesis
  proof (cases rows)
    case None
    then show ?thesis using assms P db1(1) by (auto simp: reportRedemptions_def owed_or_delivered_def report_delivered_def)
  next
    case (Some rs)
    have rs: "rs = sort_key rr_seq (pd_reports db)" using Some db1(2) by simp
    have "report_rows rs answers (s\<lparr>ps_store := Some db1\<rparr>) = (sent, s')" using assms(1) P Some by (simp add: reportRedemptions_def)
    moreover have "distinct (map rr_seq rs)"
      using assms(3) mset_eq_imp_distinct_iff [of "map rr_seq rs" "map rr_seq (pd_reports db)"] by (simp add: rs)
    ultimately show ?thesis
      using report_rows_effect [of rs answers "s\<lparr>ps_store := Some db1\<rparr>" sent s' db1] assms(3) by (auto simp: rs db1(1))
  qed
qed

section \<open>The invariants\<close>

lemma sessions_inv_mint:
  assumes "sessions_inv hash s db h" "rd_token rec \<notin> ph_seen h"
    "ps_tokens s' = AList.update (rd_token rec)
       \<lparr>ct_screen = rd_screen rec, ct_expires = rd_expires rec, ct_terminated = False\<rparr> (ps_tokens s)"
    "pd_sessions db' = (if ok then AList.update (hash (rd_token rec))
       \<lparr>psr_screen = rd_screen rec, psr_expires = rd_expires rec, psr_terminated = 0\<rparr> (pd_sessions db) else pd_sessions db)"
  shows "sessions_inv hash s' db' (after_mint g now rec h)"
proof -
  have new: "rd_token rec \<notin> ph_dropped h" "rd_token rec \<notin> rd_token ` set (ph_minted h)"
    using assms(1,2) by (auto simp: sessions_inv_def)
  have dropped: "ph_dropped (after_mint g now rec h) = ph_dropped h" by (simp add: after_mint_def)
  have D: "\<exists>t. hash t = x \<and> session_minted t (psr_screen d) (psr_expires d) (after_mint g now rec h) \<and>
      (t \<in> ph_dropped h \<longrightarrow> Terminated d)" if "map_of (pd_sessions db') x = Some d" for x d
  proof (cases "map_of (pd_sessions db) x = Some d")
    case True
    then show ?thesis using assms(1) unfolding sessions_inv_def session_minted_after_mint by blast
  next
    case False
    then have "x = hash (rd_token rec) \<and> psr_screen d = rd_screen rec \<and> psr_expires d = rd_expires rec"
      using that assms(4) by (auto simp: update_conv' split: if_splits)
    then show ?thesis using new(1) session_minted_after_mint by auto
  qed
  have M: "session_minted t (ct_screen r) (ct_expires r) (after_mint g now rec h) \<and> (t \<in> ph_dropped h \<longrightarrow> ct_terminated r)"
    if "map_of (ps_tokens s') t = Some r" for t r
    using that new(1) assms(1) by (auto simp: assms(3) update_conv' session_minted_after_mint sessions_inv_def split: if_splits)
  have "rd_token ` set (ph_minted (after_mint g now rec h)) \<subseteq> ph_seen (after_mint g now rec h)"
    "ph_dropped h \<subseteq> ph_seen (after_mint g now rec h)" "distinct (map rd_token (ph_minted (after_mint g now rec h)))"
    using assms(1) new(2) by (auto simp: sessions_inv_def after_mint_def)
  then show ?thesis using D M unfolding sessions_inv_def dropped by blast
qed

lemma minted_once:
  assumes "distinct (map rd_token ms)" "rec \<in> set ms" "rec' \<in> set ms" "rd_token rec = rd_token rec'"
  shows "rec = rec'"
  using assms by (auto simp: distinct_map dest: inj_onD)

lemma sessions_inv_drop:
  assumes inv: "sessions_inv hash s db h" and rows: "terminated_from (pd_sessions db) (pd_sessions db')"
    and full: "ok \<longrightarrow> (\<forall>(x, d) \<in> set (pd_sessions db'). psr_screen d \<in> screens \<longrightarrow> Terminated d)"
    and mem: "ps_tokens s' = dropped_rows screens (ps_tokens s)"
    and h': "h' = (if ok then h\<lparr>ph_dropped := ph_dropped h \<union>
      {rd_token rec | rec. rec \<in> set (ph_minted h) \<and> rd_screen rec \<in> screens}\<rparr> else h)"
  shows "sessions_inv hash s' db' h'"
proof -
  have sm: "session_minted t scr e h' = session_minted t scr e h" for t scr e by (simp add: h' session_minted_def)
  have dropped: "t \<in> ph_dropped h \<or> (ok \<and> scr \<in> screens)" if t: "t \<in> ph_dropped h'" "session_minted t scr e h" for t scr e
  proof (cases "t \<in> ph_dropped h")
    case False
    then obtain rec where "ok" "rec \<in> set (ph_minted h)" "rd_screen rec \<in> screens" "rd_token rec = t"
      using t(1) by (auto simp: h' split: if_splits)
    moreover obtain rec' where "rec' \<in> set (ph_minted h)" "rd_token rec' = t" "rd_screen rec' = scr"
      using t(2) by (auto simp: session_minted_def)
    ultimately show ?thesis using minted_once inv by (metis sessions_inv_def)
  qed simp
  have M: "session_minted t (ct_screen r) (ct_expires r) h \<and> (t \<in> ph_dropped h' \<longrightarrow> ct_terminated r)"
    if r: "map_of (ps_tokens s') t = Some r" for t r
  proof -
    obtain r0 where r0: "map_of (ps_tokens s) t = Some r0"
        "r = (if ct_terminated r0 \<or> ct_screen r0 \<notin> screens then r0 else r0\<lparr>ct_terminated := True\<rparr>)"
      using r by (auto simp: mem dropped_rows_def map_of_rows)
    then have m: "session_minted t (ct_screen r) (ct_expires r) h" "t \<in> ph_dropped h \<longrightarrow> ct_terminated r"
      using inv by (auto simp: sessions_inv_def)
    moreover have "ct_screen r \<in> screens \<longrightarrow> ct_terminated r" using r0(2) by simp
    ultimately show ?thesis using dropped by blast
  qed
  have D: "\<exists>t. hash t = x \<and> session_minted t (psr_screen d') (psr_expires d') h \<and> (t \<in> ph_dropped h' \<longrightarrow> Terminated d')"
    if d': "map_of (pd_sessions db') x = Some d'" for x d'
  proof -
    obtain d where d: "map_of (pd_sessions db) x = Some d" "psr_screen d' = psr_screen d" "psr_expires d' = psr_expires d"
        "Terminated d \<longrightarrow> Terminated d'"
      using terminated_from_map_of [OF rows d'] by blast
    then obtain t where t: "hash t = x" "session_minted t (psr_screen d') (psr_expires d') h" "t \<in> ph_dropped h \<longrightarrow> Terminated d'"
      using inv unfolding sessions_inv_def by metis
    have "ok \<longrightarrow> psr_screen d' \<in> screens \<longrightarrow> Terminated d'" using full map_of_SomeD [OF d'] by blast
    then show ?thesis using t dropped by blast
  qed
  have "rd_token ` set (ph_minted h') \<subseteq> ph_seen h'" "ph_dropped h' \<subseteq> ph_seen h'" "distinct (map rd_token (ph_minted h'))"
    using inv by (auto simp: h' sessions_inv_def)
  then show ?thesis using M D unfolding sessions_inv_def sm by blast
qed

lemma sessions_inv_lookup:
  assumes inv: "sessions_inv hash s db h" and inj: "inj_on hash (insert token (ph_seen h))"
    and load: "map_of (pd_sessions db) (hash token) = Some d" "ps_tokens s' = AList.update token r (ps_tokens s)"
      "ct_screen r = psr_screen d" "ct_expires r = psr_expires d" "Terminated d \<longrightarrow> ct_terminated r"
  shows "sessions_inv hash s' db h"
proof -
  obtain t where t: "hash t = hash token" "session_minted t (psr_screen d) (psr_expires d) h" "t \<in> ph_dropped h \<longrightarrow> Terminated d"
    using inv load(1) unfolding sessions_inv_def by blast
  have "t \<in> ph_seen h" using t(2) inv by (auto simp: sessions_inv_def intro: session_minted_seen)
  then have "t = token" using inj_onD [OF inj t(1)] by simp
  then have "session_minted token (ct_screen r) (ct_expires r) h \<and> (token \<in> ph_dropped h \<longrightarrow> ct_terminated r)"
    using t load by simp
  then show ?thesis using inv by (auto simp: sessions_inv_def load(2) update_conv' split: if_splits)
qed

lemma sessions_inv_cong:
  "ps_tokens s' = ps_tokens s \<Longrightarrow> pd_sessions db' = pd_sessions db \<Longrightarrow> ph_minted h' = ph_minted h \<Longrightarrow> ph_dropped h' = ph_dropped h \<Longrightarrow>
     ph_seen h \<subseteq> ph_seen h' \<Longrightarrow> sessions_inv hash s db h \<Longrightarrow> sessions_inv hash s' db' h'"
  by (auto simp: sessions_inv_def session_minted_def)

text \<open>Every run keeps what the server answers from true to what happened.\<close>

definition pair_inv :: "(string \<Rightarrow> string) \<Rightarrow> bool list \<Rightarrow> pair_server \<Rightarrow> pair_history \<Rightarrow> bool" where
  "pair_inv hash rfaults s h \<longleftrightarrow>
     (\<exists>db. ps_store s = Some db \<and> sessions_inv hash s db h \<and> reports_inv db h \<and> grants_inv s db h \<and>
        (rfaults = [] \<longrightarrow> pd_rfaults db = [] \<and> distinct (ph_consumed h)))"

lemma pair_inv_intro:
  "ps_store s = Some db \<Longrightarrow> sessions_inv hash s db h \<Longrightarrow> reports_inv db h \<Longrightarrow> grants_inv s db h \<Longrightarrow>
     (rfaults = [] \<Longrightarrow> pd_rfaults db = [] \<and> distinct (ph_consumed h)) \<Longrightarrow> pair_inv hash rfaults s h"
  by (auto simp: pair_inv_def)

lemma pair_inv_restarted:
  assumes "pair_inv hash rfaults s h" "ps_store s = Some db"
  shows "pair_inv hash rfaults (EnablePersistence db (NewServer relayID grants)) h"
  using assms by (auto simp: pair_inv_def EnablePersistence_def NewServer_def sessions_inv_def grants_inv_def)

lemma pair_inv_refused:
  assumes "pair_inv hash rfaults s h" "redeem_gate now selector s = (Inl e, s')"
  shows "pair_inv hash rfaults s' h"
proof -
  obtain db where db: "ps_store s = Some db" "sessions_inv hash s db h" "reports_inv db h" "grants_inv s db h"
      "rfaults = [] \<longrightarrow> pd_rfaults db = [] \<and> distinct (ph_consumed h)"
    using assms(1) by (auto simp: pair_inv_def)
  obtain db' where "ps_store s' = Some db'" "ps_tokens s' = ps_tokens s" "gate_post now db db' (Inl e)"
    using gate_effect [OF assms(2) db(1)] by blast
  then show ?thesis
    using db sessions_inv_cong [of s' s db' db h h hash]
    by (intro pair_inv_intro [of s' db']) (auto simp: gate_post_def reports_inv_def grants_inv_def)
qed

lemma pair_inv_redeemed:
  assumes "pair_inv hash rfaults s h" "redeem_gate now selector s = (Inr g, s1)" "rd_token rec \<notin> ph_seen h"
    "mint_session hash now (rd_token rec) (rd_screen rec) s1 = (res, s')" "rd_expires rec = i64 (now + 86400000)"
  shows "pair_inv hash rfaults s' (after_mint g now rec h)"
proof -
  obtain db where db: "ps_store s = Some db" "sessions_inv hash s db h" "reports_inv db h" "grants_inv s db h"
      "rfaults = [] \<longrightarrow> pd_rfaults db = [] \<and> distinct (ph_consumed h)"
    using assms(1) by (auto simp: pair_inv_def)
  obtain db1 where 1: "ps_store s1 = Some db1" "ps_tokens s1 = ps_tokens s" "gate_post now db db1 (Inr g)"
    using gate_effect [OF assms(2) db(1)] by blast
  have sd: "pd_sessions db1 = pd_sessions db" using 1(3) by (simp add: gate_post_def)
  obtain db' ok where 2: "ps_store s' = Some db'"
    "ps_tokens s' = AList.update (rd_token rec)
       \<lparr>ct_screen = rd_screen rec, ct_expires = rd_expires rec, ct_terminated = False\<rparr> (ps_tokens s)"
    "pd_redeemed db' = pd_redeemed db1" "pd_reports db' = pd_reports db1" "pd_rfaults db' = pd_rfaults db1"
    "pd_sessions db' = (if ok then AList.update (hash (rd_token rec))
       \<lparr>psr_screen = rd_screen rec, psr_expires = rd_expires rec, psr_terminated = 0\<rparr> (pd_sessions db) else pd_sessions db)"
    using mint_effect [OF assms(4) 1(1)] unfolding 1(2) sd assms(5) [symmetric] by blast
  show ?thesis
  proof (rule pair_inv_intro [OF 2(1)])
    show "sessions_inv hash s' db' (after_mint g now rec h)" by (rule sessions_inv_mint [OF db(2) assms(3) 2(2,6)])
    have "distinct (map rr_seq (pd_reports db'))"
      using db(3) 1(3) next_rowid_gt [of _ "pd_reports db"] by (fastforce simp: reports_inv_def gate_post_def 2(4))
    moreover have "mset (ph_recorded (after_mint g now rec h)) \<subseteq># mset (map report_key (pd_reports db')) + mset (ph_delivered h)"
      using db(3) 1(3) by (simp add: reports_inv_def gate_post_def 2(4) after_mint_def report_key_def)
    ultimately show "reports_inv db' (after_mint g now rec h)" by (simp add: reports_inv_def after_mint_def)
    show "grants_inv s' db' (after_mint g now rec h)"
      using db(4) 1(3) by (auto simp: grants_inv_def gate_post_def 2(3) after_mint_def)
    show "pd_rfaults db' = [] \<and> distinct (ph_consumed (after_mint g now rec h))" if "rfaults = []"
      using that db(4,5) 1(3) by (auto simp: grants_inv_def gate_post_def 2(5) after_mint_def)
  qed
qed

lemma pair_inv_revoked:
  assumes "pair_inv hash rfaults s h" "SetRevokedScreens generation ids now s = (ok, s')"
  shows "pair_inv hash rfaults s' (after_revocation generation ids s ok h)"
proof (cases "generation < ps_revokedGen s")
  case True
  then show ?thesis using assms by (simp add: SetRevokedScreens_def after_revocation_def)
next
  case False
  obtain db where db: "ps_store s = Some db" "sessions_inv hash s db h" "reports_inv db h" "grants_inv s db h"
      "rfaults = [] \<longrightarrow> pd_rfaults db = [] \<and> distinct (ph_consumed h)"
    using assms(1) by (auto simp: pair_inv_def)
  obtain db' where db': "ps_store s' = Some db'" "terminated_from (pd_sessions db) (pd_sessions db')" "pd_redeemed db' = pd_redeemed db"
    "pd_reports db' = pd_reports db" "pd_rfaults db' = pd_rfaults db"
    "ok \<longrightarrow> (\<forall>(x, d) \<in> set (pd_sessions db'). psr_screen d \<in> set ids - {''''} \<longrightarrow> Terminated d)"
    "ps_tokens s' = dropped_rows (set ids - {''''}) (ps_tokens s)"
    using revoke_effect [OF assms(2) db(1) False] by blast
  have "sessions_inv hash s' db' (after_revocation generation ids s ok h)"
    by (rule sessions_inv_drop [OF db(2) db'(2,6,7)]) (use False in \<open>simp add: after_revocation_def\<close>)
  then show ?thesis
    using db db' by (intro pair_inv_intro [of s' db']) (auto simp: reports_inv_def grants_inv_def after_revocation_def)
qed

lemma pair_inv_presented:
  assumes "pair_inv hash rfaults s h" "authorizeChannelToken hash now token s = (res, s')" "inj_on hash (insert token (ph_seen h))"
  shows "pair_inv hash rfaults s' (h\<lparr>ph_seen := insert token (ph_seen h)\<rparr>)"
proof -
  let ?h = "h\<lparr>ph_seen := insert token (ph_seen h)\<rparr>"
  obtain db where db: "ps_store s = Some db" "sessions_inv hash s db h" "reports_inv db h" "grants_inv s db h"
      "rfaults = [] \<longrightarrow> pd_rfaults db = [] \<and> distinct (ph_consumed h)"
    using assms(1) by (auto simp: pair_inv_def)
  have h: "sessions_inv hash s' db' h \<Longrightarrow> sessions_inv hash s' db' ?h" for db'
    by (rule sessions_inv_cong [of s' s' db' db']) auto
  show ?thesis
  proof (cases "token = ''''")
    case True
    then show ?thesis
      using assms(2) db h [of db] by (intro pair_inv_intro [of s' db]) (auto simp: authorizeChannelToken_def reports_inv_def grants_inv_def)
  next
    case False
    obtain r where l: "lookupSession hash token s = (r, s')"
      using assms(2) False by (auto simp: authorizeChannelToken_def split: prod.splits option.splits)
    obtain db' where db': "ps_store s' = Some db'" "pd_sessions db' = pd_sessions db" "pd_redeemed db' = pd_redeemed db"
      "pd_reports db' = pd_reports db" "pd_rfaults db = [] \<longrightarrow> pd_rfaults db' = []"
      "case r of None \<Rightarrow> ps_tokens s' = ps_tokens s
       | Some r \<Rightarrow> (ps_tokens s' = ps_tokens s \<and> map_of (ps_tokens s) token = Some r) \<or>
         (\<exists>d. map_of (pd_sessions db) (hash token) = Some d \<and> ps_tokens s' = AList.update token r (ps_tokens s) \<and>
            ct_screen r = psr_screen d \<and> ct_expires r = psr_expires d \<and> (Terminated d \<longrightarrow> ct_terminated r))"
      using lookup_effect [OF l db(1)] by blast
    have "sessions_inv hash s' db' h"
    proof (cases "ps_tokens s' = ps_tokens s")
      case True
      then show ?thesis using sessions_inv_cong [OF True db'(2), of h h] db(2) by simp
    next
      case False
      then obtain r' d where "map_of (pd_sessions db) (hash token) = Some d" "ps_tokens s' = AList.update token r' (ps_tokens s)"
        "ct_screen r' = psr_screen d" "ct_expires r' = psr_expires d" "Terminated d \<longrightarrow> ct_terminated r'"
        using db'(6) by (auto split: option.splits)
      from sessions_inv_lookup [OF db(2) assms(3) this] show ?thesis
        using sessions_inv_cong [of s' s' db' db h h hash] db'(2) by simp
    qed
    then show ?thesis
      using db db' h by (intro pair_inv_intro [of s' db']) (auto simp: reports_inv_def grants_inv_def)
  qed
qed

lemma pair_inv_reported:
  assumes "pair_inv hash rfaults s h" "reportRedemptions answers s = (sent, s')"
  shows "pair_inv hash rfaults s' (h\<lparr>ph_delivered := ph_delivered h @ report_delivered sent\<rparr>)"
proof -
  obtain db where db: "ps_store s = Some db" "sessions_inv hash s db h" "reports_inv db h" "grants_inv s db h"
      "rfaults = [] \<longrightarrow> pd_rfaults db = [] \<and> distinct (ph_consumed h)"
    using assms(1) by (auto simp: pair_inv_def)
  obtain db' where db': "ps_store s' = Some db'" "pd_sessions db' = pd_sessions db" "pd_redeemed db' = pd_redeemed db"
    "pd_rfaults db = [] \<longrightarrow> pd_rfaults db' = []" "ps_tokens s' = ps_tokens s"
    "owed_or_delivered (pd_reports db) (report_delivered sent) (pd_reports db')"
    using reports_effect [OF assms(2) db(1)] db(3) by (auto simp: reports_inv_def)
  have "mset (ph_recorded h) \<subseteq># mset (map report_key (pd_reports db)) + mset (ph_delivered h)" using db(3) by (simp add: reports_inv_def)
  also have "\<dots> \<subseteq># mset (map report_key (pd_reports db')) + mset (report_delivered sent) + mset (ph_delivered h)"
    using db'(6) by (simp add: owed_or_delivered_def)
  finally have "reports_inv db' (h\<lparr>ph_delivered := ph_delivered h @ report_delivered sent\<rparr>)"
    using db'(6) by (simp add: reports_inv_def owed_or_delivered_def ac_simps)
  then show ?thesis
    using db db' sessions_inv_cong [OF db'(5,2), of "h\<lparr>ph_delivered := ph_delivered h @ report_delivered sent\<rparr>" h hash]
    by (intro pair_inv_intro [of s' db']) (auto simp: grants_inv_def)
qed

lemma pair_run_inv: "pair_run hash rfaults s h \<Longrightarrow> inj_on hash (ph_seen h) \<Longrightarrow> pair_inv hash rfaults s h"
proof (induction rule: pair_run.induct)
  case (started db relayID grants)
  then show ?case
    by (intro pair_inv_intro [of _ db])
       (auto simp: EnablePersistence_def NewServer_def sessions_inv_def reports_inv_def grants_inv_def)
next
  case (granted s h generation grants)
  then show ?case by (auto simp: pair_inv_def SetPairingGrants_def sessions_inv_def grants_inv_def)
next
  case (refused s h now selector e s')
  then show ?case using pair_inv_refused by blast
next
  case (redeemed s h now selector g s1 token rnd screen res s')
  let ?rec = "\<lparr>rd_token = token, rd_screen = screen, rd_issuedAt = now, rd_expires = i64 (now + 86400000)\<rparr>"
  have "inj_on hash (ph_seen h)" using redeemed.prems by (auto simp: after_mint_def intro: inj_on_subset)
  then show ?case using pair_inv_redeemed [of hash rfaults s h now selector g s1 ?rec res s'] redeemed by simp
next
  case (revoked s h generation ids now ok s')
  have "inj_on hash (ph_seen h)" using revoked.prems by (simp add: after_revocation_def split: if_splits)
  then show ?case using revoked pair_inv_revoked by blast
next
  case (presented s h now token res s')
  have "inj_on hash (insert token (ph_seen h))" using presented.prems by simp
  then show ?case using presented pair_inv_presented by (meson inj_on_subset subset_insertI)
next
  case (reported s h answers sent s')
  have "inj_on hash (ph_seen h)" using reported.prems by simp
  then show ?case using reported pair_inv_reported by blast
next
  case (restarted s h db relayID grants)
  then show ?case using pair_inv_restarted by blast
qed

section \<open>What a relay promises about its sessions\<close>




definition demo_grant :: PairingGrant where
  "demo_grant = \<lparr>pg_id = ''g'', pg_screen = ''scr'', pg_relay = '''', pg_ttl = 60, pg_mode = ''one-time'', pg_issuedAt = 0\<rparr>"

definition demo_db :: "bool list \<Rightarrow> bool list \<Rightarrow> player_db" where
  "demo_db writes reads = \<lparr>pd_sessions = [], pd_redeemed = [], pd_reports = [], pd_wfaults = writes, pd_rfaults = reads\<rparr>"

definition demo_server :: "bool list \<Rightarrow> bool list \<Rightarrow> pair_server" where
  "demo_server writes reads = EnablePersistence (demo_db writes reads) (NewServer ''relay'' [demo_grant])"

definition demo_paired :: pair_server where
  "demo_paired = snd (redeem (\<lambda>t. t) 5 ''a'' ''b'' ''g'' (demo_server [] []))"

lemmas pair_eval = redeem_def redeem_gate_def redeem_grant_def grantAlreadyRedeemedLocked_def PairingGrantRedeemed_def
  recordRedemptionLocked_def RecordRedemption_def add_report_def mark_redeemed_def next_rowid_def mint_session_def
  SetPlayerSession_def db_write_def db_read_def Let_def demo_paired_def demo_server_def demo_db_def demo_grant_def grantIndex_def
  EnablePersistence_def NewServer_def authorizeChannelToken_def lookupSession_def lookup_read_def lookup_fill_def
  PlayerSession_def Terminated_def i64_def

lemma newOpaqueToken_nonempty: "newOpaqueToken prefix bytes \<noteq> []"
  by (simp add: newOpaqueToken_def)

lemma demo_gate: "fst (redeem_gate 5 ''g'' (demo_server [] [])) = Inr demo_grant"
  by (simp add: pair_eval newOpaqueToken_nonempty)

lemma demo_run:
  "\<exists>h. pair_run (\<lambda>t. t) [] demo_paired h \<and> ph_consumed h = [''g''] \<and> ph_recorded h = [(''g'', 5)] \<and> ph_delivered h = []"
proof -
  obtain s1 where gate: "redeem_gate 5 ''g'' (demo_server [] []) = (Inr demo_grant, s1)" using demo_gate by (metis prod.collapse)
  obtain res s2 where m: "mint_session (\<lambda>t. t) 5 (newOpaqueToken ''ct'' ''b'') ''scr'' s1 = (res, s2)" by force
  have "demo_paired = s2" using gate m by (simp add: demo_paired_def redeem_def demo_grant_def)
  moreover have start: "pair_run (\<lambda>t. t) [] (demo_server [] [])
      \<lparr>ph_minted = [], ph_dropped = {}, ph_consumed = [], ph_seen = {}, ph_recorded = [], ph_delivered = []\<rparr>"
    unfolding demo_server_def by (rule pair_run.started) (simp_all add: demo_db_def)
  note run = pair_run.redeemed [OF start gate refl _ m, simplified]
  ultimately show ?thesis
    by (intro exI [of _ "after_mint demo_grant 5 \<lparr>rd_token = newOpaqueToken ''ct'' ''b'', rd_screen = ''scr'', rd_issuedAt = 5,
      rd_expires = i64 (5 + 86400000)\<rparr> \<lparr>ph_minted = [], ph_dropped = {}, ph_consumed = [], ph_seen = {}, ph_recorded = [],
      ph_delivered = []\<rparr>"]) (use run in \<open>simp add: after_mint_def demo_grant_def\<close>)
qed




section \<open>Where the promises end\<close>

text \<open>
  The write of the session is not part of the transaction that consumes the grant.  When it fails the player gets no
  token and the one-time grant is spent: the retry is refused.
\<close>

lemma grant_burned:
  "(case redeem (\<lambda>t. t) 5 ''a'' ''b'' ''g'' (demo_server [False, True] []) of
      (res, s) \<Rightarrow> res = Inl SessionPersistFailed \<and> fst (redeem (\<lambda>t. t) 6 ''c'' ''d'' ''g'' s) = Inl PairingCodeInvalid)"
  by (simp add: pair_eval newOpaqueToken_nonempty)

text \<open>A read that fails counts as not redeemed: after a restart a one-time grant can be redeemed a second time.\<close>

lemma unreadable_is_unredeemed:
  "(case redeem (\<lambda>t. t) 5 ''a'' ''b'' ''g'' (demo_server [] [False, True]) of
      (res, s) \<Rightarrow> (\<exists>rec. res = Inr rec) \<and>
        (\<exists>rec. fst (redeem (\<lambda>t. t) 6 ''c'' ''d'' ''g'' (EnablePersistence (the (ps_store s)) (NewServer ''relay'' [demo_grant]))) =
           Inr rec))"
proof -
  let ?r = "redeem (\<lambda>t. t) 5 ''a'' ''b'' ''g'' (demo_server [] [False, True])"
  let ?q = "redeem (\<lambda>t. t) 6 ''c'' ''d'' ''g'' (EnablePersistence (the (ps_store (snd ?r))) (NewServer ''relay'' [demo_grant]))"
  have "isl (fst ?r) = False" "isl (fst ?q) = False"
    by (simp_all add: pair_eval newOpaqueToken_nonempty)
  then show ?thesis by (cases ?r; cases "fst ?r"; cases "fst ?q") auto
qed

text \<open>
  A lookup reads the tables with the lock released and looks at the revocations only after it.  When a revocation is
  installed and withdrawn in between, the lookup keeps a live session for a token whose session was dropped.
\<close>

lemma dropped_session_revived:
  "let tok = newOpaqueToken ''ct'' ''b'';
       s0 = EnablePersistence (the (ps_store demo_paired)) (NewServer ''relay'' []);
       s1 = snd (lookup_read (\<lambda>t. t) tok s0);
       s2 = snd (SetRevokedScreens 1 [''scr''] 7 s1);
       s3 = snd (SetRevokedScreens 2 [] 8 s2)
   in case fst (lookup_read (\<lambda>t. t) tok s0) of
        Inr (Some r) \<Rightarrow>
          fst (authorizeChannelToken (\<lambda>t. t) 9 tok s3) = Inl ChannelTokenInvalid \<and>
          fst (authorizeChannelToken (\<lambda>t. t) 9 tok (snd (lookup_fill tok r s3))) = Inr (''scr'', 9)
      | _ \<Rightarrow> False"
  by (simp add: pair_eval newOpaqueToken_nonempty SetRevokedScreens_def dropSessionsForLocked_def
      TerminatePlayerSessionsForScreens_def terminate_chunks.simps terminateChunk_def terminate_rows_def live_in_def)

end
