(* ===== verification/PlayerServer.thy ===== *)
theory PlayerServer
  imports Pairing Programs
begin

text \<open>
  What the relay serves its players: the programs in force and the leases made of them
  (\<open>internal/relay/playerserver/program.go\<close>), the live values drawn on a slide (\<open>internal/slidelive\<close>), the interactions
  of a screen (\<open>interaction.go\<close>), what is known of each screen (\<open>screenstatus.go\<close>) and the rules of recovery
  (\<open>liveness.go\<close>).  A handler takes the authorization header and the decoded body of a
  request of the right method; the id of a lease, its signature and the
  weather and entity sources are parameters, and so is the clock's reading, one for a call.
\<close>

section \<open>Live values\<close>

record Conditions =
  wc_tempF :: int
  wc_tempC :: int
  wc_text :: string

definition Unavailable :: string where
  "Unavailable = [CHR 0xE2, CHR 0x80, CHR 0x94]"

text \<open>\<open>strings.NewReplacer\<close> on tokens none of which is empty: at each byte the first token that matches there.\<close>

definition token_at :: "(string \<times> string) list \<Rightarrow> string \<Rightarrow> (string \<times> string) option" where
  "token_at tokens s = find (\<lambda>(old, new). old \<noteq> '''' \<and> take (length old) s = old) tokens"

function replace_tokens :: "(string \<times> string) list \<Rightarrow> string \<Rightarrow> string" where
  "replace_tokens tokens [] = []"
| "replace_tokens tokens (c # s) =
     (case token_at tokens (c # s) of
        Some (old, new) \<Rightarrow> new @ replace_tokens tokens (drop (length old - 1) s)
      | None \<Rightarrow> c # replace_tokens tokens s)"
  by pat_completeness auto

termination by (relation "measure (\<lambda>(t, s). length s)") auto

definition live_number :: "int \<Rightarrow> string" where
  "live_number n = format_int n"

definition weatherValue :: "string \<Rightarrow> Conditions option \<Rightarrow> string" where
  "weatherValue template c =
     (case c of
        None \<Rightarrow> replace_tokens [(''{temp}'', Unavailable), (''{tempc}'', Unavailable), (''{cond}'', Unavailable)] template
      | Some w \<Rightarrow> replace_tokens [(''{temp}'', live_number (wc_tempF w)), (''{tempc}'', live_number (wc_tempC w)),
            (''{cond}'', if wc_text w = '''' then Unavailable else wc_text w)] template)"

definition entityValue :: "string \<Rightarrow> string \<Rightarrow> (string \<Rightarrow> string option) option \<Rightarrow> string" where
  "entityValue template entityID src =
     (let value = (case src of None \<Rightarrow> Unavailable
          | Some states \<Rightarrow> (case states entityID of None \<Rightarrow> Unavailable | Some st \<Rightarrow> if st = '''' then Unavailable else st)) in
      replace_tokens [(''{state}'', value)] (if template = '''' then ''{state}'' else template))"

text \<open>The sources: the conditions read for the site, if there are any, and the entity states.\<close>

record Sources =
  so_weather :: "Conditions option"
  so_entity :: "(string \<Rightarrow> string option) option"

definition live_layer :: "Sources \<Rightarrow> Layer \<Rightarrow> Layer" where
  "live_layer src l =
     (if l_kind l = ''weather'' then l\<lparr>l_value := weatherValue (l_text l) (so_weather src)\<rparr>
      else if l_kind l = ''entity'' then l\<lparr>l_value := entityValue (l_text l) (l_entity l) (so_entity src)\<rparr> else l)"

definition live_layers :: "Sources \<Rightarrow> Layer list \<Rightarrow> Layer list" where
  "live_layers src layers = map (live_layer src) layers"

definition ResolveContent :: "Sources \<Rightarrow> LeaseContent list \<Rightarrow> LeaseContent list" where
  "ResolveContent src content =
     map (\<lambda>c. if lc_layers c \<noteq> [] then c\<lparr>lc_layers := live_layers src (lc_layers c)\<rparr> else c) content"

section \<open>The server\<close>

record LeaseAckRequest =
  la_lease :: string
  la_accepted :: bool
  la_reason :: string

record RenderStartRequest =
  rs_lease_id :: string
  rs_asset :: string
  rs_ts :: int

record RenderEndRequest =
  re_screen :: string
  re_asset :: string
  re_revision :: string
  re_start :: int
  re_end :: int
  re_cause :: string
  re_completion :: string

record screenLiveness =
  sl_pull :: int
  sl_ack :: int
  sl_render :: int
  sl_unacked :: int
  sl_revision :: string
  sl_priority :: string
  sl_display :: string
  sl_lease :: string
  sl_acked_revision :: string
  sl_acked_display :: string
  sl_acked_count :: int
  sl_rejected :: bool
  sl_rejected_revision :: string
  sl_reason :: string
  sl_count :: int
  sl_asset :: string

definition no_liveness :: screenLiveness where
  "no_liveness = \<lparr>sl_pull = 0, sl_ack = 0, sl_render = 0, sl_unacked = 0, sl_revision = '''', sl_priority = '''', sl_display = '''',
     sl_lease = '''', sl_acked_revision = '''', sl_acked_display = '''', sl_acked_count = 0, sl_rejected = False,
     sl_rejected_revision = '''', sl_reason = '''', sl_count = 0, sl_asset = ''''\<rparr>"

record player_server =
  pl_pair :: pair_server
  pl_programs :: "(string \<times> served_program) list"
  pl_gens :: "string \<Rightarrow> int"
  pl_key :: bool
  pl_acks :: "(string \<times> LeaseAckRequest) list"
  pl_ackOrder :: "string list"
  pl_issued :: "string \<Rightarrow> string list"
  pl_starts :: "RenderStartRequest list"
  pl_ends :: "RenderEndRequest list"
  pl_live :: Sources
  pl_liveness :: "(string \<times> screenLiveness) list"

definition new_player_server :: "pair_server \<Rightarrow> player_server" where
  "new_player_server s =
     \<lparr>pl_pair = s, pl_programs = [], pl_gens = (\<lambda>_. 0), pl_key = False, pl_acks = [], pl_ackOrder = [], pl_issued = (\<lambda>_. []),
      pl_starts = [], pl_ends = [], pl_live = \<lparr>so_weather = None, so_entity = None\<rparr>, pl_liveness = []\<rparr>"

definition SetSlideLive :: "Sources \<Rightarrow> player_server \<Rightarrow> player_server" where
  "SetSlideLive src s = s\<lparr>pl_live := src\<rparr>"

text \<open>A key of the right size is installed.\<close>

definition SetSigningKey :: "bool \<Rightarrow> player_server \<Rightarrow> player_server" where
  "SetSigningKey usable s = s\<lparr>pl_key := usable\<rparr>"

section \<open>Programs\<close>

definition terminalDefault :: served_program where
  "terminalDefault = \<lparr>sv_revision = ''terminal:blank'', sv_priority = ''scheduled'', sv_display = ''blank'', sv_content = []\<rparr>"

definition server_SetProgram :: "int \<Rightarrow> string \<Rightarrow> served_program \<Rightarrow> player_server \<Rightarrow> player_server" where
  "server_SetProgram generation screenID prog s =
     (if screenID = '''' then s
      else if generation < pl_gens s screenID then s
      else if generation = pl_gens s screenID \<and>
          (case map_of (pl_programs s) screenID of None \<Rightarrow> False | Some p \<Rightarrow> sv_priority p = ''preempt'') \<and>
          sv_priority prog \<noteq> ''preempt'' then s
      else s\<lparr>pl_gens := (pl_gens s)(screenID := generation), pl_programs := AList.update screenID prog (pl_programs s)\<rparr>)"

definition served_item :: "ContentRef \<Rightarrow> LeaseContent option" where
  "served_item c =
     (let ty = (if xr_type c = '''' then ''image'' else xr_type c) in
      if ty = ''slide'' \<and> ValidateSlideLayers (xr_layers c) \<noteq> None then None
      else Some \<lparr>lc_type = ty, lc_asset = xr_asset c, lc_url = xr_url c, lc_expires = xr_expires c,
        lc_duration_ms = xr_duration_ms c, lc_slide = xr_slide c, lc_layers = (if ty = ''slide'' then xr_layers c else [])\<rparr>)"

definition SetServedProgram :: "int \<Rightarrow> ScreenProgram \<Rightarrow> player_server \<Rightarrow> player_server" where
  "SetServedProgram generation sp =
     server_SetProgram generation (sp_screen sp)
       \<lparr>sv_revision = sp_revision sp, sv_priority = sp_priority sp, sv_display = sp_display sp,
        sv_content = List.map_filter served_item (sp_content sp)\<rparr>"

definition programForLocked :: "string \<Rightarrow> player_server \<Rightarrow> served_program" where
  "programForLocked screenID s = (case map_of (pl_programs s) screenID of None \<Rightarrow> terminalDefault | Some p \<Rightarrow> p)"

definition CurrentDisplay :: "string \<Rightarrow> player_server \<Rightarrow> string" where
  "CurrentDisplay screenID s = sv_display (programForLocked screenID s)"

definition SoleServedScreen :: "player_server \<Rightarrow> string option" where
  "SoleServedScreen s = (case pl_programs s of [(screenID, p)] \<Rightarrow> Some screenID | _ \<Rightarrow> None)"

definition filterContentTypes :: "LeaseContent list \<Rightarrow> string list \<Rightarrow> LeaseContent list" where
  "filterContentTypes content declared = filter (\<lambda>c. lc_type c \<in> set declared) content"

definition clampContentDurations :: "LeaseContent list \<Rightarrow> LeaseContent list" where
  "clampContentDurations content =
     map (\<lambda>c. if lc_duration_ms c \<noteq> 0 \<and> lc_duration_ms c < 1000 then c\<lparr>lc_duration_ms := 1000\<rparr> else c) content"

section \<open>What is known of a screen\<close>

definition live_of :: "string \<Rightarrow> player_server \<Rightarrow> screenLiveness" where
  "live_of screenID s = (case map_of (pl_liveness s) screenID of None \<Rightarrow> no_liveness | Some l \<Rightarrow> l)"

definition note_live :: "string \<Rightarrow> (screenLiveness \<Rightarrow> screenLiveness) \<Rightarrow> player_server \<Rightarrow> player_server" where
  "note_live screenID f s = s\<lparr>pl_liveness := AList.update screenID (f (live_of screenID s)) (pl_liveness s)\<rparr>"

record Lease =
  ls_id :: string
  ls_screen :: string
  ls_revision :: string
  ls_priority :: string
  ls_display :: string
  ls_content :: "LeaseContent list"
  ls_issued :: int
  ls_until :: int

definition noteProgramPullLocked :: "string \<Rightarrow> int \<Rightarrow> Lease \<Rightarrow> player_server \<Rightarrow> player_server" where
  "noteProgramPullLocked screenID nowMs lease =
     note_live screenID (\<lambda>l. l\<lparr>sl_pull := nowMs, sl_unacked := (if ls_content lease \<noteq> [] then sl_unacked l + 1 else sl_unacked l),
       sl_revision := ls_revision lease, sl_priority := ls_priority lease, sl_display := ls_display lease,
       sl_count := int (length (ls_content lease)), sl_lease := ls_id lease\<rparr>)"

definition rune_start :: "char \<Rightarrow> bool" where
  "rune_start c \<longleftrightarrow> byte_of c div 64 \<noteq> 2"

fun cut_back :: "string \<Rightarrow> nat \<Rightarrow> nat" where
  "cut_back s 0 = 0"
| "cut_back s (Suc n) = (if rune_start (s ! Suc n) then Suc n else cut_back s n)"

definition truncate :: "string \<Rightarrow> nat \<Rightarrow> string" where
  "truncate s mx = (if length s \<le> mx then s else take (cut_back s mx) s)"

definition noteLeaseAck :: "string \<Rightarrow> string \<Rightarrow> bool \<Rightarrow> string \<Rightarrow> int \<Rightarrow> player_server \<Rightarrow> player_server" where
  "noteLeaseAck screenID leaseID accepted reason nowMs =
     note_live screenID (\<lambda>l.
       if \<not> accepted then
         l\<lparr>sl_rejected := True, sl_reason := truncate reason 200,
           sl_rejected_revision := (if leaseID \<noteq> '''' \<and> leaseID = sl_lease l then sl_revision l else '''')\<rparr>
       else
         let l1 = l\<lparr>sl_ack := nowMs, sl_unacked := 0, sl_rejected := False, sl_rejected_revision := '''', sl_reason := ''''\<rparr> in
         if leaseID \<noteq> '''' \<and> leaseID = sl_lease l1 then
           l1\<lparr>sl_acked_revision := sl_revision l1, sl_acked_display := sl_display l1, sl_acked_count := sl_count l1\<rparr>
         else l1)"

definition noteScreenContact :: "string \<Rightarrow> int \<Rightarrow> player_server \<Rightarrow> player_server" where
  "noteScreenContact screenID nowMs = note_live screenID (\<lambda>l. l\<lparr>sl_ack := nowMs\<rparr>)"

definition noteRenderStart :: "string \<Rightarrow> string \<Rightarrow> int \<Rightarrow> player_server \<Rightarrow> player_server" where
  "noteRenderStart screenID asset nowMs = note_live screenID (\<lambda>l. l\<lparr>sl_render := nowMs, sl_asset := asset\<rparr>)"

definition ageOf :: "int \<Rightarrow> int \<Rightarrow> int" where
  "ageOf now stamp = (if stamp = 0 then - 1 else if stamp > now then 0 else now - stamp)"

definition hasLiveSessionLocked :: "string \<Rightarrow> int \<Rightarrow> player_server \<Rightarrow> bool" where
  "hasLiveSessionLocked screenID now s \<longleftrightarrow>
     list_ex (\<lambda>(t, r). ct_screen r = screenID \<and> \<not> ct_terminated r \<and> now \<le> ct_expires r) (ps_tokens (pl_pair s))"

text \<open>The status of a screen; the fields it copies from what is known of the screen are kept together.\<close>

record ScreenStatus =
  ss_screen :: string
  ss_paired :: bool
  ss_pull_age :: int
  ss_ack_age :: int
  ss_render_age :: int
  ss_revision :: string
  ss_priority :: string
  ss_display :: string
  ss_count :: int
  ss_known :: screenLiveness

definition status_of :: "int \<Rightarrow> player_server \<Rightarrow> string \<Rightarrow> ScreenStatus" where
  "status_of now s i =
     (let l = live_of i s; prog = programForLocked i s; none = sl_pull l = 0 in
      \<lparr>ss_screen = i, ss_paired = hasLiveSessionLocked i now s, ss_pull_age = ageOf now (sl_pull l), ss_ack_age = ageOf now (sl_ack l),
       ss_render_age = ageOf now (sl_render l),
       ss_revision = (if none then sv_revision prog else sl_revision l),
       ss_priority = (if none then sv_priority prog else sl_priority l),
       ss_display = (if none then sv_display prog else sl_display l),
       ss_count = (if none then int (length (sv_content prog)) else sl_count l), ss_known = l\<rparr>)"

definition ScreenStatuses :: "int \<Rightarrow> player_server \<Rightarrow> ScreenStatus list" where
  "ScreenStatuses now s =
     map (status_of now s) (sort (remdups (map fst (pl_liveness s) @ map fst (pl_programs s) @
       filter (\<lambda>i. i \<noteq> '''') (map (ct_screen \<circ> snd) (ps_tokens (pl_pair s))))))"

section \<open>The handlers\<close>

datatype player_answer =
    Refused int string
  | LeaseOut Lease string
  | Done

definition token_problem :: "token_error \<Rightarrow> player_answer" where
  "token_problem e = Refused 401
     (case e of ChannelTokenInvalid \<Rightarrow> ''CHANNEL_TOKEN_INVALID'' | ChannelTokenRevoked \<Rightarrow> ''CHANNEL_TOKEN_REVOKED''
      | ChannelTokenExpired \<Rightarrow> ''CHANNEL_TOKEN_EXPIRED'')"

text \<open>A handler behind the check of the token.\<close>

definition authorized ::
  "(string \<Rightarrow> string) \<Rightarrow> int \<Rightarrow> string \<Rightarrow> (string \<Rightarrow> player_server \<Rightarrow> player_answer \<times> player_server) \<Rightarrow> player_server \<Rightarrow>
     player_answer \<times> player_server" where
  "authorized hash nowMs header k s =
     (case authorizeChannelToken hash nowMs (bearerToken header) (pl_pair s) of (res, p) \<Rightarrow>
        let s1 = s\<lparr>pl_pair := p\<rparr> in
        case res of Inl e \<Rightarrow> (token_problem e, s1) | Inr (screen, now) \<Rightarrow> k screen s1)"

definition lastn :: "nat \<Rightarrow> 'a list \<Rightarrow> 'a list" where
  "lastn n xs = drop (length xs - n) xs"

definition rememberIssuedLeaseLocked :: "string \<Rightarrow> string \<Rightarrow> player_server \<Rightarrow> player_server" where
  "rememberIssuedLeaseLocked screenID leaseID s =
     s\<lparr>pl_issued := (pl_issued s)(screenID := lastn 4 (pl_issued s screenID @ [leaseID]))\<rparr>"

definition appendBounded :: "'a list \<Rightarrow> 'a \<Rightarrow> 'a list" where
  "appendBounded history v = lastn 256 (history @ [v])"

definition leaseIssuedTo :: "string \<Rightarrow> string \<Rightarrow> player_server \<Rightarrow> bool" where
  "leaseIssuedTo screenID leaseID s \<longleftrightarrow> leaseID \<in> set (pl_issued s screenID)"

definition lease_content :: "string list \<Rightarrow> Sources \<Rightarrow> served_program \<Rightarrow> LeaseContent list" where
  "lease_content declared live prog = ResolveContent live (clampContentDurations (filterContentTypes (sv_content prog) declared))"

definition make_lease :: "string \<Rightarrow> string \<Rightarrow> int \<Rightarrow> string list \<Rightarrow> player_server \<Rightarrow> Lease" where
  "make_lease leaseID screenID nowMs declared s =
     (let prog = programForLocked screenID s in
      \<lparr>ls_id = leaseID, ls_screen = screenID, ls_revision = sv_revision prog, ls_priority = sv_priority prog,
       ls_display = sv_display prog, ls_content = lease_content declared (pl_live s) prog, ls_issued = nowMs,
       ls_until = i64 (nowMs + 300000)\<rparr>)"

text \<open>\<open>GET /player/v1/program\<close>, with the content types the body declares, none when it does not decode.\<close>

definition handleProgram ::
  "(string \<Rightarrow> string) \<Rightarrow> (Lease \<Rightarrow> string option) \<Rightarrow> string \<Rightarrow> int \<Rightarrow> string \<Rightarrow> string list \<Rightarrow> player_server \<Rightarrow>
     player_answer \<times> player_server" where
  "handleProgram hash sign leaseID nowMs header declared =
     authorized hash nowMs header (\<lambda>screen s.
       if \<not> pl_key s then (Refused 500 ''INTERNAL'', s)
       else let lease = make_lease leaseID screen nowMs declared s in
         case sign lease of None \<Rightarrow> (Refused 500 ''INTERNAL'', s)
         | Some signature \<Rightarrow>
             (LeaseOut lease signature, noteProgramPullLocked screen nowMs lease (rememberIssuedLeaseLocked screen leaseID s)))"

definition store_ack :: "LeaseAckRequest \<Rightarrow> player_server \<Rightarrow> player_server" where
  "store_ack req s =
     (let order = appendBounded (pl_ackOrder s) (la_lease req);
          acks = AList.update (la_lease req) req (pl_acks s) in
      s\<lparr>pl_ackOrder := order,
        pl_acks := (if length order = 256 then filter (\<lambda>(i, a). i \<in> set order) acks else acks)\<rparr>)"

definition handleLeaseAck ::
  "(string \<Rightarrow> string) \<Rightarrow> int \<Rightarrow> string \<Rightarrow> LeaseAckRequest option \<Rightarrow> player_server \<Rightarrow> player_answer \<times> player_server" where
  "handleLeaseAck hash nowMs header body =
     authorized hash nowMs header (\<lambda>screen s.
       case body of None \<Rightarrow> (Refused 400 ''VALIDATION_FAILED'', s)
       | Some req \<Rightarrow>
           if la_lease req = '''' then (Refused 400 ''VALIDATION_FAILED'', s)
           else if \<not> leaseIssuedTo screen (la_lease req) s then (Refused 400 ''LEASE_UNKNOWN'', s)
           else (Done, noteLeaseAck screen (la_lease req) (la_accepted req) (la_reason req) nowMs (store_ack req s)))"

definition LeaseAck :: "string \<Rightarrow> player_server \<Rightarrow> LeaseAckRequest option" where
  "LeaseAck leaseID s = map_of (pl_acks s) leaseID"

definition handleRenderStart ::
  "(string \<Rightarrow> string) \<Rightarrow> int \<Rightarrow> string \<Rightarrow> RenderStartRequest option \<Rightarrow> player_server \<Rightarrow> player_answer \<times> player_server" where
  "handleRenderStart hash nowMs header body =
     authorized hash nowMs header (\<lambda>screen s.
       case body of None \<Rightarrow> (Refused 400 ''VALIDATION_FAILED'', s)
       | Some req \<Rightarrow>
           if rs_lease_id req = '''' \<or> rs_asset req = '''' then (Refused 400 ''VALIDATION_FAILED'', s)
           else if \<not> leaseIssuedTo screen (rs_lease_id req) s then (Refused 400 ''LEASE_UNKNOWN'', s)
           else (Done, noteRenderStart screen (rs_asset req) nowMs (s\<lparr>pl_starts := appendBounded (pl_starts s) req\<rparr>)))"

definition handleRenderEnd ::
  "(string \<Rightarrow> string) \<Rightarrow> int \<Rightarrow> string \<Rightarrow> RenderEndRequest option \<Rightarrow> player_server \<Rightarrow> player_answer \<times> player_server" where
  "handleRenderEnd hash nowMs header body =
     authorized hash nowMs header (\<lambda>screen s.
       case body of None \<Rightarrow> (Refused 400 ''VALIDATION_FAILED'', s)
       | Some req \<Rightarrow>
           if re_asset req = '''' \<or> re_cause req = '''' \<or> re_completion req = '''' then (Refused 400 ''VALIDATION_FAILED'', s)
           else if re_screen req \<noteq> screen then (Refused 403 ''CHANNEL_TOKEN_SCOPE_INVALID'', s)
           else (Done, s\<lparr>pl_ends := appendBounded (pl_ends s) req\<rparr>))"

record interactionRequest =
  ir_lease :: string
  ir_name :: string
  ir_slide :: string

text \<open>What an interaction hands the recorder, if there is one: the screen, the request and the time.\<close>

type_synonym interaction_record = "string \<times> interactionRequest \<times> int"

definition handleInteraction ::
  "(string \<Rightarrow> string) \<Rightarrow> bool \<Rightarrow> int \<Rightarrow> string \<Rightarrow> interactionRequest option \<Rightarrow> interaction_record list \<times> player_server \<Rightarrow>
     player_answer \<times> interaction_record list \<times> player_server" where
  "handleInteraction hash recorder nowMs header body st =
     (case authorizeChannelToken hash nowMs (bearerToken header) (pl_pair (snd st)) of (res, p) \<Rightarrow>
        let s = (snd st)\<lparr>pl_pair := p\<rparr> in
        case res of Inl e \<Rightarrow> (token_problem e, fst st, s)
        | Inr (screen, now) \<Rightarrow>
            (case body of None \<Rightarrow> (Refused 400 ''VALIDATION_FAILED'', fst st, s)
             | Some req \<Rightarrow>
                 if ir_lease req = '''' \<or> \<not> ValidPingName (ir_name req) then (Refused 400 ''VALIDATION_FAILED'', fst st, s)
                 else if \<not> leaseIssuedTo screen (ir_lease req) s then (Refused 400 ''LEASE_UNKNOWN'', fst st, s)
                 else if \<not> recorder then (Refused 503 ''UNAVAILABLE'', fst st, s)
                 else (Done, fst st @ [(screen, req, nowMs)], noteScreenContact screen nowMs s)))"

section \<open>Recovery\<close>

record LivenessSignal =
  lv_display :: string
  lv_state :: string
  lv_app_type :: string
  lv_power :: string
  lv_just_on :: bool

record RecoveryEvaluation =
  ev_state :: bool
  ev_app :: bool
  ev_blank :: bool
  ev_off :: bool
  ev_settle :: bool
  ev_attempted :: bool

definition recoverableAppType :: "string \<Rightarrow> bool" where
  "recoverableAppType appType \<longleftrightarrow> appType = '''' \<or> appType = ''unknown'' \<or> appType \<in> {''home'', ''menu''}"

definition EvaluateRecovery :: "LivenessSignal \<Rightarrow> RecoveryEvaluation" where
  "EvaluateRecovery sig =
     (let st = lv_state sig \<in> {''on'', ''playing'', ''idle'', ''paused'', ''buffering''};
          app = recoverableAppType (lv_app_type sig);
          blank = lv_display sig = ''blank'';
          off = lv_power sig = ''off'' in
      \<lparr>ev_state = st, ev_app = app, ev_blank = blank, ev_off = off, ev_settle = lv_just_on sig,
       ev_attempted = (st \<and> app \<and> \<not> blank \<and> \<not> off \<and> \<not> lv_just_on sig)\<rparr>)"

record BlankPreemptOutcome =
  bp_accepted :: bool
  bp_display :: string
  bp_visible :: bool

definition AdoptPreemptDisplay :: "string \<Rightarrow> Lease \<Rightarrow> BlankPreemptOutcome" where
  "AdoptPreemptDisplay activeDisplay incoming =
     (if activeDisplay = ''blank'' then \<lparr>bp_accepted = True, bp_display = ''blank'', bp_visible = False\<rparr>
      else \<lparr>bp_accepted = True, bp_display = ls_display incoming, bp_visible = ls_display incoming = ''content''\<rparr>)"

section \<open>Which program is served\<close>

text \<open>The writes of one screen in the order they arrive, and the program that stands after them.\<close>

definition write_program :: "int \<times> string \<times> served_program \<Rightarrow> player_server \<Rightarrow> player_server" where
  "write_program x = (case x of (g, i, p) \<Rightarrow> server_SetProgram g i p)"

definition pick :: "served_program list \<Rightarrow> served_program" where
  "pick ps = (let urgent = filter (\<lambda>p. sv_priority p = ''preempt'') ps in if urgent \<noteq> [] then last urgent else last ps)"

definition of_generation :: "int \<Rightarrow> (int \<times> served_program) list \<Rightarrow> served_program list" where
  "of_generation G ws = map snd (filter (\<lambda>(g, p). g = G) ws)"

definition standing :: "(int \<times> served_program) list \<Rightarrow> served_program option" where
  "standing ws = (if ws = [] then None else Some (pick (of_generation (Max (fst ` set ws)) ws)))"

definition writes_of :: "string \<Rightarrow> (int \<times> string \<times> served_program) list \<Rightarrow> (int \<times> served_program) list" where
  "writes_of screen ws = map (\<lambda>(g, i, p). (g, p)) (filter (\<lambda>(g, i, p). i = screen \<and> 0 \<le> g) ws)"

definition gen_of :: "(int \<times> served_program) list \<Rightarrow> int" where
  "gen_of ws = (if ws = [] then 0 else Max (fst ` set ws))"

lemma gen_of_snoc: "0 \<le> g \<Longrightarrow> \<forall>x \<in> fst ` set ws. 0 \<le> x \<Longrightarrow> gen_of (ws @ [(g, p)]) = max (gen_of ws) g"
  by (auto simp: gen_of_def max.commute)

lemma of_generation_snoc: "of_generation G (ws @ [(g, p)]) = of_generation G ws @ (if g = G then [p] else [])"
  by (simp add: of_generation_def)

lemma pick_snoc:
  "ps \<noteq> [] \<Longrightarrow> pick (ps @ [p]) = (if sv_priority (pick ps) = ''preempt'' \<and> sv_priority p \<noteq> ''preempt'' then pick ps else p)"
proof -
  assume ne: "ps \<noteq> []"
  let ?u = "filter (\<lambda>p. sv_priority p = ''preempt'') ps"
  show ?thesis
  proof (cases "?u = []")
    case True
    then have "sv_priority (last ps) \<noteq> ''preempt''" using ne by (auto simp: filter_empty_conv)
    then show ?thesis using True by (simp add: pick_def Let_def)
  next
    case False
    then have "sv_priority (last ?u) = ''preempt''" using last_in_set [OF False] by simp
    then show ?thesis using False by (simp add: pick_def Let_def)
  qed
qed

lemma standing_snoc:
  assumes "0 \<le> g" "\<forall>x \<in> fst ` set ws. 0 \<le> x"
  shows "standing (ws @ [(g, p)]) =
    (if g < gen_of ws then standing ws
     else if g = gen_of ws \<and> (case standing ws of None \<Rightarrow> False | Some q \<Rightarrow> sv_priority q = ''preempt'') \<and> sv_priority p \<noteq> ''preempt''
       then standing ws else Some p)"
proof (cases "ws = []")
  case True
  then show ?thesis using assms(1) by (simp add: standing_def gen_of_def of_generation_def pick_def)
next
  case False
  define G where "G = Max (fst ` set ws)"
  have gen: "gen_of ws = G" using False by (simp add: gen_of_def G_def)
  have G: "G \<in> fst ` set ws" "\<And>x. x \<in> fst ` set ws \<Longrightarrow> x \<le> G" using False by (simp_all add: G_def)
  have ne: "of_generation G ws \<noteq> []" using G(1) by (force simp: of_generation_def filter_empty_conv)
  have st: "standing ws = Some (pick (of_generation G ws))" using False by (simp add: standing_def G_def)
  have st': "standing (ws @ [(g, p)]) = Some (pick (of_generation (max G g) (ws @ [(g, p)])))"
    using False by (simp add: standing_def G_def max.commute)
  consider "g < G" | "g = G" | "G < g" by linarith
  then show ?thesis
  proof cases
    case 1
    then show ?thesis by (simp add: st' st gen of_generation_snoc max_def)
  next
    case 2
    then have "standing (ws @ [(g, p)]) = Some (pick (of_generation G ws @ [p]))" using st' by (simp add: of_generation_snoc)
    then show ?thesis using 2 st gen pick_snoc [OF ne, of p] by auto
  next
    case 3
    then have "of_generation g ws = []" using G(2) by (fastforce simp: of_generation_def filter_empty_conv)
    then show ?thesis using 3 by (simp add: st' gen of_generation_snoc max_def pick_def)
  qed
qed

lemma writes_inv:
  "screen \<noteq> '''' \<Longrightarrow>
     pl_gens (fold write_program ws (new_player_server pair)) screen = gen_of (writes_of screen ws) \<and>
     map_of (pl_programs (fold write_program ws (new_player_server pair))) screen = standing (writes_of screen ws)"
proof (induction ws rule: rev_induct)
  case Nil
  then show ?case by (simp add: new_player_server_def writes_of_def gen_of_def standing_def)
next
  case (snoc x ws)
  obtain g i p where x: "x = (g, i, p)" by (cases x) auto
  let ?s = "fold write_program ws (new_player_server pair)"
  note ih = snoc.IH [OF snoc.prems]
  have pos: "\<forall>y \<in> fst ` set (writes_of screen ws). 0 \<le> y" by (auto simp: writes_of_def)
  have nonneg: "0 \<le> gen_of (writes_of screen ws)"
  proof (cases "writes_of screen ws = []")
    case False
    then have "Max (fst ` set (writes_of screen ws)) \<in> fst ` set (writes_of screen ws)" by simp
    from bspec [OF pos this] False show ?thesis by (simp add: gen_of_def)
  qed (simp add: gen_of_def)
  show ?case
  proof (cases "i = screen \<and> 0 \<le> g")
    case False
    then have "writes_of screen (ws @ [x]) = writes_of screen ws" by (auto simp: writes_of_def x)
    moreover have "pl_gens (server_SetProgram g i p ?s) screen = pl_gens ?s screen \<and>
        map_of (pl_programs (server_SetProgram g i p ?s)) screen = map_of (pl_programs ?s) screen"
      using False ih nonneg by (auto simp: server_SetProgram_def update_conv')
    moreover have "fold write_program (ws @ [x]) (new_player_server pair) = server_SetProgram g i p ?s"
      by (simp add: x write_program_def)
    ultimately show ?thesis using ih by simp
  next
    case True
    then have w: "writes_of screen (ws @ [x]) = writes_of screen ws @ [(g, p)]" by (simp add: writes_of_def x)
    have i: "i = screen" and g: "0 \<le> g" using True by simp_all
    have step: "fold write_program (ws @ [x]) (new_player_server pair) = server_SetProgram g screen p ?s"
      by (simp add: x write_program_def i)
    show ?thesis
      unfolding step w gen_of_snoc [OF g pos] standing_snoc [OF g pos]
      using ih snoc.prems by (auto simp: server_SetProgram_def update_conv' max_def)
  qed
qed

text \<open>C15. What a screen is served does not depend on when a stale write arrives: after any writes of programs for any screens,
  a screen has the last program written for its newest generation, unless an alert was written in that generation, which
  stands until the next alert or generation; and with no write at all it is blank.\<close>

theorem newest_generation_is_served:
  assumes "screen \<noteq> ''''"
  shows "programForLocked screen (fold write_program ws (new_player_server pair)) =
    (case standing (writes_of screen ws) of None \<Rightarrow> terminalDefault | Some p \<Rightarrow> p)"
  using writes_inv [OF assms, of ws pair] by (simp add: programForLocked_def)

lemma newest_generation_is_served_witness:
  "sv_revision (programForLocked ''s'' (fold write_program
     [(2, ''s'', terminalDefault\<lparr>sv_revision := ''alert'', sv_priority := ''preempt''\<rparr>), (1, ''s'', terminalDefault),
      (2, ''s'', terminalDefault\<lparr>sv_revision := ''tick''\<rparr>)] (new_player_server (NewServer ''r'' [])))) = ''alert''"
  by (subst newest_generation_is_served) (simp_all add: standing_def of_generation_def pick_def writes_of_def terminalDefault_def)

section \<open>What the players get\<close>

text \<open>A run of the server: programs arrive from the desired state and from the resolver, players call the handlers, and
  pairing changes the sessions in any way.\<close>

inductive player_run :: "player_server \<Rightarrow> bool" where
  fresh: "player_run (new_player_server p)"
| served: "player_run s \<Longrightarrow> player_run (SetServedProgram g sp s)"
| resolved: "player_run s \<Longrightarrow> player_run (server_SetProgram g i (projectState hmac store st sign) s)"
| paired: "player_run s \<Longrightarrow> player_run (s\<lparr>pl_pair := p\<rparr>)"
| live: "player_run s \<Longrightarrow> player_run (SetSlideLive src s)"
| keyed: "player_run s \<Longrightarrow> player_run (SetSigningKey usable s)"
| pulled: "player_run s \<Longrightarrow> handleProgram hash sig leaseID now hdr declared s = (answer, s') \<Longrightarrow> player_run s'"
| acked: "player_run s \<Longrightarrow> handleLeaseAck hash now hdr ack s = (answer, s') \<Longrightarrow> player_run s'"
| started: "player_run s \<Longrightarrow> handleRenderStart hash now hdr start s = (answer, s') \<Longrightarrow> player_run s'"
| ended: "player_run s \<Longrightarrow> handleRenderEnd hash now hdr fin s = (answer, s') \<Longrightarrow> player_run s'"
| interacted: "player_run s \<Longrightarrow> handleInteraction hash recorder now hdr body (rec, s) = (answer, rec', s') \<Longrightarrow> player_run s'"

definition layers_ok :: "LeaseContent \<Rightarrow> bool" where
  "layers_ok c \<longleftrightarrow> lc_layers c \<noteq> [] \<longrightarrow> lc_type c = ''slide'' \<and> ValidateSlideLayers (lc_layers c) = None"

definition programs_ok :: "player_server \<Rightarrow> bool" where
  "programs_ok s \<longleftrightarrow> (\<forall>i p. map_of (pl_programs s) i = Some p \<longrightarrow> list_all layers_ok (sv_content p))"

definition memory_ok :: "player_server \<Rightarrow> bool" where
  "memory_ok s \<longleftrightarrow> fst ` set (pl_acks s) \<subseteq> set (pl_ackOrder s) \<and> distinct (map fst (pl_acks s)) \<and> length (pl_ackOrder s) \<le> 256 \<and>
     length (pl_starts s) \<le> 256 \<and> length (pl_ends s) \<le> 256 \<and> (\<forall>i. length (pl_issued s i) \<le> 4)"

lemma lastn_length: "length (lastn n xs) = min n (length xs)"
  by (simp add: lastn_def)

lemma lastn_subset: "x \<in> set (lastn n xs) \<Longrightarrow> x \<in> set xs"
  unfolding lastn_def by (rule in_set_dropD)

lemma lastn_all: "length xs \<le> n \<Longrightarrow> lastn n xs = xs"
  by (simp add: lastn_def)

text \<open>A handler behind the check of the token changes the sessions and then what it changes itself.\<close>

lemma authorized_cases:
  assumes "authorized hash now hdr k s = (answer, s')"
  obtains p where "s' = s\<lparr>pl_pair := p\<rparr>" "\<forall>l sg. answer \<noteq> LeaseOut l sg"
    | p screen t where "fst (authorizeChannelToken hash now (bearerToken hdr) (pl_pair s)) = Inr (screen, t)"
        "k screen (s\<lparr>pl_pair := p\<rparr>) = (answer, s')"
  using assms
  by (cases "authorizeChannelToken hash now (bearerToken hdr) (pl_pair s)"; cases "fst (authorizeChannelToken hash now (bearerToken hdr) (pl_pair s))")
     (auto simp: authorized_def token_problem_def Let_def)

definition same_programs :: "player_server \<Rightarrow> player_server \<Rightarrow> bool" where
  "same_programs s s' \<longleftrightarrow> pl_programs s' = pl_programs s"

lemma note_live_frame:
  "pl_programs (note_live i f s) = pl_programs s \<and> pl_acks (note_live i f s) = pl_acks s \<and> pl_ackOrder (note_live i f s) = pl_ackOrder s \<and>
   pl_starts (note_live i f s) = pl_starts s \<and> pl_ends (note_live i f s) = pl_ends s \<and> pl_issued (note_live i f s) = pl_issued s"
  by (simp add: note_live_def)

lemma memory_ok_cong:
  "pl_acks s' = pl_acks s \<Longrightarrow> pl_ackOrder s' = pl_ackOrder s \<Longrightarrow> pl_starts s' = pl_starts s \<Longrightarrow> pl_ends s' = pl_ends s \<Longrightarrow>
     pl_issued s' = pl_issued s \<Longrightarrow> memory_ok s \<Longrightarrow> memory_ok s'"
  by (simp add: memory_ok_def)

lemma memory_ok_note [simp]: "memory_ok (note_live i f s) \<longleftrightarrow> memory_ok s"
  by (simp add: memory_ok_def note_live_frame)

lemma store_ack_memory: "memory_ok s \<Longrightarrow> memory_ok (store_ack req s)"
proof -
  assume m: "memory_ok s"
  let ?order = "appendBounded (pl_ackOrder s) (la_lease req)"
  let ?acks = "AList.update (la_lease req) req (pl_acks s)"
  have d: "distinct (map fst ?acks)" using m by (simp add: memory_ok_def distinct_update)
  have keys: "fst ` set ?acks \<subseteq> insert (la_lease req) (set (pl_ackOrder s))" using m by (auto simp: memory_ok_def dom_update)
  have len: "length ?order \<le> 256" by (simp add: appendBounded_def lastn_length)
  have "fst ` set (pl_acks (store_ack req s)) \<subseteq> set ?order"
  proof (cases "length ?order = 256")
    case True
    then show ?thesis by (auto simp: store_ack_def Let_def)
  next
    case False
    then have "?order = pl_ackOrder s @ [la_lease req]" by (simp add: appendBounded_def lastn_length lastn_all)
    then show ?thesis using keys False by (simp add: store_ack_def Let_def)
  qed
  then show ?thesis using m d len by (simp add: memory_ok_def store_ack_def Let_def distinct_map_filter)
qed

lemma pulled_effect:
  assumes "handleProgram hash sig leaseID now hdr declared s = (answer, s')"
  shows "same_programs s s' \<and> (memory_ok s \<longrightarrow> memory_ok s')"
  using assms unfolding handleProgram_def
proof (cases rule: authorized_cases)
  case (1 p)
  then show ?thesis by (simp add: same_programs_def memory_ok_def)
next
  case (2 p screen t)
  let ?s = "s\<lparr>pl_pair := p\<rparr>"
  have "s' = ?s \<or> (\<exists>lease. s' = noteProgramPullLocked screen now lease (rememberIssuedLeaseLocked screen leaseID ?s))"
    using 2(2) by (auto simp: Let_def split: if_splits option.splits)
  then show ?thesis
    by (elim disjE exE)
       (simp_all add: same_programs_def memory_ok_def noteProgramPullLocked_def note_live_frame rememberIssuedLeaseLocked_def lastn_length)
qed

lemma acked_effect:
  assumes "handleLeaseAck hash now hdr ack s = (answer, s')"
  shows "same_programs s s' \<and> (memory_ok s \<longrightarrow> memory_ok s')"
  using assms unfolding handleLeaseAck_def
proof (cases rule: authorized_cases)
  case (1 p)
  then show ?thesis by (simp add: same_programs_def memory_ok_def)
next
  case (2 p screen t)
  let ?s = "s\<lparr>pl_pair := p\<rparr>"
  have "s' = ?s \<or> (\<exists>req. s' = noteLeaseAck screen (la_lease req) (la_accepted req) (la_reason req) now (store_ack req ?s))"
    using 2(2) by (auto split: if_splits option.splits)
  moreover have "memory_ok s \<longrightarrow> memory_ok ?s" by (simp add: memory_ok_def)
  ultimately show ?thesis
    using store_ack_memory [of ?s]
    by (auto simp: same_programs_def noteLeaseAck_def note_live_frame) (auto simp: store_ack_def Let_def memory_ok_def)
qed

lemma started_effect:
  assumes "handleRenderStart hash now hdr body s = (answer, s')"
  shows "same_programs s s' \<and> (memory_ok s \<longrightarrow> memory_ok s')"
  using assms unfolding handleRenderStart_def
proof (cases rule: authorized_cases)
  case (1 p)
  then show ?thesis by (simp add: same_programs_def memory_ok_def)
next
  case (2 p screen t)
  let ?s = "s\<lparr>pl_pair := p\<rparr>"
  have "s' = ?s \<or> (\<exists>req. s' = noteRenderStart screen (rs_asset req) now (?s\<lparr>pl_starts := appendBounded (pl_starts ?s) req\<rparr>))"
    using 2(2) by (auto split: if_splits option.splits)
  then show ?thesis
    by (elim disjE exE)
       (simp_all add: same_programs_def memory_ok_def noteRenderStart_def note_live_frame appendBounded_def lastn_length)
qed

lemma ended_effect:
  assumes "handleRenderEnd hash now hdr body s = (answer, s')"
  shows "same_programs s s' \<and> (memory_ok s \<longrightarrow> memory_ok s')"
  using assms unfolding handleRenderEnd_def
proof (cases rule: authorized_cases)
  case (1 p)
  then show ?thesis by (simp add: same_programs_def memory_ok_def)
next
  case (2 p screen t)
  let ?s = "s\<lparr>pl_pair := p\<rparr>"
  have "s' = ?s \<or> (\<exists>req. s' = ?s\<lparr>pl_ends := appendBounded (pl_ends ?s) req\<rparr>)"
    using 2(2) by (auto split: if_splits option.splits)
  then show ?thesis
    by (elim disjE exE) (simp_all add: same_programs_def memory_ok_def appendBounded_def lastn_length)
qed

lemma interacted_effect:
  assumes "handleInteraction hash recorder now hdr body (rec, s) = (answer, rec', s')"
  shows "same_programs s s' \<and> (memory_ok s \<longrightarrow> memory_ok s')"
proof -
  obtain res p where a: "authorizeChannelToken hash now (bearerToken hdr) (pl_pair s) = (res, p)" by force
  have "s' = s\<lparr>pl_pair := p\<rparr> \<or> (\<exists>screen. s' = noteScreenContact screen now (s\<lparr>pl_pair := p\<rparr>))"
    using assms by (auto simp: handleInteraction_def a Let_def split: if_splits option.splits sum.splits prod.splits)
  then show ?thesis
    by (elim disjE exE) (simp_all add: same_programs_def memory_ok_def noteScreenContact_def note_live_frame)
qed

lemma set_program_ok:
  "programs_ok s \<Longrightarrow> list_all layers_ok (sv_content p) \<Longrightarrow> programs_ok (server_SetProgram g i p s)"
  by (auto simp: programs_ok_def server_SetProgram_def update_conv' split: if_splits)

lemma set_program_memory: "memory_ok s \<Longrightarrow> memory_ok (server_SetProgram g i p s)"
  by (simp add: memory_ok_def server_SetProgram_def)

lemma served_item_ok: "served_item c = Some it \<Longrightarrow> layers_ok it"
  by (cases "ValidateSlideLayers (xr_layers c)") (auto simp: served_item_def layers_ok_def Let_def split: if_splits)

lemma served_items_ok: "list_all layers_ok (List.map_filter served_item cs)"
  using served_item_ok by (fastforce simp: list_all_iff List.map_filter_def)

lemma projected_items_ok: "list_all layers_ok (sv_content (projectState hmac store st sign))"
  using relay_playlist_ok [of hmac store "ef_playlist st" sign]
  by (auto simp: projectState_def list_all_iff served_ok_def layers_ok_def)

lemma player_run_ok: "player_run s \<Longrightarrow> programs_ok s \<and> memory_ok s"
proof (induction rule: player_run.induct)
  case (fresh p)
  then show ?case by (simp add: programs_ok_def memory_ok_def new_player_server_def)
next
  case (served s g sp)
  then show ?case by (simp add: SetServedProgram_def set_program_ok set_program_memory served_items_ok)
next
  case (resolved s g i hmac store st sign)
  then show ?case by (simp add: set_program_ok set_program_memory projected_items_ok)
qed (use pulled_effect acked_effect started_effect ended_effect interacted_effect in
  \<open>fastforce simp: same_programs_def programs_ok_def memory_ok_def SetSlideLive_def SetSigningKey_def\<close>)+


text \<open>A lease made of the program in force: its items are of the declared types, last at least a second when they say
  how long, and hold layers only in a slide, made of layers that pass the gate with the live values drawn in.\<close>

definition lease_item_ok :: "string list \<Rightarrow> Sources \<Rightarrow> LeaseContent \<Rightarrow> bool" where
  "lease_item_ok declared live c \<longleftrightarrow>
     lc_type c \<in> set declared \<and> (lc_duration_ms c \<noteq> 0 \<longrightarrow> 1000 \<le> lc_duration_ms c) \<and>
     (lc_layers c \<noteq> [] \<longrightarrow> lc_type c = ''slide'' \<and>
        (\<exists>authored. ValidateSlideLayers authored = None \<and> lc_layers c = live_layers live authored))"

lemma lease_content_ok:
  assumes "list_all layers_ok (sv_content prog)"
  shows "list_all (lease_item_ok declared live) (lease_content declared live prog)"
  using assms
  by (fastforce simp: lease_content_def ResolveContent_def clampContentDurations_def filterContentTypes_def list_all_iff
      lease_item_ok_def layers_ok_def live_layers_def)

lemma program_in_force_ok: "programs_ok s \<Longrightarrow> list_all layers_ok (sv_content (programForLocked i s))"
  by (simp add: programs_ok_def programForLocked_def terminalDefault_def split: option.split)


text \<open>A server with one session and one program of a short image and a slide.\<close>

definition demo_player :: player_server where
  "demo_player = SetSigningKey True (SetServedProgram 1
     \<lparr>sp_screen = ''scr'', sp_revision = ''rev'', sp_priority = ''scheduled'', sp_display = ''content'',
      sp_content = [zero_ref\<lparr>xr_asset := ''a'', xr_duration_ms := 5\<rparr>], sp_pinned = False\<rparr>
     ((new_player_server (NewServer ''relay'' []))\<lparr>pl_pair :=
        (NewServer ''relay'' [])\<lparr>ps_tokens := [(''tok'', \<lparr>ct_screen = ''scr'', ct_expires = 50, ct_terminated = False\<rparr>)]\<rparr>\<rparr>))"

lemma demo_player_run: "player_run demo_player"
  unfolding demo_player_def by (intro player_run.keyed player_run.served player_run.paired player_run.fresh)


text \<open>However long the players talk, the server keeps at most 256 acknowledgements, 256 starts and ends of rendering,
  and the last four leases of a screen.\<close>

theorem player_memory_bounded:
  assumes "player_run s"
  shows "length (pl_acks s) \<le> 256 \<and> length (pl_starts s) \<le> 256 \<and> length (pl_ends s) \<le> 256 \<and> length (pl_issued s screen) \<le> 4"
proof -
  have m: "memory_ok s" using player_run_ok [OF assms] by simp
  have "length (pl_acks s) = card (fst ` set (pl_acks s))" using m by (metis distinct_card length_map list.set_map memory_ok_def)
  also have "\<dots> \<le> card (set (pl_ackOrder s))" using m by (simp add: memory_ok_def card_mono)
  also have "\<dots> \<le> 256" using m card_length [of "pl_ackOrder s"] by (simp add: memory_ok_def)
  finally show ?thesis using m by (simp add: memory_ok_def)
qed

lemma player_memory_bounded_witness:
  "length (pl_acks demo_player) \<le> 256 \<and> length (pl_starts demo_player) \<le> 256 \<and> length (pl_ends demo_player) \<le> 256 \<and>
   length (pl_issued demo_player ''scr'') \<le> 4"
  by (rule player_memory_bounded [OF demo_player_run])

end
