(* ===== verification/Spec2Isabelle.thy ===== *)
theory Spec2Isabelle
  imports EngineTime Access Variables RowGates Telemetry PlayerServer
begin

text \<open>
  A verification development for waiveo-next, the digital-signage platform: the Go code under
  \<open>internal/\<close> that carries its logic, translated definition by definition and proved correct.  Paths below are
  relative to \<open>src/internal\<close>.

  \<^bold>\<open>The program.\<close>  An app server holds the authored rows of a site (a scope tree, schedules, dayparts, presets,
  variables, rules) and records events; relays hold a part of them and act on devices and screens.  Five
  subsystems are modelled.

    \<^item> The \<^emph>\<open>rules engine\<close> (\<open>rules/\<close>).  A rule is authored JSON (\<open>RuleModel\<close>), validated and classified as
      edge or app by the compiler (\<open>Compile\<close>), and frozen with what it needs of the app into a closure
      (\<open>Closure\<close>).  The engine (\<open>Engine\<close>, \<open>TriggerRuntime\<close>) feeds observations, clock ticks, clock-trust
      changes and rule generations to the triggers, fires rules whose conditions hold, and runs actions, which may
      stop at a delay and be resumed.
    \<^item> The \<^emph>\<open>scheduling core\<close> (\<open>datamodel/\<close>).  What a screen shows at an instant is resolved from the schedules
      attached along its ancestor chain and the dayparts that hold in the local time of its site.  The rows are
      gated when they are stored and again when a snapshot of them reaches a relay (\<open>RowGates\<close>, \<open>Identity\<close>); the
      app (\<open>feeder/\<close>) and the relay (\<open>relay/schedulehost\<close>) each turn the resolved state into the program of a screen,
      slides, menus and signed URLs included (\<open>Programs\<close>, \<open>Layers\<close>, \<open>ContentURL\<close>).
    \<^item> The \<^emph>\<open>relay\<close> (\<open>relay/\<close>).  It pairs screens with one-time grants and keeps their sessions (\<open>Pairing\<close>), leases
      them the program in force and listens to their reports (\<open>PlayerServer\<close>), and pushes what happened to the app
      from a bounded, durable buffer (\<open>Telemetry\<close>).
    \<^item> The \<^emph>\<open>event plane\<close> (\<open>events/\<close>, \<open>app/eventsse/\<close>).  Events are recorded in a log with a retention
      horizon; a subscriber resumes from an id it has seen or is told of a gap, then follows a live stream that
      marks every loss, filtered by its role bindings and its narrowing.
    \<^item> \<^emph>\<open>Shared grammars\<close>: ULID identifiers, label selectors, device classes.

  \<^bold>\<open>Theories and the code they model.\<close>
    \<^item> \<open>Prelude\<close>: bytes and strings, 64-bit wrap-around, lemma collections.
    \<^item> \<open>GoValue\<close>: \<open>float64\<close> as rationals with IEEE rounding to nearest even, \<open>strconv\<close> and \<open>fmt\<close> of numbers,
      \<open>encoding/json\<close> into \<open>any\<close> and into structs, \<open>reflect.DeepEqual\<close>.
    \<^item> \<open>Ulid\<close>: \<open>shared/ulid/ulid.go\<close>; the monotonic factory is a step relation.
    \<^item> \<open>DeviceClass\<close>: \<open>deviceclass/\<close>; registration, built-in classes, lookup, classification.
    \<^item> \<open>Vocab\<close>, \<open>RuleRegistry\<close>, \<open>RuleModel\<close>: \<open>rules/vocab\<close>, \<open>rules/registry\<close> and \<open>rules/state\<close>,
      \<open>rules/model\<close>.
    \<^item> \<open>EvalMatch\<close>, \<open>Hold\<close>, \<open>Triggers\<close>, \<open>Condition\<close>, \<open>Action\<close>: \<open>rules/eval\<close>, by file.
    \<^item> \<open>Schedule\<close>: \<open>rules/schedule\<close>; \<open>Expr\<close>: \<open>rules/expr\<close>; \<open>Compile\<close>: \<open>rules/compile\<close>; \<open>Closure\<close>:
      \<open>rules/closure\<close>.
    \<^item> \<open>TriggerRuntime\<close>, \<open>Engine\<close>: \<open>rules/engine\<close> and \<open>rules/clock\<close>; \<open>EngineTime\<close> and \<open>EngineSafety\<close>
      hold its theorems over sequences of events.
    \<^item> \<open>EventLog\<close>: \<open>events/eventlog.go\<close>, \<open>resume.go\<close>, \<open>envelope.go\<close>; \<open>Selector\<close>:
      \<open>shared/apiselector\<close>; \<open>Stream\<close>: \<open>events/filter.go\<close>, \<open>delivery.go\<close> and the hub and streams of
      \<open>app/eventsse/eventsse.go\<close>; \<open>Access\<close>: \<open>app/auth/role.go\<close> and the stream's \<open>filterFor\<close>.
    \<^item> \<open>ScopeTree\<close>: \<open>datamodel/scopetree.go\<close>; \<open>Dayparts\<close>: \<open>rows.go\<close>, \<open>daypart.go\<close>, \<open>holding.go\<close>,
      \<open>resolve.go\<close>, \<open>preset.go\<close>; \<open>Variables\<close>: \<open>variable.go\<close>.
    \<^item> \<open>Layers\<close>: slide layers, derive specs and the serving gate of \<open>shared/wire/lease.go\<close> and \<open>derive.go\<close>;
      \<open>ContentURL\<close>: \<open>feeder/contenturl\<close>; \<open>Decode\<close>, \<open>Identity\<close>: \<open>datamodel/identityrows.go\<close> and its decoders;
      \<open>RowGates\<close>: \<open>datamodel/validate.go\<close>, the row decoders of \<open>rows.go\<close> and the two row stores built from them.
    \<^item> \<open>Programs\<close>: \<open>feeder/snapshot/screenprograms.go\<close> and \<open>relay/schedulehost\<close>, with the resolver's loop.
    \<^item> \<open>Telemetry\<close>: \<open>relay/telemetry\<close> and \<open>relay/identity/telemetrystore.go\<close>.
    \<^item> \<open>Budget\<close>: \<open>relay/reenroll/ratelimit.go\<close>; \<open>Pairing\<close>: \<open>relay/identity/playersession.go\<close>,
      \<open>relay/playerserver/pairing.go\<close> and the redemption reports of \<open>cmd/waiveo-relay\<close>; \<open>PlayerServer\<close>: \<open>program.go\<close>,
      \<open>screenstatus.go\<close>, \<open>interaction.go\<close>, \<open>liveness.go\<close> of \<open>relay/playerserver\<close> and \<open>slidelive\<close>.

  \<^bold>\<open>State and effects.\<close>  A Go struct is a record of the same fields; a method that mutates its receiver returns
  it updated.  Errors are values: an option where only the fact of an error matters to the callers modelled, a sum
  or a list of coded errors where its kind does; the text of a message is left out.  A sink (a device
  command, an expression resolver, an SSE writer) is a function of the history of calls before it, so it may
  answer differently each time and still be a function; the calls made are kept in a trace.  The clock is the
  readings it gives, fixed during one call of the engine.  A mutex is the sequential order of the calls it guards.
  The event log is used through the interface the code declares: a record of its methods, whose laws are the locale
  \<open>durable_log\<close>, interpreted on the in-memory log.  The schedule triggers share the locale \<open>schedule_laws\<close>
  on the occurrences of consecutive windows, the registries the locale \<open>registry_laws\<close>, and the telemetry buffer
  the locale \<open>durable_store\<close>, interpreted on the SQL store's model.  A table is the list of its rows; which writes and
  reads fail is part of the state.  The mac of a URL, the digest of a revision or a token, the random bytes of a token
  and the signature of a lease are parameters.

  \<^bold>\<open>What the lemmas show.\<close>
    \<^item> \<open>EngineTime\<close>: every occurrence of a schedule between two clock readings is handled by exactly one tick or
      replay; a run started by a firing is completed, its delays served in order, whatever fires in between.
    \<^item> \<open>EngineSafety\<close>: no command outside the registry's vocabulary is sent; reachable engines are well formed; a
      generation swap keeps what did not change; the stabilization window lets one firing through.
    \<^item> \<open>Action\<close>, \<open>Closure\<close>, \<open>Compile\<close>: delays lose no action; the closure computed for a rule is enough to run it
      with the same effects; an edge rule uses nothing of the app; validation accepts exactly the rules of
      the declarative grammar stated beside it.
    \<^item> \<open>Schedule\<close>: the local instant of a wall time under zone transitions, and occurrences that neither repeat nor
      get lost when a window is split; \<open>Hold\<close>, \<open>Triggers\<close>, \<open>Condition\<close>: equivalence of the incremental
      machines with statements about whole observation sequences, and fail-closed evaluation.
    \<^item> \<open>EventLog\<close>, \<open>Stream\<close>, \<open>Access\<close>: the log is the tail of the history; a resume or a live stream loses no
      visible event without marking it, discloses nothing invisible, and visibility comes from a role binding.
    \<^item> \<open>ScopeTree\<close>, \<open>Dayparts\<close>, \<open>Variables\<close>: an error-free full tree is rooted and every chain ends; the
      overlap check is exact; resolution follows the precedence order and not the order of the rows.
    \<^item> \<open>RowGates\<close>, \<open>Identity\<close>, \<open>Layers\<close>: an accepted snapshot never dangles and its casts play whole; the relay serves
      what the app derives; a menu's regions tile its rectangle.
    \<^item> \<open>Programs\<close>, \<open>ContentURL\<close>: presets fire on entry and the baseline survives an apply; a revision does not change
      when its URLs are minted anew; a signature binds the asset and its deadline.
    \<^item> \<open>Telemetry\<close>: no record is lost without a marker, and a power loss at any write leaves a state to resume from.
    \<^item> \<open>Budget\<close>, \<open>Pairing\<close>, \<open>PlayerServer\<close>: the budget holds over any stretch of time; a token opens the relay only
      for a live session; redemptions are consumed once and reported; stale programs never displace newer ones; a lease
      holds only valid slides, and goes only to a session of its screen.  Lemmas under \<open>Where the promises end\<close> show runs
      in which a promise of the code's comments does not hold.
    \<^item> \<open>Ulid\<close>, \<open>Selector\<close>, \<open>Expr\<close>: round trips, order and uniqueness of minted ids.

  \<^bold>\<open>Termination and bounds.\<close>  Loops are structural recursion or functions with a measure: the scope-tree walks
  by the nodes not yet seen, the JSON decoders by the size of the text, the day loop of a schedule by the days left.
  Fuel is used only for decoding UTF-8 and for cutting a text into chunks of runes, which consume at least one byte per
  rune and are given the length of the string; \<open>runes_fuel\<close> shows that more changes nothing.  Integers are
  unbounded where the code's bound cannot be reached by its inputs, and wrapped (\<open>i64\<close>) where it can.

  \<^bold>\<open>Where the model is narrower than Go.\<close>  Key folding, \<open>ToUpper\<close>, \<open>ToLower\<close> and \<open>TrimSpace\<close> are those of
  ASCII in the rules theories (\<open>ScopeTree\<close> decodes UTF-8).  The two zeros of \<open>float64\<close> are identified,
  products and sums are rounded one at a time, \<open>math.Pow(10, n)\<close> is correctly rounded and the rest of package
  \<open>math\<close> is a parameter.  A zone is a list of transitions read as \<open>time.Date\<close> and \<open>Time.In\<close> do; the zone database
  is a parameter.  A canonical JSON text is compared as the value it decodes to.  A nil registry is an empty one in
  conditions.  Trigger runtimes are held by value.  Nil and empty slices are not told apart when two rows are
  compared.  A closure is the one decoded from its JSON.  The stream has one subscriber, delivers the backlog while
  opening, and counts an event whose payload does not serialise as delivered by the sink.  Event ids are
  recorded in increasing order where a theorem says so, as the generator mints them.  A key repeated inside a decoded
  row is read as its last occurrence.  The relay's handlers take the decoded body of a request of the right method.

  \<^bold>\<open>Not modelled.\<close>  HTTP handlers and the SQL stores of \<open>app/\<close>: persistence over a database the sources only
  call.  The relay's network, discovery and device protocols: I/O.  The relay's clock trust and desired state: X.509 and
  TLS verification and a SQL store around a few comparisons.  Event schemas, retention classes and webhooks: JSON schemas and
  HTTP delivery through libraries.  Manifests and archives: parsing through libraries.  \<open>cmd/\<close>, \<open>conformance/\<close>: process
  wiring and test drivers, the redemption reports apart.  \<open>api/gen\<close>: generated.
\<close>

text \<open>C10. A live subscriber sees only what a role binding reaches.\<close>

theorem subscriber_reads_only_what_is_bound:
  assumes "session_reaches (filterFor nodes bindings sel schemas) sk r i es0 es s" "EventFrame e \<in> set (written s)"
  shows "(\<exists>b \<in> set bindings. AtLeast (b_role b) ''viewer'' \<and>
            (b_node b \<in> set (AncestorChain (fst (BuildScopeTree nodes)) (env_scope_node e)) \<or> b_node b = ''*'')) \<and>
    env_schema e \<in> set schemas \<union> (if schemas = [] then {env_schema e} else {})"
proof -
  have "\<forall>fr \<in> set (written s). discloses_visible (filterFor nodes bindings sel schemas)
      (seen_ids (filterFor nodes bindings sel schemas) (es0 @ es)) fr"
    using session_reaches_inv [OF assms(1)] by (simp add: session_inv_def)
  then have "Allows (filterFor nodes bindings sel schemas) e"
    using assms(2) by (auto simp: discloses_visible_def)
  then show ?thesis
    using filterFor_Allows [of nodes bindings sel schemas e] CanRead_source by (auto simp: RootScopeNode_def)
qed

definition root_viewer :: "Binding list" where
  "root_viewer = [\<lparr>b_id = ''1'', b_principal = ''p'', b_node = ''*'', b_role = ''viewer'', b_created = 0\<rparr>]"

definition bound_session :: session where
  "bound_session = on_wake (filterFor [] root_viewer [] []) demo_sink (hub_Append demo_a demo_opened)"

lemma bound_reaches: "session_reaches (filterFor [] root_viewer [] []) demo_sink 1 '''' [] [demo_a] bound_session"
proof -
  let ?f = "filterFor [] root_viewer [] []"
  have "subscribe (history 1 []) '''' ?f demo_sink = Inr demo_opened" by code_simp
  then have 1: "session_reaches ?f demo_sink 1 '''' [] [] demo_opened" by (rule subscribing)
  have 2: "session_reaches ?f demo_sink 1 '''' [] ([] @ [demo_a]) (hub_Append demo_a demo_opened)"
    by (rule recording [OF 1]; code_simp)
  show ?thesis
    unfolding bound_session_def
    by (rule waking [OF 2, simplified]) (simp_all add: hub_Append_def demo_opened_def)
qed

lemma bound_written: "written bound_session = [EventFrame demo_a]"
  by code_simp

theorem subscriber_reads_only_what_is_bound_witness:
  "\<exists>b \<in> set root_viewer. AtLeast (b_role b) ''viewer'' \<and>
     (b_node b \<in> set (AncestorChain (fst (BuildScopeTree [])) (env_scope_node demo_a)) \<or> b_node b = ''*'')"
  using subscriber_reads_only_what_is_bound [OF bound_reaches, of demo_a] by (simp add: bound_written)
end
